(* ===== verification/Belnet_Prelude.thy ===== *)
theory Belnet_Prelude
  imports Main "HOL-Library.Word" "HOL-Library.Multiset"
begin

text \<open>
  Shared material of the development: names for the machine types of the C++ sources,
  byte strings and in-place writes into them, ordered maps (\<^verbatim>\<open>std::map\<close>) as key-sorted
  association lists, unordered maps (\<^verbatim>\<open>std::unordered_map\<close>) as partial functions, the
  byte-order routines of the oxen-encoding library as a record of functions, and the
  generic interfaces (a keyed store, a transition system with an invariant, a refinement) that the
  components instantiate.
\<close>

unbundle bit_operations_syntax

named_theorems byte_simps \<open>facts on byte strings and writes into them\<close>
named_theorems map_simps \<open>facts on ordered and unordered maps\<close>


section \<open>Machine types\<close>

type_synonym byte = "8 word"
type_synonym u16 = "16 word"
type_synonym u32 = "32 word"
type_synonym u64 = "64 word"
type_synonym bytes = "8 word list"

text \<open>\<^verbatim>\<open>llarp_time_t\<close> is a signed count of milliseconds.\<close>

type_synonym llarp_time_t = int

text \<open>What the C++ runtime does where HOL would silently return something.\<close>

datatype exn =
    OutOfRange        \<comment> \<open>\<^verbatim>\<open>std::out_of_range\<close>\<close>
  | OutOfBounds       \<comment> \<open>a read or write outside an object: undefined behaviour\<close>
  | LengthError       \<comment> \<open>\<^verbatim>\<open>std::length_error\<close>\<close>
  | InvalidArgument   \<comment> \<open>\<^verbatim>\<open>std::invalid_argument\<close>\<close>
  | RuntimeError      \<comment> \<open>\<^verbatim>\<open>std::runtime_error\<close>\<close>
  | LogicError        \<comment> \<open>\<^verbatim>\<open>std::logic_error\<close>\<close>
  | AssertFailed      \<comment> \<open>a failed \<^verbatim>\<open>assert\<close>\<close>

definition bind_exn :: "exn + 'a \<Rightarrow> ('a \<Rightarrow> exn + 'b) \<Rightarrow> exn + 'b" where
  "bind_exn r f = (case r of Inl e \<Rightarrow> Inl e | Inr x \<Rightarrow> f x)"

lemma bind_exn_simps [simp]:
  "bind_exn (Inl e) f = Inl e"
  "bind_exn (Inr x) f = f x"
  by (simp_all add: bind_exn_def)

lemma bind_exn_Inr_iff:
  "bind_exn r f = Inr y \<longleftrightarrow> (\<exists>x. r = Inr x \<and> f x = Inr y)"
  by (cases r) simp_all


section \<open>Writes into byte strings\<close>

text \<open>
  \<^verbatim>\<open>std::copy_n(bs.data(), bs.size(), pkt.data() + off)\<close>: the bytes from \<open>off\<close> on are
  replaced. The length of the packet is kept exactly when the write stays inside it.
\<close>

definition poke :: "nat \<Rightarrow> bytes \<Rightarrow> bytes \<Rightarrow> bytes" where
  "poke off bs pkt = take off pkt @ bs @ drop (off + length bs) pkt"

definition segment :: "nat \<Rightarrow> nat \<Rightarrow> 'a list \<Rightarrow> 'a list" where
  "segment off n xs = take n (drop off xs)"

lemma length_poke [byte_simps]:
  "off + length bs \<le> length pkt \<Longrightarrow> length (poke off bs pkt) = length pkt"
  by (simp add: poke_def)

lemma length_segment [byte_simps]:
  "off + n \<le> length xs \<Longrightarrow> length (segment off n xs) = n"
  by (simp add: segment_def)

lemma segment_poke_same:
  "off + length bs \<le> length pkt \<Longrightarrow> n = length bs \<Longrightarrow> segment off n (poke off bs pkt) = bs"
  by (simp add: poke_def segment_def)

lemma segment_poke_before:
  "a + n \<le> off \<Longrightarrow> off \<le> length pkt \<Longrightarrow> segment a n (poke off bs pkt) = segment a n pkt"
  by (simp add: poke_def segment_def take_drop)

lemma segment_poke_after:
  assumes "off + length bs \<le> a" and "off + length bs \<le> length pkt"
  shows "segment a n (poke off bs pkt) = segment a n pkt"
proof -
  have "drop a (poke off bs pkt) = drop a pkt"
    using assms by (simp add: poke_def)
  then show ?thesis by (simp add: segment_def)
qed

lemma nth_poke:
  assumes "off + length bs \<le> length pkt" and "i < length pkt"
  shows "poke off bs pkt ! i =
    (if i < off then pkt ! i else if i < off + length bs then bs ! (i - off) else pkt ! i)"
  using assms by (auto simp: poke_def nth_append min_def)

lemma nth_segment [byte_simps]:
  "i < n \<Longrightarrow> off + n \<le> length xs \<Longrightarrow> segment off n xs ! i = xs ! (off + i)"
  by (simp add: segment_def)


lemma drop_poke_end: "off + length bs = length pkt \<Longrightarrow> drop off (poke off bs pkt) = bs"
  by (simp add: poke_def)

lemma unat_of_nat_small: "n < 2 ^ LENGTH('a) \<Longrightarrow> unat (of_nat n :: 'a::len word) = n"
  by (simp add: unat_of_nat take_bit_nat_eq_self)


section \<open>Big-endian integers\<close>

text \<open>
  Byte order conversion is done by the oxen-encoding library, a submodule of the
  repository. It is a parameter: the record holds its functions at the widths the
  sources use.
\<close>

record oxenc =
  write_be16 :: "u16 \<Rightarrow> bytes"
  write_be32 :: "u32 \<Rightarrow> bytes"
  write_be64 :: "u64 \<Rightarrow> bytes"
  load_be16 :: "bytes \<Rightarrow> u16"
  load_be32 :: "bytes \<Rightarrow> u32"
  load_be64 :: "bytes \<Rightarrow> u64"

text \<open>
  What is relied on: the value written takes as many bytes as its type has, and loading
  those bytes gives the value back.
\<close>

definition oxenc_ok :: "oxenc \<Rightarrow> bool" where
  "oxenc_ok ox \<longleftrightarrow>
     (\<forall>x. length (write_be16 ox x) = 2 \<and> load_be16 ox (write_be16 ox x) = x) \<and>
     (\<forall>x. length (write_be32 ox x) = 4 \<and> load_be32 ox (write_be32 ox x) = x) \<and>
     (\<forall>x. length (write_be64 ox x) = 8 \<and> load_be64 ox (write_be64 ox x) = x)"

lemma oxenc_okD:
  assumes "oxenc_ok ox"
  shows "length (write_be16 ox a) = 2" "load_be16 ox (write_be16 ox a) = a"
    and "length (write_be32 ox b) = 4" "load_be32 ox (write_be32 ox b) = b"
    and "length (write_be64 ox c) = 8" "load_be64 ox (write_be64 ox c) = c"
  using assms by (simp_all add: oxenc_ok_def)

text \<open>The reference byte order, used to instantiate the parameter in witnesses.\<close>

primrec be_write :: "nat \<Rightarrow> 'a::len word \<Rightarrow> bytes" where
  "be_write 0 w = []"
| "be_write (Suc n) w = ucast (drop_bit (8 * n) w) # be_write n w"

definition be_load :: "bytes \<Rightarrow> 'a::len word" where
  "be_load bs = foldl (\<lambda>acc b. acc * 256 + ucast b) 0 bs"

definition oxenc_be :: oxenc where
  "oxenc_be = \<lparr>write_be16 = be_write 2, write_be32 = be_write 4, write_be64 = be_write 8,
     load_be16 = be_load, load_be32 = be_load, load_be64 = be_load\<rparr>"

lemma length_be_write [simp]: "length (be_write n w) = n"
  by (induction n) simp_all

lemma be_load_acc:
  "foldl (\<lambda>acc b. acc * 256 + ucast b) a bs =
     a * 256 ^ length bs + foldl (\<lambda>acc b. acc * 256 + ucast b) (0 :: 'a::len word) bs"
proof (induction bs rule: rev_induct)
  case Nil
  then show ?case by simp
next
  case (snoc b bs)
  then show ?case by (simp add: algebra_simps)
qed

lemma take_bit_byte_split:
  "take_bit (8 * Suc n) (w :: 'a::len word) =
     push_bit (8 * n) (take_bit 8 (drop_bit (8 * n) w)) + take_bit (8 * n) w"
proof -
  have "push_bit (8 * n) (drop_bit (8 * n) (take_bit (8 * Suc n) w))
      + take_bit (8 * n) (take_bit (8 * Suc n) w) = take_bit (8 * Suc n) w"
    by (rule bits_ident)
  then show ?thesis by (simp add: drop_bit_take_bit)
qed

lemma ucast_byte_take_bit:
  fixes w :: "'a::len word"
  assumes "8 \<le> LENGTH('a)"
  shows "ucast (ucast w :: byte) = take_bit 8 w"
  using assms by (intro bit_word_eqI) (auto simp: bit_simps)

lemma be_load_write:
  assumes "8 \<le> LENGTH('a)"
  shows "be_load (be_write n (w :: 'a::len word)) = take_bit (8 * n) w"
proof (induction n)
  case 0
  then show ?case by (simp add: be_load_def)
next
  case (Suc n)
  have "be_load (be_write (Suc n) w) =
      ucast (ucast (drop_bit (8 * n) w) :: byte) * 256 ^ n + be_load (be_write n w)"
    by (simp add: be_load_def be_load_acc [of "ucast _"])
  also have "\<dots> = push_bit (8 * n) (take_bit 8 (drop_bit (8 * n) w)) + take_bit (8 * n) w"
    using assms Suc.IH
    by (simp add: ucast_byte_take_bit push_bit_eq_mult power_mult)
  finally show ?case by (simp only: take_bit_byte_split)
qed

lemma oxenc_be_ok: "oxenc_ok oxenc_be"
  by (simp add: oxenc_ok_def oxenc_be_def be_load_write take_bit_word_eq_self)


section \<open>Ordered maps\<close>

text \<open>
  \<^verbatim>\<open>std::map\<close> iterates in ascending key order, so it is an association list kept
  strictly sorted by key. \<open>omap_put\<close> is \<^verbatim>\<open>m[k] = v\<close>, \<open>omap_emplace\<close> is
  \<^verbatim>\<open>m.emplace(k, v)\<close>, which leaves an existing entry alone.
\<close>

type_synonym ('k, 'v) omap = "('k \<times> 'v) list"

fun omap_put :: "'k::linorder \<Rightarrow> 'v \<Rightarrow> ('k, 'v) omap \<Rightarrow> ('k, 'v) omap" where
  "omap_put k v [] = [(k, v)]"
| "omap_put k v ((k', v') # m) =
     (if k < k' then (k, v) # (k', v') # m
      else if k = k' then (k, v) # m
      else (k', v') # omap_put k v m)"

definition omap_emplace :: "'k::linorder \<Rightarrow> 'v \<Rightarrow> ('k, 'v) omap \<Rightarrow> ('k, 'v) omap" where
  "omap_emplace k v m = (case map_of m k of None \<Rightarrow> omap_put k v m | Some _ \<Rightarrow> m)"

definition omap_erase :: "'k \<Rightarrow> ('k, 'v) omap \<Rightarrow> ('k, 'v) omap" where
  "omap_erase k m = filter (\<lambda>p. fst p \<noteq> k) m"

definition omap_ok :: "('k::linorder, 'v) omap \<Rightarrow> bool" where
  "omap_ok m \<longleftrightarrow> sorted_wrt (<) (map fst m)"

lemma omap_ok_Nil [simp]: "omap_ok []"
  by (simp add: omap_ok_def)

lemma omap_ok_distinct: "omap_ok m \<Longrightarrow> distinct (map fst m)"
  by (simp add: omap_ok_def strict_sorted_iff)

lemma set_keys_omap_put [map_simps]: "fst ` set (omap_put k v m) = insert k (fst ` set m)"
  by (induction k v m rule: omap_put.induct) auto

lemma omap_ok_put [map_simps, intro]: "omap_ok m \<Longrightarrow> omap_ok (omap_put k v m)"
proof (induction k v m rule: omap_put.induct)
  case (2 k v k' v' m)
  then show ?case
    by (auto simp: omap_ok_def set_keys_omap_put)
qed (simp add: omap_ok_def)

lemma map_of_omap_put [map_simps]:
  "omap_ok m \<Longrightarrow> map_of (omap_put k v m) = (map_of m)(k \<mapsto> v)"
proof (induction k v m rule: omap_put.induct)
  case (2 k v k' v' m)
  then show ?case
    by (auto simp: omap_ok_def fun_eq_iff)
qed simp

lemma map_of_omap_erase [map_simps]: "map_of (omap_erase k m) = (map_of m)(k := None)"
  by (induction m) (auto simp: omap_erase_def fun_eq_iff)

lemma omap_ok_filter [map_simps, intro]: "omap_ok m \<Longrightarrow> omap_ok (filter P m)"
  by (simp add: omap_ok_def sorted_wrt_map sorted_wrt_filter)

lemma omap_ok_erase [map_simps, intro]: "omap_ok m \<Longrightarrow> omap_ok (omap_erase k m)"
  by (auto simp: omap_erase_def)

lemma omap_ok_emplace [map_simps, intro]: "omap_ok m \<Longrightarrow> omap_ok (omap_emplace k v m)"
  by (auto simp: omap_emplace_def split: option.split)

lemma map_of_omap_emplace [map_simps]:
  "omap_ok m \<Longrightarrow>
     map_of (omap_emplace k v m) = (if k \<in> dom (map_of m) then map_of m else (map_of m)(k \<mapsto> v))"
  by (auto simp: omap_emplace_def map_simps split: option.split)

lemma map_of_omap_filter:
  "omap_ok m \<Longrightarrow>
     map_of (filter (\<lambda>p. P (fst p) (snd p)) m) k =
       (case map_of m k of Some v \<Rightarrow> if P k v then Some v else None | None \<Rightarrow> None)"
proof (induction m)
  case (Cons p m)
  then have ok: "omap_ok m" and fresh: "map_of m (fst p) = None"
    by (auto simp: omap_ok_def map_of_eq_None_iff)
  from Cons.IH [OF ok] fresh show ?case
    by (cases p) (auto split: option.split)
qed simp

lemma length_omap_put [map_simps]:
  "omap_ok m \<Longrightarrow>
     length (omap_put k v m) = (if map_of m k = None then Suc (length m) else length m)"
proof (induction k v m rule: omap_put.induct)
  case (2 k v k' v' m)
  then show ?case
    by (auto simp: omap_ok_def map_of_eq_None_iff)
qed simp

lemma length_omap_erase [map_simps]:
  "omap_ok m \<Longrightarrow>
     length (omap_erase k m) = (if map_of m k = None then length m else length m - 1)"
proof (induction m)
  case (Cons p m)
  then have ok: "omap_ok m" and fresh: "fst p \<notin> fst ` set m"
    by (auto simp: omap_ok_def)
  show ?case
  proof (cases "fst p = k")
    case True
    then have "filter (\<lambda>q. fst q \<noteq> k) m = m"
      using fresh by (metis (mono_tags, lifting) filter_True imageI)
    with True show ?thesis by (cases p) (simp add: omap_erase_def)
  next
    case False
    then have "map_of m k \<noteq> None \<Longrightarrow> m \<noteq> []" by auto
    with False Cons.IH [OF ok] show ?thesis
      by (cases p; cases m) (auto simp: omap_erase_def split: if_splits)
  qed
qed (simp add: omap_erase_def)

lemma omap_put_last:
  "omap_ok m \<Longrightarrow> \<forall>k'\<in>fst ` set m. k' < k \<Longrightarrow> omap_put k v m = m @ [(k, v)]"
  by (induction k v m rule: omap_put.induct) (auto simp: omap_ok_def)


section \<open>A keyed store\<close>

text \<open>
  The contract the map types share. \<open>emplace\<close> keeps the value already stored under a
  key, and \<open>erase_if\<close> is the erase-while-iterating loop that the sources write out at
  every use.
\<close>

locale keyed_store =
  fixes lookup :: "'m \<Rightarrow> 'k \<Rightarrow> 'v option"
    and emplace :: "'k \<Rightarrow> 'v \<Rightarrow> 'm \<Rightarrow> 'm"
    and erase :: "'k \<Rightarrow> 'm \<Rightarrow> 'm"
    and erase_if :: "('k \<Rightarrow> 'v \<Rightarrow> bool) \<Rightarrow> 'm \<Rightarrow> 'm"
    and ok :: "'m \<Rightarrow> bool"
  assumes lookup_emplace:
      "ok m \<Longrightarrow> lookup (emplace k v m) j =
         (if j = k \<and> lookup m k = None then Some v else lookup m j)"
    and lookup_erase: "ok m \<Longrightarrow> lookup (erase k m) j = (if j = k then None else lookup m j)"
    and lookup_erase_if:
      "ok m \<Longrightarrow> lookup (erase_if P m) j =
         (case lookup m j of None \<Rightarrow> None | Some v \<Rightarrow> if P j v then None else Some v)"
    and ok_emplace: "ok m \<Longrightarrow> ok (emplace k v m)"
    and ok_erase: "ok m \<Longrightarrow> ok (erase k m)"
    and ok_erase_if: "ok m \<Longrightarrow> ok (erase_if P m)"
begin

lemma emplace_present: "ok m \<Longrightarrow> lookup m k = Some u \<Longrightarrow> lookup (emplace k v m) = lookup m"
  by (auto simp: lookup_emplace)

lemma emplace_twice:
  "ok m \<Longrightarrow> lookup (emplace k w (emplace k v m)) = lookup (emplace k v m)"
  by (auto simp: lookup_emplace ok_emplace)

lemma erase_if_keeps:
  "ok m \<Longrightarrow> lookup m k = Some v \<Longrightarrow> \<not> P k v \<Longrightarrow> lookup (erase_if P m) k = Some v"
  by (simp add: lookup_erase_if)

lemma erase_if_drops: "ok m \<Longrightarrow> lookup m k = Some v \<Longrightarrow> P k v \<Longrightarrow> lookup (erase_if P m) k = None"
  by (simp add: lookup_erase_if)

lemma erase_if_SomeD:
  "ok m \<Longrightarrow> lookup (erase_if P m) k = Some v \<Longrightarrow> lookup m k = Some v \<and> \<not> P k v"
  by (auto simp: lookup_erase_if split: option.splits if_splits)

lemma erase_if_erase_if:
  "ok m \<Longrightarrow> lookup (erase_if Q (erase_if P m)) = lookup (erase_if (\<lambda>k v. P k v \<or> Q k v) m)"
  by (auto simp: lookup_erase_if ok_erase_if fun_eq_iff split: option.splits)

end

definition omap_erase_if :: "('k \<Rightarrow> 'v \<Rightarrow> bool) \<Rightarrow> ('k, 'v) omap \<Rightarrow> ('k, 'v) omap" where
  "omap_erase_if P m = filter (\<lambda>p. \<not> P (fst p) (snd p)) m"

interpretation omap: keyed_store map_of omap_emplace omap_erase omap_erase_if omap_ok
proof unfold_locales
  fix m :: "('a, 'b) omap" and P j
  assume "omap_ok m"
  then show "map_of (omap_erase_if P m) j =
      (case map_of m j of None \<Rightarrow> None | Some v \<Rightarrow> if P j v then None else Some v)"
    by (simp add: omap_erase_if_def map_of_omap_filter [where P = "\<lambda>k v. \<not> P k v"]
        split: option.split)
qed (auto simp: omap_erase_if_def map_simps)

text \<open>
  \<^verbatim>\<open>std::unordered_map\<close> has no order a program may rely on: a partial function.
\<close>

type_synonym ('k, 'v) umap = "'k \<Rightarrow> 'v option"

definition umap_emplace :: "'k \<Rightarrow> 'v \<Rightarrow> ('k, 'v) umap \<Rightarrow> ('k, 'v) umap" where
  "umap_emplace k v m = (case m k of None \<Rightarrow> m(k \<mapsto> v) | Some _ \<Rightarrow> m)"

definition umap_erase :: "'k \<Rightarrow> ('k, 'v) umap \<Rightarrow> ('k, 'v) umap" where
  "umap_erase k m = m(k := None)"

definition umap_erase_if :: "('k \<Rightarrow> 'v \<Rightarrow> bool) \<Rightarrow> ('k, 'v) umap \<Rightarrow> ('k, 'v) umap" where
  "umap_erase_if P m =
     (\<lambda>k. case m k of None \<Rightarrow> None | Some v \<Rightarrow> if P k v then None else Some v)"

interpretation umap: keyed_store "\<lambda>m k. m k" umap_emplace umap_erase umap_erase_if "\<lambda>_. True"
  by unfold_locales
    (auto simp: umap_emplace_def umap_erase_def umap_erase_if_def split: option.split)


section \<open>Transition systems with an invariant\<close>

inductive reach :: "('s \<Rightarrow> bool) \<Rightarrow> ('s \<Rightarrow> 's \<Rightarrow> bool) \<Rightarrow> 's \<Rightarrow> bool"
  for init :: "'s \<Rightarrow> bool" and step :: "'s \<Rightarrow> 's \<Rightarrow> bool" where
  reach_init: "init s \<Longrightarrow> reach init step s"
| reach_step: "reach init step s \<Longrightarrow> step s t \<Longrightarrow> reach init step t"

lemma reach_steps:
  "step\<^sup>*\<^sup>* s t \<Longrightarrow> reach init step s \<Longrightarrow> reach init step t"
  by (induction rule: rtranclp_induct) (auto intro: reach_step)

locale invariant_system =
  fixes init :: "'s \<Rightarrow> bool" and step :: "'s \<Rightarrow> 's \<Rightarrow> bool" and inv :: "'s \<Rightarrow> bool"
  assumes inv_init: "init s \<Longrightarrow> inv s"
    and inv_step: "step s t \<Longrightarrow> inv s \<Longrightarrow> inv t"
begin

lemma reach_inv: "reach init step s \<Longrightarrow> inv s"
  by (induction rule: reach.induct) (auto intro: inv_init inv_step)

lemma steps_inv: "step\<^sup>*\<^sup>* s t \<Longrightarrow> inv s \<Longrightarrow> inv t"
  by (induction rule: rtranclp_induct) (auto intro: inv_step)

end


section \<open>Functional refinement\<close>

text \<open>
  A sequence of operations run on an implementation, each of which may fail, and on a
  specification, where each has a result. An implementation refines the specification when
  every single operation succeeds with the specified answer and keeps the relation; then so
  does every sequence.
\<close>

primrec exec_all :: "('op \<Rightarrow> 'c \<Rightarrow> ('out \<times> 'c) option) \<Rightarrow> 'op list \<Rightarrow> 'c \<Rightarrow> ('out list \<times> 'c) option" where
  "exec_all f [] c = Some ([], c)"
| "exec_all f (p # ps) c =
     (case f p c of None \<Rightarrow> None
      | Some (out, c') \<Rightarrow> map_option (apfst (Cons out)) (exec_all f ps c'))"

primrec spec_all :: "('op \<Rightarrow> 'a \<Rightarrow> 'out \<times> 'a) \<Rightarrow> 'op list \<Rightarrow> 'a \<Rightarrow> 'out list \<times> 'a" where
  "spec_all g [] a = ([], a)"
| "spec_all g (p # ps) a = (let (out, a') = g p a in apfst (Cons out) (spec_all g ps a'))"

locale refinement =
  fixes rel :: "'c \<Rightarrow> 'a \<Rightarrow> bool"
    and exec :: "'op \<Rightarrow> 'c \<Rightarrow> ('out \<times> 'c) option"
    and spec :: "'op \<Rightarrow> 'a \<Rightarrow> 'out \<times> 'a"
  assumes exec_step:
    "rel c a \<Longrightarrow> \<exists>c'. exec p c = Some (fst (spec p a), c') \<and> rel c' (snd (spec p a))"
begin

lemma exec_runs:
  "rel c a \<Longrightarrow> \<exists>c'. exec_all exec ps c = Some (fst (spec_all spec ps a), c') \<and> rel c' (snd (spec_all spec ps a))"
proof (induction ps arbitrary: c a)
  case Nil
  then show ?case by simp
next
  case (Cons p ps)
  obtain c' where "exec p c = Some (fst (spec p a), c')" "rel c' (snd (spec p a))"
    using exec_step [OF Cons.prems] by blast
  with Cons.IH [of c' "snd (spec p a)"] show ?case by (auto simp: split_beta)
qed

end

end
