(* ===== verification/Iwp_Message.thy ===== *)
theory Iwp_Message
  imports Belnet_Prelude
begin

text \<open>
  The message layer of the IWP link protocol, from \<^verbatim>\<open>llarp/iwp/message_buffer.hpp\<close>,
  \<^verbatim>\<open>llarp/iwp/message_buffer.cpp\<close> and \<^verbatim>\<open>CreatePacket\<close> of \<^verbatim>\<open>llarp/iwp/session.cpp\<close>: an
  outbound message cut into fragments of 1024 bytes, the packets that carry them, the
  inbound message they are put together in, and the acknowledgement bitmask both sides
  keep. \<^verbatim>\<open>std::bitset<8>\<close> is an 8 bit word.
\<close>

section \<open>Constants, commands and parameters\<close>

definition FragmentSize :: nat where "FragmentSize = 1024"
definition CommandOverhead :: nat where "CommandOverhead = 2"
definition MAX_LINK_MSG_SIZE :: nat where "MAX_LINK_MSG_SIZE = 8192"
definition HMACSIZE :: nat where "HMACSIZE = 32"
definition TUNNONCESIZE :: nat where "TUNNONCESIZE = 32"
definition SHORTHASHSIZE :: nat where "SHORTHASHSIZE = 32"
definition PacketOverhead :: nat where "PacketOverhead = HMACSIZE + TUNNONCESIZE"
definition proto_version :: byte where "proto_version = 0"

definition DeliveryTimeout :: llarp_time_t where "DeliveryTimeout = 500"
definition ReceivalTimeout :: llarp_time_t where "ReceivalTimeout = (DeliveryTimeout * 8) div 5"
definition ReplayWindow :: llarp_time_t where "ReplayWindow = (ReceivalTimeout * 3) div 2"
definition ACKResendInterval :: llarp_time_t where "ACKResendInterval = DeliveryTimeout div 2"
definition TXFlushInterval :: llarp_time_t where "TXFlushInterval = (DeliveryTimeout div 5) * 4"

lemmas iwp_consts = FragmentSize_def CommandOverhead_def MAX_LINK_MSG_SIZE_def HMACSIZE_def
  TUNNONCESIZE_def SHORTHASHSIZE_def PacketOverhead_def proto_version_def

lemmas iwp_times = DeliveryTimeout_def ReceivalTimeout_def ReplayWindow_def
  ACKResendInterval_def TXFlushInterval_def

datatype Command = ePING | eXMIT | eDATA | eACKS | eNACK | eMACK | eCLOS

fun Command_code :: "Command \<Rightarrow> byte" where
  "Command_code ePING = 0"
| "Command_code eXMIT = 1"
| "Command_code eDATA = 2"
| "Command_code eACKS = 3"
| "Command_code eNACK = 4"
| "Command_code eMACK = 5"
| "Command_code eCLOS = 0xff"

text \<open>
  The primitives of libsodium behind \<^verbatim>\<open>llarp::Crypto\<close>; \<open>None\<close> is a primitive that
  reports failure. \<open>rand_draw\<close> is what one packet takes from the random source.
\<close>

record crypto =
  shorthash :: "bytes \<Rightarrow> bytes"
  hmac :: "bytes \<Rightarrow> bytes \<Rightarrow> bytes option"
  xchacha20 :: "bytes \<Rightarrow> bytes \<Rightarrow> bytes \<Rightarrow> bytes option"
  verify :: "bytes \<Rightarrow> bytes \<Rightarrow> bytes \<Rightarrow> bool"
  transport_dh_client :: "bytes \<Rightarrow> bytes \<Rightarrow> bytes \<Rightarrow> bytes option"
  transport_dh_server :: "bytes \<Rightarrow> bytes \<Rightarrow> bytes \<Rightarrow> bytes option"

text \<open>
  What the code relies on: digests and keyed hashes have their fixed sizes, the stream
  cipher succeeds, keeps the length and undoes itself under the same key and nonce.
\<close>

definition crypto_ok :: "crypto \<Rightarrow> bool" where
  "crypto_ok c \<longleftrightarrow>
     (\<forall>bs. length (shorthash c bs) = 32) \<and>
     (\<forall>bs key. \<exists>h. hmac c bs key = Some h \<and> length h = 32) \<and>
     (\<forall>bs key n. \<exists>bs'. xchacha20 c bs key n = Some bs' \<and> length bs' = length bs \<and>
        xchacha20 c bs' key n = Some bs)"

definition plain_crypto :: crypto where
  "plain_crypto = \<lparr>shorthash = \<lambda>bs. take 32 (bs @ replicate 32 0),
     hmac = \<lambda>bs key. Some (take 32 (bs @ replicate 32 0)),
     xchacha20 = \<lambda>bs key n. Some (map (\<lambda>b. NOT b) bs),
     verify = \<lambda>pk buf sig. True,
     transport_dh_client = \<lambda>pk sk n. Some (replicate 32 1),
     transport_dh_server = \<lambda>pk sk n. Some (replicate 32 1)\<rparr>"

lemma plain_crypto_ok: "crypto_ok plain_crypto"
  by (auto simp: crypto_ok_def plain_crypto_def o_def min_def)

record rand_draw =
  draw_int :: u64
  draw_pad :: "nat \<Rightarrow> byte"
  draw_nonce :: "nat \<Rightarrow> byte"

definition zero_draw :: rand_draw where
  "zero_draw = \<lparr>draw_int = 0, draw_pad = \<lambda>_. 0, draw_nonce = \<lambda>_. 0\<rparr>"

definition CreatePacket :: "rand_draw \<Rightarrow> Command \<Rightarrow> nat \<Rightarrow> nat \<Rightarrow> nat \<Rightarrow> bytes" where
  "CreatePacket rd cmd plainsize minpad variance =
     (let pad = (if minpad > 0
                 then minpad + (if variance > 0 then unat (draw_int rd) mod variance else 0)
                 else 0);
          pkt = replicate (PacketOverhead + plainsize + pad + CommandOverhead) 0;
          pkt = (if pad \<noteq> 0
                 then poke (PacketOverhead + CommandOverhead + plainsize)
                        (map (draw_pad rd) [0..<pad]) pkt
                 else pkt);
          pkt = poke HMACSIZE (map (draw_nonce rd) [0..<TUNNONCESIZE]) pkt;
          pkt = pkt[PacketOverhead := proto_version]
      in pkt[PacketOverhead + 1 := Command_code cmd])"


section \<open>Bit sets\<close>

text \<open>\<^verbatim>\<open>std::bitset<8>::test\<close> and \<^verbatim>\<open>set\<close> throw beyond the last bit.\<close>

definition bitset_test :: "byte \<Rightarrow> nat \<Rightarrow> exn + bool" where
  "bitset_test acks i = (if i < 8 then Inr (bit acks i) else Inl OutOfRange)"

definition bitset_set :: "nat \<Rightarrow> byte \<Rightarrow> exn + byte" where
  "bitset_set i acks = (if i < 8 then Inr (set_bit i acks) else Inl OutOfRange)"

lemma bit_set_bit_byte:
  "i < 8 \<Longrightarrow> bit (set_bit i (acks :: byte)) j \<longleftrightarrow> j = i \<or> bit acks j"
  by (auto simp: bit_simps dest: bit_imp_le_length)

text \<open>
  The loops over the fragments of a message test one bit per fragment. The counter of
  the outbound loop is a \<^verbatim>\<open>uint16_t\<close>, that of the inbound loop a \<^verbatim>\<open>size_t\<close>.
\<close>

function acks_loop_u16 :: "u16 \<Rightarrow> nat \<Rightarrow> byte \<Rightarrow> exn + bool" where
  "acks_loop_u16 idx sz acks =
     (if unat idx < sz
      then case bitset_test acks (unat idx div FragmentSize) of
             Inl e \<Rightarrow> Inl e
           | Inr b \<Rightarrow> if \<not> b then Inr False else acks_loop_u16 (idx + 1024) sz acks
      else Inr True)"
  by pat_completeness auto

lemma unat_add_fragment:
  "unat (idx :: u16) < 8192 \<Longrightarrow> unat (idx + 1024) = unat idx + 1024"
  by (simp add: unat_word_ariths)

termination acks_loop_u16
  by (relation "measure (\<lambda>(idx, sz, acks). 65536 - unat idx)")
    (auto simp: bitset_test_def FragmentSize_def unat_add_fragment split: if_splits)

function acks_loop :: "nat \<Rightarrow> nat \<Rightarrow> byte \<Rightarrow> exn + bool" where
  "acks_loop idx sz acks =
     (if idx < sz
      then case bitset_test acks (idx div FragmentSize) of
             Inl e \<Rightarrow> Inl e
           | Inr b \<Rightarrow> if \<not> b then Inr False else acks_loop (idx + FragmentSize) sz acks
      else Inr True)"
  by pat_completeness auto
termination
  by (relation "measure (\<lambda>(idx, sz, acks). sz - idx)") (auto simp: FragmentSize_def)

declare acks_loop_u16.simps [simp del] acks_loop.simps [simp del]


section \<open>Outbound messages\<close>

record 'h OutboundMessage =
  om_Data :: bytes
  om_MsgID :: u64
  om_Acks :: byte
  om_Completed :: "'h option"
  om_LastFlush :: llarp_time_t
  om_Digest :: bytes
  om_StartedAt :: llarp_time_t
  om_ResendPriority :: u16

definition new_OutboundMessage ::
  "crypto \<Rightarrow> u64 \<Rightarrow> bytes \<Rightarrow> llarp_time_t \<Rightarrow> 'h option \<Rightarrow> u16 \<Rightarrow> 'h OutboundMessage" where
  "new_OutboundMessage c msgid msg now handler priority =
     \<lparr>om_Data = msg, om_MsgID = msgid, om_Acks = set_bit 0 0, om_Completed = handler,
      om_LastFlush = now, om_Digest = shorthash c msg, om_StartedAt = now,
      om_ResendPriority = priority\<rparr>"

definition XMIT :: "oxenc \<Rightarrow> rand_draw \<Rightarrow> 'h OutboundMessage \<Rightarrow> bytes" where
  "XMIT ox rd m =
     (let extra = min (length (om_Data m)) FragmentSize;
          xmit = CreatePacket rd eXMIT (10 + 32 + extra) 0 0;
          xmit = poke (CommandOverhead + PacketOverhead)
                   (write_be16 ox (of_nat (length (om_Data m)))) xmit;
          xmit = poke (2 + CommandOverhead + PacketOverhead) (write_be64 ox (om_MsgID m)) xmit;
          xmit = poke (10 + CommandOverhead + PacketOverhead) (om_Digest m) xmit
      in poke (10 + CommandOverhead + PacketOverhead + 32) (take extra (om_Data m)) xmit)"

text \<open>\<^verbatim>\<open>operator<\<close>: a higher priority compares less, then the lower identifier.\<close>

definition OutboundMessage_operator_less :: "'h OutboundMessage \<Rightarrow> 'h OutboundMessage \<Rightarrow> bool" where
  "OutboundMessage_operator_less a b =
     (let prioA = - int (unat (om_ResendPriority a)); prioB = - int (unat (om_ResendPriority b))
      in prioA < prioB \<or> (prioA = prioB \<and> om_MsgID a < om_MsgID b))"

datatype DeliveryStatus = eDeliverySuccess | eDeliveryDropped

text \<open>The completion handler runs at most once: it is cleared when it has run.\<close>

definition Completed ::
  "'h OutboundMessage \<Rightarrow> ('h \<times> DeliveryStatus) option \<times> 'h OutboundMessage" where
  "Completed m =
     (map_option (\<lambda>h. (h, eDeliverySuccess)) (om_Completed m), m\<lparr>om_Completed := None\<rparr>)"

definition InformTimeout ::
  "'h OutboundMessage \<Rightarrow> ('h \<times> DeliveryStatus) option \<times> 'h OutboundMessage" where
  "InformTimeout m =
     (map_option (\<lambda>h. (h, eDeliveryDropped)) (om_Completed m), m\<lparr>om_Completed := None\<rparr>)"

definition ShouldFlush :: "'h OutboundMessage \<Rightarrow> llarp_time_t \<Rightarrow> bool" where
  "ShouldFlush m now \<longleftrightarrow> now - om_LastFlush m \<ge> TXFlushInterval"

definition Ack :: "byte \<Rightarrow> 'h OutboundMessage \<Rightarrow> 'h OutboundMessage" where
  "Ack bitmask m = m\<lparr>om_Acks := bitmask\<rparr>"

definition DataPacket :: "oxenc \<Rightarrow> rand_draw \<Rightarrow> 'h OutboundMessage \<Rightarrow> u16 \<Rightarrow> bytes" where
  "DataPacket ox rd m idx =
     (let datasz = length (om_Data m);
          fragsz = (if unat idx + FragmentSize < datasz then FragmentSize else datasz - unat idx);
          frag = CreatePacket rd eDATA (fragsz + 10) 0 0;
          frag = poke (2 + PacketOverhead) (write_be16 ox idx) frag;
          frag = poke (4 + PacketOverhead) (write_be64 ox (om_MsgID m)) frag
      in poke (PacketOverhead + 10 + 2) (segment (unat idx) fragsz (om_Data m)) frag)"

text \<open>
  The loop of \<^verbatim>\<open>FlushUnAcked\<close>. \<^verbatim>\<open>m_Acks[i]\<close> is the unchecked accessor: beyond the eight
  bits it is undefined behaviour. \<open>p\<close> is the position in the random source.
\<close>

function FlushUnAcked_loop ::
  "oxenc \<Rightarrow> (nat \<Rightarrow> rand_draw) \<Rightarrow> 'h OutboundMessage \<Rightarrow> u16 \<Rightarrow> nat \<Rightarrow> exn + bytes list \<times> nat" where
  "FlushUnAcked_loop ox rnd m idx p =
     (if unat idx < length (om_Data m)
      then if 8 \<le> unat idx div FragmentSize then Inl OutOfBounds
           else if \<not> bit (om_Acks m) (unat idx div FragmentSize)
           then case FlushUnAcked_loop ox rnd m (idx + 1024) (Suc p) of
                  Inl e \<Rightarrow> Inl e
                | Inr (pkts, q) \<Rightarrow> Inr (DataPacket ox (rnd p) m idx # pkts, q)
           else FlushUnAcked_loop ox rnd m (idx + 1024) p
      else Inr ([], p))"
  by pat_completeness auto
termination
  by (relation "measure (\<lambda>(ox, rnd, m, idx, p). 65536 - unat idx)")
    (auto simp: FragmentSize_def unat_add_fragment)

declare FlushUnAcked_loop.simps [simp del]

definition FlushUnAcked ::
  "oxenc \<Rightarrow> (nat \<Rightarrow> rand_draw) \<Rightarrow> llarp_time_t \<Rightarrow> nat \<Rightarrow> 'h OutboundMessage
     \<Rightarrow> exn + bytes list \<times> nat \<times> 'h OutboundMessage" where
  "FlushUnAcked ox rnd now p m =
     (case FlushUnAcked_loop ox rnd m 0 p of
        Inl e \<Rightarrow> Inl e
      | Inr (pkts, q) \<Rightarrow> Inr (pkts, q, m\<lparr>om_LastFlush := now\<rparr>))"

definition IsTransmitted :: "'h OutboundMessage \<Rightarrow> exn + bool" where
  "IsTransmitted m = acks_loop_u16 0 (length (om_Data m)) (om_Acks m)"

definition OutboundMessage_IsTimedOut :: "'h OutboundMessage \<Rightarrow> llarp_time_t \<Rightarrow> bool" where
  "OutboundMessage_IsTimedOut m now \<longleftrightarrow>
     now > om_StartedAt m \<and> now - om_StartedAt m > DeliveryTimeout"


section \<open>Inbound messages\<close>

record InboundMessage =
  im_Data :: bytes
  im_Digset :: bytes
  im_MsgID :: u64
  im_LastACKSent :: llarp_time_t
  im_LastActiveAt :: llarp_time_t
  im_Acks :: byte

definition new_InboundMessage :: "u64 \<Rightarrow> u16 \<Rightarrow> bytes \<Rightarrow> llarp_time_t \<Rightarrow> InboundMessage" where
  "new_InboundMessage msgid sz h now =
     \<lparr>im_Data = replicate (unat sz) 0, im_Digset = h, im_MsgID = msgid, im_LastACKSent = 0,
      im_LastActiveAt = now, im_Acks = 0\<rparr>"

definition HandleData :: "u16 \<Rightarrow> bytes \<Rightarrow> llarp_time_t \<Rightarrow> InboundMessage \<Rightarrow> exn + InboundMessage" where
  "HandleData idx buf now m =
     (if unat idx + length buf > length (im_Data m) then Inr m
      else let m = m\<lparr>im_Data := poke (unat idx) buf (im_Data m)\<rparr>
           in case bitset_set (unat idx div FragmentSize) (im_Acks m) of
                Inl e \<Rightarrow> Inl e
              | Inr acks \<Rightarrow> Inr (m\<lparr>im_Acks := acks, im_LastActiveAt := now\<rparr>))"

definition AcksBitmask :: "InboundMessage \<Rightarrow> byte" where
  "AcksBitmask m = im_Acks m"

definition ACKS :: "oxenc \<Rightarrow> rand_draw \<Rightarrow> InboundMessage \<Rightarrow> bytes" where
  "ACKS ox rd m =
     (let acks = CreatePacket rd eACKS 9 16 16;
          acks = poke (CommandOverhead + PacketOverhead) (write_be64 ox (im_MsgID m)) acks
      in acks[PacketOverhead + 10 := AcksBitmask m])"

definition IsCompleted :: "InboundMessage \<Rightarrow> exn + bool" where
  "IsCompleted m = acks_loop 0 (length (im_Data m)) (im_Acks m)"

definition ShouldSendACKS :: "InboundMessage \<Rightarrow> llarp_time_t \<Rightarrow> bool" where
  "ShouldSendACKS m now \<longleftrightarrow> now > im_LastACKSent m + ACKResendInterval"

definition InboundMessage_IsTimedOut :: "InboundMessage \<Rightarrow> llarp_time_t \<Rightarrow> bool" where
  "InboundMessage_IsTimedOut m now \<longleftrightarrow>
     now > im_LastActiveAt m \<and> now - im_LastActiveAt m > DeliveryTimeout"

definition SendACKS ::
  "oxenc \<Rightarrow> rand_draw \<Rightarrow> llarp_time_t \<Rightarrow> InboundMessage \<Rightarrow> bytes \<times> InboundMessage" where
  "SendACKS ox rd now m = (ACKS ox rd m, m\<lparr>im_LastACKSent := now\<rparr>)"

definition Verify :: "crypto \<Rightarrow> InboundMessage \<Rightarrow> bool" where
  "Verify c m \<longleftrightarrow> shorthash c (im_Data m) = im_Digset m"



section \<open>The loops over fragments\<close>

definition nfrags :: "nat \<Rightarrow> nat" where
  "nfrags sz = (sz + 1023) div 1024"

lemma less_nfrags: "i < nfrags sz \<longleftrightarrow> 1024 * i < sz"
  unfolding nfrags_def by arith

lemma nfrags_le: "sz \<le> 8192 \<Longrightarrow> nfrags sz \<le> 8"
  unfolding nfrags_def by arith

lemma div_less_nfrags: "j < sz \<Longrightarrow> j div 1024 < nfrags sz"
  unfolding nfrags_def by arith

lemma acks_loop_u16_eq: "acks_loop_u16 idx sz acks = acks_loop (unat idx) sz acks"
proof (induction idx sz acks rule: acks_loop_u16.induct)
  case (1 idx sz acks)
  show ?case
  proof (cases "unat idx < sz \<and> unat idx div FragmentSize < 8 \<and> bit acks (unat idx div FragmentSize)")
    case True
    then have "unat idx < 8192" by (auto simp: FragmentSize_def)
    with True "1.IH" [of True] show ?thesis
      by (simp add: acks_loop_u16.simps [of idx] acks_loop.simps [of "unat idx"] bitset_test_def
          unat_add_fragment FragmentSize_def)
  next
    case False
    then show ?thesis
      by (auto simp: acks_loop_u16.simps [of idx] acks_loop.simps [of "unat idx"] bitset_test_def)
  qed
qed

lemma acks_loop_Inr:
  "sz \<le> 8192 \<Longrightarrow>
     acks_loop (1024 * i) sz acks = Inr (\<forall>j. i \<le> j \<and> j < nfrags sz \<longrightarrow> bit acks j)"
proof (induction "nfrags sz - i" arbitrary: i)
  case 0
  then have "\<not> 1024 * i < sz" using less_nfrags [of i sz] by simp
  with 0 show ?case by (auto simp: acks_loop.simps [of "1024 * i"])
next
  case (Suc d)
  then have i: "i < nfrags sz" by simp
  then have lt: "1024 * i < sz" and i8: "i < 8"
    using less_nfrags [of i sz] nfrags_le [of sz] Suc.prems by simp_all
  have next_idx: "1024 * i + FragmentSize = 1024 * Suc i" by (simp add: FragmentSize_def)
  have IH: "acks_loop (1024 * Suc i) sz acks = Inr (\<forall>j. Suc i \<le> j \<and> j < nfrags sz \<longrightarrow> bit acks j)"
    using Suc by (intro Suc.hyps(1)) auto
  have split_all: "(\<forall>j. i \<le> j \<and> j < nfrags sz \<longrightarrow> bit acks j) \<longleftrightarrow>
      bit acks i \<and> (\<forall>j. Suc i \<le> j \<and> j < nfrags sz \<longrightarrow> bit acks j)"
    using i by (metis Suc_leI le_eq_less_or_eq Suc_le_lessD order_refl)
  show ?case
    unfolding split_all acks_loop.simps [of "1024 * i"] next_idx IH
    using lt i8 by (simp add: bitset_test_def FragmentSize_def)
qed

lemma acks_loop_oversize:
  "8192 < sz \<Longrightarrow> i \<le> 8 \<Longrightarrow>
     acks_loop (1024 * i) sz acks =
       (if \<forall>j. i \<le> j \<and> j < 8 \<longrightarrow> bit acks j then Inl OutOfRange else Inr False)"
proof (induction "8 - i" arbitrary: i)
  case 0
  then have "i = 8" by simp
  with 0 show ?case
    by (simp add: acks_loop.simps [of 8192] bitset_test_def FragmentSize_def)
next
  case (Suc d)
  then have lt: "1024 * i < sz" and i8: "i < 8" by auto
  have next_idx: "1024 * i + FragmentSize = 1024 * Suc i" by (simp add: FragmentSize_def)
  have IH: "acks_loop (1024 * Suc i) sz acks =
      (if \<forall>j. Suc i \<le> j \<and> j < 8 \<longrightarrow> bit acks j then Inl OutOfRange else Inr False)"
    using Suc by (intro Suc.hyps(1)) auto
  have split_all: "(\<forall>j. i \<le> j \<and> j < 8 \<longrightarrow> bit acks j) \<longleftrightarrow>
      bit acks i \<and> (\<forall>j. Suc i \<le> j \<and> j < 8 \<longrightarrow> bit acks j)"
    using i8 by (metis Suc_leI le_eq_less_or_eq Suc_le_lessD order_refl)
  show ?case
    unfolding split_all acks_loop.simps [of "1024 * i"] next_idx IH
    using lt i8 by (simp add: bitset_test_def FragmentSize_def)
qed

lemma IsCompleted_eq:
  assumes "length (im_Data m) \<le> MAX_LINK_MSG_SIZE"
  shows "IsCompleted m = Inr (\<forall>i<nfrags (length (im_Data m)). bit (im_Acks m) i)"
  using assms acks_loop_Inr [of "length (im_Data m)" 0 "im_Acks m"]
  by (simp add: IsCompleted_def MAX_LINK_MSG_SIZE_def)

lemma IsTransmitted_eq:
  assumes "length (om_Data m) \<le> MAX_LINK_MSG_SIZE"
  shows "IsTransmitted m = Inr (\<forall>i<nfrags (length (om_Data m)). bit (om_Acks m) i)"
  using assms acks_loop_Inr [of "length (om_Data m)" 0 "om_Acks m"]
  by (simp add: IsTransmitted_def MAX_LINK_MSG_SIZE_def acks_loop_u16_eq)

lemma IsCompleted_oversize:
  assumes "MAX_LINK_MSG_SIZE < length (im_Data m)"
  shows "IsCompleted m =
    (if \<forall>i<8. bit (im_Acks m) i then Inl OutOfRange else Inr False)"
  using assms acks_loop_oversize [of "length (im_Data m)" 0 "im_Acks m"]
  by (simp add: IsCompleted_def MAX_LINK_MSG_SIZE_def)


section \<open>Reassembly\<close>

text \<open>Fragment \<open>i\<close> of a message, as \<^verbatim>\<open>XMIT\<close> (for 0) and \<^verbatim>\<open>FlushUnAcked\<close> cut it.\<close>

definition frag_of :: "bytes \<Rightarrow> nat \<Rightarrow> bytes" where
  "frag_of data i = take 1024 (drop (1024 * i) data)"

definition frag_off :: "nat \<Rightarrow> u16" where
  "frag_off i = of_nat (1024 * i)"

lemma unat_frag_off: "i < 64 \<Longrightarrow> unat (frag_off i) = 1024 * i"
  unfolding frag_off_def by (rule unat_of_nat_small) simp

lemma frag_off_Suc: "frag_off i + 1024 = frag_off (Suc i)"
  by (simp add: frag_off_def algebra_simps)

lemma length_frag_of: "length (frag_of data i) = min 1024 (length data - 1024 * i)"
  by (simp add: frag_of_def)

text \<open>
  The buffer agrees with the message at every byte of every acknowledged fragment: what
  reassembly keeps whatever the order, the losses and the duplicates.
\<close>

definition agrees :: "bytes \<Rightarrow> InboundMessage \<Rightarrow> bool" where
  "agrees data m \<longleftrightarrow> length (im_Data m) = length data \<and>
     (\<forall>j<length data. bit (im_Acks m) (j div 1024) \<longrightarrow> im_Data m ! j = data ! j)"

lemma agrees_new:
  "length data < 65536 \<Longrightarrow> agrees data (new_InboundMessage msgid (of_nat (length data)) h now)"
  by (simp add: agrees_def new_InboundMessage_def unat_of_nat_small)

lemma nth_poke_frag:
  assumes "i < nfrags (length data)" and "length buf = length data" and "j < length data"
  shows "poke (1024 * i) (frag_of data i) buf ! j = (if j div 1024 = i then data ! j else buf ! j)"
proof -
  have bound: "1024 * i + length (frag_of data i) \<le> length buf"
    using assms by (auto simp: length_frag_of less_nfrags)
  have inside: "j div 1024 = i \<longleftrightarrow> 1024 * i \<le> j \<and> j < 1024 * i + length (frag_of data i)"
    using assms by (auto simp: length_frag_of less_nfrags)
  show ?thesis
    using assms bound inside by (auto simp: nth_poke frag_of_def)
qed

lemma HandleData_frag:
  assumes "i < nfrags (length data)" and "i < 8" and "agrees data m"
  shows "HandleData (frag_off i) (frag_of data i) now m =
      Inr (m\<lparr>im_Data := poke (1024 * i) (frag_of data i) (im_Data m),
             im_Acks := set_bit i (im_Acks m), im_LastActiveAt := now\<rparr>)"
proof -
  have "unat (frag_off i) = 1024 * i"
    using assms(2) by (simp add: unat_frag_off)
  moreover have "1024 * i + length (frag_of data i) \<le> length (im_Data m)"
    using assms by (auto simp: length_frag_of less_nfrags agrees_def)
  ultimately show ?thesis
    using assms(2) by (simp add: HandleData_def bitset_set_def FragmentSize_def)
qed

lemma agrees_HandleData_frag:
  assumes "i < nfrags (length data)" and "i < 8" and "agrees data m"
    and "HandleData (frag_off i) (frag_of data i) now m = Inr m'"
  shows "agrees data m' \<and> im_Acks m' = set_bit i (im_Acks m)"
proof -
  have m': "m' = m\<lparr>im_Data := poke (1024 * i) (frag_of data i) (im_Data m),
             im_Acks := set_bit i (im_Acks m), im_LastActiveAt := now\<rparr>"
    using HandleData_frag [OF assms(1-3), of now] assms(4) by simp
  have len: "length (im_Data m) = length data"
    using assms(3) by (simp add: agrees_def)
  have "length (poke (1024 * i) (frag_of data i) (im_Data m)) = length data"
    using assms(1) len by (subst length_poke) (auto simp: length_frag_of less_nfrags)
  then show ?thesis
    using assms(1-3) len
    by (auto simp: m' agrees_def nth_poke_frag bit_set_bit_byte)
qed

text \<open>Receiving a sequence of fragments, each with its time of arrival.\<close>

primrec recv_frags :: "bytes \<Rightarrow> (nat \<times> llarp_time_t) list \<Rightarrow> InboundMessage \<Rightarrow> exn + InboundMessage" where
  "recv_frags data [] m = Inr m"
| "recv_frags data (f # fs) m =
     bind_exn (HandleData (frag_off (fst f)) (frag_of data (fst f)) (snd f) m)
       (recv_frags data fs)"

lemma recv_frags_agrees:
  assumes "length data \<le> 8192" and "agrees data m"
    and "\<forall>f\<in>set fs. fst f < nfrags (length data)"
  shows "\<exists>m'. recv_frags data fs m = Inr m' \<and> agrees data m' \<and>
    (\<forall>i. bit (im_Acks m') i \<longleftrightarrow> bit (im_Acks m) i \<or> i \<in> fst ` set fs) \<and>
    im_Digset m' = im_Digset m \<and> im_MsgID m' = im_MsgID m"
  using assms(2,3)
proof (induction fs arbitrary: m)
  case Nil
  then show ?case by simp
next
  case (Cons f fs)
  from Cons.prems have i: "fst f < nfrags (length data)" by simp
  then have i8: "fst f < 8" using nfrags_le [OF assms(1)] by simp
  obtain m1 where m1: "HandleData (frag_off (fst f)) (frag_of data (fst f)) (snd f) m = Inr m1"
    and eqs: "im_Digset m1 = im_Digset m" "im_MsgID m1 = im_MsgID m"
    using HandleData_frag [OF i i8 Cons.prems(1)] by simp
  from agrees_HandleData_frag [OF i i8 Cons.prems(1) m1]
  have ag: "agrees data m1" and acks: "im_Acks m1 = set_bit (fst f) (im_Acks m)" by auto
  from Cons.IH [OF ag] Cons.prems(2) show ?case
    using i8 by (auto simp: m1 acks eqs bit_set_bit_byte)
qed

lemma agrees_complete:
  assumes "agrees data m" and "\<forall>i<nfrags (length data). bit (im_Acks m) i"
  shows "im_Data m = data"
  using assms by (auto simp: agrees_def list_eq_iff_nth_eq div_less_nfrags)


section \<open>Packet layout\<close>

lemma length_CreatePacket:
  "length (CreatePacket rd cmd n minpad v) =
     66 + n + (if minpad > 0 then minpad + (if v > 0 then unat (draw_int rd) mod v else 0) else 0)"
  by (simp add: CreatePacket_def Let_def iwp_consts length_poke)

lemma CreatePacket_header:
  "CreatePacket rd cmd n minpad v ! 64 = proto_version"
  "CreatePacket rd cmd n minpad v ! 65 = Command_code cmd"
  by (simp_all add: CreatePacket_def Let_def iwp_consts length_poke)

lemma segment_frag:
  "1024 * i < length data \<Longrightarrow>
     segment (1024 * i) (if 1024 * i + 1024 < length data then 1024 else length data - 1024 * i) data
       = frag_of data i"
  by (simp add: segment_def frag_of_def)

text \<open>A data packet carries its offset, the message identifier and the fragment.\<close>

lemma DataPacket_layout:
  fixes rd :: rand_draw
  assumes ox: "oxenc_ok ox" and i: "i < nfrags (length (om_Data m))" and "i < 8"
  defines "pkt \<equiv> DataPacket ox rd m (frag_off i)"
  shows "length pkt = 76 + length (frag_of (om_Data m) i)"
    and "pkt ! 64 = proto_version" and "pkt ! 65 = Command_code eDATA"
    and "segment 66 2 pkt = write_be16 ox (frag_off i)"
    and "segment 68 8 pkt = write_be64 ox (om_MsgID m)"
    and "drop 76 pkt = frag_of (om_Data m) i"
proof -
  let ?f = "frag_of (om_Data m) i"
  let ?p = "CreatePacket rd eDATA (length ?f + 10) 0 0"
  let ?p1 = "poke 66 (write_be16 ox (frag_off i)) ?p"
  let ?p2 = "poke 68 (write_be64 ox (om_MsgID m)) ?p1"
  note len = oxenc_okD(1,5) [OF ox] length_CreatePacket
  have lt: "1024 * i < length (om_Data m)" using i by (simp add: less_nfrags)
  have off: "unat (frag_off i) = 1024 * i" using \<open>i < 8\<close> by (simp add: unat_frag_off)
  have sz: "(if 1024 * i + 1024 < length (om_Data m) then 1024 else length (om_Data m) - 1024 * i)
      = length ?f"
    using lt by (simp add: length_frag_of)
  have pkt: "pkt = poke 76 ?f ?p2"
    unfolding pkt_def DataPacket_def Let_def FragmentSize_def off sz
    using segment_frag [OF lt, unfolded sz] by (simp add: iwp_consts)
  have l1: "length ?p1 = 76 + length ?f" and l2: "length ?p2 = 76 + length ?f"
    by (simp_all add: length_poke len)
  show "length pkt = 76 + length ?f" by (simp add: pkt length_poke len)
  show "pkt ! 64 = proto_version" "pkt ! 65 = Command_code eDATA"
    by (simp_all add: pkt nth_poke length_poke len CreatePacket_header)
  have "segment 66 2 ?p2 = write_be16 ox (frag_off i)"
    using l1 by (subst segment_poke_before) (simp_all add: segment_poke_same len)
  then show "segment 66 2 pkt = write_be16 ox (frag_off i)"
    using l2 by (simp add: pkt segment_poke_before)
  have "segment 68 8 ?p2 = write_be64 ox (om_MsgID m)"
    using l1 by (simp add: segment_poke_same len)
  then show "segment 68 8 pkt = write_be64 ox (om_MsgID m)"
    using l2 by (simp add: pkt segment_poke_before)
  show "drop 76 pkt = ?f" using l2 by (simp add: pkt drop_poke_end)
qed

text \<open>The packet that opens a transmission.\<close>

lemma XMIT_layout:
  fixes rd :: rand_draw
  assumes ox: "oxenc_ok ox" and dig: "length (om_Digest m) = 32"
  defines "pkt \<equiv> XMIT ox rd m"
  shows "length pkt = 108 + min (length (om_Data m)) 1024"
    and "pkt ! 64 = proto_version" and "pkt ! 65 = Command_code eXMIT"
    and "segment 66 2 pkt = write_be16 ox (of_nat (length (om_Data m)))"
    and "segment 68 8 pkt = write_be64 ox (om_MsgID m)"
    and "segment 76 32 pkt = om_Digest m"
    and "drop 108 pkt = take 1024 (om_Data m)"
proof -
  let ?n = "min (length (om_Data m)) 1024"
  let ?sz = "of_nat (length (om_Data m)) :: u16"
  let ?p = "CreatePacket rd eXMIT (42 + ?n) 0 0"
  let ?p1 = "poke 66 (write_be16 ox ?sz) ?p"
  let ?p2 = "poke 68 (write_be64 ox (om_MsgID m)) ?p1"
  let ?p3 = "poke 76 (om_Digest m) ?p2"
  note len = oxenc_okD(1,5) [OF ox] length_CreatePacket dig
  have pkt: "pkt = poke 108 (take ?n (om_Data m)) ?p3"
    by (simp add: pkt_def XMIT_def Let_def iwp_consts)
  have l1: "length ?p1 = 108 + ?n" and l2: "length ?p2 = 108 + ?n" and l3: "length ?p3 = 108 + ?n"
    by (simp_all add: length_poke len)
  show "length pkt = 108 + ?n" by (simp add: pkt length_poke len)
  show "pkt ! 64 = proto_version" "pkt ! 65 = Command_code eXMIT"
    by (simp_all add: pkt nth_poke length_poke len CreatePacket_header)
  have "segment 66 2 ?p2 = write_be16 ox ?sz"
    using l1 by (subst segment_poke_before) (simp_all add: segment_poke_same len)
  then have "segment 66 2 ?p3 = write_be16 ox ?sz"
    using l2 by (simp add: segment_poke_before)
  then show "segment 66 2 pkt = write_be16 ox ?sz"
    using l3 by (simp add: pkt segment_poke_before)
  have "segment 68 8 ?p2 = write_be64 ox (om_MsgID m)"
    using l1 by (simp add: segment_poke_same len)
  then have "segment 68 8 ?p3 = write_be64 ox (om_MsgID m)"
    using l2 by (simp add: segment_poke_before)
  then show "segment 68 8 pkt = write_be64 ox (om_MsgID m)"
    using l3 by (simp add: pkt segment_poke_before)
  have "segment 76 32 ?p3 = om_Digest m"
    using l2 by (simp add: segment_poke_same len)
  then show "segment 76 32 pkt = om_Digest m"
    using l3 by (simp add: pkt segment_poke_before)
  have "drop 108 pkt = take ?n (om_Data m)" using l3 by (simp add: pkt drop_poke_end)
  then show "drop 108 pkt = take 1024 (om_Data m)" by (simp add: min_def)
qed

lemma ACKS_layout:
  assumes ox: "oxenc_ok ox"
  shows "91 \<le> length (ACKS ox rd m)" and "ACKS ox rd m ! 65 = Command_code eACKS"
    and "segment 66 8 (ACKS ox rd m) = write_be64 ox (im_MsgID m)"
    and "ACKS ox rd m ! 74 = im_Acks m"
proof -
  let ?p = "CreatePacket rd eACKS 9 16 16"
  let ?p1 = "poke 66 (write_be64 ox (im_MsgID m)) ?p"
  note len = oxenc_okD(5) [OF ox] length_CreatePacket
  have acks: "ACKS ox rd m = ?p1[74 := im_Acks m]"
    by (simp add: ACKS_def Let_def iwp_consts AcksBitmask_def)
  have l: "91 \<le> length ?p" by (simp add: len)
  have l1: "length ?p1 = length ?p" using l by (simp add: length_poke len)
  show "91 \<le> length (ACKS ox rd m)" using l l1 by (simp add: acks)
  show "ACKS ox rd m ! 65 = Command_code eACKS"
    using l by (simp add: acks nth_poke len CreatePacket_header)
  have "segment 66 8 (?p1[74 := im_Acks m]) = segment 66 8 ?p1"
    using l l1 by (simp add: segment_def drop_update_swap take_update_cancel)
  then show "segment 66 8 (ACKS ox rd m) = write_be64 ox (im_MsgID m)"
    using l by (simp add: acks segment_poke_same len)
  show "ACKS ox rd m ! 74 = im_Acks m" using l l1 by (simp add: acks)
qed


section \<open>Retransmission\<close>

text \<open>The data packets for a list of fragments, in order, each with a draw of its own.\<close>

primrec flush_packets ::
  "oxenc \<Rightarrow> (nat \<Rightarrow> rand_draw) \<Rightarrow> 'h OutboundMessage \<Rightarrow> nat \<Rightarrow> nat list \<Rightarrow> bytes list" where
  "flush_packets ox rnd m p [] = []"
| "flush_packets ox rnd m p (i # is) =
     DataPacket ox (rnd p) m (frag_off i) # flush_packets ox rnd m (Suc p) is"

definition unacked :: "'h OutboundMessage \<Rightarrow> nat list" where
  "unacked m = filter (\<lambda>i. \<not> bit (om_Acks m) i) [0..<nfrags (length (om_Data m))]"

lemma FlushUnAcked_loop_eq:
  assumes "length (om_Data m) \<le> 8192" and "i \<le> 8"
  defines "n \<equiv> nfrags (length (om_Data m))"
  shows "FlushUnAcked_loop ox rnd m (frag_off i) p =
    (let todo = filter (\<lambda>j. \<not> bit (om_Acks m) j) [i..<n]
     in Inr (flush_packets ox rnd m p todo, p + length todo))"
  using assms(2)
proof (induction "n - i" arbitrary: i p)
  case 0
  then have "\<not> 1024 * i < length (om_Data m)"
    using less_nfrags [of i "length (om_Data m)"] by (simp add: n_def)
  with 0 show ?case
    by (simp add: FlushUnAcked_loop.simps [of _ _ _ "frag_off i"] unat_frag_off)
next
  case (Suc d)
  then have i: "i < n" by simp
  then have lt: "1024 * i < length (om_Data m)" and i8: "i < 8"
    using less_nfrags [of i "length (om_Data m)"] nfrags_le [OF assms(1)] by (simp_all add: n_def)
  have IH: "FlushUnAcked_loop ox rnd m (frag_off (Suc i)) q =
    (let todo = filter (\<lambda>j. \<not> bit (om_Acks m) j) [Suc i..<n]
     in Inr (flush_packets ox rnd m q todo, q + length todo))" for q
    using Suc i8 by (intro Suc.hyps(1)) auto
  have range: "[i..<n] = i # [Suc i..<n]" using i by (rule upt_conv_Cons)
  have off: "unat (frag_off i) = 1024 * i" using i8 by (simp add: unat_frag_off)
  show ?case
    unfolding FlushUnAcked_loop.simps [of _ _ _ "frag_off i"] frag_off_Suc IH range off
    using lt i8 by (simp add: FragmentSize_def Let_def)
qed

lemma FlushUnAcked_eq:
  assumes "length (om_Data m) \<le> MAX_LINK_MSG_SIZE"
  shows "FlushUnAcked ox rnd now p m =
    Inr (flush_packets ox rnd m p (unacked m), p + length (unacked m), m\<lparr>om_LastFlush := now\<rparr>)"
proof -
  have "(0 :: u16) = frag_off 0" by (simp add: frag_off_def)
  then show ?thesis
    using FlushUnAcked_loop_eq [of m 0 ox rnd p] assms
    by (simp add: FlushUnAcked_def MAX_LINK_MSG_SIZE_def unacked_def Let_def)
qed

lemma in_flush_packets:
  "pkt \<in> set (flush_packets ox rnd m p is) \<Longrightarrow>
     \<exists>i q. i \<in> set is \<and> pkt = DataPacket ox (rnd q) m (frag_off i)"
  by (induction "is" arbitrary: p) (auto, blast+)

lemma flush_packets_nth:
  "k < length is \<Longrightarrow>
     flush_packets ox rnd m p is ! k = DataPacket ox (rnd (p + k)) m (frag_off (is ! k))"
proof (induction "is" arbitrary: p k)
  case (Cons i "is")
  then show ?case by (cases k) simp_all
qed simp

lemma length_flush_packets [simp]: "length (flush_packets ox rnd m p is) = length is"
  by (induction "is" arbitrary: p) simp_all


section \<open>The exceptions of the receiving side\<close>

text \<open>
  What \<^verbatim>\<open>HandleXMIT\<close> and \<^verbatim>\<open>HandleDATA\<close> do with an inbound message for every fragment that
  arrives for it, whatever its offset and contents: store it, then ask for completion.
\<close>

primrec recv_any :: "(u16 \<times> bytes \<times> llarp_time_t) list \<Rightarrow> InboundMessage \<Rightarrow> exn + InboundMessage" where
  "recv_any [] m = Inr m"
| "recv_any (f # fs) m =
     bind_exn (HandleData (fst f) (fst (snd f)) (snd (snd f)) m)
       (\<lambda>m'. bind_exn (IsCompleted m') (\<lambda>_. recv_any fs m'))"

abbreviation inside :: "nat \<Rightarrow> u16 \<times> bytes \<times> llarp_time_t \<Rightarrow> bool" where
  "inside sz f \<equiv> unat (fst f) + length (fst (snd f)) \<le> sz"

lemma HandleData_cases:
  "HandleData idx buf now m =
     (if length (im_Data m) < unat idx + length buf then Inr m
      else if 8192 \<le> unat idx then Inl OutOfRange
      else Inr (m\<lparr>im_Data := poke (unat idx) buf (im_Data m),
                  im_Acks := set_bit (unat idx div 1024) (im_Acks m), im_LastActiveAt := now\<rparr>))"
proof -
  have "unat idx div 1024 < 8 \<longleftrightarrow> \<not> 8192 \<le> unat idx" by arith
  then show ?thesis by (simp add: HandleData_def bitset_set_def FragmentSize_def Let_def)
qed

lemma IsCompleted_raises:
  "IsCompleted m = Inl e \<longleftrightarrow>
     MAX_LINK_MSG_SIZE < length (im_Data m) \<and> (\<forall>i<8. bit (im_Acks m) i) \<and> e = OutOfRange"
  using IsCompleted_eq [of m] IsCompleted_oversize [of m]
  by (cases "length (im_Data m) \<le> MAX_LINK_MSG_SIZE") auto

lemma recv_any_raises:
  "recv_any fs m = Inl e \<longleftrightarrow> e = OutOfRange \<and>
     ((\<exists>f \<in> set fs. inside (length (im_Data m)) f \<and> 8192 \<le> unat (fst f)) \<or>
      (8192 < length (im_Data m) \<and> fs \<noteq> [] \<and>
       (\<forall>i<8. bit (im_Acks m) i \<or> (\<exists>f \<in> set fs. inside (length (im_Data m)) f \<and> unat (fst f) div 1024 = i))))"
proof (induction fs arbitrary: m)
  case (Cons f fs)
  obtain idx buf now where f: "f = (idx, buf, now)" by (cases f)
  let ?n = "length (im_Data m)"
  show ?case
  proof (cases "inside ?n f \<and> 8192 \<le> unat idx")
    case True
    then show ?thesis by (auto simp: f HandleData_cases)
  next
    case False
    then obtain m' where m': "HandleData idx buf now m = Inr m'" "length (im_Data m') = ?n"
      "\<And>i. i < 8 \<Longrightarrow> bit (im_Acks m') i \<longleftrightarrow> bit (im_Acks m) i \<or> inside ?n f \<and> unat idx div 1024 = i"
    proof (cases "inside ?n f")
      case True
      with False show ?thesis
        by (intro that [of "m\<lparr>im_Data := poke (unat idx) buf (im_Data m),
            im_Acks := set_bit (unat idx div 1024) (im_Acks m), im_LastActiveAt := now\<rparr>"])
          (auto simp: f HandleData_cases length_poke bit_set_bit_byte)
    next
      case outside: False
      then show ?thesis by (intro that [of m]) (auto simp: f HandleData_cases)
    qed
    show ?thesis
    proof (cases "IsCompleted m'")
      case (Inl e')
      then have "e' = OutOfRange" "8192 < ?n" "\<forall>i<8. bit (im_Acks m') i"
        using m'(2) by (auto simp: IsCompleted_raises MAX_LINK_MSG_SIZE_def)
      moreover have "recv_any (f # fs) m = Inl e'" by (simp add: f m'(1) Inl)
      ultimately show ?thesis using m'(3) by (auto simp: f simp del: recv_any.simps)
    next
      case (Inr b)
      then have "\<not> (8192 < ?n \<and> (\<forall>i<8. bit (im_Acks m') i))"
        using IsCompleted_raises [of m' OutOfRange] m'(2) by (auto simp: MAX_LINK_MSG_SIZE_def)
      then show ?thesis
        using False m' Cons.IH [of m'] by (auto simp: f Inr)
    qed
  qed
qed simp


section \<open>Properties of the message layer\<close>

text \<open>
  C1. Reassembly: a receiver that has announced a message of at most
  \<^verbatim>\<open>MAX_LINK_MSG_SIZE\<close> bytes and then gets every fragment at least once, in any order and
  with any duplicates, raises no exception, holds exactly the bytes that were sent,
  reports the message complete, and the digest check succeeds.
\<close>

theorem reassembly_any_order:
  assumes "length data \<le> MAX_LINK_MSG_SIZE"
    and "fst ` set fs = {0..<nfrags (length data)}"
  shows "\<exists>m. recv_frags data fs
           (new_InboundMessage msgid (of_nat (length data)) (shorthash c data) now) = Inr m \<and>
         im_Data m = data \<and> IsCompleted m = Inr True \<and> Verify c m"
proof -
  let ?m0 = "new_InboundMessage msgid (of_nat (length data)) (shorthash c data) now"
  have sz: "length data \<le> 8192" using assms(1) by (simp add: MAX_LINK_MSG_SIZE_def)
  have "agrees data ?m0" using sz by (intro agrees_new) simp
  moreover have "\<forall>f\<in>set fs. fst f < nfrags (length data)" using assms(2) by force
  ultimately obtain m where m: "recv_frags data fs ?m0 = Inr m" "agrees data m"
      "im_Digset m = shorthash c data"
    and acks: "\<forall>i<nfrags (length data). bit (im_Acks m) i"
    using recv_frags_agrees [OF sz, of ?m0 fs] assms(2)
    by (auto simp: new_InboundMessage_def)
  have dat: "im_Data m = data" using m(2) acks by (rule agrees_complete)
  then show ?thesis
    using m acks assms(1) by (auto simp: IsCompleted_eq Verify_def)
qed

theorem reassembly_any_order_witness:
  "\<exists>m. recv_frags (replicate 1500 7) [(1, 5), (0, 6), (1, 9)]
         (new_InboundMessage 3 (of_nat (length (replicate 1500 (7 :: byte))))
           (shorthash plain_crypto (replicate 1500 7)) 4) = Inr m \<and>
       im_Data m = replicate 1500 7 \<and> IsCompleted m = Inr True \<and> Verify plain_crypto m"
proof -
  have "length (replicate 1500 (7 :: byte)) \<le> MAX_LINK_MSG_SIZE"
    by (simp add: MAX_LINK_MSG_SIZE_def)
  moreover have "fst ` set [(1 :: nat, 5 :: int), (0, 6), (1, 9)] =
      {0..<nfrags (length (replicate 1500 (7 :: byte)))}"
    by (auto simp: nfrags_def)
  ultimately show ?thesis by (rule reassembly_any_order)
qed

text \<open>
  C2. Retransmission: for a message of at most \<^verbatim>\<open>MAX_LINK_MSG_SIZE\<close> bytes,
  \<^verbatim>\<open>FlushUnAcked\<close> stays inside the bit set, sends one data packet for every fragment the
  acknowledgement mask does not hold, in ascending order of offset, no other packet, and
  changes only the time of the last flush.
\<close>

theorem FlushUnAcked_sends_missing:
  assumes "length (om_Data m) \<le> MAX_LINK_MSG_SIZE"
  shows "\<exists>pkts. FlushUnAcked ox rnd now p m =
           Inr (pkts, p + length pkts, m\<lparr>om_LastFlush := now\<rparr>) \<and>
         length pkts = length (unacked m) \<and>
         (\<forall>k<length pkts. pkts ! k = DataPacket ox (rnd (p + k)) m (frag_off (unacked m ! k))) \<and>
         sorted (unacked m) \<and> distinct (unacked m) \<and>
         set (unacked m) = {i. 1024 * i < length (om_Data m) \<and> \<not> bit (om_Acks m) i}"
  using FlushUnAcked_eq [OF assms, of ox rnd now p]
  by (auto simp: flush_packets_nth unacked_def less_nfrags sorted_wrt_filter)

theorem FlushUnAcked_sends_missing_witness:
  "\<exists>pkts. FlushUnAcked oxenc_be (\<lambda>_. zero_draw) 9 0
      \<lparr>om_Data = replicate 3000 1, om_MsgID = 5, om_Acks = 1, om_Completed = None :: nat option,
       om_LastFlush = 0, om_Digest = [], om_StartedAt = 0, om_ResendPriority = 0\<rparr> =
    Inr (pkts, 0 + length pkts,
      \<lparr>om_Data = replicate 3000 1, om_MsgID = 5, om_Acks = 1, om_Completed = None,
       om_LastFlush = 9, om_Digest = [], om_StartedAt = 0, om_ResendPriority = 0\<rparr>)"
  using FlushUnAcked_sends_missing
    [of "\<lparr>om_Data = replicate 3000 1, om_MsgID = 5, om_Acks = 1, om_Completed = None :: nat option,
       om_LastFlush = 0, om_Digest = [], om_StartedAt = 0, om_ResendPriority = 0\<rparr>"
      oxenc_be "\<lambda>_. zero_draw" 9 0]
  by (auto simp: MAX_LINK_MSG_SIZE_def)

text \<open>
  C3. The exceptions of the receiving side. A new inbound message of the size the peer
  announced is fed any sequence of fragments, each stored by \<^verbatim>\<open>HandleData\<close> and followed by
  \<^verbatim>\<open>IsCompleted\<close> as the handlers do. An exception is raised exactly if one of the fragments
  lies inside the message at an offset of 8192 or more, or the message is longer than
  \<^verbatim>\<open>MAX_LINK_MSG_SIZE\<close> and the fragments inside it start in each of the first eight blocks of
  1024 bytes; the exception is \<^verbatim>\<open>std::out_of_range\<close>. So a message of fewer than 8192 bytes
  raises nothing, while one of exactly 8192 bytes does for an empty fragment at its end.
  Nothing on the way compares the size to the limit, so a peer can bring this about.
\<close>

theorem inbound_raises_iff:
  "recv_any fs (new_InboundMessage msgid sz h t) = Inl e \<longleftrightarrow> e = OutOfRange \<and>
     ((\<exists>idx buf now. (idx, buf, now) \<in> set fs \<and> unat idx + length buf \<le> unat sz \<and> MAX_LINK_MSG_SIZE \<le> unat idx) \<or>
      MAX_LINK_MSG_SIZE < unat sz \<and>
      (\<forall>i<8. \<exists>idx buf now. (idx, buf, now) \<in> set fs \<and> unat idx + length buf \<le> unat sz \<and>
        unat idx div FragmentSize = i))"
proof -
  have "fs \<noteq> []" if "\<forall>i<8::nat. \<exists>f \<in> set fs. P f i" for P using that [rule_format, of 0] by auto
  then show ?thesis
    unfolding recv_any_raises
    by (simp add: new_InboundMessage_def MAX_LINK_MSG_SIZE_def FragmentSize_def Bex_def) blast
qed

theorem inbound_raises_iff_witness:
  "recv_any [(8192, [], 3)] (new_InboundMessage 1 8192 [] 0) = Inl OutOfRange \<and>
   recv_any [(8192, [], 3)] (new_InboundMessage 1 8191 [] 0) \<noteq> Inl OutOfRange \<and>
   recv_any (map (\<lambda>i. (of_nat (1024 * i), replicate 1024 0, 3)) [0..<8]) (new_InboundMessage 1 8193 [] 0) = Inl OutOfRange"
proof -
  let ?fs = "map (\<lambda>i. (of_nat (1024 * i) :: u16, replicate 1024 0 :: bytes, 3 :: llarp_time_t)) [0..<8]"
  have "(of_nat (1024 * i), replicate 1024 0, 3) \<in> set ?fs \<and> unat (of_nat (1024 * i) :: u16) + 1024 \<le> 8193 \<and>
      unat (of_nat (1024 * i) :: u16) div 1024 = i" if "i < 8" for i
  proof -
    have "unat (of_nat (1024 * i) :: u16) = 1024 * i" using that by (subst unat_of_nat) simp
    with that show ?thesis by auto
  qed
  then have "\<forall>i<8. \<exists>idx buf now. (idx, buf, now) \<in> set ?fs \<and> unat idx + length buf \<le> unat (8193 :: u16) \<and>
      unat idx div FragmentSize = i"
    by (fastforce simp: FragmentSize_def)
  then have "recv_any ?fs (new_InboundMessage 1 8193 [] 0) = Inl OutOfRange"
    unfolding inbound_raises_iff by (simp add: MAX_LINK_MSG_SIZE_def)
  moreover have "recv_any [(8192, [], 3)] (new_InboundMessage 1 8192 [] 0) = Inl OutOfRange"
    "recv_any [(8192, [], 3)] (new_InboundMessage 1 8191 [] 0) \<noteq> Inl OutOfRange"
    unfolding inbound_raises_iff by (simp_all add: MAX_LINK_MSG_SIZE_def)
  ultimately show ?thesis by simp
qed

text \<open>
  C4. Agreement of the two ends: when the mask an inbound message reports is recorded at
  the sender of that message, the sender regards it as transmitted exactly when the
  receiver regards it as complete.
\<close>

theorem ack_agreement:
  assumes "length (om_Data om) = length (im_Data im)" and "length (om_Data om) \<le> MAX_LINK_MSG_SIZE"
  shows "IsTransmitted (Ack (AcksBitmask im) om) = IsCompleted im"
  using assms by (simp add: IsTransmitted_eq IsCompleted_eq Ack_def AcksBitmask_def)

theorem ack_agreement_witness:
  "IsTransmitted (Ack (AcksBitmask
      \<lparr>im_Data = replicate 2000 0, im_Digset = [], im_MsgID = 1, im_LastACKSent = 0,
       im_LastActiveAt = 0, im_Acks = 2\<rparr>)
      \<lparr>om_Data = replicate 2000 1, om_MsgID = 5, om_Acks = 1, om_Completed = None :: nat option,
       om_LastFlush = 0, om_Digest = [], om_StartedAt = 0, om_ResendPriority = 0\<rparr>) = Inr False"
  by (subst ack_agreement)
    (auto simp: MAX_LINK_MSG_SIZE_def IsCompleted_eq nfrags_def intro!: exI [of _ 0])

end
