(* ===== verification/Iwp_Session.thy ===== *)
theory Iwp_Session
  imports Iwp_Message
begin

text \<open>
  One session of the IWP link protocol, from \<^verbatim>\<open>llarp/iwp/session.hpp\<close> and
  \<^verbatim>\<open>llarp/iwp/session.cpp\<close>: the handshake, encryption and decryption of packets, the
  handlers of the seven commands, acknowledgement, retransmission, time-outs and the
  replay filter. The record \<open>session\<close> has the fields of \<^verbatim>\<open>Session\<close>; every handler is a
  function from the session to the session or to the exception it raises. What the
  session asks of its environment (a UDP datagram, a call of a completion handler, the
  delivery of a message) is appended to the list \<open>m_events\<close>, with the time where it
  matters; \<open>m_Jobs\<close> are the closures handed to \<^verbatim>\<open>QueueWork\<close>, which the worker threads run
  later and in any order.
\<close>

section \<open>Types\<close>

definition PingInterval :: llarp_time_t where "PingInterval = 5000"
definition SessionAliveTimeout :: llarp_time_t where "SessionAliveTimeout = PingInterval * 5"
definition DefaultLinkSessionLifetime :: llarp_time_t where "DefaultLinkSessionLifetime = 300000"
definition LinkLayerConnectTimeout :: llarp_time_t where "LinkLayerConnectTimeout = 5000"
definition MaxACKSInMACK :: nat where "MaxACKSInMACK = 1024 div 8"
definition MaxSendQueueSize :: nat where "MaxSendQueueSize = 1024 * 16"
definition PlaintextQueueSize :: nat where "PlaintextQueueSize = 512"
definition PubKey_SIZE :: nat where "PubKey_SIZE = 32"
definition Signature_SIZE :: nat where "Signature_SIZE = 64"
definition token_SIZE :: nat where "token_SIZE = 24"
definition Introduction_SIZE :: nat where
  "Introduction_SIZE = PubKey_SIZE + PubKey_SIZE + TUNNONCESIZE + Signature_SIZE"
definition LinkIntroMessage_MaxSize :: nat where "LinkIntroMessage_MaxSize = 1024 + 256"
definition XMITOverhead :: nat where
  "XMITOverhead = CommandOverhead + PacketOverhead + 2 + 8 + SHORTHASHSIZE"

lemmas session_consts = iwp_consts PubKey_SIZE_def Signature_SIZE_def token_SIZE_def
  Introduction_SIZE_def LinkIntroMessage_MaxSize_def XMITOverhead_def MaxACKSInMACK_def
  MaxSendQueueSize_def PlaintextQueueSize_def

datatype State = Initial | Introduction | LinkIntro | Ready | Closed

record SessionStats =
  currentRateRX :: u64
  currentRateTX :: u64
  totalPacketsRX :: u64
  totalAckedTX :: u64
  totalDroppedTX :: u64
  totalInFlightTX :: u64

text \<open>What a session reads of an \<^verbatim>\<open>AddressInfo\<close> and of a \<^verbatim>\<open>RouterContact\<close>.\<close>

record AddressInfo =
  ai_pubkey :: bytes
  ai_dialect :: string
  ai_addr :: nat

record RouterContact =
  rc_pubkey :: bytes
  rc_routerVersion :: "nat option"
  rc_addrs :: "AddressInfo list"

definition IsPublicRouter :: "RouterContact \<Rightarrow> bool" where
  "IsPublicRouter rc \<longleftrightarrow> rc_routerVersion rc \<noteq> None \<and> rc_addrs rc \<noteq> []"

text \<open>
  The member function that \<^verbatim>\<open>GotLIM\<close> is bound to, the completion handlers (the closure of
  \<^verbatim>\<open>GotOutboundLIM\<close> or one of the caller's), the jobs for the workers, and the events.
\<close>

datatype GotLIM_fn = InboundLIM | OutboundLIM | RenegLIM

datatype handler = LIMDelivered | UserHandler nat

datatype job = EncryptJob "bytes list" | DecryptJob "bytes list"

datatype event =
    SentTo bytes
  | Delivered llarp_time_t u64 bytes
  | HandlerCalled nat DeliveryStatus
  | MappedAddr bytes
  | UnmappedAddr
  | Established bool
  | Renegotiated RouterContact
  | TriggeredPump
  | WokePlaintext

record session =
  m_State :: State
  m_Stats :: SessionStats
  m_Inbound :: bool
  m_CreatedAt :: llarp_time_t
  m_RemoteAddr :: nat
  m_ChosenAI :: AddressInfo
  m_RemoteRC :: RouterContact
  m_SessionKey :: bytes
  token :: bytes
  m_ExpectedIdent :: bytes
  m_RemoteOnionKey :: bytes
  m_LastTX :: llarp_time_t
  m_LastRX :: llarp_time_t
  m_TXRate :: u64
  m_RXRate :: u64
  m_ResetRatesAt :: llarp_time_t
  m_TXID :: u64
  m_RXMsgs :: "(u64 \<times> InboundMessage) list"
  m_TXMsgs :: "(u64 \<times> handler OutboundMessage) list"
  m_ReplayFilter :: "u64 \<Rightarrow> llarp_time_t option"
  m_SendMACKs :: "u64 list"
  m_EncryptNext :: "bytes list"
  m_DecryptNext :: "bytes list"
  m_PlaintextEmpty :: bool
  m_PlaintextRecv :: "bytes list list"
  m_SentClosed :: bool
  GotLIM :: GotLIM_fn
  m_Jobs :: "job list"
  m_events :: "event list"
  m_rpos :: nat

text \<open>
  Calls the router makes on the session while it handles a delivered message, and the
  three outcomes of \<^verbatim>\<open>ILinkLayer::MapAddr\<close>.
\<close>

datatype call =
    CallGotLIM RouterContact
  | CallSendMessageBuffer bytes "nat option" u16
  | CallRenegotiateSession
  | CallSendKeepAlive
  | CallClose

datatype map_result = MapOk | MapTooMany | MapNotPending

text \<open>
  The environment of a step: cryptography, byte order, the random source, the clock, the
  keys of the router, the signed and encoded link introduction message for a nonce
  (\<open>None\<close> when signing or encoding fails) and what the link layer and the router above
  do with a delivered message.
\<close>

record env =
  e_crypto :: crypto
  e_oxenc :: oxenc
  e_rnd :: "nat \<Rightarrow> rand_draw"
  e_now :: llarp_time_t
  e_our_pubkey :: bytes
  e_enc_secret :: bytes
  e_enc_public :: bytes
  e_transport_secret :: bytes
  e_Sign :: "bytes \<Rightarrow> bytes"
  e_LIM :: "rand_draw \<Rightarrow> bytes option"
  e_MapAddr :: "session \<Rightarrow> map_result"
  e_HandleMessage :: "session \<Rightarrow> bytes \<Rightarrow> call list"

text \<open>
  A \<^verbatim>\<open>std::priority_queue\<close> as the list of its elements in the order \<^verbatim>\<open>pop\<close> yields them:
  \<^verbatim>\<open>top\<close> is an element that is not less than any other.
\<close>

primrec pq_push :: "('a \<Rightarrow> 'a \<Rightarrow> bool) \<Rightarrow> 'a \<Rightarrow> 'a list \<Rightarrow> 'a list" where
  "pq_push lt x [] = [x]"
| "pq_push lt x (y # ys) = (if lt y x then x # y # ys else y # pq_push lt x ys)"


section \<open>Construction\<close>

definition new_SessionStats :: SessionStats where
  "new_SessionStats = \<lparr>currentRateRX = 0, currentRateTX = 0, totalPacketsRX = 0,
     totalAckedTX = 0, totalDroppedTX = 0, totalInFlightTX = 0\<rparr>"

definition nonce :: "rand_draw \<Rightarrow> nat \<Rightarrow> bytes" where
  "nonce rd n = map (draw_nonce rd) [0..<n]"

definition empty_AddressInfo :: AddressInfo where
  "empty_AddressInfo = \<lparr>ai_pubkey = replicate 32 0, ai_dialect = [], ai_addr = 0\<rparr>"

definition empty_RouterContact :: RouterContact where
  "empty_RouterContact = \<lparr>rc_pubkey = replicate 32 0, rc_routerVersion = None, rc_addrs = []\<rparr>"

definition Session_common :: "env \<Rightarrow> session" where
  "Session_common e = \<lparr>m_State = Initial, m_Stats = new_SessionStats, m_Inbound = False,
     m_CreatedAt = e_now e, m_RemoteAddr = 0, m_ChosenAI = empty_AddressInfo,
     m_RemoteRC = empty_RouterContact, m_SessionKey = [], token = replicate token_SIZE 0,
     m_ExpectedIdent = replicate PubKey_SIZE 0, m_RemoteOnionKey = replicate PubKey_SIZE 0,
     m_LastTX = 0, m_LastRX = 0, m_TXRate = 0, m_RXRate = 0, m_ResetRatesAt = 0, m_TXID = 0,
     m_RXMsgs = [], m_TXMsgs = [], m_ReplayFilter = Map.empty, m_SendMACKs = [],
     m_EncryptNext = [], m_DecryptNext = [], m_PlaintextEmpty = True, m_PlaintextRecv = [],
     m_SentClosed = False, GotLIM = OutboundLIM, m_Jobs = [], m_events = [], m_rpos = 0\<rparr>"

definition Session_outbound :: "env \<Rightarrow> RouterContact \<Rightarrow> AddressInfo \<Rightarrow> session" where
  "Session_outbound e rc ai = (Session_common e)
     \<lparr>m_Inbound := False, m_RemoteAddr := ai_addr ai, m_ChosenAI := ai, m_RemoteRC := rc,
      token := replicate token_SIZE 0, GotLIM := OutboundLIM,
      m_SessionKey := shorthash (e_crypto e) (rc_pubkey rc)\<rparr>"

definition Session_inbound :: "env \<Rightarrow> nat \<Rightarrow> session" where
  "Session_inbound e from = (Session_common e)
     \<lparr>m_Inbound := True, m_RemoteAddr := from,
      token := nonce (e_rnd e 0) token_SIZE, m_rpos := 1, GotLIM := InboundLIM,
      m_SessionKey := shorthash (e_crypto e) (e_our_pubkey e)\<rparr>"


section \<open>Sending\<close>

definition emit :: "event \<Rightarrow> session \<Rightarrow> session" where
  "emit ev s = s\<lparr>m_events := m_events s @ [ev]\<rparr>"

definition TriggerPump :: "session \<Rightarrow> session" where
  "TriggerPump s = emit TriggeredPump s"

definition Send_LL :: "env \<Rightarrow> bytes \<Rightarrow> session \<Rightarrow> session" where
  "Send_LL e pkt s = (emit (SentTo pkt) s)
     \<lparr>m_LastTX := e_now e, m_TXRate := m_TXRate s + of_nat (length pkt)\<rparr>"

definition IsEstablished :: "session \<Rightarrow> bool" where
  "IsEstablished s \<longleftrightarrow> m_State s = Ready"

text \<open>One packet of \<^verbatim>\<open>EncryptWorker\<close>; the results of the two primitives are not looked at.\<close>

definition encrypt_packet :: "crypto \<Rightarrow> bytes \<Rightarrow> bytes \<Rightarrow> bytes" where
  "encrypt_packet c key pkt =
     (let nonce_ptr = segment HMACSIZE TUNNONCESIZE pkt;
          pkt = (case xchacha20 c (drop PacketOverhead pkt) key nonce_ptr of
                   None \<Rightarrow> pkt | Some body \<Rightarrow> poke PacketOverhead body pkt)
      in case hmac c (drop HMACSIZE pkt) key of None \<Rightarrow> pkt | Some h \<Rightarrow> poke 0 h pkt)"

definition EncryptWorker :: "env \<Rightarrow> bytes list \<Rightarrow> session \<Rightarrow> session" where
  "EncryptWorker e msgs s =
     fold (\<lambda>pkt s. Send_LL e (encrypt_packet (e_crypto e) (m_SessionKey s) pkt) s) msgs s"

definition EncryptAndSend :: "env \<Rightarrow> bytes \<Rightarrow> session \<Rightarrow> session" where
  "EncryptAndSend e data s =
     (let s = s\<lparr>m_EncryptNext := m_EncryptNext s @ [data]\<rparr>;
          s = TriggerPump s
      in if \<not> IsEstablished s
         then (EncryptWorker e (m_EncryptNext s) s)\<lparr>m_EncryptNext := []\<rparr>
         else s)"

text \<open>Taking one draw from the random source.\<close>

definition draw :: "env \<Rightarrow> session \<Rightarrow> rand_draw \<times> session" where
  "draw e s = (e_rnd e (m_rpos s), s\<lparr>m_rpos := Suc (m_rpos s)\<rparr>)"

definition Session_Close :: "env \<Rightarrow> session \<Rightarrow> session" where
  "Session_Close e s =
     (if m_State s = Closed then s
      else let (rd, s) = draw e s;
               close_msg = CreatePacket rd eCLOS 0 16 16;
               s = emit UnmappedAddr s;
               s = s\<lparr>m_State := Closed\<rparr>
           in if m_SentClosed s then s
              else EncryptAndSend e close_msg (s\<lparr>m_SentClosed := True\<rparr>))"

text \<open>
  \<^verbatim>\<open>msg.FlushUnAcked(util::memFn(&Session::EncryptAndSend, this), now)\<close> on the message with
  the given identifier.
\<close>

definition flush_message :: "env \<Rightarrow> u64 \<Rightarrow> session \<Rightarrow> exn + session" where
  "flush_message e msgid s =
     (case map_of (m_TXMsgs s) msgid of
        None \<Rightarrow> Inr s
      | Some msg \<Rightarrow>
          bind_exn (FlushUnAcked (e_oxenc e) (e_rnd e) (e_now e) (m_rpos s) msg)
            (\<lambda>(pkts, p, msg'). Inr (fold (EncryptAndSend e) pkts
               (s\<lparr>m_rpos := p, m_TXMsgs := omap_put msgid msg' (m_TXMsgs s)\<rparr>))))"

definition MapAddr :: "env \<Rightarrow> session \<Rightarrow> session" where
  "MapAddr e s =
     (case e_MapAddr e s of
        MapOk \<Rightarrow> emit (MappedAddr (rc_pubkey (m_RemoteRC s))) s
      | MapTooMany \<Rightarrow> Session_Close e s
      | MapNotPending \<Rightarrow> s)"

text \<open>Running a completion handler: the closure of \<^verbatim>\<open>GotOutboundLIM\<close>, or the caller's.\<close>

fun run_handler :: "env \<Rightarrow> (handler \<times> DeliveryStatus) option \<Rightarrow> session \<Rightarrow> session" where
  "run_handler e None s = s"
| "run_handler e (Some (LIMDelivered, st)) s =
     (if st = eDeliverySuccess
      then emit (Established False) (MapAddr e (s\<lparr>m_State := Ready\<rparr>))
      else s)"
| "run_handler e (Some (UserHandler n, st)) s = emit (HandlerCalled n st) s"

definition SendMessageBuffer ::
  "env \<Rightarrow> bytes \<Rightarrow> handler option \<Rightarrow> u16 \<Rightarrow> session \<Rightarrow> exn + bool \<times> session" where
  "SendMessageBuffer e buf completed priority s =
     (if length (m_TXMsgs s) \<ge> MaxSendQueueSize
      then Inr (False, run_handler e (map_option (\<lambda>h. (h, eDeliveryDropped)) completed) s)
      else
        let now = e_now e;
            msgid = m_TXID s;
            s = s\<lparr>m_TXID := m_TXID s + 1\<rparr>;
            bufsz = length buf;
            s = s\<lparr>m_TXMsgs := omap_emplace msgid
                   (new_OutboundMessage (e_crypto e) msgid buf now completed priority) (m_TXMsgs s)\<rparr>;
            msg = the (map_of (m_TXMsgs s) msgid);
            s = TriggerPump s;
            (rd, s) = draw e s;
            s = EncryptAndSend e (XMIT (e_oxenc e) rd msg) s
        in bind_exn (if bufsz > FragmentSize then flush_message e msgid s else Inr s)
             (\<lambda>s. Inr (True, s\<lparr>m_Stats := (m_Stats s)
                         \<lparr>totalInFlightTX := totalInFlightTX (m_Stats s) + 1\<rparr>\<rparr>)))"

definition SendOurLIM :: "env \<Rightarrow> handler option \<Rightarrow> session \<Rightarrow> exn + session" where
  "SendOurLIM e h s =
     (let (rd, s) = draw e s
      in case e_LIM e rd of
           None \<Rightarrow> Inr s
         | Some enc \<Rightarrow>
             let data = poke 0 enc (replicate (LinkIntroMessage_MaxSize + PacketOverhead) 0)
             in bind_exn (SendMessageBuffer e data h 0 s) (\<lambda>(_, s). Inr s))"


section \<open>The link introduction messages\<close>

text \<open>
  The methods also return a truth value, in \<^verbatim>\<open>GotInboundLIM\<close> that of the router's callback
  \<^verbatim>\<open>SessionEstablished\<close>, to the router that called them; the session does not look at it, and what
  the router does then is part of \<^const>\<open>e_HandleMessage\<close>.
\<close>

definition GotInboundLIM :: "env \<Rightarrow> RouterContact \<Rightarrow> session \<Rightarrow> exn + session" where
  "GotInboundLIM e rc s =
     (if rc_pubkey rc \<noteq> m_ExpectedIdent s then Inr s
      else let s = s\<lparr>m_State := Ready, GotLIM := RenegLIM, m_RemoteRC := rc\<rparr>
           in Inr (emit (Established True) (MapAddr e s)))"

definition GotOutboundLIM :: "env \<Rightarrow> RouterContact \<Rightarrow> session \<Rightarrow> exn + session" where
  "GotOutboundLIM e rc s =
     (if rc_pubkey rc \<noteq> rc_pubkey (m_RemoteRC s) then Inr s
      else SendOurLIM e (Some LIMDelivered) (s\<lparr>m_RemoteRC := rc, GotLIM := RenegLIM\<rparr>))"

definition GotRenegLIM :: "RouterContact \<Rightarrow> session \<Rightarrow> exn + session" where
  "GotRenegLIM rc s = Inr (emit (Renegotiated rc) s)"

definition call_GotLIM :: "env \<Rightarrow> RouterContact \<Rightarrow> session \<Rightarrow> exn + session" where
  "call_GotLIM e rc s =
     (case GotLIM s of
        InboundLIM \<Rightarrow> GotInboundLIM e rc s
      | OutboundLIM \<Rightarrow> GotOutboundLIM e rc s
      | RenegLIM \<Rightarrow> GotRenegLIM rc s)"

definition RenegotiateSession :: "env \<Rightarrow> session \<Rightarrow> exn + session" where
  "RenegotiateSession e s = SendOurLIM e None s"

definition ShouldPing :: "env \<Rightarrow> session \<Rightarrow> bool" where
  "ShouldPing e s \<longleftrightarrow> m_State s = Ready \<and> e_now e - m_LastTX s > PingInterval"

definition SendKeepAlive :: "env \<Rightarrow> session \<Rightarrow> session" where
  "SendKeepAlive e s =
     (if m_State s = Ready
      then let (rd, s) = draw e s in EncryptAndSend e (CreatePacket rd ePING 0 16 16) s
      else s)"

fun run_call :: "env \<Rightarrow> call \<Rightarrow> session \<Rightarrow> exn + session" where
  "run_call e (CallGotLIM rc) s = call_GotLIM e rc s"
| "run_call e (CallSendMessageBuffer buf h prio) s =
     bind_exn (SendMessageBuffer e buf (map_option UserHandler h) prio s) (\<lambda>(_, s). Inr s)"
| "run_call e CallRenegotiateSession s = RenegotiateSession e s"
| "run_call e CallSendKeepAlive s = Inr (SendKeepAlive e s)"
| "run_call e CallClose s = Inr (Session_Close e s)"

fun run_calls :: "env \<Rightarrow> call list \<Rightarrow> session \<Rightarrow> exn + session" where
  "run_calls e [] s = Inr s"
| "run_calls e (c # cs) s = bind_exn (run_call e c s) (run_calls e cs)"


section \<open>The handshake\<close>

definition DecryptMessageInPlace :: "env \<Rightarrow> session \<Rightarrow> bytes \<Rightarrow> bytes option" where
  "DecryptMessageInPlace e s pkt =
     (if length pkt \<le> PacketOverhead then None
      else case hmac (e_crypto e) (drop HMACSIZE pkt) (m_SessionKey s) of
             None \<Rightarrow> None
           | Some H \<Rightarrow>
               if H \<noteq> take HMACSIZE pkt then None
               else map_option (\<lambda>body. poke PacketOverhead body pkt)
                      (xchacha20 (e_crypto e) (drop PacketOverhead pkt) (m_SessionKey s)
                        (segment HMACSIZE TUNNONCESIZE pkt)))"

definition GenerateAndSendIntro :: "env \<Rightarrow> session \<Rightarrow> session" where
  "GenerateAndSendIntro e s =
     (let (rd, s) = draw e s;
          N = nonce rd TUNNONCESIZE;
          req = replicate (Introduction_SIZE + PacketOverhead) 0;
          req = poke PacketOverhead (e_our_pubkey e) req;
          req = poke (PacketOverhead + PubKey_SIZE) (e_enc_public e) req;
          req = poke (PacketOverhead + PubKey_SIZE + PubKey_SIZE) N req;
          Z = e_Sign e (segment PacketOverhead (Introduction_SIZE - Signature_SIZE) req);
          req = poke (PacketOverhead + (Introduction_SIZE - Signature_SIZE)) Z req;
          (rd', s) = draw e s;
          req = poke HMACSIZE (nonce rd' TUNNONCESIZE) req;
          s = EncryptAndSend e req s;
          s = s\<lparr>m_State := Introduction\<rparr>
      in case transport_dh_client (e_crypto e) (ai_pubkey (m_ChosenAI s)) (e_enc_secret e) N of
           None \<Rightarrow> s
         | Some key \<Rightarrow> s\<lparr>m_SessionKey := key\<rparr>)"

definition Session_Start :: "env \<Rightarrow> session \<Rightarrow> session" where
  "Session_Start e s = (if m_Inbound s then s else GenerateAndSendIntro e s)"

definition HandleCreateSessionRequest :: "env \<Rightarrow> bytes \<Rightarrow> session \<Rightarrow> exn + session" where
  "HandleCreateSessionRequest e pkt s =
     (case DecryptMessageInPlace e s pkt of
        None \<Rightarrow> Inr s
      | Some pkt \<Rightarrow>
          if length pkt < length (token s) + PacketOverhead then Inr s
          else if segment PacketOverhead (length (token s)) pkt \<noteq> token s then Inr s
          else SendOurLIM e None (s\<lparr>m_LastRX := e_now e, m_State := LinkIntro\<rparr>))"

definition HandleGotIntro :: "env \<Rightarrow> bytes \<Rightarrow> session \<Rightarrow> session" where
  "HandleGotIntro e pkt s =
     (if length pkt < Introduction_SIZE + PacketOverhead then s
      else
        let s = s\<lparr>m_ExpectedIdent := segment PacketOverhead PubKey_SIZE pkt,
                  m_RemoteOnionKey := segment (PacketOverhead + PubKey_SIZE) PubKey_SIZE pkt\<rparr>;
            N = segment (PacketOverhead + PubKey_SIZE + PubKey_SIZE) TUNNONCESIZE pkt;
            Z = segment (PacketOverhead + PubKey_SIZE + PubKey_SIZE + TUNNONCESIZE)
                  Signature_SIZE pkt;
            verifybuf = segment PacketOverhead (Introduction_SIZE - Signature_SIZE) pkt
        in if \<not> verify (e_crypto e) (m_ExpectedIdent s) verifybuf Z then s
           else case transport_dh_server (e_crypto e) (m_RemoteOnionKey s)
                       (e_transport_secret e) N of
                  None \<Rightarrow> s
                | Some key \<Rightarrow>
                    let s = s\<lparr>m_SessionKey := key\<rparr>;
                        (rd, s) = draw e s;
                        reply = replicate (length (token s) + PacketOverhead) 0;
                        reply = poke HMACSIZE (nonce rd TUNNONCESIZE) reply;
                        reply = poke PacketOverhead (token s) reply;
                        s = s\<lparr>m_LastRX := e_now e\<rparr>;
                        s = EncryptAndSend e reply s
                    in s\<lparr>m_State := Introduction\<rparr>)"

definition HandleGotIntroAck :: "env \<Rightarrow> bytes \<Rightarrow> session \<Rightarrow> session" where
  "HandleGotIntroAck e pkt s =
     (if length pkt < length (token s) + PacketOverhead then s
      else case DecryptMessageInPlace e s pkt of
             None \<Rightarrow> s
           | Some pkt \<Rightarrow>
               let s = s\<lparr>m_LastRX := e_now e\<rparr>;
                   s = s\<lparr>token := segment PacketOverhead (length (token s)) pkt\<rparr>;
                   reply = replicate (length (token s) + PacketOverhead) 0;
                   reply = poke PacketOverhead (token s) reply;
                   (rd, s) = draw e s;
                   reply = poke HMACSIZE (nonce rd TUNNONCESIZE) reply;
                   s = EncryptAndSend e reply s
               in s\<lparr>m_State := LinkIntro\<rparr>)"

definition HandleSessionData :: "bytes \<Rightarrow> session \<Rightarrow> session" where
  "HandleSessionData pkt s = TriggerPump (s\<lparr>m_DecryptNext := m_DecryptNext s @ [pkt]\<rparr>)"

definition Recv_LL :: "env \<Rightarrow> bytes \<Rightarrow> session \<Rightarrow> exn + bool \<times> session" where
  "Recv_LL e data s =
     (let s = s\<lparr>m_RXRate := m_RXRate s + of_nat (length data),
                m_Stats := (m_Stats s)\<lparr>totalPacketsRX := totalPacketsRX (m_Stats s) + 1\<rparr>\<rparr>
      in case m_State s of
           Initial \<Rightarrow>
             if m_Inbound s
             then case DecryptMessageInPlace e s data of
                    Some data \<Rightarrow> Inr (True, HandleGotIntro e data s)
                  | None \<Rightarrow> Inr (False, s)
             else Inr (True, s)
         | Introduction \<Rightarrow>
             if m_Inbound s
             then bind_exn (HandleCreateSessionRequest e data s) (\<lambda>s. Inr (True, s))
             else Inr (True, HandleGotIntroAck e data s)
         | _ \<Rightarrow> Inr (True, HandleSessionData data s))"


section \<open>Commands\<close>

text \<open>
  Reads at an index outside the packet are undefined behaviour in C++; the model raises
  \<open>OutOfBounds\<close> there.
\<close>

definition at :: "bytes \<Rightarrow> nat \<Rightarrow> exn + byte" where
  "at pkt i = (if i < length pkt then Inr (pkt ! i) else Inl OutOfBounds)"

definition queue_mack :: "u64 \<Rightarrow> session \<Rightarrow> session" where
  "queue_mack rxid s = s\<lparr>m_SendMACKs := pq_push (\<lambda>x y. x > y) rxid (m_SendMACKs s)\<rparr>"

definition HandleMessage :: "env \<Rightarrow> u64 \<Rightarrow> bytes \<Rightarrow> session \<Rightarrow> exn + session" where
  "HandleMessage e rxid data s =
     run_calls e (e_HandleMessage e s data) (emit (Delivered (e_now e) rxid data) s)"

definition HandleRecvMsgCompleted :: "env \<Rightarrow> InboundMessage \<Rightarrow> session \<Rightarrow> exn + session" where
  "HandleRecvMsgCompleted e msg s =
     (let rxid = im_MsgID msg
      in bind_exn
           (if m_ReplayFilter s rxid = None
            then let s = s\<lparr>m_ReplayFilter := umap_emplace rxid (e_now e) (m_ReplayFilter s)\<rparr>
                 in bind_exn (HandleMessage e rxid (im_Data msg) s)
                      (\<lambda>s. let (rd, s) = draw e s
                           in Inr (EncryptAndSend e (ACKS (e_oxenc e) rd msg) s))
            else Inr s)
           (\<lambda>s. Inr (s\<lparr>m_RXMsgs := omap_erase rxid (m_RXMsgs s)\<rparr>)))"

definition HandleXMIT :: "env \<Rightarrow> bytes \<Rightarrow> session \<Rightarrow> exn + session" where
  "HandleXMIT e data s =
     (if length data < XMITOverhead then Inr s
      else
        let pos = CommandOverhead + PacketOverhead;
            sz = load_be16 (e_oxenc e) (segment pos 2 data);
            rxid = load_be64 (e_oxenc e) (segment (pos + 2) 8 data);
            h = segment (pos + 10) SHORTHASHSIZE data;
            s = s\<lparr>m_LastRX := e_now e\<rparr>
        in if m_ReplayFilter s rxid \<noteq> None then Inr (queue_mack rxid s)
           else if map_of (m_RXMsgs s) rxid \<noteq> None then Inr s
           else
             let msg = new_InboundMessage rxid sz h (e_now e);
                 s = TriggerPump (s\<lparr>m_RXMsgs := omap_emplace rxid msg (m_RXMsgs s)\<rparr>);
                 sz = min sz (of_nat FragmentSize)
             in if length data - XMITOverhead \<noteq> unat sz then Inr s
                else bind_exn (HandleData 0 (drop (length data - unat sz) data) (e_now e) msg)
                  (\<lambda>msg. let s = s\<lparr>m_RXMsgs := omap_put rxid msg (m_RXMsgs s)\<rparr>
                    in bind_exn (IsCompleted msg)
                      (\<lambda>done. if \<not> done then Inr s
                              else if \<not> Verify (e_crypto e) msg then Inr s
                              else HandleRecvMsgCompleted e msg s)))"

definition HandleDATA :: "env \<Rightarrow> bytes \<Rightarrow> session \<Rightarrow> exn + session" where
  "HandleDATA e data s =
     (if length data < CommandOverhead + 2 + 8 + PacketOverhead then Inr s
      else
        let s = s\<lparr>m_LastRX := e_now e\<rparr>;
            sz = load_be16 (e_oxenc e) (segment (CommandOverhead + PacketOverhead) 2 data);
            rxid = load_be64 (e_oxenc e) (segment (CommandOverhead + 2 + PacketOverhead) 8 data)
        in case map_of (m_RXMsgs s) rxid of
             None \<Rightarrow>
               if m_ReplayFilter s rxid = None
               then let (rd, s) = draw e s;
                        nack = CreatePacket rd eNACK 8 16 16;
                        nack = poke (PacketOverhead + CommandOverhead) (write_be64 (e_oxenc e) rxid) nack
                    in Inr (EncryptAndSend e nack s)
               else Inr (queue_mack rxid s)
           | Some msg \<Rightarrow>
               bind_exn (HandleData sz (drop (PacketOverhead + 12) data) (e_now e) msg)
                 (\<lambda>msg. let s = s\<lparr>m_RXMsgs := omap_put rxid msg (m_RXMsgs s)\<rparr>
                   in bind_exn (IsCompleted msg)
                     (\<lambda>done. if done \<and> Verify (e_crypto e) msg
                             then HandleRecvMsgCompleted e msg s else Inr s)))"

definition complete_tx :: "env \<Rightarrow> u64 \<Rightarrow> handler OutboundMessage \<Rightarrow> session \<Rightarrow> session" where
  "complete_tx e txid msg s =
     (let s = run_handler e (fst (Completed msg)) s
      in s\<lparr>m_TXMsgs := omap_erase txid (m_TXMsgs s)\<rparr>)"

primrec HandleMACK_loop :: "env \<Rightarrow> nat \<Rightarrow> nat \<Rightarrow> bytes \<Rightarrow> session \<Rightarrow> session" where
  "HandleMACK_loop e 0 ptr data s = s"
| "HandleMACK_loop e (Suc numAcks) ptr data s =
     (let acked = load_be64 (e_oxenc e) (segment ptr 8 data);
          s = (case map_of (m_TXMsgs s) acked of
                 Some msg \<Rightarrow>
                   complete_tx e acked msg
                     (s\<lparr>m_Stats := (m_Stats s)\<lparr>totalAckedTX := totalAckedTX (m_Stats s) + 1,
                                    totalInFlightTX := totalInFlightTX (m_Stats s) - 1\<rparr>\<rparr>)
               | None \<Rightarrow> s)
      in HandleMACK_loop e numAcks (ptr + 8) data s)"

definition HandleMACK :: "env \<Rightarrow> bytes \<Rightarrow> session \<Rightarrow> exn + session" where
  "HandleMACK e data s =
     (if length data < 3 + PacketOverhead then Inr s
      else let numAcks = unat (data ! (CommandOverhead + PacketOverhead))
           in if length data < 1 + CommandOverhead + PacketOverhead + numAcks * 8 then Inr s
              else Inr (HandleMACK_loop e numAcks (CommandOverhead + PacketOverhead + 1) data s))"

definition HandleNACK :: "env \<Rightarrow> bytes \<Rightarrow> session \<Rightarrow> exn + session" where
  "HandleNACK e data s =
     (if length data < CommandOverhead + 8 + PacketOverhead then Inr s
      else let txid = load_be64 (e_oxenc e) (segment (CommandOverhead + PacketOverhead) 8 data);
               s = (case map_of (m_TXMsgs s) txid of
                      Some msg \<Rightarrow> let (rd, s) = draw e s
                                  in EncryptAndSend e (XMIT (e_oxenc e) rd msg) s
                    | None \<Rightarrow> s)
           in Inr (s\<lparr>m_LastRX := e_now e\<rparr>))"

definition HandleACKS :: "env \<Rightarrow> bytes \<Rightarrow> session \<Rightarrow> exn + session" where
  "HandleACKS e data s =
     (if length data < 11 + PacketOverhead then Inr s
      else
        let s = s\<lparr>m_LastRX := e_now e\<rparr>;
            txid = load_be64 (e_oxenc e) (segment (2 + PacketOverhead) 8 data)
        in case map_of (m_TXMsgs s) txid of
             None \<Rightarrow> Inr s
           | Some msg \<Rightarrow>
               let msg = Ack (data ! (10 + PacketOverhead)) msg;
                   s = s\<lparr>m_TXMsgs := omap_put txid msg (m_TXMsgs s)\<rparr>
               in bind_exn (IsTransmitted msg)
                    (\<lambda>done. if done then Inr (complete_tx e txid msg s)
                            else flush_message e txid s))"

definition HandleCLOS :: "env \<Rightarrow> bytes \<Rightarrow> session \<Rightarrow> exn + session" where
  "HandleCLOS e data s = Inr (Session_Close e s)"

definition HandlePING :: "env \<Rightarrow> bytes \<Rightarrow> session \<Rightarrow> exn + session" where
  "HandlePING e data s = Inr (s\<lparr>m_LastRX := e_now e\<rparr>)"

text \<open>The \<^verbatim>\<open>switch\<close> of \<^verbatim>\<open>HandlePlaintext\<close>; an unknown command is logged and ignored.\<close>

definition HandleCommand :: "env \<Rightarrow> bytes \<Rightarrow> session \<Rightarrow> exn + session" where
  "HandleCommand e result s =
     bind_exn (at result (PacketOverhead + 1))
       (\<lambda>cmd. if cmd = Command_code eXMIT then HandleXMIT e result s
              else if cmd = Command_code eDATA then HandleDATA e result s
              else if cmd = Command_code eACKS then HandleACKS e result s
              else if cmd = Command_code ePING then HandlePING e result s
              else if cmd = Command_code eNACK then HandleNACK e result s
              else if cmd = Command_code eCLOS then HandleCLOS e result s
              else if cmd = Command_code eMACK then HandleMACK e result s
              else Inr s)"


text \<open>
  The loop of \<^verbatim>\<open>SendMACK\<close>: \<^verbatim>\<open>itr\<close> is a reference to the front of the heap, so each write
  sees the element the last \<^verbatim>\<open>pop\<close> brought there.
\<close>

function SendMACK_loop :: "env \<Rightarrow> session \<Rightarrow> session" where
  "SendMACK_loop e s =
     (if m_SendMACKs s = [] then s
      else
        let numAcks = min (length (m_SendMACKs s)) MaxACKSInMACK;
            (rd, s) = draw e s;
            mack = CreatePacket rd eMACK (1 + numAcks * 8) 16 16;
            mack = mack[PacketOverhead + CommandOverhead := of_nat numAcks];
            mack = poke (3 + PacketOverhead)
                     (concat (map (write_be64 (e_oxenc e)) (take numAcks (m_SendMACKs s)))) mack;
            s = s\<lparr>m_SendMACKs := drop numAcks (m_SendMACKs s)\<rparr>
        in SendMACK_loop e (EncryptAndSend e mack s))"
  by pat_completeness auto

lemma Send_LL_keeps_macks [simp]: "m_SendMACKs (Send_LL e pkt s) = m_SendMACKs s"
  by (simp add: Send_LL_def emit_def)

lemma EncryptWorker_keeps_macks [simp]: "m_SendMACKs (EncryptWorker e msgs s) = m_SendMACKs s"
  unfolding EncryptWorker_def by (induction msgs arbitrary: s) simp_all

lemma EncryptAndSend_keeps_macks [simp]: "m_SendMACKs (EncryptAndSend e pkt s) = m_SendMACKs s"
  by (simp add: EncryptAndSend_def TriggerPump_def emit_def Let_def)

termination SendMACK_loop
  by (relation "measure (\<lambda>(e, s). length (m_SendMACKs s))")
    (auto simp: MaxACKSInMACK_def draw_def min_def)

declare SendMACK_loop.simps [simp del]

definition SendMACK :: "env \<Rightarrow> session \<Rightarrow> session" where
  "SendMACK e s = SendMACK_loop e s"

fun HandleCommands :: "env \<Rightarrow> bytes list \<Rightarrow> session \<Rightarrow> exn + session" where
  "HandleCommands e [] s = Inr s"
| "HandleCommands e (r # rs) s = bind_exn (HandleCommand e r s) (HandleCommands e rs)"

text \<open>
  The handlers never put anything into \<^verbatim>\<open>m_PlaintextRecv\<close>, so the loop of
  \<^verbatim>\<open>HandlePlaintext\<close> runs over what the queue held at the start.
\<close>

fun HandleQueues :: "env \<Rightarrow> bytes list list \<Rightarrow> session \<Rightarrow> exn + session" where
  "HandleQueues e [] s = Inr s"
| "HandleQueues e (q # qs) s =
     bind_exn (HandleCommands e q (s\<lparr>m_PlaintextRecv := qs\<rparr>)) (HandleQueues e qs)"

definition HandlePlaintext :: "env \<Rightarrow> session \<Rightarrow> exn + session" where
  "HandlePlaintext e s =
     (if m_PlaintextEmpty s then Inr s
      else bind_exn (HandleQueues e (m_PlaintextRecv s) (s\<lparr>m_PlaintextEmpty := True\<rparr>))
             (\<lambda>s. Inr (emit WokePlaintext (SendMACK e s))))"

definition decrypt_all :: "env \<Rightarrow> session \<Rightarrow> bytes list \<Rightarrow> bytes list" where
  "decrypt_all e s msgs =
     filter (\<lambda>pkt. pkt ! PacketOverhead = proto_version)
       (List.map_filter (DecryptMessageInPlace e s) msgs)"

definition DecryptWorker :: "env \<Rightarrow> bytes list \<Rightarrow> session \<Rightarrow> session" where
  "DecryptWorker e msgs s =
     (let msgs = decrypt_all e s msgs;
          s = (if length (m_PlaintextRecv s) < PlaintextQueueSize
               then s\<lparr>m_PlaintextRecv := m_PlaintextRecv s @ [msgs]\<rparr> else s)
      in emit WokePlaintext (s\<lparr>m_PlaintextEmpty := False\<rparr>))"

fun run_job :: "env \<Rightarrow> job \<Rightarrow> session \<Rightarrow> session" where
  "run_job e (EncryptJob data) s = EncryptWorker e data s"
| "run_job e (DecryptJob data) s = DecryptWorker e data s"


section \<open>Pump and Tick\<close>

text \<open>The loop of \<^verbatim>\<open>Pump\<close> over \<^verbatim>\<open>m_RXMsgs\<close>, by identifier in ascending order.\<close>

fun Pump_acks :: "env \<Rightarrow> u64 list \<Rightarrow> session \<Rightarrow> session" where
  "Pump_acks e [] s = s"
| "Pump_acks e (rxid # ids) s =
     Pump_acks e ids
       (case map_of (m_RXMsgs s) rxid of
          None \<Rightarrow> s
        | Some msg \<Rightarrow>
            if ShouldSendACKS msg (e_now e)
            then let (rd, s) = draw e s;
                     (pkt, msg) = SendACKS (e_oxenc e) rd (e_now e) msg
                 in EncryptAndSend e pkt (s\<lparr>m_RXMsgs := omap_put rxid msg (m_RXMsgs s)\<rparr>)
            else s)"

text \<open>
  The messages to send again in the order \<^verbatim>\<open>to_resend\<close> yields them, by identifier.
\<close>

definition to_resend :: "llarp_time_t \<Rightarrow> (u64 \<times> handler OutboundMessage) list \<Rightarrow> u64 list" where
  "to_resend now txs =
     map fst (fold (pq_push (\<lambda>a b. OutboundMessage_operator_less (snd a) (snd b)))
       (filter (\<lambda>kv. ShouldFlush (snd kv) now) txs) [])"

fun Pump_resend :: "env \<Rightarrow> u64 list \<Rightarrow> session \<Rightarrow> exn + session" where
  "Pump_resend e [] s = Inr s"
| "Pump_resend e (txid # ids) s = bind_exn (flush_message e txid s) (Pump_resend e ids)"

definition Session_Pump :: "env \<Rightarrow> session \<Rightarrow> exn + session" where
  "Session_Pump e s =
     bind_exn
       (if m_State s = Ready \<or> m_State s = LinkIntro
        then let s = (if ShouldPing e s then SendKeepAlive e s else s);
                 s = Pump_acks e (map fst (m_RXMsgs s)) s
             in Pump_resend e (to_resend (e_now e) (m_TXMsgs s)) s
        else Inr s)
       (\<lambda>s. let s = (if m_EncryptNext s \<noteq> []
                     then s\<lparr>m_Jobs := m_Jobs s @ [EncryptJob (m_EncryptNext s)], m_EncryptNext := []\<rparr>
                     else s);
                s = (if m_DecryptNext s \<noteq> []
                     then s\<lparr>m_Jobs := m_Jobs s @ [DecryptJob (m_DecryptNext s)], m_DecryptNext := []\<rparr>
                     else s)
            in Inr s)"

definition TimedOut :: "session \<Rightarrow> llarp_time_t \<Rightarrow> bool" where
  "TimedOut s now =
     (if m_State s = Ready
      then now > m_LastRX s \<and>
           now - m_LastRX s > (if m_Inbound s \<and> \<not> IsPublicRouter (m_RemoteRC s)
                               then DefaultLinkSessionLifetime else SessionAliveTimeout)
      else now - m_CreatedAt s \<ge> LinkLayerConnectTimeout)"

definition ShouldResetRates :: "session \<Rightarrow> llarp_time_t \<Rightarrow> bool" where
  "ShouldResetRates s now \<longleftrightarrow> now \<ge> m_ResetRatesAt s"

definition ResetRates :: "session \<Rightarrow> session" where
  "ResetRates s = s\<lparr>m_Stats := (m_Stats s)\<lparr>currentRateTX := m_TXRate s, currentRateRX := m_RXRate s\<rparr>,
     m_RXRate := 0, m_TXRate := 0\<rparr>"

definition drop_tx :: "env \<Rightarrow> u64 \<times> handler OutboundMessage \<Rightarrow> session \<Rightarrow> session" where
  "drop_tx e kv s =
     (let s = s\<lparr>m_Stats := (m_Stats s)\<lparr>totalDroppedTX := totalDroppedTX (m_Stats s) + 1,
                              totalInFlightTX := totalInFlightTX (m_Stats s) - 1\<rparr>\<rparr>;
          s = run_handler e (fst (InformTimeout (snd kv))) s
      in s\<lparr>m_TXMsgs := omap_erase (fst kv) (m_TXMsgs s)\<rparr>)"

definition drop_rx :: "llarp_time_t \<Rightarrow> u64 \<times> InboundMessage \<Rightarrow> session \<Rightarrow> session" where
  "drop_rx now kv s =
     s\<lparr>m_ReplayFilter := umap_emplace (fst kv) now (m_ReplayFilter s),
       m_RXMsgs := omap_erase (fst kv) (m_RXMsgs s)\<rparr>"

definition Session_Tick :: "env \<Rightarrow> session \<Rightarrow> session" where
  "Session_Tick e s =
     (let now = e_now e;
          s = (if ShouldResetRates s now then (ResetRates s)\<lparr>m_ResetRatesAt := now + 1000\<rparr> else s);
          s = fold (drop_tx e)
                (filter (\<lambda>kv. OutboundMessage_IsTimedOut (snd kv) now) (m_TXMsgs s)) s;
          s = fold (drop_rx now)
                (filter (\<lambda>kv. InboundMessage_IsTimedOut (snd kv) now) (m_RXMsgs s)) s
      in s\<lparr>m_ReplayFilter := umap_erase_if (\<lambda>_ t. t + ReplayWindow \<le> now) (m_ReplayFilter s)\<rparr>)"

end
