(* ===== verification/Iwp_Session_Inv.thy ===== *)
theory Iwp_Session_Inv
  imports Iwp_Session
begin

section \<open>What sending leaves alone\<close>

text \<open>
  The deliveries in the list of events, and the receiving side of a session: the session
  with every field forgotten that sending, closing and the calls of the router may
  change. Most of the operations keep it.
\<close>

fun delivery :: "event \<Rightarrow> (llarp_time_t \<times> u64 \<times> bytes) option" where
  "delivery (Delivered t i d) = Some (t, i, d)"
| "delivery _ = None"

definition deliveries :: "session \<Rightarrow> (llarp_time_t \<times> u64 \<times> bytes) list" where
  "deliveries s = List.map_filter delivery (m_events s)"

definition rx_side :: "session \<Rightarrow> session" where
  "rx_side s = s\<lparr>m_State := Initial, m_SentClosed := False, m_EncryptNext := [], m_LastTX := 0,
     m_LastRX := 0, m_TXRate := 0, m_rpos := 0, m_TXMsgs := [], m_TXID := 0,
     m_Stats := new_SessionStats, m_RemoteRC := empty_RouterContact, GotLIM := RenegLIM,
     m_SendMACKs := [],
     m_events := filter (\<lambda>ev. delivery ev \<noteq> None) (m_events s)\<rparr>"

named_theorems rx_side_simps \<open>operations that keep the receiving side\<close>

lemma map_filter_filter_None:
  "List.map_filter f (filter (\<lambda>x. f x \<noteq> None) xs) = List.map_filter f xs"
  by (induction xs) (auto simp: map_filter_simps split: option.splits)

lemma rx_side_sel:
  shows "m_RXMsgs (rx_side s) = m_RXMsgs s"
    and "m_ReplayFilter (rx_side s) = m_ReplayFilter s"
    and "deliveries (rx_side s) = deliveries s"
    and "m_Inbound (rx_side s) = m_Inbound s"
    and "m_ExpectedIdent (rx_side s) = m_ExpectedIdent s"
    and "m_DecryptNext (rx_side s) = m_DecryptNext s"
    and "m_Jobs (rx_side s) = m_Jobs s"
    and "m_PlaintextRecv (rx_side s) = m_PlaintextRecv s"
    and "m_PlaintextEmpty (rx_side s) = m_PlaintextEmpty s"
    and "m_SessionKey (rx_side s) = m_SessionKey s"
    and "token (rx_side s) = token s"
  by (simp_all add: rx_side_def deliveries_def map_filter_filter_None del: not_None_eq)

lemma rx_sideD:
  assumes "rx_side s' = rx_side s"
  shows "m_RXMsgs s' = m_RXMsgs s"
    and "m_ReplayFilter s' = m_ReplayFilter s"
    and "deliveries s' = deliveries s"
    and "m_Inbound s' = m_Inbound s"
    and "m_ExpectedIdent s' = m_ExpectedIdent s"
    and "m_DecryptNext s' = m_DecryptNext s"
    and "m_Jobs s' = m_Jobs s"
    and "m_PlaintextRecv s' = m_PlaintextRecv s"
    and "m_PlaintextEmpty s' = m_PlaintextEmpty s"
    and "m_SessionKey s' = m_SessionKey s"
    and "token s' = token s"
  using rx_side_sel [of s'] rx_side_sel [of s] unfolding assms by simp_all

lemma rx_side_emit [rx_side_simps]:
  "delivery ev = None \<Longrightarrow> rx_side (emit ev s) = rx_side s"
  by (simp add: rx_side_def emit_def)

lemma rx_side_draw [rx_side_simps]: "rx_side (snd (draw e s)) = rx_side s"
  by (simp add: rx_side_def draw_def)

lemma rx_side_upd [rx_side_simps]:
  "rx_side (s\<lparr>m_State := a\<rparr>) = rx_side s" "rx_side (s\<lparr>m_SentClosed := b\<rparr>) = rx_side s"
  "rx_side (s\<lparr>m_EncryptNext := c\<rparr>) = rx_side s" "rx_side (s\<lparr>m_LastTX := d\<rparr>) = rx_side s"
  "rx_side (s\<lparr>m_LastRX := t\<rparr>) = rx_side s" "rx_side (s\<lparr>m_TXRate := f\<rparr>) = rx_side s"
  "rx_side (s\<lparr>m_rpos := g\<rparr>) = rx_side s" "rx_side (s\<lparr>m_TXMsgs := h\<rparr>) = rx_side s"
  "rx_side (s\<lparr>m_TXID := i\<rparr>) = rx_side s" "rx_side (s\<lparr>m_Stats := j\<rparr>) = rx_side s"
  "rx_side (s\<lparr>m_RemoteRC := k\<rparr>) = rx_side s" "rx_side (s\<lparr>GotLIM := l\<rparr>) = rx_side s"
  "rx_side (s\<lparr>m_SendMACKs := m\<rparr>) = rx_side s"
  by (simp_all add: rx_side_def)

lemma rx_side_TriggerPump [rx_side_simps]: "rx_side (TriggerPump s) = rx_side s"
  by (simp add: TriggerPump_def rx_side_simps)

lemma rx_side_Send_LL [rx_side_simps]: "rx_side (Send_LL e pkt s) = rx_side s"
  by (simp add: Send_LL_def rx_side_simps)

lemma rx_side_EncryptWorker [rx_side_simps]: "rx_side (EncryptWorker e msgs s) = rx_side s"
  unfolding EncryptWorker_def by (induction msgs arbitrary: s) (simp_all add: rx_side_simps)

lemma rx_side_EncryptAndSend [rx_side_simps]: "rx_side (EncryptAndSend e pkt s) = rx_side s"
  by (simp add: EncryptAndSend_def rx_side_simps Let_def)

lemma rx_side_sends [rx_side_simps]: "rx_side (fold (EncryptAndSend e) pkts s) = rx_side s"
  by (induction pkts arbitrary: s) (simp_all add: rx_side_simps)

lemma rx_side_Close [rx_side_simps]: "rx_side (Session_Close e s) = rx_side s"
  by (simp add: Session_Close_def draw_def rx_side_simps Let_def)

lemma rx_side_flush_message:
  "flush_message e i s = Inr s' \<Longrightarrow> rx_side s' = rx_side s"
  by (auto simp: flush_message_def bind_exn_Inr_iff rx_side_simps split: option.splits)

lemma rx_side_MapAddr [rx_side_simps]: "rx_side (MapAddr e s) = rx_side s"
  by (simp add: MapAddr_def rx_side_simps split: map_result.split)

lemma rx_side_run_handler [rx_side_simps]: "rx_side (run_handler e h s) = rx_side s"
  by (cases "(e, h, s)" rule: run_handler.cases) (simp_all add: rx_side_simps)

lemma rx_side_SendMessageBuffer:
  "SendMessageBuffer e buf h prio s = Inr (b, s') \<Longrightarrow> rx_side s' = rx_side s"
  by (auto simp: SendMessageBuffer_def bind_exn_Inr_iff rx_side_simps draw_def Let_def
      dest!: rx_side_flush_message split: if_splits)

lemma rx_side_SendOurLIM: "SendOurLIM e h s = Inr s' \<Longrightarrow> rx_side s' = rx_side s"
  by (auto simp: SendOurLIM_def draw_def bind_exn_Inr_iff rx_side_simps Let_def
      dest!: rx_side_SendMessageBuffer split: option.splits)

lemma rx_side_call_GotLIM: "call_GotLIM e rc s = Inr s' \<Longrightarrow> rx_side s' = rx_side s"
  by (auto simp: call_GotLIM_def GotInboundLIM_def GotOutboundLIM_def GotRenegLIM_def Let_def
      rx_side_simps dest!: rx_side_SendOurLIM split: GotLIM_fn.splits if_splits)

lemma rx_side_SendKeepAlive [rx_side_simps]: "rx_side (SendKeepAlive e s) = rx_side s"
  by (simp add: SendKeepAlive_def draw_def rx_side_simps)

lemma rx_side_run_call: "run_call e c s = Inr s' \<Longrightarrow> rx_side s' = rx_side s"
  by (cases c) (auto simp: bind_exn_Inr_iff RenegotiateSession_def rx_side_simps
      dest!: rx_side_call_GotLIM rx_side_SendMessageBuffer rx_side_SendOurLIM)

lemma rx_side_run_calls: "run_calls e cs s = Inr s' \<Longrightarrow> rx_side s' = rx_side s"
  by (induction cs arbitrary: s) (auto simp: bind_exn_Inr_iff dest: rx_side_run_call)

lemma rx_side_complete_tx [rx_side_simps]: "rx_side (complete_tx e i m s) = rx_side s"
  by (simp add: complete_tx_def rx_side_simps Let_def)

lemma rx_side_HandleMACK_loop [rx_side_simps]:
  "rx_side (HandleMACK_loop e n ptr data s) = rx_side s"
  by (induction n arbitrary: ptr s) (simp_all add: rx_side_simps Let_def split: option.split)

lemma rx_side_HandleMACK: "HandleMACK e data s = Inr s' \<Longrightarrow> rx_side s' = rx_side s"
  by (auto simp: HandleMACK_def Let_def rx_side_simps split: if_splits)

lemma rx_side_HandleNACK: "HandleNACK e data s = Inr s' \<Longrightarrow> rx_side s' = rx_side s"
  by (auto simp: HandleNACK_def Let_def draw_def rx_side_simps split: if_splits option.splits)

lemma rx_side_HandleACKS: "HandleACKS e data s = Inr s' \<Longrightarrow> rx_side s' = rx_side s"
  by (auto simp: HandleACKS_def Let_def bind_exn_Inr_iff rx_side_simps
      dest!: rx_side_flush_message split: if_splits option.splits)

lemma rx_side_SendMACK [rx_side_simps]: "rx_side (SendMACK e s) = rx_side s"
  unfolding SendMACK_def
proof (induction e s rule: SendMACK_loop.induct)
  case (1 e s)
  then show ?case
    by (subst SendMACK_loop.simps) (simp add: Let_def draw_def rx_side_simps)
qed

lemma rx_side_drop_tx [rx_side_simps]: "rx_side (drop_tx e kv s) = rx_side s"
  by (simp add: drop_tx_def rx_side_simps Let_def)

lemma rx_side_Pump_resend: "Pump_resend e ids s = Inr s' \<Longrightarrow> rx_side s' = rx_side s"
  by (induction ids arbitrary: s) (auto simp: bind_exn_Inr_iff dest: rx_side_flush_message)

section \<open>The replay invariant\<close>

text \<open>
  What the receiving side keeps: identifiers are filed under themselves, a message is
  either being received or remembered in the replay filter and never both, and every
  delivery is either still remembered or at least the replay window old. Deliveries of
  the same identifier are then separated by the replay window.
\<close>

type_synonym delivery_log = "(llarp_time_t \<times> u64 \<times> bytes) list"

definition separated :: "llarp_time_t \<times> u64 \<times> bytes \<Rightarrow> llarp_time_t \<times> u64 \<times> bytes \<Rightarrow> bool" where
  "separated x y \<longleftrightarrow> (fst (snd x) = fst (snd y) \<longrightarrow> fst x + ReplayWindow \<le> fst y)"

definition remembered ::
  "llarp_time_t \<Rightarrow> (u64 \<Rightarrow> llarp_time_t option) \<Rightarrow> llarp_time_t \<times> u64 \<times> bytes \<Rightarrow> bool" where
  "remembered now replay x \<longleftrightarrow>
     fst x + ReplayWindow \<le> now \<or> (\<exists>t. replay (fst (snd x)) = Some t \<and> fst x \<le> t)"

definition rx_ok ::
  "llarp_time_t \<Rightarrow> (u64 \<times> InboundMessage) list \<Rightarrow> (u64 \<Rightarrow> llarp_time_t option) \<Rightarrow> delivery_log \<Rightarrow> bool"
  where
  "rx_ok now rx replay log \<longleftrightarrow>
     omap_ok rx \<and>
     (\<forall>i m. map_of rx i = Some m \<longrightarrow> im_MsgID m = i \<and> replay i = None) \<and>
     sorted_wrt separated log \<and> (\<forall>x\<in>set log. remembered now replay x)"

definition rx_inv :: "llarp_time_t \<Rightarrow> session \<Rightarrow> bool" where
  "rx_inv now s = rx_ok now (m_RXMsgs s) (m_ReplayFilter s) (deliveries s)"

lemma rx_inv_cong:
  assumes "rx_side s' = rx_side s"
  shows "rx_inv now s' = rx_inv now s"
  by (simp add: rx_inv_def rx_sideD [OF assms])

lemma remembered_mono: "remembered now replay x \<Longrightarrow> now \<le> now' \<Longrightarrow> remembered now' replay x"
  by (auto simp: remembered_def)

lemma remembered_emplace:
  "remembered now replay x \<Longrightarrow> remembered now (umap_emplace i t replay) x"
  by (auto simp: remembered_def umap_emplace_def split: option.split)

lemma remembered_decay:
  "remembered now replay x \<Longrightarrow>
     remembered now (umap_erase_if (\<lambda>_ t. t + ReplayWindow \<le> now) replay) x"
  by (auto simp: remembered_def umap_erase_if_def)

lemma rx_ok_mono: "rx_ok now rx replay log \<Longrightarrow> now \<le> now' \<Longrightarrow> rx_ok now' rx replay log"
  by (auto simp: rx_ok_def intro: remembered_mono)

lemma rx_inv_mono: "rx_inv now s \<Longrightarrow> now \<le> now' \<Longrightarrow> rx_inv now' s"
  by (auto simp: rx_inv_def intro: rx_ok_mono)

lemma rx_ok_put:
  "rx_ok now rx replay log \<Longrightarrow> im_MsgID m = i \<Longrightarrow> replay i = None \<Longrightarrow>
     rx_ok now (omap_put i m rx) replay log"
  by (auto simp: rx_ok_def map_simps)

lemma rx_ok_emplace:
  "rx_ok now rx replay log \<Longrightarrow> im_MsgID m = i \<Longrightarrow> replay i = None \<Longrightarrow>
     rx_ok now (omap_emplace i m rx) replay log"
  by (auto simp: omap_emplace_def rx_ok_put split: option.split)

lemma rx_ok_erase_emplace:
  assumes "rx_ok now rx replay log"
  shows "rx_ok now (omap_erase i rx) (umap_emplace i t replay) log"
  using assms
  by (auto simp: rx_ok_def map_simps remembered_emplace)
    (auto simp: umap_emplace_def split: option.split)

lemma rx_ok_deliver:
  assumes "rx_ok now rx replay log" and "replay i = None"
  shows "rx_ok now (omap_erase i rx) (umap_emplace i now replay) (log @ [(now, i, d)])"
proof -
  have "separated x (now, i, d)" if "x \<in> set log" for x
    using that assms by (auto simp: rx_ok_def separated_def remembered_def)
  moreover have "remembered now (umap_emplace i now replay) (now, i, d)"
    using assms(2) by (simp add: remembered_def umap_emplace_def)
  ultimately show ?thesis
    using rx_ok_erase_emplace [OF assms(1), of i now] by (simp add: rx_ok_def sorted_wrt_append)
qed

lemma rx_ok_decay:
  assumes "rx_ok now rx replay log"
  shows "rx_ok now rx (umap_erase_if (\<lambda>_ t. t + ReplayWindow \<le> now) replay) log"
  using assms
  by (auto simp: rx_ok_def remembered_decay) (simp add: umap_erase_if_def)

lemma HandleData_MsgID: "HandleData idx buf now m = Inr m' \<Longrightarrow> im_MsgID m' = im_MsgID m"
  by (auto simp: HandleData_def Let_def split: if_splits sum.splits)

lemma deliveries_emit:
  "deliveries (emit ev s) = deliveries s @ (case delivery ev of None \<Rightarrow> [] | Some x \<Rightarrow> [x])"
  by (simp add: deliveries_def emit_def List.map_filter_def split: option.split)

lemma deliveries_upd [simp]:
  "deliveries (s\<lparr>m_RXMsgs := a\<rparr>) = deliveries s"
  "deliveries (s\<lparr>m_ReplayFilter := b\<rparr>) = deliveries s"
  "deliveries (s\<lparr>m_LastRX := c\<rparr>) = deliveries s"
  "deliveries (s\<lparr>m_SendMACKs := d\<rparr>) = deliveries s"
  "deliveries (s\<lparr>m_PlaintextRecv := f\<rparr>) = deliveries s"
  "deliveries (s\<lparr>m_PlaintextEmpty := g\<rparr>) = deliveries s"
  by (simp_all add: deliveries_def)

lemma HandleRecvMsgCompleted_freshE:
  assumes "HandleRecvMsgCompleted e msg s = Inr s'" and "m_ReplayFilter s (im_MsgID msg) = None"
  obtains t where "HandleMessage e (im_MsgID msg) (im_Data msg)
      (s\<lparr>m_ReplayFilter := umap_emplace (im_MsgID msg) (e_now e) (m_ReplayFilter s)\<rparr>) = Inr t"
    and "s' = (let u = EncryptAndSend e (ACKS (e_oxenc e) (fst (draw e t)) msg) (snd (draw e t))
               in u\<lparr>m_RXMsgs := omap_erase (im_MsgID msg) (m_RXMsgs u)\<rparr>)"
  using assms by (auto simp: HandleRecvMsgCompleted_def bind_exn_Inr_iff Let_def split_beta)

lemma HandleRecvMsgCompleted_fresh:
  assumes "HandleRecvMsgCompleted e msg s = Inr s'" and "m_ReplayFilter s (im_MsgID msg) = None"
  shows "m_RXMsgs s' = omap_erase (im_MsgID msg) (m_RXMsgs s)"
    and "m_ReplayFilter s' = umap_emplace (im_MsgID msg) (e_now e) (m_ReplayFilter s)"
    and "deliveries s' = deliveries s @ [(e_now e, im_MsgID msg, im_Data msg)]"
proof -
  let ?i = "im_MsgID msg"
  let ?s = "emit (Delivered (e_now e) ?i (im_Data msg))
    (s\<lparr>m_ReplayFilter := umap_emplace ?i (e_now e) (m_ReplayFilter s)\<rparr>)"
  obtain u where u: "HandleMessage e ?i (im_Data msg)
      (s\<lparr>m_ReplayFilter := umap_emplace ?i (e_now e) (m_ReplayFilter s)\<rparr>) = Inr u"
    and s': "s' = (let t = EncryptAndSend e (ACKS (e_oxenc e) (fst (draw e u)) msg) (snd (draw e u))
                   in t\<lparr>m_RXMsgs := omap_erase ?i (m_RXMsgs t)\<rparr>)"
    using assms by (rule HandleRecvMsgCompleted_freshE)
  define t where "t = EncryptAndSend e (ACKS (e_oxenc e) (fst (draw e u)) msg) (snd (draw e u))"
  have "rx_side t = rx_side ?s"
    using u by (simp add: t_def HandleMessage_def rx_side_simps rx_side_run_calls)
  note eqs = rx_sideD [OF this]
  have s'': "s' = t\<lparr>m_RXMsgs := omap_erase ?i (m_RXMsgs t)\<rparr>" by (simp add: s' t_def Let_def)
  show "m_RXMsgs s' = omap_erase (im_MsgID msg) (m_RXMsgs s)"
    by (simp add: s'' eqs emit_def)
  show "m_ReplayFilter s' = umap_emplace (im_MsgID msg) (e_now e) (m_ReplayFilter s)"
    by (simp add: s'' eqs emit_def)
  show "deliveries s' = deliveries s @ [(e_now e, im_MsgID msg, im_Data msg)]"
    by (simp add: s'' eqs deliveries_emit)
qed

lemma rx_inv_HandleRecvMsgCompleted:
  assumes "rx_inv (e_now e) s" and "HandleRecvMsgCompleted e msg s = Inr s'"
    and "m_ReplayFilter s (im_MsgID msg) = None"
  shows "rx_inv (e_now e) s'"
  unfolding rx_inv_def HandleRecvMsgCompleted_fresh [OF assms(2,3)]
  using assms(1,3) by (simp add: rx_inv_def rx_ok_deliver)

lemma rx_inv_LastRX [simp]: "rx_inv now (s\<lparr>m_LastRX := t\<rparr>) = rx_inv now s"
  by (simp add: rx_inv_def)

lemma rx_inv_queue_mack [simp]: "rx_inv now (queue_mack i s) = rx_inv now s"
  by (simp add: rx_inv_def queue_mack_def)

lemma rx_inv_TriggerPump [simp]: "rx_inv now (TriggerPump s) = rx_inv now s"
  by (rule rx_inv_cong) (simp add: rx_side_simps)

lemma rx_inv_put_RX:
  "rx_inv now s \<Longrightarrow> im_MsgID m = i \<Longrightarrow> m_ReplayFilter s i = None \<Longrightarrow>
     rx_inv now (s\<lparr>m_RXMsgs := omap_put i m (m_RXMsgs s)\<rparr>)"
  by (simp add: rx_inv_def rx_ok_put)

lemma rx_inv_emplace_RX:
  "rx_inv now s \<Longrightarrow> im_MsgID m = i \<Longrightarrow> m_ReplayFilter s i = None \<Longrightarrow>
     rx_inv now (s\<lparr>m_RXMsgs := omap_emplace i m (m_RXMsgs s)\<rparr>)"
  by (simp add: rx_inv_def rx_ok_emplace)

text \<open>What both data handlers do with a stored fragment.\<close>

definition store_fragment :: "env \<Rightarrow> u64 \<Rightarrow> InboundMessage \<Rightarrow> session \<Rightarrow> exn + session" where
  "store_fragment e rxid msg s =
     (let s = s\<lparr>m_RXMsgs := omap_put rxid msg (m_RXMsgs s)\<rparr>
      in bind_exn (IsCompleted msg)
           (\<lambda>done. if done \<and> Verify (e_crypto e) msg then HandleRecvMsgCompleted e msg s
                   else Inr s))"

lemma rx_inv_store_fragment:
  assumes "rx_inv (e_now e) s" and "im_MsgID msg = rxid" and "m_ReplayFilter s rxid = None"
    and "store_fragment e rxid msg s = Inr s'"
  shows "rx_inv (e_now e) s'"
proof -
  let ?t = "s\<lparr>m_RXMsgs := omap_put rxid msg (m_RXMsgs s)\<rparr>"
  have t: "rx_inv (e_now e) ?t" using assms(1-3) by (rule rx_inv_put_RX)
  have "s' = ?t \<or> HandleRecvMsgCompleted e msg ?t = Inr s'"
    using assms(4) by (auto simp: store_fragment_def bind_exn_Inr_iff Let_def split: if_splits)
  then show ?thesis
    using t assms(2,3) rx_inv_HandleRecvMsgCompleted [OF t, of msg s'] by auto
qed

lemma HandleDATA_cases:
  assumes "HandleDATA e data s = Inr s'"
  obtains "s' = s"
    | rxid where "s' = queue_mack rxid (s\<lparr>m_LastRX := e_now e\<rparr>)"
    | pkt where "s' = EncryptAndSend e pkt (snd (draw e (s\<lparr>m_LastRX := e_now e\<rparr>)))"
    | rxid msg msg' sz where "map_of (m_RXMsgs s) rxid = Some msg"
        "HandleData sz (drop (PacketOverhead + 12) data) (e_now e) msg = Inr msg'"
        "store_fragment e rxid msg' (s\<lparr>m_LastRX := e_now e\<rparr>) = Inr s'"
proof (cases "length data < CommandOverhead + 2 + 8 + PacketOverhead")
  case True
  then show ?thesis using assms that(1) by (simp add: HandleDATA_def)
next
  case False
  define s1 where "s1 = s\<lparr>m_LastRX := e_now e\<rparr>"
  define sz where "sz = load_be16 (e_oxenc e) (segment (CommandOverhead + PacketOverhead) 2 data)"
  define rxid where
    "rxid = load_be64 (e_oxenc e) (segment (CommandOverhead + 2 + PacketOverhead) 8 data)"
  have rx: "m_RXMsgs s1 = m_RXMsgs s" by (simp add: s1_def)
  note H = assms [unfolded HandleDATA_def if_not_P [OF False] Let_def,
      folded s1_def sz_def rxid_def]
  show ?thesis
  proof (cases "map_of (m_RXMsgs s) rxid")
    case None
    then show ?thesis
      using H that(2) [of rxid] that(3) unfolding rx
      by (auto simp: split_beta s1_def [symmetric] split: if_splits)
  next
    case (Some msg)
    then show ?thesis
      using H that(4) [of rxid msg sz] unfolding rx
      by (auto simp: bind_exn_Inr_iff store_fragment_def s1_def [symmetric] Let_def rx)
  qed
qed

lemma rx_inv_HandleDATA:
  assumes "rx_inv (e_now e) s" and "HandleDATA e data s = Inr s'"
  shows "rx_inv (e_now e) s'"
  using assms(2)
proof (cases rule: HandleDATA_cases)
  case (3 pkt)
  have "rx_side s' = rx_side s" by (simp add: 3 rx_side_simps)
  then show ?thesis using assms(1) rx_inv_cong by blast
next
  case (4 rxid msg msg' sz)
  then have "im_MsgID msg' = rxid" "m_ReplayFilter s rxid = None"
    using assms(1) HandleData_MsgID [OF 4(2)] by (auto simp: rx_inv_def rx_ok_def)
  then show ?thesis
    using assms(1) by (intro rx_inv_store_fragment [OF _ _ _ 4(3)]) simp_all
qed (use assms(1) in simp_all)

definition accept_xmit :: "env \<Rightarrow> u64 \<Rightarrow> u16 \<Rightarrow> bytes \<Rightarrow> session \<Rightarrow> session" where
  "accept_xmit e rxid sz h s =
     TriggerPump (s\<lparr>m_LastRX := e_now e,
       m_RXMsgs := omap_emplace rxid (new_InboundMessage rxid sz h (e_now e)) (m_RXMsgs s)\<rparr>)"

lemma HandleXMIT_eq:
  assumes "\<not> length data < XMITOverhead"
  shows "HandleXMIT e data s =
    (let sz = load_be16 (e_oxenc e) (segment (CommandOverhead + PacketOverhead) 2 data);
         rxid = load_be64 (e_oxenc e) (segment (CommandOverhead + PacketOverhead + 2) 8 data);
         h = segment (CommandOverhead + PacketOverhead + 10) SHORTHASHSIZE data;
         n = unat (min sz (of_nat FragmentSize))
     in if m_ReplayFilter s rxid \<noteq> None then Inr (queue_mack rxid (s\<lparr>m_LastRX := e_now e\<rparr>))
        else if map_of (m_RXMsgs s) rxid \<noteq> None then Inr (s\<lparr>m_LastRX := e_now e\<rparr>)
        else if length data - XMITOverhead \<noteq> n then Inr (accept_xmit e rxid sz h s)
        else bind_exn (HandleData 0 (drop (length data - n) data) (e_now e)
                        (new_InboundMessage rxid sz h (e_now e)))
               (\<lambda>msg. store_fragment e rxid msg (accept_xmit e rxid sz h s)))"
proof -
  have swap: "(if \<not> d then Inr x else if \<not> v then Inr x else (y :: exn + session)) =
      (if d \<and> v then y else Inr x)" for d v x y by simp
  show ?thesis
    unfolding HandleXMIT_def if_not_P [OF assms] accept_xmit_def store_fragment_def Let_def swap
    by (simp del: not_None_eq cong: if_cong)
qed

lemma HandleXMIT_cases:
  assumes "HandleXMIT e data s = Inr s'"
  obtains "s' = s"
    | rxid where "s' = queue_mack rxid (s\<lparr>m_LastRX := e_now e\<rparr>)"
    | "s' = s\<lparr>m_LastRX := e_now e\<rparr>"
    | rxid sz h where "m_ReplayFilter s rxid = None" "s' = accept_xmit e rxid sz h s"
    | rxid sz h buf msg where "m_ReplayFilter s rxid = None"
        "HandleData 0 buf (e_now e) (new_InboundMessage rxid sz h (e_now e)) = Inr msg"
        "store_fragment e rxid msg (accept_xmit e rxid sz h s) = Inr s'"
proof (cases "length data < XMITOverhead")
  case True
  then show ?thesis using assms that(1) by (simp add: HandleXMIT_def)
next
  case False
  show ?thesis
    using assms [unfolded HandleXMIT_eq [OF False] Let_def] that(2-)
    by (auto simp: bind_exn_Inr_iff split: if_splits)
qed

lemma rx_inv_accept_xmit:
  "rx_inv now s \<Longrightarrow> m_ReplayFilter s rxid = None \<Longrightarrow> rx_inv now (accept_xmit e rxid sz h s)"
  using rx_inv_emplace_RX [of now "s\<lparr>m_LastRX := e_now e\<rparr>" "new_InboundMessage rxid sz h (e_now e)" rxid]
  by (simp add: accept_xmit_def new_InboundMessage_def)

lemma m_ReplayFilter_accept_xmit [simp]: "m_ReplayFilter (accept_xmit e i sz h s) = m_ReplayFilter s"
  by (simp add: accept_xmit_def TriggerPump_def emit_def)

lemma rx_inv_HandleXMIT:
  assumes "rx_inv (e_now e) s" and "HandleXMIT e data s = Inr s'"
  shows "rx_inv (e_now e) s'"
  using assms(2)
proof (cases rule: HandleXMIT_cases)
  case (5 rxid sz h buf msg)
  then have "im_MsgID msg = rxid"
    using HandleData_MsgID [OF 5(2)] by (simp add: new_InboundMessage_def)
  then show ?thesis
    using assms(1) 5(1) by (intro rx_inv_store_fragment [OF _ _ _ 5(3)] rx_inv_accept_xmit) simp_all
qed (use assms(1) in \<open>simp_all add: rx_inv_accept_xmit\<close>)

lemma HandleCommand_split:
  assumes "HandleCommand e data s = Inr s'"
  shows "HandleXMIT e data s = Inr s' \<or> HandleDATA e data s = Inr s' \<or> rx_side s' = rx_side s"
  using assms
  by (auto simp: HandleCommand_def bind_exn_Inr_iff HandlePING_def HandleCLOS_def rx_side_simps
      dest: rx_side_HandleACKS rx_side_HandleNACK rx_side_HandleMACK split: if_splits)

lemma rx_inv_HandleCommand:
  assumes "rx_inv (e_now e) s" and "HandleCommand e data s = Inr s'"
  shows "rx_inv (e_now e) s'"
  using HandleCommand_split [OF assms(2)] assms(1) rx_inv_HandleXMIT rx_inv_HandleDATA rx_inv_cong
  by blast

lemma rx_inv_HandleCommands:
  "HandleCommands e rs s = Inr s' \<Longrightarrow> rx_inv (e_now e) s \<Longrightarrow> rx_inv (e_now e) s'"
  by (induction rs arbitrary: s) (auto simp: bind_exn_Inr_iff dest: rx_inv_HandleCommand)

lemma rx_inv_PlaintextRecv [simp]: "rx_inv now (s\<lparr>m_PlaintextRecv := q\<rparr>) = rx_inv now s"
  by (simp add: rx_inv_def)

lemma rx_inv_HandleQueues:
  "HandleQueues e qs s = Inr s' \<Longrightarrow> rx_inv (e_now e) s \<Longrightarrow> rx_inv (e_now e) s'"
  by (induction qs arbitrary: s) (auto simp: bind_exn_Inr_iff dest!: rx_inv_HandleCommands)

lemma rx_inv_HandlePlaintext:
  assumes "rx_inv (e_now e) s" and "HandlePlaintext e s = Inr s'"
  shows "rx_inv (e_now e) s'"
proof (cases "m_PlaintextEmpty s")
  case False
  then obtain t where t: "HandleQueues e (m_PlaintextRecv s) (s\<lparr>m_PlaintextEmpty := True\<rparr>) = Inr t"
    and "s' = emit WokePlaintext (SendMACK e t)"
    using assms(2) by (auto simp: HandlePlaintext_def bind_exn_Inr_iff)
  moreover have "rx_inv (e_now e) t"
    using rx_inv_HandleQueues [OF t] assms(1) by (simp add: rx_inv_def)
  ultimately show ?thesis
    using rx_inv_cong [of "emit WokePlaintext (SendMACK e t)" t] by (simp add: rx_side_simps)
qed (use assms in \<open>simp add: HandlePlaintext_def\<close>)

lemma rx_inv_run_job:
  "rx_inv now s \<Longrightarrow> rx_inv now (run_job e j s)"
proof (cases j)
  case (EncryptJob data)
  assume "rx_inv now s"
  then show ?thesis
    using rx_inv_cong [of "run_job e j s" s] by (simp add: EncryptJob rx_side_simps)
qed (simp add: DecryptWorker_def Let_def rx_inv_def deliveries_emit, simp add: emit_def)

lemmas EncryptAndSend_fields [simp] = rx_sideD [OF rx_side_EncryptAndSend]

lemma rx_inv_EncryptAndSend [simp]: "rx_inv now (EncryptAndSend e pkt s) = rx_inv now s"
  by (rule rx_inv_cong) (simp add: rx_side_simps)

lemma rx_inv_upd [simp]:
  "rx_inv now (s\<lparr>m_State := a\<rparr>) = rx_inv now s" "rx_inv now (s\<lparr>m_rpos := b\<rparr>) = rx_inv now s"
  "rx_inv now (s\<lparr>m_SessionKey := c\<rparr>) = rx_inv now s" "rx_inv now (s\<lparr>token := d\<rparr>) = rx_inv now s"
  "rx_inv now (s\<lparr>m_DecryptNext := f\<rparr>) = rx_inv now s" "rx_inv now (s\<lparr>m_Jobs := g\<rparr>) = rx_inv now s"
  "rx_inv now (s\<lparr>m_EncryptNext := h\<rparr>) = rx_inv now s"
  "rx_inv now (s\<lparr>m_ExpectedIdent := i, m_RemoteOnionKey := j\<rparr>) = rx_inv now s"
  "rx_inv now (s\<lparr>m_RXRate := k, m_Stats := l\<rparr>) = rx_inv now s"
  by (simp_all add: rx_inv_def deliveries_def)

lemma rx_inv_HandleGotIntro: "rx_inv now s \<Longrightarrow> rx_inv now (HandleGotIntro e pkt s)"
  by (simp add: HandleGotIntro_def Let_def draw_def split: option.split)

lemma rx_inv_HandleGotIntroAck: "rx_inv now s \<Longrightarrow> rx_inv now (HandleGotIntroAck e pkt s)"
  by (simp add: HandleGotIntroAck_def Let_def draw_def split: option.split)

lemma rx_inv_HandleSessionData: "rx_inv now s \<Longrightarrow> rx_inv now (HandleSessionData pkt s)"
  by (simp add: HandleSessionData_def)

lemma rx_inv_SendOurLIM: "SendOurLIM e h s = Inr s' \<Longrightarrow> rx_inv now s \<Longrightarrow> rx_inv now s'"
  using rx_inv_cong rx_side_SendOurLIM by blast

lemma rx_inv_HandleCreateSessionRequest:
  "HandleCreateSessionRequest e pkt s = Inr s' \<Longrightarrow> rx_inv now s \<Longrightarrow> rx_inv now s'"
  by (auto simp: HandleCreateSessionRequest_def dest!: rx_inv_SendOurLIM
      split: option.splits if_splits)

lemma rx_inv_Recv_LL: "Recv_LL e data s = Inr (b, s') \<Longrightarrow> rx_inv now s \<Longrightarrow> rx_inv now s'"
  by (auto simp: Recv_LL_def Let_def bind_exn_Inr_iff
      intro: rx_inv_HandleGotIntro rx_inv_HandleGotIntroAck rx_inv_HandleSessionData
      dest!: rx_inv_HandleCreateSessionRequest split: State.splits if_splits option.splits)

lemma rx_inv_Session_Start: "rx_inv now s \<Longrightarrow> rx_inv now (Session_Start e s)"
  by (simp add: Session_Start_def GenerateAndSendIntro_def Let_def draw_def split: option.split)

lemma rx_inv_Pump_acks: "rx_inv now s \<Longrightarrow> rx_inv now (Pump_acks e ids s)"
proof (induction ids arbitrary: s)
  case (Cons i ids)
  have "rx_inv now (s\<lparr>m_rpos := p, m_RXMsgs := omap_put i (m\<lparr>im_LastACKSent := t\<rparr>) (m_RXMsgs s)\<rparr>)"
    if "map_of (m_RXMsgs s) i = Some m" for m p t
    using Cons.prems that by (auto simp: rx_inv_def deliveries_def rx_ok_def map_simps)
  then show ?case
    using Cons by (simp add: draw_def SendACKS_def split: option.split)
qed simp

lemma rx_inv_Session_Pump:
  assumes "Session_Pump e s = Inr s'" and "rx_inv now s"
  shows "rx_inv now s'"
proof -
  have "rx_inv now (if ShouldPing e s then SendKeepAlive e s else s)"
    using assms(2) rx_inv_cong [OF rx_side_SendKeepAlive] by simp
  then show ?thesis
    using assms rx_inv_cong [OF rx_side_Pump_resend]
    by (auto simp: Session_Pump_def Let_def bind_exn_Inr_iff rx_inv_Pump_acks split: if_splits)
qed

lemma rx_inv_drop_rx:
  "rx_inv now s \<Longrightarrow> rx_inv now (drop_rx now kv s)"
  by (simp add: rx_inv_def drop_rx_def deliveries_def rx_ok_erase_emplace)

lemma rx_inv_fold_drop_rx: "rx_inv now s \<Longrightarrow> rx_inv now (fold (drop_rx now) kvs s)"
  by (induction kvs arbitrary: s) (simp_all add: rx_inv_drop_rx)

lemma rx_side_fold_drop_tx: "rx_side (fold (drop_tx e) kvs s) = rx_side s"
  by (induction kvs arbitrary: s) (simp_all add: rx_side_simps)

lemma rx_inv_ResetRates [simp]: "rx_inv now ((ResetRates s)\<lparr>m_ResetRatesAt := t\<rparr>) = rx_inv now s"
  by (simp add: rx_inv_def ResetRates_def deliveries_def)

lemma rx_inv_Session_Tick:
  assumes "rx_inv (e_now e) s"
  shows "rx_inv (e_now e) (Session_Tick e s)"
proof -
  have decay: "rx_inv (e_now e) (t\<lparr>m_ReplayFilter :=
      umap_erase_if (\<lambda>_ t. t + ReplayWindow \<le> e_now e) (m_ReplayFilter t)\<rparr>)"
    if "rx_inv (e_now e) t" for t
    using that by (simp add: rx_inv_def rx_ok_decay)
  show ?thesis
    unfolding Session_Tick_def Let_def
    by (intro decay rx_inv_fold_drop_rx) (simp add: rx_inv_cong [OF rx_side_fold_drop_tx] assms)
qed

lemma rx_inv_run_call: "run_call e c s = Inr s' \<Longrightarrow> rx_inv now s \<Longrightarrow> rx_inv now s'"
  using rx_inv_cong rx_side_run_call by blast


section \<open>Runs of a session\<close>

text \<open>
  The steps of a session and the clock: a datagram, a job run by a worker (in any order),
  the plaintext handler, the pump, the timer, a call from the link layer or the router.
  The clock never goes back and the cryptography stays the same; everything else in the
  environment may differ from step to step. \<^verbatim>\<open>GotLIM\<close> is only called from the handling of a
  delivered message.
\<close>

inductive session_step :: "crypto \<Rightarrow> llarp_time_t \<times> session \<Rightarrow> llarp_time_t \<times> session \<Rightarrow> bool"
  for cr :: crypto where
  step_Recv: "c \<le> e_now e \<Longrightarrow> e_crypto e = cr \<Longrightarrow> Recv_LL e data s = Inr (b, s') \<Longrightarrow>
     session_step cr (c, s) (e_now e, s')"
| step_Job: "c \<le> e_now e \<Longrightarrow> e_crypto e = cr \<Longrightarrow> j < length (m_Jobs s) \<Longrightarrow>
     s' = run_job e (m_Jobs s ! j) (s\<lparr>m_Jobs := take j (m_Jobs s) @ drop (Suc j) (m_Jobs s)\<rparr>) \<Longrightarrow>
     session_step cr (c, s) (e_now e, s')"
| step_Plaintext: "c \<le> e_now e \<Longrightarrow> e_crypto e = cr \<Longrightarrow> HandlePlaintext e s = Inr s' \<Longrightarrow>
     session_step cr (c, s) (e_now e, s')"
| step_Pump: "c \<le> e_now e \<Longrightarrow> e_crypto e = cr \<Longrightarrow> Session_Pump e s = Inr s' \<Longrightarrow>
     session_step cr (c, s) (e_now e, s')"
| step_Tick: "c \<le> e_now e \<Longrightarrow> e_crypto e = cr \<Longrightarrow> s' = Session_Tick e s \<Longrightarrow>
     session_step cr (c, s) (e_now e, s')"
| step_Call: "c \<le> e_now e \<Longrightarrow> e_crypto e = cr \<Longrightarrow> run_call e call s = Inr s' \<Longrightarrow>
     \<forall>rc. call \<noteq> CallGotLIM rc \<Longrightarrow> session_step cr (c, s) (e_now e, s')"
| step_Start: "c \<le> e_now e \<Longrightarrow> e_crypto e = cr \<Longrightarrow> s' = Session_Start e s \<Longrightarrow>
     session_step cr (c, s) (e_now e, s')"

inductive session_init :: "crypto \<Rightarrow> llarp_time_t \<times> session \<Rightarrow> bool"
  for cr :: crypto where
  init_outbound: "e_crypto e = cr \<Longrightarrow> session_init cr (e_now e, Session_outbound e rc ai)"
| init_inbound: "e_crypto e = cr \<Longrightarrow> session_init cr (e_now e, Session_inbound e from)"

lemma rx_inv_init: "session_init cr cs \<Longrightarrow> rx_inv (fst cs) (snd cs)"
  by (induction rule: session_init.induct)
    (simp_all add: rx_inv_def rx_ok_def deliveries_def Session_outbound_def Session_inbound_def
      Session_common_def map_filter_simps)

lemma rx_inv_step: "session_step cr cs cs' \<Longrightarrow> rx_inv (fst cs) (snd cs) \<Longrightarrow> rx_inv (fst cs') (snd cs')"
  by (induction rule: session_step.induct)
    (auto dest: rx_inv_mono intro!: rx_inv_run_job intro: rx_inv_Recv_LL rx_inv_HandlePlaintext
      rx_inv_Session_Pump rx_inv_Session_Tick rx_inv_run_call rx_inv_Session_Start)

interpretation replay: invariant_system "session_init cr" "session_step cr" "\<lambda>cs. rx_inv (fst cs) (snd cs)"
  by unfold_locales (auto intro: rx_inv_init rx_inv_step)


text \<open>
  C5. At most once within the replay window: in every run of a session, whatever
  datagrams arrive, in whatever order the workers run their jobs and whatever the router
  does in its message handler, two deliveries of messages with the same identifier are at
  least \<^verbatim>\<open>ReplayWindow\<close> (1200 ms) apart.
\<close>

theorem delivered_at_most_once_in_window:
  assumes "reach (session_init cr) (session_step cr) (c, s)"
    and "a < b" and "b < length (deliveries s)"
    and "deliveries s ! a = (t, i, d)" and "deliveries s ! b = (t', i, d')"
  shows "t + 1200 \<le> t'"
proof -
  have "sorted_wrt separated (deliveries s)"
    using replay.reach_inv [OF assms(1)] by (simp add: rx_inv_def rx_ok_def)
  then have "separated (t, i, d) (t', i, d')"
    using assms(2-5) sorted_wrt_nth_less by metis
  then show ?thesis by (simp add: separated_def iwp_times)
qed

text \<open>
  A run with two deliveries: a session closed from the outside still takes in datagrams;
  the same message arrives at 1000 ms and, after the timer has emptied the replay filter,
  again at 4000 ms.
\<close>

definition example_env :: "llarp_time_t \<Rightarrow> env" where
  "example_env now = \<lparr>e_crypto = plain_crypto, e_oxenc = oxenc_be, e_rnd = (\<lambda>_. zero_draw),
     e_now = now, e_our_pubkey = replicate 32 1, e_enc_secret = [], e_enc_public = replicate 32 2,
     e_transport_secret = [], e_Sign = (\<lambda>_. replicate 64 0), e_LIM = (\<lambda>_. None),
     e_MapAddr = (\<lambda>_. MapOk), e_HandleMessage = (\<lambda>_ _. [])\<rparr>"

definition example_packet :: bytes where
  "example_packet = encrypt_packet plain_crypto []
     (XMIT oxenc_be zero_draw
       (new_OutboundMessage plain_crypto 7 [1, 2, 3] 0 (None :: handler option) 0))"

definition example_receive :: "llarp_time_t \<Rightarrow> session \<Rightarrow> exn + session" where
  "example_receive now s =
     (let e = example_env now
      in bind_exn (Recv_LL e example_packet s)
        (\<lambda>(_, s). bind_exn (Session_Pump e s)
          (\<lambda>s. if m_Jobs s = [] then Inl AssertFailed
               else HandlePlaintext e
                      (run_job e (m_Jobs s ! 0) (s\<lparr>m_Jobs := drop (Suc 0) (m_Jobs s)\<rparr>)))))"

definition example_start :: session where
  "example_start = Session_Close (example_env 0) (Session_inbound (example_env 0) 5)"

definition example_run :: "exn + session" where
  "example_run = bind_exn (example_receive 1000 example_start)
     (\<lambda>s. example_receive 4000 (Session_Tick (example_env 3000) s))"

lemma example_run_deliveries:
  "\<not> isl example_run"
  "deliveries (projr example_run) = [(1000, 7, [1, 2, 3]), (4000, 7, [1, 2, 3])]"
  by code_simp+

lemma reach_example_receive:
  assumes "reach (session_init plain_crypto) (session_step plain_crypto) (c, s)" and "c \<le> now"
    and "example_receive now s = Inr s'"
  shows "reach (session_init plain_crypto) (session_step plain_crypto) (now, s')"
proof -
  let ?e = "example_env now"
  have now: "e_now ?e = now" "e_crypto ?e = plain_crypto" by (simp_all add: example_env_def)
  obtain b s1 s2 where 1: "Recv_LL ?e example_packet s = Inr (b, s1)"
    and 2: "Session_Pump ?e s1 = Inr s2" and 3: "m_Jobs s2 \<noteq> []"
    and 4: "HandlePlaintext ?e (run_job ?e (m_Jobs s2 ! 0) (s2\<lparr>m_Jobs := drop (Suc 0) (m_Jobs s2)\<rparr>)) = Inr s'"
    using assms(3) by (auto simp: example_receive_def Let_def bind_exn_Inr_iff split: if_splits)
  note r1 = reach_step [OF assms(1) step_Recv [OF _ _ 1]]
  note r2 = reach_step [OF r1 step_Pump [OF _ _ 2]]
  note r3 = reach_step [OF r2 step_Job [where e = ?e and j = 0]]
  show ?thesis
    using reach_step [OF r3 step_Plaintext [OF _ _ 4]] assms(2) 3 by (simp add: now)
qed

lemma reach_example_run: "reach (session_init plain_crypto) (session_step plain_crypto) (4000, projr example_run)"
proof -
  have 0: "reach (session_init plain_crypto) (session_step plain_crypto) (0, Session_inbound (example_env 0) 5)"
    using reach_init [of "session_init plain_crypto", OF init_inbound [of "example_env 0" _ 5]]
    by (simp add: example_env_def)
  have now: "e_now (example_env t) = t" "e_crypto (example_env t) = plain_crypto" for t by (simp_all add: example_env_def)
  have "session_step plain_crypto (0, Session_inbound (example_env 0) 5) (0, example_start)"
    using step_Call [of 0 "example_env 0" _ CallClose] by (simp add: now example_start_def)
  with 0 have 1: "reach (session_init plain_crypto) (session_step plain_crypto) (0, example_start)" by (rule reach_step)
  obtain s1 where s1: "example_receive 1000 example_start = Inr s1"
    and s2: "example_receive 4000 (Session_Tick (example_env 3000) s1) = Inr (projr example_run)"
    using example_run_deliveries(1) by (auto simp: example_run_def bind_exn_def split: sum.splits)
  from reach_example_receive [OF 1 _ s1] have "reach (session_init plain_crypto) (session_step plain_crypto) (1000, s1)"
    by simp
  moreover have "session_step plain_crypto (1000, s1) (3000, Session_Tick (example_env 3000) s1)"
    using step_Tick [of 1000 "example_env 3000"] by (simp add: now)
  ultimately have "reach (session_init plain_crypto) (session_step plain_crypto) (3000, Session_Tick (example_env 3000) s1)"
    by (rule reach_step)
  from reach_example_receive [OF this _ s2] show ?thesis by simp
qed

theorem delivered_at_most_once_in_window_witness:
  "deliveries (projr example_run) ! 0 = (1000, 7, [1, 2, 3]) \<and>
   deliveries (projr example_run) ! 1 = (4000, 7, [1, 2, 3]) \<and> (1000 :: int) + 1200 \<le> 4000"
  using delivered_at_most_once_in_window [OF reach_example_run, of 0 1]
  by (simp add: example_run_deliveries)

end
