(* ===== verification/Iwp_Delivery.thy ===== *)
theory Iwp_Delivery
  imports Iwp_Session_Inv
begin

text \<open>
  The path of a message between two IWP sessions: from the outbound message, through its
  encrypted packets, to the delivery at the receiving session. The layouts proved for the
  message layer and the round trip of the packet encryption meet the handlers here.
\<close>

section \<open>Encryption of a packet and its inverse\<close>

lemma decrypt_encrypt_packet:
  assumes c: "crypto_ok (e_crypto e)" and len: "PacketOverhead < length pkt"
  shows "\<exists>h. length h = 32 \<and>
    DecryptMessageInPlace e s (encrypt_packet (e_crypto e) (m_SessionKey s) pkt) = Some (poke 0 h pkt)"
proof -
  let ?k = "m_SessionKey s" and ?n = "segment 32 32 pkt"
  obtain b where b: "xchacha20 (e_crypto e) (drop 64 pkt) ?k ?n = Some b" "length b = length pkt - 64"
    "xchacha20 (e_crypto e) b ?k ?n = Some (drop 64 pkt)"
    using c unfolding crypto_ok_def by (metis length_drop)
  define p1 where "p1 = take 64 pkt @ b"
  have p1: "poke 64 b pkt = p1" using b(2) len by (simp add: p1_def poke_def iwp_consts)
  obtain h where h: "hmac (e_crypto e) (drop 32 p1) ?k = Some h" "length h = 32"
    using c unfolding crypto_ok_def by blast
  have enc: "encrypt_packet (e_crypto e) ?k pkt = h @ drop 32 p1"
    using b(1) h by (simp add: encrypt_packet_def Let_def iwp_consts p1) (simp add: poke_def)
  have d32: "drop 32 p1 = drop 32 (take 64 pkt) @ b"
    using len by (simp add: p1_def iwp_consts)
  have seg: "segment 32 32 (h @ drop 32 p1) = ?n" and d64: "drop 64 (h @ drop 32 p1) = b"
    using h(2) len by (simp_all add: d32 segment_def drop_take iwp_consts)
  have "drop 32 pkt = drop 32 (take 64 pkt) @ drop 64 pkt"
    using len by (intro nth_equalityI) (auto simp: nth_append iwp_consts)
  then have "poke 0 h pkt = h @ drop 32 (take 64 pkt) @ drop 64 pkt"
    using h(2) by (simp add: poke_def)
  moreover have "poke 64 (drop 64 pkt) (h @ drop 32 (take 64 pkt) @ b) =
      h @ drop 32 (take 64 pkt) @ drop 64 pkt"
    using h(2) len b(2) by (simp add: poke_def iwp_consts)
  ultimately have "poke 64 (drop 64 pkt) (h @ drop 32 p1) = poke 0 h pkt" by (simp add: d32)
  then have "DecryptMessageInPlace e s (h @ drop 32 p1) = Some (poke 0 h pkt)"
    using h b len seg d64 by (simp add: DecryptMessageInPlace_def iwp_consts d32)
  with h(2) show ?thesis unfolding enc by blast
qed

section \<open>Packets of a message\<close>

definition data_packet :: "oxenc \<Rightarrow> bytes \<Rightarrow> u64 \<Rightarrow> nat \<Rightarrow> bytes \<Rightarrow> bool" where
  "data_packet ox data i k pkt \<longleftrightarrow>
     length pkt = 76 + length (frag_of data k) \<and> pkt ! 64 = proto_version \<and>
     pkt ! 65 = Command_code eDATA \<and> segment 66 2 pkt = write_be16 ox (frag_off k) \<and>
     segment 68 8 pkt = write_be64 ox i \<and> drop 76 pkt = frag_of data k"

definition xmit_packet :: "oxenc \<Rightarrow> bytes \<Rightarrow> u64 \<Rightarrow> bytes \<Rightarrow> bytes \<Rightarrow> bool" where
  "xmit_packet ox data i dig pkt \<longleftrightarrow>
     length pkt = 108 + min (length data) 1024 \<and> pkt ! 64 = proto_version \<and>
     pkt ! 65 = Command_code eXMIT \<and> segment 66 2 pkt = write_be16 ox (of_nat (length data)) \<and>
     segment 68 8 pkt = write_be64 ox i \<and> segment 76 32 pkt = dig \<and>
     drop 108 pkt = take 1024 data"

lemma data_packet_DataPacket:
  "oxenc_ok ox \<Longrightarrow> k < nfrags (length (om_Data m)) \<Longrightarrow> k < 8 \<Longrightarrow>
     data_packet ox (om_Data m) (om_MsgID m) k (DataPacket ox rd m (frag_off k))"
  unfolding data_packet_def using DataPacket_layout [of ox k m rd] by blast

lemma xmit_packet_XMIT:
  "oxenc_ok ox \<Longrightarrow> length (om_Digest m) = 32 \<Longrightarrow>
     xmit_packet ox (om_Data m) (om_MsgID m) (om_Digest m) (XMIT ox rd m)"
  unfolding xmit_packet_def using XMIT_layout [of ox m rd] by blast

lemma drop_poke_after:
  "off + length bs \<le> a \<Longrightarrow> off + length bs \<le> length pkt \<Longrightarrow> drop a (poke off bs pkt) = drop a pkt"
  by (simp add: poke_def)

lemma data_packet_poke:
  "data_packet ox data i k pkt \<Longrightarrow> length h = 32 \<Longrightarrow> data_packet ox data i k (poke 0 h pkt)"
  by (auto simp: data_packet_def length_poke nth_poke segment_poke_after drop_poke_after)

lemma xmit_packet_poke:
  "xmit_packet ox data i dig pkt \<Longrightarrow> length h = 32 \<Longrightarrow> xmit_packet ox data i dig (poke 0 h pkt)"
  by (auto simp: xmit_packet_def length_poke nth_poke segment_poke_after drop_poke_after)


section \<open>Progress of a reception\<close>

text \<open>
  With the fragments \<open>A\<close> stored, the receiving session holds the message with exactly
  these acknowledged and right, or has delivered it when \<open>A\<close> are all of them.
\<close>

definition receiving ::
  "env \<Rightarrow> bytes \<Rightarrow> u64 \<Rightarrow> delivery_log \<Rightarrow> nat set \<Rightarrow> session \<Rightarrow> bool" where
  "receiving e data i log A s \<longleftrightarrow>
     omap_ok (m_RXMsgs s) \<and> m_ReplayFilter s i = None \<and> deliveries s = log \<and>
     (\<exists>m. map_of (m_RXMsgs s) i = Some m \<and> agrees data m \<and> im_MsgID m = i \<and>
        im_Digset m = shorthash (e_crypto e) data \<and> (\<forall>k. bit (im_Acks m) k \<longleftrightarrow> k \<in> A))"

definition finished :: "env \<Rightarrow> bytes \<Rightarrow> u64 \<Rightarrow> delivery_log \<Rightarrow> session \<Rightarrow> bool" where
  "finished e data i log s \<longleftrightarrow>
     omap_ok (m_RXMsgs s) \<and> map_of (m_RXMsgs s) i = None \<and> m_ReplayFilter s i \<noteq> None \<and>
     deliveries s = log @ [(e_now e, i, data)]"

definition progress ::
  "env \<Rightarrow> bytes \<Rightarrow> u64 \<Rightarrow> delivery_log \<Rightarrow> nat set \<Rightarrow> session \<Rightarrow> bool" where
  "progress e data i log A s =
     (if {0..<nfrags (length data)} \<subseteq> A then finished e data i log s
      else receiving e data i log A s)"

text \<open>The handler of delivered messages raises no exception.\<close>

definition handler_total :: "env \<Rightarrow> bool" where
  "handler_total e \<longleftrightarrow> (\<forall>s d t. \<exists>s'. run_calls e (e_HandleMessage e s d) t = Inr s')"

lemma HandleRecvMsgCompleted_total:
  assumes "handler_total e"
  shows "\<exists>s'. HandleRecvMsgCompleted e msg s = Inr s'"
proof -
  have "\<exists>t. HandleMessage e r d u = Inr t" for r d u
    using assms by (auto simp: handler_total_def HandleMessage_def)
  then obtain f where f: "HandleMessage e r d u = Inr (f r d u)" for r d u by metis
  show ?thesis
    by (simp add: HandleRecvMsgCompleted_def f split_beta Let_def)
qed

lemma store_fragment_progress:
  assumes "handler_total e" and "length data \<le> 8192"
    and "omap_ok (m_RXMsgs s)" and "m_ReplayFilter s i = None" and "deliveries s = log"
    and m: "agrees data m" "im_MsgID m = i" "im_Digset m = shorthash (e_crypto e) data"
      "\<forall>k. bit (im_Acks m) k \<longleftrightarrow> k \<in> A"
  shows "\<exists>s'. store_fragment e i m s = Inr s' \<and> progress e data i log A s'"
proof -
  let ?t = "s\<lparr>m_RXMsgs := omap_put i m (m_RXMsgs s)\<rparr>"
  have len: "length (im_Data m) = length data" using m(1) by (simp add: agrees_def)
  have all: "(\<forall>k<nfrags (length data). bit (im_Acks m) k) \<longleftrightarrow> {0..<nfrags (length data)} \<subseteq> A"
    using m(4) by auto
  have comp: "IsCompleted m = Inr ({0..<nfrags (length data)} \<subseteq> A)"
    using assms(2) len all by (subst IsCompleted_eq) (simp_all add: MAX_LINK_MSG_SIZE_def)
  show ?thesis
  proof (cases "{0..<nfrags (length data)} \<subseteq> A")
    case True
    then have d: "im_Data m = data" using agrees_complete [OF m(1)] all by blast
    then have v: "Verify (e_crypto e) m" by (simp add: Verify_def m(3))
    obtain s' where s': "HandleRecvMsgCompleted e m ?t = Inr s'"
      using HandleRecvMsgCompleted_total [OF assms(1)] by blast
    have "m_ReplayFilter ?t (im_MsgID m) = None" using assms(4) m(2) by simp
    note f = HandleRecvMsgCompleted_fresh [OF s' this]
    have "finished e data i log s'"
      using assms(3-5) m(2) d unfolding finished_def f
      by (simp add: map_simps umap_emplace_def)
    then show ?thesis
      using True s' v comp by (simp add: store_fragment_def progress_def Let_def)
  next
    case False
    moreover have "receiving e data i log A ?t"
      using assms(3-) by (auto simp: receiving_def map_simps)
    ultimately show ?thesis
      using comp by (simp add: store_fragment_def progress_def Let_def)
  qed
qed

lemma HandleDATA_data_packet:
  assumes "oxenc_ok (e_oxenc e)" and "data_packet (e_oxenc e) data i k pkt"
  shows "HandleDATA e pkt s =
    (let s = s\<lparr>m_LastRX := e_now e\<rparr>
     in case map_of (m_RXMsgs s) i of
          None \<Rightarrow>
            if m_ReplayFilter s i = None
            then let (rd, s) = draw e s
                 in Inr (EncryptAndSend e (poke (PacketOverhead + CommandOverhead)
                      (write_be64 (e_oxenc e) i) (CreatePacket rd eNACK 8 16 16)) s)
            else Inr (queue_mack i s)
        | Some msg \<Rightarrow>
            bind_exn (HandleData (frag_off k) (frag_of data k) (e_now e) msg)
              (\<lambda>msg. store_fragment e i msg s))"
proof -
  have "\<not> length pkt < CommandOverhead + 2 + 8 + PacketOverhead"
    using assms(2) by (simp add: data_packet_def iwp_consts)
  moreover have "load_be16 (e_oxenc e) (segment 66 2 pkt) = frag_off k"
    "load_be64 (e_oxenc e) (segment 68 8 pkt) = i" "drop 76 pkt = frag_of data k"
    using assms by (simp_all add: data_packet_def oxenc_okD)
  ultimately show ?thesis
    by (cases "map_of (m_RXMsgs s) i") (simp_all add: HandleDATA_def store_fragment_def Let_def iwp_consts)
qed

lemma progress_DATA:
  assumes ok: "oxenc_ok (e_oxenc e)" "handler_total e" "length data \<le> 8192"
    and k: "k < nfrags (length data)" and pkt: "data_packet (e_oxenc e) data i k pkt"
    and p: "progress e data i log A s"
  shows "\<exists>s'. HandleCommand e pkt s = Inr s' \<and> progress e data i log (insert k A) s'"
proof -
  have cmd: "HandleCommand e pkt s = HandleDATA e pkt s"
    using pkt by (simp add: HandleCommand_def at_def data_packet_def iwp_consts)
  show ?thesis
  proof (cases "{0..<nfrags (length data)} \<subseteq> A")
    case True
    then have "finished e data i log s" using p by (simp add: progress_def)
    then have "HandleDATA e pkt s = Inr (queue_mack i (s\<lparr>m_LastRX := e_now e\<rparr>))"
      "finished e data i log (queue_mack i (s\<lparr>m_LastRX := e_now e\<rparr>))"
      unfolding HandleDATA_data_packet [OF ok(1) pkt]
      by (auto simp: finished_def queue_mack_def)
    then show ?thesis
      unfolding cmd using True by (auto simp: progress_def)
  next
    case False
    then have r: "receiving e data i log A s" using p by (simp add: progress_def)
    then obtain m where m: "map_of (m_RXMsgs s) i = Some m" "agrees data m" "im_MsgID m = i"
      "im_Digset m = shorthash (e_crypto e) data" "\<forall>k. bit (im_Acks m) k \<longleftrightarrow> k \<in> A"
      unfolding receiving_def by blast
    have k8: "k < 8" using k nfrags_le [OF ok(3)] by simp
    obtain m' where m': "HandleData (frag_off k) (frag_of data k) (e_now e) m = Inr m'"
      "im_MsgID m' = i" "im_Digset m' = shorthash (e_crypto e) data"
      using HandleData_frag [OF k k8 m(2)] m(3,4) by simp
    have ag: "agrees data m'" "im_Acks m' = set_bit k (im_Acks m)"
      using agrees_HandleData_frag [OF k k8 m(2) m'(1)] by auto
    have "\<exists>s'. store_fragment e i m' (s\<lparr>m_LastRX := e_now e\<rparr>) = Inr s' \<and>
        progress e data i log (insert k A) s'"
      using r ag m(5) m'(2,3) k8
      by (intro store_fragment_progress [OF ok(2,3)]) (auto simp: receiving_def bit_set_bit_byte)
    then show ?thesis
      unfolding cmd HandleDATA_data_packet [OF ok(1) pkt] by (simp add: m(1) m'(1))
  qed
qed

lemma HandleData_first:
  assumes "length data \<le> 8192"
  shows "\<exists>m. HandleData 0 (take 1024 data) now (new_InboundMessage i (of_nat (length data)) h now) = Inr m \<and>
    agrees data m \<and> im_MsgID m = i \<and> im_Digset m = h \<and> (\<forall>k. bit (im_Acks m) k \<longleftrightarrow> k \<in> {0})"
proof (cases "data = []")
  case True
  then show ?thesis
    by (simp add: HandleData_def new_InboundMessage_def bitset_set_def agrees_def Let_def poke_def
        bit_set_bit_byte FragmentSize_def bit_1_iff)
next
  case False
  let ?m = "new_InboundMessage i (of_nat (length data)) h now"
  have 0: "0 < nfrags (length data)" using False by (simp add: less_nfrags)
  have f0: "frag_of data 0 = take 1024 data" "frag_off 0 = 0"
    by (simp_all add: frag_of_def frag_off_def)
  have ag: "agrees data ?m" using assms by (intro agrees_new) simp
  from HandleData_frag [OF 0 _ ag, of now] agrees_HandleData_frag [OF 0 _ ag, of now]
  show ?thesis
    by (simp add: f0) (simp add: new_InboundMessage_def bit_set_bit_byte bit_1_iff)
qed

lemma progress_XMIT:
  assumes ok: "oxenc_ok (e_oxenc e)" "handler_total e" "length data \<le> 8192"
    and pkt: "xmit_packet (e_oxenc e) data i (shorthash (e_crypto e) data) pkt"
    and fresh: "omap_ok (m_RXMsgs s)" "map_of (m_RXMsgs s) i = None" "m_ReplayFilter s i = None"
  shows "\<exists>s'. HandleCommand e pkt s = Inr s' \<and> progress e data i (deliveries s) {0} s'"
proof -
  let ?h = "shorthash (e_crypto e) data" and ?sz = "of_nat (length data) :: u16"
  have cmd: "HandleCommand e pkt s = HandleXMIT e pkt s"
    using pkt by (simp add: HandleCommand_def at_def xmit_packet_def iwp_consts)
  have long: "\<not> length pkt < XMITOverhead" using pkt by (simp add: xmit_packet_def session_consts)
  have n: "unat (min ?sz (of_nat FragmentSize)) = min (length data) 1024"
    using ok(3) by (simp add: min_def word_le_nat_alt unat_of_nat_small FragmentSize_def)
  have len: "length pkt - XMITOverhead = min (length data) 1024"
    and body: "drop (length pkt - min (length data) 1024) pkt = take 1024 data"
    using pkt by (simp_all add: xmit_packet_def session_consts)
  have flds: "load_be16 (e_oxenc e) (segment (CommandOverhead + PacketOverhead) 2 pkt) = ?sz"
    "load_be64 (e_oxenc e) (segment (CommandOverhead + PacketOverhead + 2) 8 pkt) = i"
    "segment (CommandOverhead + PacketOverhead + 10) SHORTHASHSIZE pkt = ?h"
    using pkt ok(1) by (simp_all add: xmit_packet_def session_consts oxenc_okD)
  obtain m where m: "HandleData 0 (take 1024 data) (e_now e)
        (new_InboundMessage i ?sz ?h (e_now e)) = Inr m"
    "agrees data m" "im_MsgID m = i" "im_Digset m = ?h" "\<forall>k. bit (im_Acks m) k \<longleftrightarrow> k \<in> {0}"
    using HandleData_first [OF ok(3)] by blast
  have "HandleXMIT e pkt s = store_fragment e i m (accept_xmit e i ?sz ?h s)"
    unfolding HandleXMIT_eq [OF long] Let_def flds n len body using fresh m(1) by simp
  moreover have "\<exists>s'. store_fragment e i m (accept_xmit e i ?sz ?h s) = Inr s' \<and>
      progress e data i (deliveries s) {0} s'"
    using fresh m(2-)
    by (intro store_fragment_progress [OF ok(2,3)])
      (auto simp: accept_xmit_def TriggerPump_def emit_def deliveries_def map_simps List.map_filter_def)
  ultimately show ?thesis unfolding cmd by simp
qed

lemma progress_DATAs:
  assumes ok: "oxenc_ok (e_oxenc e)" "handler_total e" "length data \<le> 8192"
    and "list_all2 (\<lambda>k pkt. k < nfrags (length data) \<and> data_packet (e_oxenc e) data i k pkt) ks pkts"
    and "progress e data i log A s"
  shows "\<exists>s'. HandleCommands e pkts s = Inr s' \<and> progress e data i log (A \<union> set ks) s'"
  using assms(4,5)
proof (induction ks pkts arbitrary: A s rule: list_all2_induct)
  case (Cons k ks pkt pkts)
  then obtain s1 where s1: "HandleCommand e pkt s = Inr s1" "progress e data i log (insert k A) s1"
    using progress_DATA [OF ok] by blast
  from Cons.IH [OF s1(2)] s1(1) show ?case by simp
qed simp

section \<open>From the encrypted packets to the delivery\<close>

lemma decrypt_all_encrypt:
  assumes "crypto_ok (e_crypto e)"
    and "\<forall>p\<in>set pkts. PacketOverhead < length p \<and> p ! 64 = proto_version"
  shows "\<exists>hs. length hs = length pkts \<and> (\<forall>h\<in>set hs. length h = 32) \<and>
    decrypt_all e s (map (encrypt_packet (e_crypto e) (m_SessionKey s)) pkts) = map2 (poke 0) hs pkts"
  using assms(2)
proof (induction pkts)
  case Nil
  then show ?case by (simp add: decrypt_all_def map_filter_simps)
next
  case (Cons p pkts)
  then obtain hs where hs: "length hs = length pkts" "\<forall>h\<in>set hs. length h = 32"
    "decrypt_all e s (map (encrypt_packet (e_crypto e) (m_SessionKey s)) pkts) = map2 (poke 0) hs pkts"
    by auto
  from Cons.prems obtain h where h: "length h = 32"
    "DecryptMessageInPlace e s (encrypt_packet (e_crypto e) (m_SessionKey s) p) = Some (poke 0 h p)"
    using decrypt_encrypt_packet [OF assms(1), of p s] by auto
  have "poke 0 h p ! 64 = proto_version"
    using Cons.prems h(1) by (simp add: nth_poke iwp_consts)
  then have "decrypt_all e s (map (encrypt_packet (e_crypto e) (m_SessionKey s)) (p # pkts)) =
      map2 (poke 0) (h # hs) (p # pkts)"
    using h hs(3) by (simp add: decrypt_all_def map_filter_simps iwp_consts)
  then show ?case using h(1) hs(1,2) by (intro exI [of _ "h # hs"]) simp
qed

lemma data_packets_poke:
  assumes "length hs = length ks" and "\<forall>h\<in>set hs. length h = 32"
    and "\<forall>k\<in>set ks. P k \<and> data_packet ox data i k (f k)"
  shows "list_all2 (\<lambda>k pkt. P k \<and> data_packet ox data i k pkt) ks (map2 (poke 0) hs (map f ks))"
  using assms by (induction hs ks rule: list_induct2) (auto intro: data_packet_poke)

lemma HandlePlaintext_DecryptWorker:
  assumes "m_PlaintextRecv s = []"
    and "HandleCommands e (decrypt_all e s msgs) (s\<lparr>m_events := m_events s @ [WokePlaintext],
        m_PlaintextEmpty := True, m_PlaintextRecv := []\<rparr>) = Inr s1"
  shows "HandlePlaintext e (DecryptWorker e msgs s) = Inr (emit WokePlaintext (SendMACK e s1))"
  using assms
  by (simp add: HandlePlaintext_def DecryptWorker_def Let_def emit_def PlaintextQueueSize_def)

text \<open>
  C8. A message crosses the link: let a sender with the same session key encrypt the packet
  that opens the transmission of a message of at most \<^verbatim>\<open>MAX_LINK_MSG_SIZE\<close> bytes and a
  list of its fragment packets, in any order and with any duplicates, in which every
  fragment but the first occurs. If the receiver has no unhandled plaintext and the
  identifier is new to it, then decrypting and handling these packets raises no exception
  and delivers exactly this message, exactly once.
\<close>

theorem message_crosses_link:
  assumes ok: "crypto_ok (e_crypto e)" "oxenc_ok (e_oxenc e)" "handler_total e"
    and size: "length data \<le> MAX_LINK_MSG_SIZE"
    and fresh: "omap_ok (m_RXMsgs s)" "map_of (m_RXMsgs s) i = None" "m_ReplayFilter s i = None"
      "m_PlaintextRecv s = []"
    and frags: "set ks \<subseteq> {0..<nfrags (length data)}" "{1..<nfrags (length data)} \<subseteq> set ks"
    and m: "m = new_OutboundMessage (e_crypto e) i data t h prio"
    and pkts: "pkts = XMIT (e_oxenc e) rd m # map (\<lambda>k. DataPacket (e_oxenc e) (rds k) m (frag_off k)) ks"
  shows "\<exists>s'. HandlePlaintext e
      (DecryptWorker e (map (encrypt_packet (e_crypto e) (m_SessionKey s)) pkts) s) = Inr s' \<and>
    deliveries s' = deliveries s @ [(e_now e, i, data)] \<and>
    map_of (m_RXMsgs s') i = None \<and> m_ReplayFilter s' i \<noteq> None"
proof -
  have size': "length data \<le> 8192" using size by (simp add: MAX_LINK_MSG_SIZE_def)
  have flds: "om_Data m = data" "om_MsgID m = i" "om_Digest m = shorthash (e_crypto e) data"
    by (simp_all add: m new_OutboundMessage_def)
  have dig: "length (shorthash (e_crypto e) data) = 32" using ok(1) by (simp add: crypto_ok_def)
  have x: "xmit_packet (e_oxenc e) data i (shorthash (e_crypto e) data) (XMIT (e_oxenc e) rd m)"
    using xmit_packet_XMIT [OF ok(2), of m rd] dig by (simp add: flds)
  have d: "\<forall>k\<in>set ks. k < nfrags (length data) \<and>
      data_packet (e_oxenc e) data i k (DataPacket (e_oxenc e) (rds k) m (frag_off k))"
    using data_packet_DataPacket [OF ok(2), of _ m] frags(1) nfrags_le [OF size']
    by (auto simp: flds subset_iff)
  have "\<forall>p\<in>set pkts. PacketOverhead < length p \<and> p ! 64 = proto_version"
    using x d by (auto simp: pkts xmit_packet_def data_packet_def iwp_consts)
  from decrypt_all_encrypt [OF ok(1) this, of s] obtain hs where hs:
    "length hs = length pkts" "\<forall>h\<in>set hs. length h = 32"
    "decrypt_all e s (map (encrypt_packet (e_crypto e) (m_SessionKey s)) pkts) = map2 (poke 0) hs pkts"
    by blast
  then obtain h0 hs' where hs': "hs = h0 # hs'" "length h0 = 32" "length hs' = length ks"
    "\<forall>h\<in>set hs'. length h = 32"
    by (cases hs) (auto simp: pkts)
  let ?s = "s\<lparr>m_events := m_events s @ [WokePlaintext], m_PlaintextEmpty := True, m_PlaintextRecv := []\<rparr>"
  have dl: "deliveries ?s = deliveries s" by (simp add: deliveries_def List.map_filter_def)
  obtain s1 where s1: "HandleCommand e (poke 0 h0 (XMIT (e_oxenc e) rd m)) ?s = Inr s1"
    "progress e data i (deliveries s) {0} s1"
    using progress_XMIT [OF ok(2,3) size' xmit_packet_poke [OF x hs'(2)], of ?s] fresh dl by auto
  obtain s2 where s2: "HandleCommands e (map2 (poke 0) hs' (map (\<lambda>k. DataPacket (e_oxenc e) (rds k) m
      (frag_off k)) ks)) s1 = Inr s2" "progress e data i (deliveries s) ({0} \<union> set ks) s2"
    using progress_DATAs [OF ok(2,3) size' data_packets_poke [OF hs'(3,4) d] s1(2)] by blast
  have "{0..<nfrags (length data)} \<subseteq> {0} \<union> set ks"
    using frags(2) by (auto simp: subset_iff Suc_le_eq)
  with s2(2) have fin: "finished e data i (deliveries s) s2" by (simp add: progress_def)
  have "HandleCommands e (decrypt_all e s (map (encrypt_packet (e_crypto e) (m_SessionKey s)) pkts)) ?s
      = Inr s2"
    unfolding hs(3) using s1(1) s2(1) by (simp add: hs'(1) pkts)
  note handled = HandlePlaintext_DecryptWorker [OF fresh(4) this]
  have "rx_side (emit WokePlaintext (SendMACK e s2)) = rx_side s2" by (simp add: rx_side_simps)
  note eqs = rx_sideD [OF this]
  show ?thesis using fin by (simp add: handled eqs finished_def)
qed

theorem message_crosses_link_witness:
  "\<exists>s'. HandlePlaintext (example_env 5) (DecryptWorker (example_env 5)
      (map (encrypt_packet plain_crypto (m_SessionKey (Session_inbound (example_env 0) 9)))
        (XMIT oxenc_be zero_draw (new_OutboundMessage plain_crypto 3 (replicate 2000 7) 0 (None :: handler option) 0) #
         map (\<lambda>k. DataPacket oxenc_be zero_draw
                (new_OutboundMessage plain_crypto 3 (replicate 2000 7) 0 (None :: handler option) 0) (frag_off k)) [1, 0, 1]))
      (Session_inbound (example_env 0) 9)) = Inr s' \<and>
    deliveries s' = [(5, 3, replicate 2000 7)]"
proof -
  let ?s = "Session_inbound (example_env 0) 9"
  have e: "e_crypto (example_env 5) = plain_crypto" "e_oxenc (example_env 5) = oxenc_be"
    "e_now (example_env 5) = 5" "handler_total (example_env 5)"
    by (simp_all add: example_env_def handler_total_def)
  have s: "omap_ok (m_RXMsgs ?s)" "map_of (m_RXMsgs ?s) 3 = None" "m_ReplayFilter ?s 3 = None"
    "m_PlaintextRecv ?s = []" "deliveries ?s = []"
    by (simp_all add: Session_inbound_def Session_common_def deliveries_def map_filter_simps)
  have ks: "set [1, 0, 1] \<subseteq> {0..<nfrags (length (replicate 2000 (7 :: byte)))}"
    "{1..<nfrags (length (replicate 2000 (7 :: byte)))} \<subseteq> set [1, 0, 1]"
    by (auto simp: nfrags_def)
  show ?thesis
    using message_crosses_link [where e = "example_env 5" and data = "replicate 2000 7" and s = ?s
        and i = 3 and ks = "[1, 0, 1]" and t = 0 and h = "None :: handler option" and prio = 0 and rd = zero_draw
        and rds = "\<lambda>_. zero_draw", OF _ _ e(4) _ s(1-4) ks refl refl]
    by (auto simp del: One_nat_def simp: e s(5) plain_crypto_ok oxenc_be_ok MAX_LINK_MSG_SIZE_def)
qed

section \<open>The transmission statistics\<close>

lemma m_Stats_Send_LL [simp]: "m_Stats (Send_LL e pkt s) = m_Stats s"
  by (simp add: Send_LL_def emit_def)

lemma m_Stats_EncryptWorker [simp]: "m_Stats (EncryptWorker e msgs s) = m_Stats s"
  unfolding EncryptWorker_def by (induction msgs arbitrary: s) simp_all

lemma m_Stats_EncryptAndSend [simp]: "m_Stats (EncryptAndSend e pkt s) = m_Stats s"
  by (simp add: EncryptAndSend_def TriggerPump_def emit_def Let_def)

lemma m_Stats_sends [simp]: "m_Stats (fold (EncryptAndSend e) pkts s) = m_Stats s"
  by (induction pkts arbitrary: s) simp_all

lemma m_Stats_run_handler [simp]: "m_Stats (run_handler e h s) = m_Stats s"
  by (cases "(e, h, s)" rule: run_handler.cases)
    (simp_all add: emit_def MapAddr_def Session_Close_def draw_def Let_def split: map_result.split)

text \<open>
  C10. A message acknowledged by \<^verbatim>\<open>ACKS\<close> leaves the statistics alone: when the mask completes
  the message, it leaves \<^verbatim>\<open>m_TXMsgs\<close>, but \<^verbatim>\<open>totalInFlightTX\<close> and \<^verbatim>\<open>totalAckedTX\<close> keep their
  values, unlike after \<^verbatim>\<open>MACK\<close> and after a time-out.
\<close>

theorem ACKS_leaves_stats:
  assumes "omap_ok (m_TXMsgs s)" and "11 + PacketOverhead \<le> length data"
    and "map_of (m_TXMsgs s) (load_be64 (e_oxenc e) (segment (2 + PacketOverhead) 8 data)) = Some msg"
    and "IsTransmitted (Ack (data ! (10 + PacketOverhead)) msg) = Inr True"
  shows "\<exists>s'. HandleACKS e data s = Inr s' \<and> m_Stats s' = m_Stats s \<and>
    map_of (m_TXMsgs s') (load_be64 (e_oxenc e) (segment (2 + PacketOverhead) 8 data)) = None"
  using assms by (simp add: HandleACKS_def complete_tx_def Let_def map_simps)

definition example_acks :: bytes where
  "example_acks = ACKS oxenc_be zero_draw ((new_InboundMessage 1 1 [] 0)\<lparr>im_Acks := 1\<rparr>)"

definition example_tx :: "u64 \<Rightarrow> u16 \<Rightarrow> u64 \<times> handler OutboundMessage" where
  "example_tx i prio = (i, new_OutboundMessage plain_crypto i [1] 0 None prio)"

definition example_waiting :: session where
  "example_waiting = (Session_inbound (example_env 0) 9)\<lparr>m_TXMsgs := [example_tx 1 9]\<rparr>"

theorem ACKS_leaves_stats_witness:
  "\<exists>s'. HandleACKS (example_env 5) example_acks example_waiting = Inr s' \<and>
    m_Stats s' = m_Stats example_waiting"
proof -
  have "omap_ok (m_TXMsgs example_waiting)"
    by (simp add: example_waiting_def omap_ok_def)
  moreover have "11 + PacketOverhead \<le> length example_acks" by code_simp
  moreover have "load_be64 (e_oxenc (example_env 5)) (segment (2 + PacketOverhead) 8 example_acks) = 1"
    "example_acks ! (10 + PacketOverhead) = 1"
    by code_simp+
  moreover have "IsTransmitted (Ack 1 (snd (example_tx 1 9))) = Inr True" by code_simp
  ultimately show ?thesis
    using ACKS_leaves_stats [of example_waiting example_acks "example_env 5" "snd (example_tx 1 9)"]
    by (auto simp: example_waiting_def example_tx_def)
qed

end
