(* ===== verification/Iwp_Handshake.thy ===== *)
theory Iwp_Handshake
  imports Iwp_Session_Inv
begin

text \<open>
  Authentication of the peer of an IWP session: an invariant over the state machine
  \<^verbatim>\<open>Initial\<close>, \<^verbatim>\<open>Introduction\<close>, \<^verbatim>\<open>LinkIntro\<close>, \<^verbatim>\<open>Ready\<close>, \<^verbatim>\<open>Closed\<close> of
  \<^verbatim>\<open>llarp/iwp/session.cpp\<close>, from which it follows whose session a \<^verbatim>\<open>Ready\<close> session is.
\<close>

section \<open>The part of the state that matters for authentication\<close>

definition lim_pending :: "session \<Rightarrow> bool" where
  "lim_pending s \<longleftrightarrow> (\<exists>m\<in>snd ` set (m_TXMsgs s). om_Completed m = Some LIMDelivered)"

fun job_empty :: "job \<Rightarrow> bool" where
  "job_empty (EncryptJob ps) = True"
| "job_empty (DecryptJob ps) = (ps = [])"

definition no_input :: "session \<Rightarrow> bool" where
  "no_input s \<longleftrightarrow> m_DecryptNext s = [] \<and> (\<forall>j\<in>set (m_Jobs s). job_empty j) \<and>
     (\<forall>q\<in>set (m_PlaintextRecv s). q = [])"

text \<open>A session is live once it has left \<^verbatim>\<open>Initial\<close> or has been closed.\<close>

definition live :: "session \<Rightarrow> bool" where
  "live s \<longleftrightarrow> m_State s \<noteq> Initial \<or> m_SentClosed s"

definition signed_intro :: "crypto \<Rightarrow> bytes \<Rightarrow> bool" where
  "signed_intro cr ident \<longleftrightarrow>
     (\<exists>buf Z. length buf = 96 \<and> take 32 buf = ident \<and> length Z = 64 \<and> verify cr ident buf Z)"

definition auth_inv :: "crypto \<Rightarrow> session \<Rightarrow> bool" where
  "auth_inv cr s \<longleftrightarrow> (m_Inbound s \<longrightarrow>
     GotLIM s \<noteq> OutboundLIM \<and> \<not> lim_pending s \<and>
     (m_State s = Ready \<longrightarrow> GotLIM s = RenegLIM) \<and>
     (GotLIM s = RenegLIM \<longrightarrow> rc_pubkey (m_RemoteRC s) = m_ExpectedIdent s \<and> live s) \<and>
     (m_State s = Closed \<longrightarrow> m_SentClosed s) \<and>
     (m_State s = Initial \<longrightarrow> \<not> m_SentClosed s \<and> GotLIM s = InboundLIM) \<and>
     (\<not> m_SentClosed s \<and> m_State s \<noteq> Initial \<longrightarrow> signed_intro cr (m_ExpectedIdent s)) \<and>
     (\<not> live s \<longrightarrow> no_input s))"

definition auth_view :: "session \<Rightarrow> State \<times> bool \<times> bool \<times> bytes \<times> bytes \<times> GotLIM_fn \<times> bool \<times> bool" where
  "auth_view s = (m_State s, m_SentClosed s, m_Inbound s, m_ExpectedIdent s,
     rc_pubkey (m_RemoteRC s), GotLIM s, lim_pending s, no_input s)"

named_theorems auth_simps \<open>operations that keep the view of the handshake\<close>

lemma auth_inv_cong: "auth_view s' = auth_view s \<Longrightarrow> auth_inv cr s' = auth_inv cr s"
  by (simp add: auth_view_def auth_inv_def live_def)

lemma live_cong: "auth_view s' = auth_view s \<Longrightarrow> live s' = live s"
  by (simp add: auth_view_def live_def)

lemma auth_view_upd [auth_simps]:
  "auth_view (s\<lparr>m_EncryptNext := a\<rparr>) = auth_view s" "auth_view (s\<lparr>m_LastTX := b\<rparr>) = auth_view s"
  "auth_view (s\<lparr>m_LastRX := c\<rparr>) = auth_view s" "auth_view (s\<lparr>m_TXRate := d\<rparr>) = auth_view s"
  "auth_view (s\<lparr>m_rpos := f\<rparr>) = auth_view s" "auth_view (s\<lparr>m_TXID := g\<rparr>) = auth_view s"
  "auth_view (s\<lparr>m_Stats := h\<rparr>) = auth_view s" "auth_view (s\<lparr>m_SendMACKs := i\<rparr>) = auth_view s"
  "auth_view (s\<lparr>m_RXMsgs := j\<rparr>) = auth_view s" "auth_view (s\<lparr>m_ReplayFilter := k\<rparr>) = auth_view s"
  "auth_view (s\<lparr>m_PlaintextEmpty := l\<rparr>) = auth_view s" "auth_view (s\<lparr>m_SessionKey := m\<rparr>) = auth_view s"
  "auth_view (s\<lparr>token := n\<rparr>) = auth_view s" "auth_view (s\<lparr>m_RXRate := o'\<rparr>) = auth_view s"
  "auth_view (s\<lparr>m_ResetRatesAt := p\<rparr>) = auth_view s" "auth_view (emit ev s) = auth_view s"
  by (simp_all add: auth_view_def lim_pending_def no_input_def emit_def)

lemma auth_view_draw [auth_simps]: "auth_view (snd (draw e s)) = auth_view s"
  by (simp add: draw_def auth_simps)

lemma auth_view_TriggerPump [auth_simps]: "auth_view (TriggerPump s) = auth_view s"
  by (simp add: TriggerPump_def auth_simps)

lemma auth_view_Send_LL [auth_simps]: "auth_view (Send_LL e pkt s) = auth_view s"
  by (simp add: Send_LL_def auth_simps)

lemma auth_view_EncryptWorker [auth_simps]: "auth_view (EncryptWorker e msgs s) = auth_view s"
  unfolding EncryptWorker_def by (induction msgs arbitrary: s) (simp_all add: auth_simps)

lemma auth_view_EncryptAndSend [auth_simps]: "auth_view (EncryptAndSend e pkt s) = auth_view s"
  by (simp add: EncryptAndSend_def Let_def auth_simps)

lemma auth_view_sends [auth_simps]: "auth_view (fold (EncryptAndSend e) pkts s) = auth_view s"
  by (induction pkts arbitrary: s) (simp_all add: auth_simps)

lemma set_omap_put: "set (omap_put k v m) \<subseteq> insert (k, v) (set m)"
  by (induction k v m rule: omap_put.induct) auto

lemma set_omap_erase: "set (omap_erase k m) \<subseteq> set m"
  by (auto simp: omap_erase_def)

lemma set_omap_emplace: "set (omap_emplace k v m) \<subseteq> insert (k, v) (set m)"
  using set_omap_put [of k v m] by (auto simp: omap_emplace_def split: option.split)

text \<open>Fewer handlers waiting is never worse.\<close>

lemma auth_inv_TXMsgs:
  assumes "auth_inv cr s" and "set txs \<subseteq> insert (k, m) (set (m_TXMsgs s))"
    and "om_Completed m = Some LIMDelivered \<Longrightarrow> lim_pending s \<or> \<not> m_Inbound s"
  shows "auth_inv cr (s\<lparr>m_TXMsgs := txs\<rparr>)"
proof -
  have "lim_pending (s\<lparr>m_TXMsgs := txs\<rparr>) \<Longrightarrow> lim_pending s \<or> \<not> m_Inbound s"
    using assms(2,3) by (fastforce simp: lim_pending_def)
  with assms(1) show ?thesis
    by (auto simp: auth_inv_def live_def no_input_def)
qed

lemma live_TXMsgs [simp]: "live (s\<lparr>m_TXMsgs := txs\<rparr>) = live s"
  by (simp add: live_def)

section \<open>Operations keep the invariant\<close>

text \<open>
  \<open>auth_ok cr s s'\<close>: the step from \<open>s\<close> to \<open>s'\<close> keeps the invariant, keeps a live session
  live and does not change the direction of the session.
\<close>

definition auth_ok :: "crypto \<Rightarrow> session \<Rightarrow> session \<Rightarrow> bool" where
  "auth_ok cr s s' \<longleftrightarrow> m_Inbound s' = m_Inbound s \<and> (live s \<longrightarrow> live s') \<and>
     (auth_inv cr s \<longrightarrow> auth_inv cr s')"

lemma auth_ok_refl [simp]: "auth_ok cr s s"
  by (simp add: auth_ok_def)

lemma auth_ok_trans: "auth_ok cr s t \<Longrightarrow> auth_ok cr t u \<Longrightarrow> auth_ok cr s u"
  by (auto simp: auth_ok_def)

lemma auth_ok_view:
  assumes "auth_view s' = auth_view s"
  shows "auth_ok cr s s'"
  using auth_inv_cong [OF assms] live_cong [OF assms] assms
  by (auto simp: auth_ok_def auth_view_def)

lemma auth_ok_TXMsgs:
  assumes "set txs \<subseteq> insert (k, m) (set (m_TXMsgs s))"
    and "om_Completed m = Some LIMDelivered \<Longrightarrow> lim_pending s \<or> \<not> m_Inbound s"
  shows "auth_ok cr s (s\<lparr>m_TXMsgs := txs\<rparr>)"
  using auth_inv_TXMsgs [OF _ assms] by (simp add: auth_ok_def)

lemma auth_ok_erase_tx: "auth_ok cr s (s\<lparr>m_TXMsgs := omap_erase k (m_TXMsgs s)\<rparr>)"
  using set_omap_erase [of k "m_TXMsgs s"]
  by (intro auth_ok_TXMsgs [where k = k and m = "undefined\<lparr>om_Completed := None\<rparr>"]) auto

lemma auth_ok_Close: "auth_ok cr s (Session_Close e s)"
proof (cases "m_State s = Closed")
  case False
  let ?s = "s\<lparr>m_State := Closed, m_SentClosed := True\<rparr>"
  have view: "auth_view (Session_Close e s) = auth_view ?s"
  proof (cases "m_SentClosed s")
    case True
    then have "s\<lparr>m_State := Closed\<rparr> = ?s" by simp
    with True False show ?thesis
      by (simp add: Session_Close_def draw_def Let_def emit_def) (simp add: auth_view_def
          lim_pending_def no_input_def)
  next
    case notsent: False
    then show ?thesis
      using False by (simp add: Session_Close_def draw_def Let_def auth_simps)
        (simp add: auth_view_def lim_pending_def no_input_def emit_def)
  qed
  have "auth_ok cr s ?s"
    by (auto simp: auth_ok_def auth_inv_def live_def lim_pending_def no_input_def)
  then show ?thesis using auth_ok_trans auth_ok_view view by blast
qed (simp add: Session_Close_def)

lemma auth_ok_flush_message:
  assumes "flush_message e i s = Inr s'"
  shows "auth_ok cr s s'"
proof (cases "map_of (m_TXMsgs s) i")
  case (Some msg)
  then obtain pkts p msg' where
      f: "FlushUnAcked (e_oxenc e) (e_rnd e) (e_now e) (m_rpos s) msg = Inr (pkts, p, msg')"
    and s': "s' = fold (EncryptAndSend e) pkts
               (s\<lparr>m_rpos := p, m_TXMsgs := omap_put i msg' (m_TXMsgs s)\<rparr>)"
    using assms by (auto simp: flush_message_def bind_exn_Inr_iff)
  have m: "om_Completed msg' = om_Completed msg"
    using f by (auto simp: FlushUnAcked_def split: sum.splits prod.splits)
  have "msg \<in> snd ` set (m_TXMsgs s)" using Some by (force dest: map_of_SomeD)
  then have "auth_ok cr s (s\<lparr>m_TXMsgs := omap_put i msg' (m_TXMsgs s)\<rparr>)"
    using set_omap_put [of i msg' "m_TXMsgs s"] m
    by (intro auth_ok_TXMsgs [where k = i and m = msg']) (auto simp: lim_pending_def)
  moreover have "auth_view s' = auth_view (s\<lparr>m_TXMsgs := omap_put i msg' (m_TXMsgs s)\<rparr>)"
    by (simp add: s' auth_simps) (simp add: auth_view_def lim_pending_def no_input_def)
  ultimately show ?thesis using auth_ok_trans auth_ok_view by blast
qed (use assms in \<open>simp add: flush_message_def\<close>)

lemma auth_ok_MapAddr: "auth_ok cr s (MapAddr e s)"
  by (auto simp: MapAddr_def auth_ok_Close auth_simps intro: auth_ok_view split: map_result.split)

lemma auth_ok_emit: "auth_ok cr s (emit ev s)"
  by (simp add: auth_ok_view auth_simps)

lemma auth_ok_EncryptAndSend: "auth_ok cr s (EncryptAndSend e pkt s)"
  by (simp add: auth_ok_view auth_simps)

lemma auth_ok_run_handler:
  assumes "h = Some (LIMDelivered, eDeliverySuccess) \<Longrightarrow> \<not> m_Inbound s"
  shows "auth_ok cr s (run_handler e h s)"
  using assms
proof (cases "(e, h, s)" rule: run_handler.cases)
  case (2 e' st s')
  then show ?thesis
    using assms auth_ok_trans [OF auth_ok_trans [OF _ auth_ok_MapAddr] auth_ok_emit]
    by (auto simp: auth_ok_def auth_inv_def live_def)
qed (auto intro: auth_ok_emit)

definition enqueue_tx :: "env \<Rightarrow> bytes \<Rightarrow> handler option \<Rightarrow> u16 \<Rightarrow> session \<Rightarrow> session" where
  "enqueue_tx e buf h prio s =
     (let txs = omap_emplace (m_TXID s)
            (new_OutboundMessage (e_crypto e) (m_TXID s) buf (e_now e) h prio) (m_TXMsgs s)
      in EncryptAndSend e (XMIT (e_oxenc e) (e_rnd e (m_rpos s)) (the (map_of txs (m_TXID s))))
           (snd (draw e (TriggerPump (s\<lparr>m_TXID := m_TXID s + 1, m_TXMsgs := txs\<rparr>)))))"

lemma SendMessageBuffer_eq:
  assumes "\<not> MaxSendQueueSize \<le> length (m_TXMsgs s)"
  shows "SendMessageBuffer e buf h prio s =
    bind_exn (if length buf > FragmentSize then flush_message e (m_TXID s) (enqueue_tx e buf h prio s)
              else Inr (enqueue_tx e buf h prio s))
      (\<lambda>s. Inr (True, s\<lparr>m_Stats := (m_Stats s)
                  \<lparr>totalInFlightTX := totalInFlightTX (m_Stats s) + 1\<rparr>\<rparr>))"
  using assms
  by (simp add: SendMessageBuffer_def enqueue_tx_def draw_def Let_def TriggerPump_def emit_def)

lemma auth_view_enqueue_tx:
  "auth_view (enqueue_tx e buf h prio s) = auth_view (s\<lparr>m_TXMsgs := omap_emplace (m_TXID s)
     (new_OutboundMessage (e_crypto e) (m_TXID s) buf (e_now e) h prio) (m_TXMsgs s)\<rparr>)"
  by (simp add: enqueue_tx_def Let_def auth_simps) (simp add: auth_view_def lim_pending_def no_input_def)

lemma auth_ok_enqueue_tx:
  assumes "h = Some LIMDelivered \<Longrightarrow> \<not> m_Inbound s"
  shows "auth_ok cr s (enqueue_tx e buf h prio s)"
proof -
  let ?m = "new_OutboundMessage (e_crypto e) (m_TXID s) buf (e_now e) h prio"
  have "auth_ok cr s (s\<lparr>m_TXMsgs := omap_emplace (m_TXID s) ?m (m_TXMsgs s)\<rparr>)"
    using assms set_omap_emplace [of "m_TXID s" ?m "m_TXMsgs s"]
    by (intro auth_ok_TXMsgs [where k = "m_TXID s" and m = ?m]) (auto simp: new_OutboundMessage_def)
  then show ?thesis by (rule auth_ok_trans [OF _ auth_ok_view [OF auth_view_enqueue_tx]])
qed

lemma auth_ok_SendMessageBuffer:
  assumes "SendMessageBuffer e buf h prio s = Inr (b, s')"
    and "h = Some LIMDelivered \<Longrightarrow> \<not> m_Inbound s"
  shows "auth_ok cr s s'"
proof (cases "length (m_TXMsgs s) \<ge> MaxSendQueueSize")
  case True
  then show ?thesis
    using assms by (auto simp: SendMessageBuffer_def intro!: auth_ok_run_handler)
next
  case False
  have 1: "auth_ok cr s (enqueue_tx e buf h prio s)"
    using assms(2) by (rule auth_ok_enqueue_tx)
  obtain t where t: "(if length buf > FragmentSize
        then flush_message e (m_TXID s) (enqueue_tx e buf h prio s)
        else Inr (enqueue_tx e buf h prio s)) = Inr t"
    and s': "s' = t\<lparr>m_Stats := (m_Stats t)\<lparr>totalInFlightTX := totalInFlightTX (m_Stats t) + 1\<rparr>\<rparr>"
    using assms(1) unfolding SendMessageBuffer_eq [OF False] bind_exn_Inr_iff by blast
  have 2: "auth_ok cr (enqueue_tx e buf h prio s) t"
  proof (cases "length buf > FragmentSize")
    case True
    then show ?thesis using t auth_ok_flush_message by simp
  qed (use t in simp)
  have 3: "auth_ok cr t s'" by (rule auth_ok_view) (simp add: s' auth_simps)
  show ?thesis by (rule auth_ok_trans [OF auth_ok_trans [OF 1 2] 3])
qed

lemma auth_ok_SendOurLIM:
  assumes "SendOurLIM e h s = Inr s'" and "h = Some LIMDelivered \<Longrightarrow> \<not> m_Inbound s"
  shows "auth_ok cr s s'"
proof -
  have 1: "auth_ok cr s (snd (draw e s))" by (simp add: auth_ok_view auth_simps)
  have "s' = snd (draw e s) \<or> (\<exists>buf b. SendMessageBuffer e buf h 0 (snd (draw e s)) = Inr (b, s'))"
    using assms(1) by (auto simp: SendOurLIM_def split_beta Let_def bind_exn_Inr_iff split: option.splits)
  moreover have "m_Inbound (snd (draw e s)) = m_Inbound s" by (simp add: draw_def)
  ultimately show ?thesis
    using 1 assms(2) auth_ok_SendMessageBuffer auth_ok_trans by metis
qed

section \<open>The handlers keep the invariant\<close>

lemma auth_ok_call_GotLIM:
  assumes "call_GotLIM e rc s = Inr s'" and "live s" and "auth_inv cr s"
  shows "auth_ok cr s s'"
proof (cases "GotLIM s")
  case InboundLIM
  let ?s = "s\<lparr>m_State := Ready, GotLIM := RenegLIM, m_RemoteRC := rc\<rparr>"
  have "auth_ok cr s ?s" if "rc_pubkey rc = m_ExpectedIdent s"
    using that assms(2,3)
    by (auto simp: auth_ok_def auth_inv_def live_def lim_pending_def no_input_def)
  then have "rc_pubkey rc = m_ExpectedIdent s \<Longrightarrow> auth_ok cr s (emit (Established True) (MapAddr e ?s))"
    using auth_ok_trans auth_ok_MapAddr auth_ok_emit by metis
  then show ?thesis
    using assms(1) InboundLIM
    by (auto simp: call_GotLIM_def GotInboundLIM_def Let_def split: if_splits)
next
  case OutboundLIM
  then have "\<not> m_Inbound s" using assms(3) by (auto simp: auth_inv_def)
  moreover have "auth_ok cr s (s\<lparr>m_RemoteRC := rc, GotLIM := RenegLIM\<rparr>)"
    using \<open>\<not> m_Inbound s\<close> by (simp add: auth_ok_def auth_inv_def live_def)
  ultimately show ?thesis
    using assms(1) OutboundLIM auth_ok_trans auth_ok_SendOurLIM
    by (fastforce simp: call_GotLIM_def GotOutboundLIM_def split: if_splits)
qed (use assms(1) in \<open>auto simp: call_GotLIM_def GotRenegLIM_def intro: auth_ok_emit\<close>)

lemma auth_ok_SendKeepAlive: "auth_ok cr s (SendKeepAlive e s)"
  by (rule auth_ok_view) (simp add: SendKeepAlive_def draw_def auth_simps)

lemma auth_ok_run_call:
  assumes "run_call e c s = Inr s'"
    and "\<exists>rc. c = CallGotLIM rc \<Longrightarrow> live s \<and> auth_inv cr s"
  shows "auth_ok cr s s'"
proof (cases c)
  case (CallSendMessageBuffer buf h prio)
  then obtain b where "SendMessageBuffer e buf (map_option UserHandler h) prio s = Inr (b, s')"
    using assms(1) by (auto simp: bind_exn_Inr_iff)
  then show ?thesis by (rule auth_ok_SendMessageBuffer) auto
next
  case CallRenegotiateSession
  then have "SendOurLIM e None s = Inr s'" using assms(1) by (simp add: RenegotiateSession_def)
  then show ?thesis by (rule auth_ok_SendOurLIM) simp
qed (use assms in \<open>auto intro: auth_ok_call_GotLIM auth_ok_SendKeepAlive auth_ok_Close\<close>)

definition auth_live :: "crypto \<Rightarrow> session \<Rightarrow> bool" where
  "auth_live cr s \<longleftrightarrow> auth_inv cr s \<and> live s"

lemma auth_live_ok: "auth_live cr s \<Longrightarrow> auth_ok cr s s' \<Longrightarrow> auth_live cr s'"
  by (auto simp: auth_live_def auth_ok_def)

lemma auth_live_view: "auth_view s' = auth_view s \<Longrightarrow> auth_live cr s \<Longrightarrow> auth_live cr s'"
  using auth_live_ok auth_ok_view by blast

lemma auth_live_run_calls:
  "run_calls e cs s = Inr s' \<Longrightarrow> auth_live cr s \<Longrightarrow> auth_live cr s'"
proof (induction cs arbitrary: s)
  case (Cons c cs)
  then obtain t where t: "run_call e c s = Inr t" "run_calls e cs t = Inr s'"
    by (auto simp: bind_exn_Inr_iff)
  have "auth_live cr t"
    using auth_ok_run_call [OF t(1)] Cons.prems(2) auth_live_ok by (metis auth_live_def)
  then show ?case using Cons.IH t(2) by blast
qed simp

lemma auth_live_HandleRecvMsgCompleted:
  assumes "HandleRecvMsgCompleted e msg s = Inr s'" and "auth_live cr s"
  shows "auth_live cr s'"
proof (cases "m_ReplayFilter s (im_MsgID msg) = None")
  case True
  let ?s = "s\<lparr>m_ReplayFilter := umap_emplace (im_MsgID msg) (e_now e) (m_ReplayFilter s)\<rparr>"
  obtain t where t: "HandleMessage e (im_MsgID msg) (im_Data msg) ?s = Inr t"
    and s': "s' = (let u = EncryptAndSend e (ACKS (e_oxenc e) (fst (draw e t)) msg) (snd (draw e t))
                   in u\<lparr>m_RXMsgs := omap_erase (im_MsgID msg) (m_RXMsgs u)\<rparr>)"
    using assms(1) True by (rule HandleRecvMsgCompleted_freshE)
  have s': "auth_view s' = auth_view t" by (simp add: s' Let_def auth_simps)
  note t [unfolded HandleMessage_def]
  moreover have "auth_live cr (emit (Delivered (e_now e) (im_MsgID msg) (im_Data msg)) ?s)"
    by (rule auth_live_view [OF _ assms(2)]) (simp add: auth_simps)
  ultimately have "auth_live cr t" using auth_live_run_calls by blast
  then show ?thesis by (rule auth_live_view [OF s'])
next
  case False
  then show ?thesis
    using assms auth_live_view [of "s\<lparr>m_RXMsgs := omap_erase (im_MsgID msg) (m_RXMsgs s)\<rparr>" s cr]
    by (auto simp: HandleRecvMsgCompleted_def Let_def auth_simps)
qed

lemma auth_live_store_fragment:
  assumes "store_fragment e i msg s = Inr s'" and "auth_live cr s"
  shows "auth_live cr s'"
proof -
  let ?t = "s\<lparr>m_RXMsgs := omap_put i msg (m_RXMsgs s)\<rparr>"
  have "auth_live cr ?t" by (rule auth_live_view [OF _ assms(2)]) (simp add: auth_simps)
  moreover have "s' = ?t \<or> HandleRecvMsgCompleted e msg ?t = Inr s'"
    using assms(1) by (auto simp: store_fragment_def bind_exn_Inr_iff Let_def split: if_splits)
  ultimately show ?thesis using auth_live_HandleRecvMsgCompleted by blast
qed

lemma auth_live_HandleXMIT:
  assumes "HandleXMIT e data s = Inr s'" and "auth_live cr s"
  shows "auth_live cr s'"
  using assms(1)
proof (cases rule: HandleXMIT_cases)
  case (5 rxid sz h buf msg)
  have "auth_live cr (accept_xmit e rxid sz h s)"
    by (rule auth_live_view [OF _ assms(2)]) (simp add: accept_xmit_def auth_simps)
  with 5 show ?thesis using auth_live_store_fragment by blast
qed (use assms(2) in \<open>auto intro!: auth_live_view [OF _ assms(2)]
       simp: queue_mack_def accept_xmit_def auth_simps\<close>)

lemma auth_live_HandleDATA:
  assumes "HandleDATA e data s = Inr s'" and "auth_live cr s"
  shows "auth_live cr s'"
  using assms(1)
proof (cases rule: HandleDATA_cases)
  case (4 rxid msg msg' sz)
  have "auth_live cr (s\<lparr>m_LastRX := e_now e\<rparr>)"
    by (rule auth_live_view [OF _ assms(2)]) (simp add: auth_simps)
  with 4 show ?thesis using auth_live_store_fragment by blast
qed (use assms(2) in \<open>auto intro!: auth_live_view [OF _ assms(2)] simp: queue_mack_def auth_simps\<close>)

lemma lim_pendingI:
  "map_of (m_TXMsgs s) i = Some msg \<Longrightarrow> om_Completed msg = Some LIMDelivered \<Longrightarrow> lim_pending s"
  by (auto simp: lim_pending_def dest!: map_of_SomeD intro: rev_bexI)

lemma auth_ok_complete_tx:
  assumes "om_Completed msg = Some LIMDelivered \<Longrightarrow> \<not> m_Inbound s"
  shows "auth_ok cr s (complete_tx e i msg s)"
proof -
  have "auth_ok cr s (run_handler e (fst (Completed msg)) s)"
    using assms by (intro auth_ok_run_handler) (auto simp: Completed_def)
  then show ?thesis
    unfolding complete_tx_def Let_def by (rule auth_ok_trans [OF _ auth_ok_erase_tx])
qed

lemma not_inbound_of_lim:
  "auth_inv cr s \<Longrightarrow> map_of (m_TXMsgs s) i = Some msg \<Longrightarrow> om_Completed msg = Some LIMDelivered \<Longrightarrow>
     \<not> m_Inbound s"
  using lim_pendingI by (auto simp: auth_inv_def)

lemma auth_live_HandleMACK_loop:
  "auth_live cr s \<Longrightarrow> auth_live cr (HandleMACK_loop e n ptr data s)"
proof (induction n arbitrary: ptr s)
  case (Suc n)
  define acked where "acked = load_be64 (e_oxenc e) (segment ptr 8 data)"
  show ?case
  proof (cases "map_of (m_TXMsgs s) acked")
    case None
    then show ?thesis using Suc by (simp add: acked_def Let_def)
  next
    case (Some msg)
    let ?t = "s\<lparr>m_Stats := (m_Stats s)\<lparr>totalAckedTX := totalAckedTX (m_Stats s) + 1,
                 totalInFlightTX := totalInFlightTX (m_Stats s) - 1\<rparr>\<rparr>"
    have t: "auth_live cr ?t"
      by (rule auth_live_view [OF _ Suc.prems]) (simp add: auth_simps)
    have "om_Completed msg = Some LIMDelivered \<Longrightarrow> \<not> m_Inbound ?t"
      using not_inbound_of_lim [of cr s acked msg] Some Suc.prems by (simp add: auth_live_def)
    then have "auth_live cr (complete_tx e acked msg ?t)"
      by (intro auth_live_ok [OF t] auth_ok_complete_tx)
    then show ?thesis using Some by (simp add: acked_def [symmetric] Let_def Suc.IH)
  qed
qed simp

lemma auth_live_HandleACKS:
  assumes "HandleACKS e data s = Inr s'" and "auth_live cr s"
  shows "auth_live cr s'"
proof (cases "length data < 11 + PacketOverhead")
  case False
  define txid where "txid = load_be64 (e_oxenc e) (segment (2 + PacketOverhead) 8 data)"
  define s1 where "s1 = s\<lparr>m_LastRX := e_now e\<rparr>"
  have 1: "auth_live cr s1"
    by (rule auth_live_view [OF _ assms(2)]) (simp add: s1_def auth_simps)
  note H = assms(1) [unfolded HandleACKS_def if_not_P [OF False] Let_def, folded s1_def txid_def]
  show ?thesis
  proof (cases "map_of (m_TXMsgs s1) txid")
    case (Some msg)
    define msg' where "msg' = Ack (data ! (10 + PacketOverhead)) msg"
    define s2 where "s2 = s1\<lparr>m_TXMsgs := omap_put txid msg' (m_TXMsgs s1)\<rparr>"
    have c: "om_Completed msg' = om_Completed msg" by (simp add: msg'_def Ack_def)
    have ni: "om_Completed msg' = Some LIMDelivered \<Longrightarrow> \<not> m_Inbound s1"
      using not_inbound_of_lim [of cr s1 txid msg] Some 1 c by (simp add: auth_live_def)
    have "auth_ok cr s1 s2"
      unfolding s2_def using ni set_omap_put [of txid msg' "m_TXMsgs s1"]
      by (intro auth_ok_TXMsgs [where k = txid and m = msg']) auto
    then have 2: "auth_live cr s2" by (rule auth_live_ok [OF 1])
    have "s' = complete_tx e txid msg' s2 \<or> flush_message e txid s2 = Inr s'"
      using H Some by (auto simp: bind_exn_Inr_iff msg'_def [symmetric] s2_def [symmetric] split: if_splits)
    moreover have "auth_ok cr s2 (complete_tx e txid msg' s2)"
      using ni by (intro auth_ok_complete_tx) (simp add: s2_def)
    ultimately show ?thesis using 2 auth_live_ok auth_ok_flush_message by metis
  qed (use H 1 in simp)
qed (use assms in \<open>simp add: HandleACKS_def\<close>)

lemma auth_live_HandleCommand:
  assumes "HandleCommand e data s = Inr s'" and "auth_live cr s"
  shows "auth_live cr s'"
proof -
  have nack: "auth_live cr t" if "HandleNACK e data s = Inr t" for t
    using that assms(2)
    by (auto simp: HandleNACK_def Let_def draw_def auth_simps intro!: auth_live_view [OF _ assms(2)]
        split: if_splits option.splits)
  have mack: "auth_live cr t" if "HandleMACK e data s = Inr t" for t
    using that assms(2)
    by (auto simp: HandleMACK_def Let_def auth_live_HandleMACK_loop split: if_splits)
  have ping: "auth_live cr (s\<lparr>m_LastRX := e_now e\<rparr>)"
    by (rule auth_live_view [OF _ assms(2)]) (simp add: auth_simps)
  have close: "auth_live cr (Session_Close e s)" by (rule auth_live_ok [OF assms(2) auth_ok_Close])
  show ?thesis
    using assms nack mack ping close
    by (auto simp: HandleCommand_def bind_exn_Inr_iff HandlePING_def HandleCLOS_def
        dest: auth_live_HandleXMIT auth_live_HandleDATA auth_live_HandleACKS split: if_splits)
qed

lemma auth_live_HandleCommands:
  "HandleCommands e rs s = Inr s' \<Longrightarrow> auth_live cr s \<Longrightarrow> auth_live cr s'"
  by (induction rs arbitrary: s) (auto simp: bind_exn_Inr_iff dest: auth_live_HandleCommand)

lemma Inbound_HandleRecvMsgCompleted:
  assumes "HandleRecvMsgCompleted e msg s = Inr s'"
  shows "m_Inbound s' = m_Inbound s"
proof (cases "m_ReplayFilter s (im_MsgID msg) = None")
  case True
  show ?thesis
  proof (rule HandleRecvMsgCompleted_freshE [OF assms True])
    fix t
    assume t: "HandleMessage e (im_MsgID msg) (im_Data msg)
      (s\<lparr>m_ReplayFilter := umap_emplace (im_MsgID msg) (e_now e) (m_ReplayFilter s)\<rparr>) = Inr t"
      and s': "s' = (let u = EncryptAndSend e (ACKS (e_oxenc e) (fst (draw e t)) msg) (snd (draw e t))
               in u\<lparr>m_RXMsgs := omap_erase (im_MsgID msg) (m_RXMsgs u)\<rparr>)"
    show ?thesis
      using rx_sideD(4) [OF rx_side_run_calls [OF t [unfolded HandleMessage_def]]]
      by (simp add: s' Let_def draw_def emit_def)
  qed
qed (use assms in \<open>auto simp: HandleRecvMsgCompleted_def Let_def\<close>)

lemma Inbound_store_fragment:
  "store_fragment e i msg s = Inr s' \<Longrightarrow> m_Inbound s' = m_Inbound s"
  by (auto simp: store_fragment_def bind_exn_Inr_iff Let_def dest!: Inbound_HandleRecvMsgCompleted
      split: if_splits)

lemma Inbound_HandleXMIT: "HandleXMIT e data s = Inr s' \<Longrightarrow> m_Inbound s' = m_Inbound s"
  by (erule HandleXMIT_cases)
    (auto simp: queue_mack_def accept_xmit_def TriggerPump_def emit_def dest!: Inbound_store_fragment)

lemma Inbound_HandleDATA: "HandleDATA e data s = Inr s' \<Longrightarrow> m_Inbound s' = m_Inbound s"
  by (erule HandleDATA_cases) (auto simp: queue_mack_def draw_def dest!: Inbound_store_fragment)

lemma Inbound_HandleCommand:
  assumes "HandleCommand e data s = Inr s'"
  shows "m_Inbound s' = m_Inbound s"
proof -
  consider "HandleXMIT e data s = Inr s'" | "HandleDATA e data s = Inr s'" | "rx_side s' = rx_side s"
    using HandleCommand_split [OF assms] by blast
  then show ?thesis
    by cases (rule Inbound_HandleXMIT Inbound_HandleDATA rx_sideD(4), assumption)+
qed

lemma auth_live_PlaintextRecv: "auth_live cr s \<Longrightarrow> auth_live cr (s\<lparr>m_PlaintextRecv := q\<rparr>)"
  by (auto simp: auth_live_def auth_inv_def live_def lim_pending_def)

lemma auth_live_HandleQueues:
  "HandleQueues e qs s = Inr s' \<Longrightarrow> auth_live cr s \<Longrightarrow> auth_live cr s'"
  by (induction qs arbitrary: s)
    (auto simp: bind_exn_Inr_iff dest!: auth_live_HandleCommands intro: auth_live_PlaintextRecv)

lemma HandleQueues_empty:
  "\<forall>q\<in>set qs. q = [] \<Longrightarrow>
     HandleQueues e qs s = Inr (if qs = [] then s else s\<lparr>m_PlaintextRecv := []\<rparr>)"
  by (induction qs arbitrary: s) auto

lemma auth_view_SendMACK [auth_simps]: "auth_view (SendMACK e s) = auth_view s"
  unfolding SendMACK_def
proof (induction e s rule: SendMACK_loop.induct)
  case (1 e s)
  then show ?case
    by (subst SendMACK_loop.simps) (simp add: Let_def draw_def auth_simps)
qed

lemma Inbound_HandleCommands: "HandleCommands e rs s = Inr s' \<Longrightarrow> m_Inbound s' = m_Inbound s"
proof (induction rs arbitrary: s)
  case (Cons r rs)
  then obtain t where t: "HandleCommand e r s = Inr t" "HandleCommands e rs t = Inr s'"
    by (auto simp: bind_exn_Inr_iff)
  have "m_Inbound t = m_Inbound s" using t(1) by (rule Inbound_HandleCommand)
  with Cons.IH [OF t(2)] show ?case by simp
qed simp

lemma HandleQueues_Inbound: "HandleQueues e qs s = Inr s' \<Longrightarrow> m_Inbound s' = m_Inbound s"
  by (induction qs arbitrary: s) (auto simp: bind_exn_Inr_iff dest!: Inbound_HandleCommands)

lemma auth_inv_HandlePlaintext:
  assumes "HandlePlaintext e s = Inr s'" and "auth_inv cr s"
  shows "auth_inv cr s'"
proof (cases "m_PlaintextEmpty s")
  case False
  let ?s = "s\<lparr>m_PlaintextEmpty := True\<rparr>"
  obtain t where t: "HandleQueues e (m_PlaintextRecv s) ?s = Inr t"
    and s': "s' = emit WokePlaintext (SendMACK e t)"
    using assms(1) False by (auto simp: HandlePlaintext_def bind_exn_Inr_iff)
  have s: "auth_inv cr ?s" using auth_inv_cong [of ?s s cr] assms(2) by (simp add: auth_simps)
  have "auth_inv cr t"
  proof (cases "live s \<or> \<not> m_Inbound s")
    case True
    then show ?thesis
    proof
      assume "live s"
      with s have "auth_live cr ?s" by (simp add: auth_live_def live_def)
      then show ?thesis using auth_live_HandleQueues [OF t] by (simp add: auth_live_def)
    next
      assume "\<not> m_Inbound s"
      moreover have "m_Inbound t = m_Inbound s" using HandleQueues_Inbound [OF t] by simp
      ultimately show ?thesis by (simp add: auth_inv_def)
    qed
  next
    case notlive: False
    then have "\<forall>q\<in>set (m_PlaintextRecv s). q = []"
      using assms(2) by (auto simp: auth_inv_def no_input_def)
    note t' = HandleQueues_empty [OF this, of e ?s, unfolded t]
    have "auth_inv cr (?s\<lparr>m_PlaintextRecv := []\<rparr>)"
      using s by (simp add: auth_inv_def live_def lim_pending_def no_input_def)
    with s t' show ?thesis by (simp split: if_splits)
  qed
  then show ?thesis
    using auth_inv_cong [of s' t cr] by (simp add: s' auth_simps)
qed (use assms in \<open>simp add: HandlePlaintext_def\<close>)

lemma auth_inv_run_job:
  assumes "auth_inv cr s" and "j \<in> set (m_Jobs s)" and "set js \<subseteq> set (m_Jobs s)"
  shows "auth_inv cr (run_job e j (s\<lparr>m_Jobs := js\<rparr>))"
proof -
  have 1: "auth_inv cr (s\<lparr>m_Jobs := js\<rparr>)"
    using assms(1,3) by (auto simp: auth_inv_def live_def lim_pending_def no_input_def)
  show ?thesis
  proof (cases j)
    case (EncryptJob ps)
    then show ?thesis
      using auth_inv_cong [of "EncryptWorker e ps (s\<lparr>m_Jobs := js\<rparr>)" "s\<lparr>m_Jobs := js\<rparr>" cr] 1
      by (simp add: auth_simps)
  next
    case (DecryptJob ps)
    have "m_Inbound s \<and> \<not> live s \<Longrightarrow> ps = []"
      using assms(1,2) DecryptJob by (force simp: auth_inv_def no_input_def)
    then have "m_Inbound s \<and> \<not> live s \<Longrightarrow> decrypt_all e (s\<lparr>m_Jobs := js\<rparr>) ps = []"
      by (simp add: decrypt_all_def map_filter_simps)
    with 1 have "auth_inv cr (s\<lparr>m_Jobs := js,
        m_PlaintextRecv := m_PlaintextRecv s @ [decrypt_all e (s\<lparr>m_Jobs := js\<rparr>) ps]\<rparr>)"
      by (auto simp: auth_inv_def live_def lim_pending_def no_input_def)
    with 1 show ?thesis
      by (auto simp: DecryptJob DecryptWorker_def Let_def auth_inv_def live_def lim_pending_def
          no_input_def emit_def)
  qed
qed

lemma auth_view_Pump_acks [auth_simps]: "auth_view (Pump_acks e ids s) = auth_view s"
  by (induction ids arbitrary: s) (simp_all add: draw_def SendACKS_def auth_simps split: option.split)

lemma auth_ok_Pump_resend: "Pump_resend e ids s = Inr s' \<Longrightarrow> auth_ok cr s s'"
  by (induction ids arbitrary: s)
    (auto simp: bind_exn_Inr_iff dest!: auth_ok_flush_message intro: auth_ok_trans)

definition queue_jobs :: "session \<Rightarrow> session" where
  "queue_jobs t =
     (let s = (if m_EncryptNext t \<noteq> []
               then t\<lparr>m_Jobs := m_Jobs t @ [EncryptJob (m_EncryptNext t)], m_EncryptNext := []\<rparr>
               else t)
      in if m_DecryptNext s \<noteq> []
         then s\<lparr>m_Jobs := m_Jobs s @ [DecryptJob (m_DecryptNext s)], m_DecryptNext := []\<rparr>
         else s)"

definition pump_acked :: "env \<Rightarrow> session \<Rightarrow> session" where
  "pump_acked e s =
     (let s = (if ShouldPing e s then SendKeepAlive e s else s)
      in Pump_acks e (map fst (m_RXMsgs s)) s)"

lemma Session_Pump_eq:
  "Session_Pump e s =
     bind_exn (if m_State s = Ready \<or> m_State s = LinkIntro
               then Pump_resend e (to_resend (e_now e) (m_TXMsgs (pump_acked e s))) (pump_acked e s)
               else Inr s)
       (\<lambda>s. Inr (queue_jobs s))"
  by (simp only: Session_Pump_def queue_jobs_def pump_acked_def Let_def)

lemma auth_inv_queue_jobs: "auth_inv cr s \<Longrightarrow> auth_inv cr (queue_jobs s)"
  by (auto simp: queue_jobs_def Let_def auth_inv_def live_def lim_pending_def no_input_def)

lemma auth_ok_pump_acked: "auth_ok cr s (pump_acked e s)"
proof -
  have "auth_ok cr s (if ShouldPing e s then SendKeepAlive e s else s)"
    by (simp add: auth_ok_SendKeepAlive)
  then show ?thesis
    unfolding pump_acked_def Let_def
    by (rule auth_ok_trans) (simp add: auth_ok_view auth_simps)
qed

lemma auth_inv_Session_Pump:
  assumes "Session_Pump e s = Inr s'" and "auth_inv cr s"
  shows "auth_inv cr s'"
proof -
  obtain t where t: "(if m_State s = Ready \<or> m_State s = LinkIntro
      then Pump_resend e (to_resend (e_now e) (m_TXMsgs (pump_acked e s))) (pump_acked e s)
      else Inr s) = Inr t" and s': "s' = queue_jobs t"
    using assms(1) unfolding Session_Pump_eq bind_exn_Inr_iff by auto
  have "auth_ok cr s t"
  proof (cases "m_State s = Ready \<or> m_State s = LinkIntro")
    case True
    with t have "Pump_resend e (to_resend (e_now e) (m_TXMsgs (pump_acked e s))) (pump_acked e s) = Inr t"
      by simp
    then show ?thesis by (rule auth_ok_trans [OF auth_ok_pump_acked auth_ok_Pump_resend])
  qed (use t in simp)
  then show ?thesis using assms(2) by (simp add: s' auth_ok_def auth_inv_queue_jobs)
qed

lemma auth_ok_drop_tx: "auth_ok cr s (drop_tx e kv s)"
proof -
  let ?s = "s\<lparr>m_Stats := (m_Stats s)\<lparr>totalDroppedTX := totalDroppedTX (m_Stats s) + 1,
                totalInFlightTX := totalInFlightTX (m_Stats s) - 1\<rparr>\<rparr>"
  have 1: "auth_ok cr s ?s" by (rule auth_ok_view) (simp add: auth_simps)
  have 2: "auth_ok cr ?s (run_handler e (fst (InformTimeout (snd kv))) ?s)"
    by (rule auth_ok_run_handler) (auto simp: InformTimeout_def)
  show ?thesis
    unfolding drop_tx_def Let_def
    by (rule auth_ok_trans [OF auth_ok_trans [OF 1 2] auth_ok_erase_tx])
qed

lemma auth_ok_fold_drop_tx: "auth_ok cr s (fold (drop_tx e) kvs s)"
proof (induction kvs arbitrary: s)
  case (Cons kv kvs)
  show ?case using auth_ok_trans [OF auth_ok_drop_tx Cons.IH] by simp
qed simp

lemma auth_view_fold_drop_rx [auth_simps]: "auth_view (fold (drop_rx now) kvs s) = auth_view s"
  by (induction kvs arbitrary: s) (simp_all add: drop_rx_def auth_simps)

lemma auth_ok_Session_Tick: "auth_ok cr s (Session_Tick e s)"
proof -
  define s1 where "s1 = (if ShouldResetRates s (e_now e)
    then (ResetRates s)\<lparr>m_ResetRatesAt := e_now e + 1000\<rparr> else s)"
  define s2 where "s2 = fold (drop_tx e)
    (filter (\<lambda>kv. OutboundMessage_IsTimedOut (snd kv) (e_now e)) (m_TXMsgs s1)) s1"
  have 1: "auth_ok cr s s1" by (rule auth_ok_view) (simp add: s1_def ResetRates_def auth_simps)
  have 2: "auth_ok cr s1 s2" unfolding s2_def by (rule auth_ok_fold_drop_tx)
  have 3: "auth_ok cr s2 (Session_Tick e s)"
    by (rule auth_ok_view)
      (simp add: Session_Tick_def Let_def s1_def [symmetric] s2_def [symmetric] auth_simps)
  show ?thesis by (rule auth_ok_trans [OF auth_ok_trans [OF 1 2] 3])
qed

lemma auth_inv_HandleGotIntro:
  assumes "auth_inv (e_crypto e) s" and "m_State s = Initial" and "m_Inbound s"
  shows "auth_inv (e_crypto e) (HandleGotIntro e pkt s)"
proof (cases "length pkt < Introduction_SIZE + PacketOverhead")
  case False
  let ?id = "segment PacketOverhead PubKey_SIZE pkt"
  let ?s = "s\<lparr>m_ExpectedIdent := ?id,
              m_RemoteOnionKey := segment (PacketOverhead + PubKey_SIZE) PubKey_SIZE pkt\<rparr>"
  let ?Z = "segment (PacketOverhead + PubKey_SIZE + PubKey_SIZE + TUNNONCESIZE) Signature_SIZE pkt"
  let ?v = "segment PacketOverhead (Introduction_SIZE - Signature_SIZE) pkt"
  have s: "auth_inv (e_crypto e) ?s"
    using assms by (simp add: auth_inv_def live_def lim_pending_def no_input_def)
  show ?thesis
  proof (cases "verify (e_crypto e) ?id ?v ?Z")
    case True
    have "length ?v = 96" "take 32 ?v = ?id" "length ?Z = 64"
      using False by (auto simp: segment_def session_consts min_def)
    with True have "signed_intro (e_crypto e) ?id" by (auto simp: signed_intro_def)
    with s assms(2) have ok: "auth_inv (e_crypto e) (t\<lparr>m_State := Introduction\<rparr>)"
      if "auth_view t = auth_view ?s" for t
      using that by (auto simp: auth_view_def auth_inv_def live_def lim_pending_def no_input_def)
    from True False s show ?thesis
      by (auto simp: HandleGotIntro_def Let_def draw_def auth_simps intro!: ok split: option.split)
  qed (use False s in \<open>simp add: HandleGotIntro_def Let_def\<close>)
qed (use assms in \<open>simp add: HandleGotIntro_def\<close>)

lemma auth_ok_HandleCreateSessionRequest:
  assumes "HandleCreateSessionRequest e pkt s = Inr s'" and "m_State s = Introduction"
  shows "auth_ok cr s s'"
proof -
  let ?s = "s\<lparr>m_LastRX := e_now e, m_State := LinkIntro\<rparr>"
  have 1: "auth_ok cr s ?s"
    using assms(2) by (auto simp: auth_ok_def auth_inv_def live_def lim_pending_def no_input_def)
  have "s' = s \<or> SendOurLIM e None ?s = Inr s'"
    using assms(1) by (auto simp: HandleCreateSessionRequest_def split: option.splits if_splits)
  then show ?thesis
    using auth_ok_trans [OF 1 auth_ok_SendOurLIM] by auto
qed

lemma auth_inv_Recv_LL:
  assumes "Recv_LL e data s = Inr (b, s')" and "auth_inv (e_crypto e) s"
  shows "auth_inv (e_crypto e) s'"
proof -
  define t where "t = s\<lparr>m_RXRate := m_RXRate s + of_nat (length data),
    m_Stats := (m_Stats s)\<lparr>totalPacketsRX := totalPacketsRX (m_Stats s) + 1\<rparr>\<rparr>"
  have t: "auth_inv (e_crypto e) t"
    using auth_inv_cong [of t s "e_crypto e"] assms(2) by (simp add: t_def auth_simps)
  note H = assms(1) [unfolded Recv_LL_def Let_def, folded t_def]
  show ?thesis
  proof (cases "m_State t")
    case Initial
    then show ?thesis
      using H t by (auto intro: auth_inv_HandleGotIntro split: if_splits option.splits)
  next
    case Introduction
    show ?thesis
    proof (cases "m_Inbound t")
      case True
      with H Introduction have "HandleCreateSessionRequest e data t = Inr s'"
        by (auto simp: bind_exn_Inr_iff)
      from auth_ok_HandleCreateSessionRequest [OF this Introduction] t show ?thesis
        by (simp add: auth_ok_def)
    next
      case False
      with H Introduction have "s' = HandleGotIntroAck e data t" by auto
      with False have "\<not> m_Inbound s'"
        by (simp add: HandleGotIntroAck_def Let_def draw_def split: option.split)
      then show ?thesis by (simp add: auth_inv_def)
    qed
  qed (use H t in \<open>auto simp: HandleSessionData_def TriggerPump_def emit_def auth_inv_def live_def
         lim_pending_def no_input_def\<close>)
qed

lemma auth_inv_Session_Start: "auth_inv cr s \<Longrightarrow> auth_inv cr (Session_Start e s)"
  by (simp add: Session_Start_def GenerateAndSendIntro_def Let_def draw_def auth_inv_def
      split: option.split)

lemma auth_inv_step:
  "session_step cr cs cs' \<Longrightarrow> auth_inv cr (snd cs) \<Longrightarrow> auth_inv cr (snd cs')"
proof (induction rule: session_step.induct)
  case (step_Job c e j s s')
  moreover have "set (take j (m_Jobs s) @ drop (Suc j) (m_Jobs s)) \<subseteq> set (m_Jobs s)"
    using set_take_subset [of j "m_Jobs s"] set_drop_subset [of "Suc j" "m_Jobs s"] by auto
  ultimately show ?case using auth_inv_run_job [of cr s "m_Jobs s ! j"] by simp
next
  case (step_Call c e call s s')
  then show ?case using auth_ok_run_call [of e call s s' cr] by (auto simp: auth_ok_def)
next
  case (step_Tick c e s' s)
  then show ?case using auth_ok_Session_Tick [of cr s e] by (simp add: auth_ok_def)
qed (auto intro: auth_inv_Recv_LL auth_inv_HandlePlaintext auth_inv_Session_Pump auth_inv_Session_Start)

lemma auth_inv_init: "session_init cr cs \<Longrightarrow> auth_inv cr (snd cs)"
  by (induction rule: session_init.induct)
    (simp_all add: auth_inv_def Session_outbound_def Session_inbound_def Session_common_def
      lim_pending_def no_input_def live_def)

interpretation handshake: invariant_system "session_init cr" "session_step cr" "\<lambda>cs. auth_inv cr (snd cs)"
  by unfold_locales (auto intro: auth_inv_init auth_inv_step)

text \<open>
  C6. Authentication of an inbound session: in every run, a session that is \<^verbatim>\<open>Ready\<close> and has
  never been closed holds the contact of the router whose key opened the handshake, and
  that key has verified a signature on a 96 byte introduction that starts with the key
  itself.
\<close>

theorem inbound_ready_authenticated:
  assumes "reach (session_init cr) (session_step cr) (c, s)"
    and "m_Inbound s" and "m_State s = Ready" and "\<not> m_SentClosed s"
  shows "rc_pubkey (m_RemoteRC s) = m_ExpectedIdent s \<and>
    (\<exists>buf Z. length buf = 96 \<and> take 32 buf = m_ExpectedIdent s \<and> length Z = 64 \<and>
       verify cr (m_ExpectedIdent s) buf Z)"
  using handshake.reach_inv [OF assms(1)] assms(2-) by (auto simp: auth_inv_def signed_intro_def)

text \<open>
  A complete inbound handshake: the introduction, the session request with the token, and
  a message in which the router finds the link introduction message of the peer.
\<close>

definition hs_env :: "llarp_time_t \<Rightarrow> env" where
  "hs_env now = (example_env now)
     \<lparr>e_HandleMessage := (\<lambda>_ _. [CallGotLIM \<lparr>rc_pubkey = replicate 32 9, rc_routerVersion = None,
        rc_addrs = []\<rparr>])\<rparr>"

definition hs_intro :: bytes where
  "hs_intro = encrypt_packet plain_crypto [] (replicate 64 0 @ replicate 160 9)"

definition hs_request :: bytes where
  "hs_request = encrypt_packet plain_crypto [] (replicate 88 0)"

definition hs_deliver :: "session \<Rightarrow> exn + session" where
  "hs_deliver s =
     bind_exn (Recv_LL (hs_env 3) example_packet s)
       (\<lambda>(_, s). bind_exn (Session_Pump (hs_env 3) s)
         (\<lambda>s. if m_Jobs s = [] then Inl AssertFailed
              else HandlePlaintext (hs_env 3)
                     (run_job (hs_env 3) (m_Jobs s ! 0) (s\<lparr>m_Jobs := drop (Suc 0) (m_Jobs s)\<rparr>))))"

definition hs_linkintro :: "exn + session" where
  "hs_linkintro =
     bind_exn (Recv_LL (hs_env 1) hs_intro (Session_inbound (hs_env 0) 5))
       (\<lambda>(_, s). bind_exn (Recv_LL (hs_env 2) hs_request s) (\<lambda>(_, s). Inr s))"

definition hs_observe ::
  "(session \<Rightarrow> session) \<Rightarrow> exn + State \<times> State \<times> bool \<times> bool \<times> bool" where
  "hs_observe f =
     bind_exn hs_linkintro (\<lambda>s. bind_exn (hs_deliver (f s))
       (\<lambda>t. Inr (m_State (f s), m_State t, m_Inbound t, m_SentClosed t,
                 Established True \<in> set (m_events t))))"

lemma hs_observe_open: "hs_observe (\<lambda>s. s) = Inr (LinkIntro, Ready, True, False, True)"
  by code_simp

lemma hs_observe_closed:
  "hs_observe (Session_Close (hs_env 2)) = Inr (Closed, Ready, True, True, True)"
  by code_simp

lemma hs_observeD:
  assumes "hs_observe f = Inr (a, b, c, d, x)"
  obtains s t where "hs_linkintro = Inr s" "hs_deliver (f s) = Inr t" "m_State (f s) = a"
    "m_State t = b" "m_Inbound t = c" "m_SentClosed t = d" "(Established True \<in> set (m_events t)) = x"
  using assms by (auto simp: hs_observe_def bind_exn_Inr_iff)

lemma hs_env_sel [simp]: "e_now (hs_env t) = t" "e_crypto (hs_env t) = plain_crypto"
  by (simp_all add: hs_env_def example_env_def)

lemma reach_hs_linkintro:
  assumes "hs_linkintro = Inr s"
  shows "reach (session_init plain_crypto) (session_step plain_crypto) (2, s)"
proof -
  have 0: "reach (session_init plain_crypto) (session_step plain_crypto) (0, Session_inbound (hs_env 0) 5)"
    using reach_init [of "session_init plain_crypto", OF init_inbound [of "hs_env 0" _ 5]] by simp
  obtain b1 s1 b2 where 1: "Recv_LL (hs_env 1) hs_intro (Session_inbound (hs_env 0) 5) = Inr (b1, s1)"
    and 2: "Recv_LL (hs_env 2) hs_request s1 = Inr (b2, s)"
    using assms by (auto simp: hs_linkintro_def bind_exn_Inr_iff)
  note r1 = reach_step [OF 0 step_Recv [OF _ _ 1]]
  show ?thesis using reach_step [OF r1 step_Recv [OF _ _ 2]] by simp
qed

lemma steps_hs_deliver:
  assumes "hs_deliver s = Inr s'"
  shows "(session_step plain_crypto)\<^sup>*\<^sup>* (2, s) (3, s')"
proof -
  obtain b s1 s2 where 1: "Recv_LL (hs_env 3) example_packet s = Inr (b, s1)"
    and 2: "Session_Pump (hs_env 3) s1 = Inr s2" and 3: "m_Jobs s2 \<noteq> []"
    and 4: "HandlePlaintext (hs_env 3)
      (run_job (hs_env 3) (m_Jobs s2 ! 0) (s2\<lparr>m_Jobs := drop (Suc 0) (m_Jobs s2)\<rparr>)) = Inr s'"
    using assms by (auto simp: hs_deliver_def bind_exn_Inr_iff split: if_splits)
  note r1 = step_Recv [OF _ _ 1, of 2 plain_crypto]
  note r2 = step_Pump [OF _ _ 2, of 3 plain_crypto]
  note r3 = step_Job [where e = "hs_env 3" and j = 0 and s = s2 and c = 3 and cr = plain_crypto]
  note r4 = step_Plaintext [OF _ _ 4, of 3 plain_crypto]
  have "session_step plain_crypto (2, s) (3, s1)" "session_step plain_crypto (3, s1) (3, s2)"
    using r1 r2 by simp_all
  moreover note r3 [OF _ _ _ refl]
  ultimately show ?thesis
    using r4 3 by (simp add: converse_rtranclp_into_rtranclp)
qed

theorem inbound_ready_authenticated_witness:
  "\<exists>s. reach (session_init plain_crypto) (session_step plain_crypto) (3, s) \<and>
     m_Inbound s \<and> m_State s = Ready \<and> \<not> m_SentClosed s \<and> rc_pubkey (m_RemoteRC s) = m_ExpectedIdent s"
proof -
  obtain s t where s: "hs_linkintro = Inr s" "hs_deliver s = Inr t"
    and t: "m_State t = Ready" "m_Inbound t" "\<not> m_SentClosed t"
    using hs_observe_open by (rule hs_observeD) simp
  have "reach (session_init plain_crypto) (session_step plain_crypto) (3, t)"
    using reach_steps [OF steps_hs_deliver [OF s(2)] reach_hs_linkintro [OF s(1)]] .
  with t show ?thesis using inbound_ready_authenticated by blast
qed

text \<open>
  C7. \<^verbatim>\<open>Closed\<close> is not final: there is a run in which an inbound session is closed after the
  session request and becomes \<^verbatim>\<open>Ready\<close> again when the peer's link introduction message
  arrives, because \<^verbatim>\<open>Recv_LL\<close> queues session data in every state after \<^verbatim>\<open>Introduction\<close> and
  \<^verbatim>\<open>GotInboundLIM\<close> sets the state without looking at it.
\<close>

theorem closed_session_becomes_ready:
  "\<exists>s s'. reach (session_init plain_crypto) (session_step plain_crypto) (2, s) \<and>
     m_State s = Closed \<and> (session_step plain_crypto)\<^sup>*\<^sup>* (2, s) (3, s') \<and>
     m_State s' = Ready \<and> Established True \<in> set (m_events s')"
proof -
  obtain s t where s: "hs_linkintro = Inr s" "hs_deliver (Session_Close (hs_env 2) s) = Inr t"
    and t: "m_State (Session_Close (hs_env 2) s) = Closed" "m_State t = Ready"
      "Established True \<in> set (m_events t)"
    using hs_observe_closed by (rule hs_observeD) simp
  have "session_step plain_crypto (2, s) (2, Session_Close (hs_env 2) s)"
    using step_Call [of 2 "hs_env 2" plain_crypto CallClose] by simp
  with reach_hs_linkintro [OF s(1)]
  have "reach (session_init plain_crypto) (session_step plain_crypto) (2, Session_Close (hs_env 2) s)"
    by (rule reach_step)
  with steps_hs_deliver [OF s(2)] t show ?thesis by blast
qed

end
