(* ===== verification/Iwp_Pump.thy ===== *)
theory Iwp_Pump
  imports Iwp_Handshake
begin

text \<open>
  One call of \<^verbatim>\<open>Session::Pump\<close> (\<^verbatim>\<open>llarp/iwp/session.cpp\<close>): the packets it hands to
  \<^verbatim>\<open>EncryptAndSend\<close>, their order, the job it queues and what it changes in the tables of
  messages.
\<close>

section \<open>One call of Pump\<close>

text \<open>Handing a packet to \<^verbatim>\<open>EncryptAndSend\<close> commutes with changes to the tables and the random source.\<close>

named_theorems pump_simps \<open>sending commutes with changes to the message tables\<close>

lemma Send_LL_upd [pump_simps]:
  "Send_LL e pkt (s\<lparr>m_TXMsgs := tx\<rparr>) = (Send_LL e pkt s)\<lparr>m_TXMsgs := tx\<rparr>"
  "Send_LL e pkt (s\<lparr>m_RXMsgs := rx\<rparr>) = (Send_LL e pkt s)\<lparr>m_RXMsgs := rx\<rparr>"
  "Send_LL e pkt (s\<lparr>m_rpos := r\<rparr>) = (Send_LL e pkt s)\<lparr>m_rpos := r\<rparr>"
  by (cases s; simp add: Send_LL_def emit_def)+

lemma EncryptWorker_upd [pump_simps]:
  "EncryptWorker e pkts (s\<lparr>m_TXMsgs := tx\<rparr>) = (EncryptWorker e pkts s)\<lparr>m_TXMsgs := tx\<rparr>"
  "EncryptWorker e pkts (s\<lparr>m_RXMsgs := rx\<rparr>) = (EncryptWorker e pkts s)\<lparr>m_RXMsgs := rx\<rparr>"
  "EncryptWorker e pkts (s\<lparr>m_rpos := r\<rparr>) = (EncryptWorker e pkts s)\<lparr>m_rpos := r\<rparr>"
  unfolding EncryptWorker_def by (induction pkts arbitrary: s) (simp_all add: pump_simps)

lemma EncryptAndSend_cases:
  "EncryptAndSend e pkt s =
     (if m_State s = Ready
      then s\<lparr>m_EncryptNext := m_EncryptNext s @ [pkt], m_events := m_events s @ [TriggeredPump]\<rparr>
      else (EncryptWorker e (m_EncryptNext s @ [pkt])
             (s\<lparr>m_EncryptNext := m_EncryptNext s @ [pkt], m_events := m_events s @ [TriggeredPump]\<rparr>))
           \<lparr>m_EncryptNext := []\<rparr>)"
  by (simp add: EncryptAndSend_def TriggerPump_def emit_def IsEstablished_def Let_def)

lemma EncryptAndSend_upd [pump_simps]:
  "EncryptAndSend e pkt (s\<lparr>m_TXMsgs := tx\<rparr>) = (EncryptAndSend e pkt s)\<lparr>m_TXMsgs := tx\<rparr>"
  "EncryptAndSend e pkt (s\<lparr>m_RXMsgs := rx\<rparr>) = (EncryptAndSend e pkt s)\<lparr>m_RXMsgs := rx\<rparr>"
  "EncryptAndSend e pkt (s\<lparr>m_rpos := r\<rparr>) = (EncryptAndSend e pkt s)\<lparr>m_rpos := r\<rparr>"
proof -
  have swap: "s\<lparr>m_TXMsgs := tx, m_EncryptNext := q, m_events := w\<rparr> = s\<lparr>m_EncryptNext := q, m_events := w\<rparr>\<lparr>m_TXMsgs := tx\<rparr>"
    "s\<lparr>m_RXMsgs := rx, m_EncryptNext := q, m_events := w\<rparr> = s\<lparr>m_EncryptNext := q, m_events := w\<rparr>\<lparr>m_RXMsgs := rx\<rparr>"
    "s\<lparr>m_rpos := r, m_EncryptNext := q, m_events := w\<rparr> = s\<lparr>m_EncryptNext := q, m_events := w\<rparr>\<lparr>m_rpos := r\<rparr>" for q w
    by simp_all
  show "EncryptAndSend e pkt (s\<lparr>m_TXMsgs := tx\<rparr>) = (EncryptAndSend e pkt s)\<lparr>m_TXMsgs := tx\<rparr>"
    "EncryptAndSend e pkt (s\<lparr>m_RXMsgs := rx\<rparr>) = (EncryptAndSend e pkt s)\<lparr>m_RXMsgs := rx\<rparr>"
    "EncryptAndSend e pkt (s\<lparr>m_rpos := r\<rparr>) = (EncryptAndSend e pkt s)\<lparr>m_rpos := r\<rparr>"
    unfolding EncryptAndSend_cases by (simp_all add: pump_simps swap)
qed

lemma EncryptAndSend_sel [pump_simps]:
  "m_TXMsgs (EncryptAndSend e pkt s) = m_TXMsgs s" "m_RXMsgs (EncryptAndSend e pkt s) = m_RXMsgs s"
  "m_rpos (EncryptAndSend e pkt s) = m_rpos s"
  using arg_cong [OF EncryptAndSend_upd(1) [where e = e and pkt = pkt and s = s and tx = "m_TXMsgs s"], of m_TXMsgs]
    arg_cong [OF EncryptAndSend_upd(2) [where e = e and pkt = pkt and s = s and rx = "m_RXMsgs s"], of m_RXMsgs]
    arg_cong [OF EncryptAndSend_upd(3) [where e = e and pkt = pkt and s = s and r = "m_rpos s"], of m_rpos] by simp_all

lemma sends_upd [pump_simps]:
  "fold (EncryptAndSend e) pkts (s\<lparr>m_TXMsgs := tx\<rparr>) = (fold (EncryptAndSend e) pkts s)\<lparr>m_TXMsgs := tx\<rparr>"
  "fold (EncryptAndSend e) pkts (s\<lparr>m_RXMsgs := rx\<rparr>) = (fold (EncryptAndSend e) pkts s)\<lparr>m_RXMsgs := rx\<rparr>"
  "fold (EncryptAndSend e) pkts (s\<lparr>m_rpos := r\<rparr>) = (fold (EncryptAndSend e) pkts s)\<lparr>m_rpos := r\<rparr>"
  by (induction pkts arbitrary: s) (simp_all add: pump_simps)

lemma sends_sel [pump_simps]:
  "m_TXMsgs (fold (EncryptAndSend e) pkts s) = m_TXMsgs s" "m_RXMsgs (fold (EncryptAndSend e) pkts s) = m_RXMsgs s"
  "m_rpos (fold (EncryptAndSend e) pkts s) = m_rpos s"
  by (induction pkts arbitrary: s) (simp_all add: pump_simps)

text \<open>In the state \<^verbatim>\<open>Ready\<close> packets are appended to the queue for the encryption worker.\<close>

lemma sends_Ready:
  "m_State s = Ready \<Longrightarrow> m_EncryptNext (fold (EncryptAndSend e) pkts s) = m_EncryptNext s @ pkts"
  by (induction pkts arbitrary: s) (simp_all add: EncryptAndSend_cases)

definition acked_at :: "llarp_time_t \<Rightarrow> u64 list \<Rightarrow> (u64 \<times> InboundMessage) list \<Rightarrow> u64 \<rightharpoonup> InboundMessage" where
  "acked_at now ids rxs i =
     map_option (\<lambda>m. if i \<in> set ids \<and> ShouldSendACKS m now then m\<lparr>im_LastACKSent := now\<rparr> else m) (map_of rxs i)"

lemma Pump_acks_eq:
  assumes "omap_ok (m_RXMsgs s)" and "distinct ids" and "set ids \<subseteq> dom (map_of (m_RXMsgs s))"
  shows "\<exists>acks r rx. Pump_acks e ids s = fold (EncryptAndSend e) acks (s\<lparr>m_rpos := r, m_RXMsgs := rx\<rparr>) \<and>
    list_all2 (\<lambda>i pkt. \<exists>m rd. map_of (m_RXMsgs s) i = Some m \<and> pkt = ACKS (e_oxenc e) rd m)
      (filter (\<lambda>i. ShouldSendACKS (the (map_of (m_RXMsgs s) i)) (e_now e)) ids) acks \<and>
    map_of rx = acked_at (e_now e) ids (m_RXMsgs s)"
  using assms
proof (induction ids arbitrary: s)
  case Nil
  have "Pump_acks e [] s = fold (EncryptAndSend e) [] (s\<lparr>m_rpos := m_rpos s, m_RXMsgs := m_RXMsgs s\<rparr>)" by simp
  moreover have "map_of (m_RXMsgs s) = acked_at (e_now e) [] (m_RXMsgs s)"
    by (simp add: acked_at_def fun_eq_iff option.map_ident)
  ultimately show ?case
    by - (rule exI [of _ "[]"], rule exI [of _ "m_rpos s"], rule exI [of _ "m_RXMsgs s"], simp)
next
  case (Cons i ids)
  then obtain m where m: "map_of (m_RXMsgs s) i = Some m" by auto
  let ?P = "\<lambda>rxs j pkt. \<exists>m rd. map_of rxs j = Some m \<and> pkt = ACKS (e_oxenc e) rd m"
  show ?case
  proof (cases "ShouldSendACKS m (e_now e)")
    case False
    then have step: "Pump_acks e (i # ids) s = Pump_acks e ids s" by (simp add: m)
    obtain acks r rx where IH: "Pump_acks e ids s = fold (EncryptAndSend e) acks (s\<lparr>m_rpos := r, m_RXMsgs := rx\<rparr>)"
      "list_all2 (?P (m_RXMsgs s)) (filter (\<lambda>i. ShouldSendACKS (the (map_of (m_RXMsgs s) i)) (e_now e)) ids) acks"
      "map_of rx = acked_at (e_now e) ids (m_RXMsgs s)"
      using Cons.IH [of s] Cons.prems by auto
    have "acked_at (e_now e) (i # ids) (m_RXMsgs s) = acked_at (e_now e) ids (m_RXMsgs s)"
    proof
      fix j
      show "acked_at (e_now e) (i # ids) (m_RXMsgs s) j = acked_at (e_now e) ids (m_RXMsgs s) j"
        using False m by (cases "map_of (m_RXMsgs s) j"; cases "j = i") (simp_all add: acked_at_def)
    qed
    then show ?thesis
      unfolding step using IH False m by (intro exI [of _ acks] exI [of _ r] exI [of _ rx]) simp
  next
    case True
    let ?rx = "omap_put i (m\<lparr>im_LastACKSent := e_now e\<rparr>) (m_RXMsgs s)"
    let ?pkt = "ACKS (e_oxenc e) (e_rnd e (m_rpos s)) m"
    let ?t = "EncryptAndSend e ?pkt (s\<lparr>m_rpos := Suc (m_rpos s), m_RXMsgs := ?rx\<rparr>)"
    have step: "Pump_acks e (i # ids) s = Pump_acks e ids ?t"
      using True by (simp add: m draw_def SendACKS_def)
    have rx: "m_RXMsgs ?t = ?rx" by (simp add: pump_simps)
    have look: "map_of ?rx = (map_of (m_RXMsgs s))(i \<mapsto> m\<lparr>im_LastACKSent := e_now e\<rparr>)"
      by (rule map_of_omap_put [OF Cons.prems(1)])
    have pre: "omap_ok (m_RXMsgs ?t)" "distinct ids" "set ids \<subseteq> dom (map_of (m_RXMsgs ?t))"
      using Cons.prems unfolding rx look by auto
    obtain acks r rx' where IH: "Pump_acks e ids ?t = fold (EncryptAndSend e) acks (?t\<lparr>m_rpos := r, m_RXMsgs := rx'\<rparr>)"
      "list_all2 (?P ?rx) (filter (\<lambda>i. ShouldSendACKS (the (map_of ?rx i)) (e_now e)) ids) acks"
      "map_of rx' = acked_at (e_now e) ids ?rx"
      using Cons.IH [OF pre] unfolding rx by blast
    have same: "map_of ?rx j = map_of (m_RXMsgs s) j" if "j \<in> set ids" for j
      using that Cons.prems(2) unfolding look by auto
    have "list_all2 (?P (m_RXMsgs s)) (filter (\<lambda>i. ShouldSendACKS (the (map_of (m_RXMsgs s) i)) (e_now e)) ids) acks"
    proof -
      have "filter (\<lambda>i. ShouldSendACKS (the (map_of ?rx i)) (e_now e)) ids =
          filter (\<lambda>i. ShouldSendACKS (the (map_of (m_RXMsgs s) i)) (e_now e)) ids"
        by (rule filter_cong) (simp_all only: same)
      then show ?thesis using IH(2) by (auto simp: same elim!: list.rel_mono_strong)
    qed
    moreover have "map_of rx' = acked_at (e_now e) (i # ids) (m_RXMsgs s)"
    proof
      fix j
      show "map_of rx' j = acked_at (e_now e) (i # ids) (m_RXMsgs s) j"
        using Cons.prems(2) m True unfolding IH(3) acked_at_def look
        by (cases "map_of (m_RXMsgs s) j"; cases "j = i") simp_all
    qed
    moreover have "?t\<lparr>m_rpos := r, m_RXMsgs := rx'\<rparr> = EncryptAndSend e ?pkt (s\<lparr>m_rpos := r, m_RXMsgs := rx'\<rparr>)"
      by (simp add: pump_simps)
    ultimately show ?thesis
      unfolding step IH(1)
      by (intro exI [of _ "?pkt # acks"] exI [of _ r] exI [of _ rx']) (auto simp: m True)
  qed
qed

definition flushed_at :: "llarp_time_t \<Rightarrow> u64 set \<Rightarrow> (u64 \<times> handler OutboundMessage) list \<Rightarrow> u64 \<rightharpoonup> handler OutboundMessage" where
  "flushed_at now ids txs i =
     map_option (\<lambda>m. if i \<in> ids then m\<lparr>om_LastFlush := now\<rparr> else m) (map_of txs i)"

abbreviation flush_of :: "env \<Rightarrow> (u64 \<times> handler OutboundMessage) list \<Rightarrow> u64 \<Rightarrow> bytes list \<Rightarrow> bool" where
  "flush_of e txs i pkts \<equiv> \<exists>m p. map_of txs i = Some m \<and>
     FlushUnAcked (e_oxenc e) (e_rnd e) (e_now e) p m = Inr (pkts, p + length pkts, m\<lparr>om_LastFlush := e_now e\<rparr>)"

lemma Pump_resend_eq:
  assumes "omap_ok (m_TXMsgs s)" and "distinct ids"
    and "\<forall>i \<in> set ids. \<exists>m. map_of (m_TXMsgs s) i = Some m \<and> length (om_Data m) \<le> MAX_LINK_MSG_SIZE"
  shows "\<exists>pktss r tx. Pump_resend e ids s = Inr (fold (EncryptAndSend e) (concat pktss) (s\<lparr>m_rpos := r, m_TXMsgs := tx\<rparr>)) \<and>
    list_all2 (flush_of e (m_TXMsgs s)) ids pktss \<and> map_of tx = flushed_at (e_now e) (set ids) (m_TXMsgs s)"
  using assms
proof (induction ids arbitrary: s)
  case Nil
  have "Pump_resend e [] s = Inr (fold (EncryptAndSend e) (concat []) (s\<lparr>m_rpos := m_rpos s, m_TXMsgs := m_TXMsgs s\<rparr>))" by simp
  moreover have "map_of (m_TXMsgs s) = flushed_at (e_now e) (set []) (m_TXMsgs s)"
    by (simp add: flushed_at_def fun_eq_iff option.map_ident)
  ultimately show ?case
    by - (rule exI [of _ "[]"], rule exI [of _ "m_rpos s"], rule exI [of _ "m_TXMsgs s"], simp)
next
  case (Cons i ids)
  then obtain m where m: "map_of (m_TXMsgs s) i = Some m" "length (om_Data m) \<le> MAX_LINK_MSG_SIZE" by auto
  let ?m = "m\<lparr>om_LastFlush := e_now e\<rparr>" and ?tx = "omap_put i (m\<lparr>om_LastFlush := e_now e\<rparr>) (m_TXMsgs s)"
  define pkts where "pkts = flush_packets (e_oxenc e) (e_rnd e) m (m_rpos s) (unacked m)"
  have flush: "FlushUnAcked (e_oxenc e) (e_rnd e) (e_now e) (m_rpos s) m = Inr (pkts, m_rpos s + length pkts, ?m)"
    by (simp add: FlushUnAcked_eq [OF m(2)] pkts_def)
  let ?t = "fold (EncryptAndSend e) pkts (s\<lparr>m_rpos := m_rpos s + length pkts, m_TXMsgs := ?tx\<rparr>)"
  have step: "Pump_resend e (i # ids) s = Pump_resend e ids ?t"
    by (simp add: flush_message_def m(1) flush)
  have tx: "m_TXMsgs ?t = ?tx" by (simp add: pump_simps)
  have look: "map_of ?tx = (map_of (m_TXMsgs s))(i \<mapsto> ?m)" by (rule map_of_omap_put [OF Cons.prems(1)])
  have pre: "omap_ok (m_TXMsgs ?t)" "distinct ids"
    "\<forall>i \<in> set ids. \<exists>m. map_of (m_TXMsgs ?t) i = Some m \<and> length (om_Data m) \<le> MAX_LINK_MSG_SIZE"
    using Cons.prems m(2) unfolding tx look by auto
  obtain pktss r tx' where IH:
    "Pump_resend e ids ?t = Inr (fold (EncryptAndSend e) (concat pktss) (?t\<lparr>m_rpos := r, m_TXMsgs := tx'\<rparr>))"
    "list_all2 (flush_of e ?tx) ids pktss" "map_of tx' = flushed_at (e_now e) (set ids) ?tx"
    using Cons.IH [OF pre] unfolding tx by blast
  have "list_all2 (flush_of e (m_TXMsgs s)) ids pktss"
  proof (rule list.rel_mono_strong [OF IH(2)])
    fix j pkts'
    assume "j \<in> set ids" "flush_of e ?tx j pkts'"
    moreover from this(1) have "map_of ?tx j = map_of (m_TXMsgs s) j" using Cons.prems(2) unfolding look by auto
    ultimately show "flush_of e (m_TXMsgs s) j pkts'" by (simp only:)
  qed
  moreover have "map_of tx' = flushed_at (e_now e) (set (i # ids)) (m_TXMsgs s)"
  proof
    fix j
    show "map_of tx' j = flushed_at (e_now e) (set (i # ids)) (m_TXMsgs s) j"
      using Cons.prems(2) m unfolding IH(3) flushed_at_def look
      by (cases "map_of (m_TXMsgs s) j"; cases "j = i") simp_all
  qed
  moreover have "?t\<lparr>m_rpos := r, m_TXMsgs := tx'\<rparr> = fold (EncryptAndSend e) pkts (s\<lparr>m_rpos := r, m_TXMsgs := tx'\<rparr>)"
    by (simp add: pump_simps)
  moreover have "flush_of e (m_TXMsgs s) i pkts" using m(1) flush by blast
  ultimately show ?case
    unfolding step IH(1) by (intro exI [of _ "pkts # pktss"] exI [of _ r] exI [of _ tx']) simp
qed

lemma set_pq_push [simp]: "set (pq_push lt x ys) = insert x (set ys)"
  by (induction ys) auto

lemma sorted_pq_push:
  assumes "\<And>a b. lt a b \<Longrightarrow> \<not> lt b a" and "\<And>a b c. lt a b \<Longrightarrow> lt b c \<Longrightarrow> lt a c"
    and "sorted_wrt (\<lambda>a b. \<not> lt a b) ys"
  shows "sorted_wrt (\<lambda>a b. \<not> lt a b) (pq_push lt x ys)"
  using assms(3)
proof (induction ys)
  case (Cons y ys)
  show ?case
  proof (cases "lt y x")
    case True
    have "\<not> lt x z" if z: "z \<in> set (y # ys)" for z
    proof
      assume "lt x z"
      then have "lt y z" by (rule assms(2) [OF True])
      moreover have "z = y \<or> \<not> lt y z" using z Cons.prems by auto
      ultimately show False using assms(1) [of y y] by blast
    qed
    then show ?thesis using True Cons.prems by simp
  next
    case False
    then show ?thesis using Cons by simp
  qed
qed simp

lemma sorted_pq_pushes:
  assumes "\<And>a b. lt a b \<Longrightarrow> \<not> lt b a" and "\<And>a b c. lt a b \<Longrightarrow> lt b c \<Longrightarrow> lt a c"
    and "sorted_wrt (\<lambda>a b. \<not> lt a b) ys"
  shows "sorted_wrt (\<lambda>a b. \<not> lt a b) (fold (pq_push lt) xs ys)"
  using assms(3) by (induction xs arbitrary: ys) (simp_all add: sorted_pq_push [OF assms(1,2)])

lemma set_pq_pushes: "set (fold (pq_push lt) xs ys) = set xs \<union> set ys"
  by (induction xs arbitrary: ys) auto

lemma distinct_pq_push: "distinct (map f (pq_push lt x ys)) \<longleftrightarrow> f x \<notin> f ` set ys \<and> distinct (map f ys)"
  by (induction ys) auto

lemma distinct_pq_pushes:
  "distinct (map f xs) \<Longrightarrow> distinct (map f ys) \<Longrightarrow> f ` set xs \<inter> f ` set ys = {} \<Longrightarrow>
     distinct (map f (fold (pq_push lt) xs ys))"
  by (induction xs arbitrary: ys) (auto simp: distinct_pq_push)

text \<open>The order of sending again: the smaller priority number first, then the later message.\<close>

definition resend_before :: "(u64 \<times> handler OutboundMessage) list \<Rightarrow> u64 \<Rightarrow> u64 \<Rightarrow> bool" where
  "resend_before txs i j =
     (let a = the (map_of txs i); b = the (map_of txs j)
      in om_ResendPriority a < om_ResendPriority b \<or>
         om_ResendPriority a = om_ResendPriority b \<and> om_MsgID b \<le> om_MsgID a)"

lemma to_resend_ordered:
  assumes "omap_ok txs"
  shows "distinct (to_resend now txs)"
    and "set (to_resend now txs) = {i. \<exists>m. map_of txs i = Some m \<and> ShouldFlush m now}"
    and "sorted_wrt (resend_before txs) (to_resend now txs)"
proof -
  let ?lt = "\<lambda>a b :: u64 \<times> handler OutboundMessage. OutboundMessage_operator_less (snd a) (snd b)"
  let ?due = "filter (\<lambda>kv. ShouldFlush (snd kv) now) txs"
  have look: "map_of txs i = Some m \<longleftrightarrow> (i, m) \<in> set txs" for i m
    using omap_ok_distinct [OF assms] by simp
  have lt: "?lt a b \<longleftrightarrow> om_ResendPriority (snd b) < om_ResendPriority (snd a) \<or>
      om_ResendPriority (snd a) = om_ResendPriority (snd b) \<and> om_MsgID (snd a) < om_MsgID (snd b)" for a b
    by (auto simp: OutboundMessage_operator_less_def Let_def word_less_def word_uint_eq_iff)
  have "sorted_wrt (\<lambda>a b. \<not> ?lt a b) (fold (pq_push ?lt) ?due [])"
    by (rule sorted_pq_pushes) (auto simp: lt)
  then have "sorted_wrt (\<lambda>a b. resend_before txs (fst a) (fst b)) (fold (pq_push ?lt) ?due [])"
  proof (rule sorted_wrt_mono_rel [rotated])
    fix a b :: "u64 \<times> handler OutboundMessage"
    assume "a \<in> set (fold (pq_push ?lt) ?due [])" "b \<in> set (fold (pq_push ?lt) ?due [])" and nlt: "\<not> ?lt a b"
    then have "map_of txs (fst a) = Some (snd a)" "map_of txs (fst b) = Some (snd b)"
      by (auto simp: set_pq_pushes look)
    with nlt show "resend_before txs (fst a) (fst b)" by (auto simp: resend_before_def lt Let_def)
  qed
  then show "sorted_wrt (resend_before txs) (to_resend now txs)" by (simp add: to_resend_def sorted_wrt_map)
  show "set (to_resend now txs) = {i. \<exists>m. map_of txs i = Some m \<and> ShouldFlush m now}"
    by (auto simp: to_resend_def set_pq_pushes look image_iff intro: rev_bexI)
  show "distinct (to_resend now txs)"
    unfolding to_resend_def using omap_ok_distinct [OF assms]
    by (intro distinct_pq_pushes) (auto simp: distinct_map_filter)
qed

text \<open>The ping and the acknowledgements, which \<^verbatim>\<open>Pump\<close> hands on first.\<close>

definition pings :: "env \<Rightarrow> session \<Rightarrow> bytes list" where
  "pings e s = (if ShouldPing e s then [CreatePacket (e_rnd e (m_rpos s)) ePING 0 16 16] else [])"

abbreviation due_acks :: "env \<Rightarrow> session \<Rightarrow> u64 list" where
  "due_acks e s \<equiv> filter (\<lambda>i. ShouldSendACKS (the (map_of (m_RXMsgs s) i)) (e_now e)) (map fst (m_RXMsgs s))"

abbreviation acks_of :: "env \<Rightarrow> session \<Rightarrow> u64 \<Rightarrow> bytes \<Rightarrow> bool" where
  "acks_of e s i pkt \<equiv> \<exists>m rd. map_of (m_RXMsgs s) i = Some m \<and> pkt = ACKS (e_oxenc e) rd m"

lemma pump_acked_eq:
  assumes "omap_ok (m_RXMsgs s)"
  shows "\<exists>acks r rx. pump_acked e s = fold (EncryptAndSend e) (pings e s @ acks) (s\<lparr>m_rpos := r, m_RXMsgs := rx\<rparr>) \<and>
    list_all2 (acks_of e s) (due_acks e s) acks \<and> map_of rx = acked_at (e_now e) (map fst (m_RXMsgs s)) (m_RXMsgs s)"
proof -
  let ?ids = "map fst (m_RXMsgs s)"
  obtain r where ping: "(if ShouldPing e s then SendKeepAlive e s else s) = fold (EncryptAndSend e) (pings e s) (s\<lparr>m_rpos := r\<rparr>)"
  proof (cases "ShouldPing e s")
    case True
    then have "SendKeepAlive e s = fold (EncryptAndSend e) (pings e s) (s\<lparr>m_rpos := Suc (m_rpos s)\<rparr>)"
      by (simp add: SendKeepAlive_def ShouldPing_def pings_def draw_def)
    with True that show ?thesis by simp
  next
    case False
    then show ?thesis using that [of "m_rpos s"] by (simp add: pings_def)
  qed
  let ?t = "fold (EncryptAndSend e) (pings e s) (s\<lparr>m_rpos := r\<rparr>)"
  have rx: "m_RXMsgs ?t = m_RXMsgs s" by (simp add: pump_simps)
  have pre: "omap_ok (m_RXMsgs ?t)" "distinct ?ids" "set ?ids \<subseteq> dom (map_of (m_RXMsgs ?t))"
    using assms omap_ok_distinct [OF assms] unfolding rx by (simp_all add: dom_map_of_conv_image_fst)
  obtain acks r' rx' where
    "Pump_acks e ?ids ?t = fold (EncryptAndSend e) acks (?t\<lparr>m_rpos := r', m_RXMsgs := rx'\<rparr>)"
    "list_all2 (acks_of e s) (due_acks e s) acks" "map_of rx' = acked_at (e_now e) ?ids (m_RXMsgs s)"
    using Pump_acks_eq [OF pre, of e] unfolding rx by blast
  moreover have "pump_acked e s = Pump_acks e ?ids ?t"
    unfolding pump_acked_def ping Let_def rx ..
  moreover have "?t\<lparr>m_rpos := r', m_RXMsgs := rx'\<rparr> = fold (EncryptAndSend e) (pings e s) (s\<lparr>m_rpos := r', m_RXMsgs := rx'\<rparr>)"
    by (simp add: pump_simps)
  ultimately show ?thesis by (intro exI [of _ acks] exI [of _ r'] exI [of _ rx']) simp
qed

lemma queue_jobs_Ready:
  assumes "m_State s = Ready"
  shows "m_Jobs (queue_jobs (fold (EncryptAndSend e) pkts s)) =
    m_Jobs s @ (if m_EncryptNext s @ pkts = [] then [] else [EncryptJob (m_EncryptNext s @ pkts)]) @
    (if m_DecryptNext s = [] then [] else [DecryptJob (m_DecryptNext s)])"
proof -
  note kept = rx_sideD(6,7) [OF rx_side_sends [of e pkts s]]
  show ?thesis
    by (simp only: queue_jobs_def Let_def sends_Ready [OF assms] kept split: if_split) (simp add: kept)
qed

text \<open>
  C9. What one call of \<^verbatim>\<open>Pump\<close> sends, and in which order. In the states \<^verbatim>\<open>Ready\<close> and \<^verbatim>\<open>LinkIntro\<close>,
  when no message of the session exceeds \<^verbatim>\<open>MAX_LINK_MSG_SIZE\<close>, it hands to \<^verbatim>\<open>EncryptAndSend\<close> a
  ping if one is due, then one \<^verbatim>\<open>ACKS\<close> packet for every inbound message whose
  acknowledgement is due, in the order of their identifiers, then for every outbound message
  that is due, each exactly once, the packets of its \<^verbatim>\<open>FlushUnAcked\<close>. The outbound messages
  come by ascending priority number, and of those with equal numbers the later first; the
  flushed ones are stamped with the time and the others are left alone. In the state \<^verbatim>\<open>Ready\<close>
  all these packets are queued behind those already waiting, in one job. In every other
  state \<^verbatim>\<open>Pump\<close> only queues what is waiting. The comment on \<^verbatim>\<open>OutboundMessage::operator<\<close> says
  that a higher number is more important; such a message is sent last.
\<close>

theorem Pump_sends_in_order:
  assumes "omap_ok (m_RXMsgs s)" and "omap_ok (m_TXMsgs s)"
    and "\<forall>m \<in> snd ` set (m_TXMsgs s). length (om_Data m) \<le> MAX_LINK_MSG_SIZE"
  shows "if m_State s = Ready \<or> m_State s = LinkIntro
    then \<exists>acks due pktss r rx tx pkts s'.
      pkts = pings e s @ acks @ concat pktss \<and>
      s' = queue_jobs (fold (EncryptAndSend e) pkts (s\<lparr>m_rpos := r, m_RXMsgs := rx, m_TXMsgs := tx\<rparr>)) \<and>
      Session_Pump e s = Inr s' \<and>
      list_all2 (acks_of e s) (due_acks e s) acks \<and>
      map_of rx = acked_at (e_now e) (map fst (m_RXMsgs s)) (m_RXMsgs s) \<and>
      distinct due \<and> set due = {i. \<exists>m. map_of (m_TXMsgs s) i = Some m \<and> ShouldFlush m (e_now e)} \<and>
      sorted_wrt (resend_before (m_TXMsgs s)) due \<and>
      list_all2 (flush_of e (m_TXMsgs s)) due pktss \<and>
      map_of tx = flushed_at (e_now e) (set due) (m_TXMsgs s) \<and>
      (m_State s = Ready \<longrightarrow> m_Jobs s' =
         m_Jobs s @ (if m_EncryptNext s @ pkts = [] then [] else [EncryptJob (m_EncryptNext s @ pkts)]) @
         (if m_DecryptNext s = [] then [] else [DecryptJob (m_DecryptNext s)]))
    else Session_Pump e s = Inr (queue_jobs s)"
proof (cases "m_State s = Ready \<or> m_State s = LinkIntro")
  case True
  let ?due = "to_resend (e_now e) (m_TXMsgs s)"
  obtain acks r rx where a: "pump_acked e s = fold (EncryptAndSend e) (pings e s @ acks) (s\<lparr>m_rpos := r, m_RXMsgs := rx\<rparr>)"
    and acks: "list_all2 (acks_of e s) (due_acks e s) acks" "map_of rx = acked_at (e_now e) (map fst (m_RXMsgs s)) (m_RXMsgs s)"
    using pump_acked_eq [OF assms(1), of e] by blast
  have tx: "m_TXMsgs (pump_acked e s) = m_TXMsgs s" unfolding a by (simp add: pump_simps)
  note ord = to_resend_ordered [OF assms(2), of "e_now e"]
  have "\<forall>i \<in> set ?due. \<exists>m. map_of (m_TXMsgs s) i = Some m \<and> length (om_Data m) \<le> MAX_LINK_MSG_SIZE"
    using assms(3) unfolding ord(2) by (force dest: map_of_SomeD)
  then obtain pktss r' tx' where
    res: "Pump_resend e ?due (pump_acked e s) =
        Inr (fold (EncryptAndSend e) (concat pktss) (pump_acked e s\<lparr>m_rpos := r', m_TXMsgs := tx'\<rparr>))"
    and fl: "list_all2 (flush_of e (m_TXMsgs s)) ?due pktss" "map_of tx' = flushed_at (e_now e) (set ?due) (m_TXMsgs s)"
    using Pump_resend_eq [of "pump_acked e s" ?due e] assms(2) ord(1) unfolding tx by blast
  let ?pkts = "pings e s @ acks @ concat pktss" and ?t = "s\<lparr>m_rpos := r', m_RXMsgs := rx, m_TXMsgs := tx'\<rparr>"
  have "fold (EncryptAndSend e) (concat pktss) (pump_acked e s\<lparr>m_rpos := r', m_TXMsgs := tx'\<rparr>) = fold (EncryptAndSend e) ?pkts ?t"
    unfolding a by (simp add: pump_simps)
  with True have "Session_Pump e s = Inr (queue_jobs (fold (EncryptAndSend e) ?pkts ?t))"
    by (simp add: Session_Pump_eq tx res)
  moreover have "m_State s = Ready \<longrightarrow> m_Jobs (queue_jobs (fold (EncryptAndSend e) ?pkts ?t)) =
      m_Jobs s @ (if m_EncryptNext s @ ?pkts = [] then [] else [EncryptJob (m_EncryptNext s @ ?pkts)]) @
      (if m_DecryptNext s = [] then [] else [DecryptJob (m_DecryptNext s)])"
    using queue_jobs_Ready [of ?t e ?pkts] by (simp del: append_is_Nil_conv)
  ultimately show ?thesis
    unfolding if_P [OF True]
    by (intro exI [of _ acks] exI [of _ ?due] exI [of _ pktss] exI [of _ r'] exI [of _ rx] exI [of _ tx']
        exI [of _ ?pkts] exI [of _ "queue_jobs (fold (EncryptAndSend e) ?pkts ?t)"] conjI refl acks ord fl)
next
  case False
  then show ?thesis by (simp add: Session_Pump_eq)
qed

definition example_resend :: "u64 \<Rightarrow> u16 \<Rightarrow> handler OutboundMessage" where
  "example_resend i prio = new_OutboundMessage plain_crypto i (replicate 2000 7) 0 None prio"

definition example_pump :: session where
  "example_pump = (Session_inbound (example_env 0) 9)
     \<lparr>m_State := Ready, m_TXMsgs := [(1, example_resend 1 9), (2, example_resend 2 4)]\<rparr>"

theorem Pump_sends_in_order_witness:
  "\<exists>s'. Session_Pump (example_env 1000) example_pump = Inr s' \<and>
     m_Jobs s' = [EncryptJob [DataPacket oxenc_be zero_draw (example_resend 2 4) (frag_off 1),
                              DataPacket oxenc_be zero_draw (example_resend 1 9) (frag_off 1)]]"
proof -
  let ?e = "example_env 1000" and ?s = example_pump
  have s: "omap_ok (m_RXMsgs ?s)" "omap_ok (m_TXMsgs ?s)" "m_RXMsgs ?s = []" "m_EncryptNext ?s = []" "m_DecryptNext ?s = []"
    "m_State ?s = Ready" "m_Jobs ?s = []" "pings ?e ?s = []"
    "m_TXMsgs ?s = [(1, example_resend 1 9), (2, example_resend 2 4)]"
    "\<forall>m \<in> snd ` set (m_TXMsgs ?s). length (om_Data m) \<le> MAX_LINK_MSG_SIZE"
    by (simp_all add: example_pump_def example_env_def example_resend_def new_OutboundMessage_def Session_inbound_def
        Session_common_def omap_ok_def pings_def ShouldPing_def MAX_LINK_MSG_SIZE_def PingInterval_def)
  obtain acks due pktss s' where P: "Session_Pump ?e ?s = Inr s'" "acks = []" "distinct due"
    "set due = {i. \<exists>m. map_of (m_TXMsgs ?s) i = Some m \<and> ShouldFlush m (e_now ?e)}"
    "sorted_wrt (resend_before (m_TXMsgs ?s)) due" "list_all2 (flush_of ?e (m_TXMsgs ?s)) due pktss"
    "m_Jobs s' = (if concat pktss = [] then [] else [EncryptJob (concat pktss)])"
    using Pump_sends_in_order [OF s(1,2) s(10), of ?e] by (auto simp: s)
  have "set due = {1, 2}"
    unfolding P(4) s(9) by (auto simp: ShouldFlush_def example_resend_def new_OutboundMessage_def example_env_def iwp_times split: if_splits)
  moreover from this have "length due = 2" using distinct_card [OF P(3)] by simp
  ultimately have "due = [1, 2] \<or> due = [2, 1]"
    using P(3) by (cases due; cases "tl due") (auto simp: doubleton_eq_iff)
  moreover have "\<not> resend_before (m_TXMsgs ?s) 1 2"
    unfolding s(9) by (simp add: resend_before_def example_resend_def new_OutboundMessage_def)
  ultimately have "due = [2, 1]" using P(5) by auto
  with P(6) obtain p q a b where "pktss = [a, b]"
    "FlushUnAcked (e_oxenc ?e) (e_rnd ?e) (e_now ?e) p (example_resend 2 4) = Inr (a, p + length a, (example_resend 2 4)\<lparr>om_LastFlush := e_now ?e\<rparr>)"
    "FlushUnAcked (e_oxenc ?e) (e_rnd ?e) (e_now ?e) q (example_resend 1 9) = Inr (b, q + length b, (example_resend 1 9)\<lparr>om_LastFlush := e_now ?e\<rparr>)"
    unfolding s(9) by (auto simp: list_all2_Cons1)
  moreover have "unacked (example_resend i prio) = [1]" "length (om_Data (example_resend i prio)) \<le> MAX_LINK_MSG_SIZE" for i prio
    by (simp_all add: unacked_def example_resend_def new_OutboundMessage_def nfrags_def upt_rec MAX_LINK_MSG_SIZE_def bit_simps)
  ultimately show ?thesis using P(1,7) by (auto simp: FlushUnAcked_eq example_env_def)
qed

end
