(* ===== verification/Iwp_Mapping.thy ===== *)
theory Iwp_Mapping
  imports Iwp_Handshake
begin

text \<open>
  What a session tells its link layer about addresses. Every operation of a session is shown
  to follow one discipline: it asks to be filed under a key (\<^verbatim>\<open>ILinkLayer::MapAddr\<close>) at most
  once in its life, from then on it keeps the contact with that key, and when it ends up
  closed it has asked to be unmapped (\<^verbatim>\<open>ILinkLayer::UnmapAddr\<close>) after that.
\<close>


section \<open>The discipline\<close>

definition lim_ok :: "session \<Rightarrow> bool" where
  "lim_ok s \<longleftrightarrow> omap_ok (m_TXMsgs s) \<and> (lim_pending s \<longrightarrow> GotLIM s = RenegLIM) \<and>
     (\<forall>k m k' m'. (k, m) \<in> set (m_TXMsgs s) \<and> (k', m') \<in> set (m_TXMsgs s) \<and>
        om_Completed m = Some LIMDelivered \<and> om_Completed m' = Some LIMDelivered \<longrightarrow> k = k')"

definition settled :: "session \<Rightarrow> bool" where
  "settled s \<longleftrightarrow> GotLIM s = RenegLIM \<and> \<not> lim_pending s"

abbreviation session_key :: "session \<Rightarrow> bytes" where
  "session_key s \<equiv> rc_pubkey (m_RemoteRC s)"

text \<open>Whether an address is mapped after a sequence of events, when it was before.\<close>

primrec mapped_after :: "bool \<Rightarrow> event list \<Rightarrow> bool" where
  "mapped_after b [] = b"
| "mapped_after b (ev # evs) =
     mapped_after (case ev of MappedAddr _ \<Rightarrow> True | UnmappedAddr \<Rightarrow> False | _ \<Rightarrow> b) evs"

definition map_ok :: "session \<Rightarrow> session \<Rightarrow> bool" where
  "map_ok s s' \<longleftrightarrow> m_RemoteAddr s' = m_RemoteAddr s \<and>
     (\<exists>evs. m_events s' = m_events s @ evs \<and>
        (m_State s' = Closed \<longrightarrow> \<not> mapped_after (m_State s \<noteq> Closed) evs) \<and>
        (lim_ok s \<longrightarrow> lim_ok s' \<and>
           (settled s \<longrightarrow> settled s' \<and> session_key s' = session_key s \<and> (\<forall>k. MappedAddr k \<notin> set evs)) \<and>
           (\<forall>k. MappedAddr k \<in> set evs \<longrightarrow> settled s' \<and> session_key s' = k)))"

lemma mapped_after_append: "mapped_after b (xs @ ys) = mapped_after (mapped_after b xs) ys"
  by (induction xs arbitrary: b) simp_all

lemma mapped_after_mono: "mapped_after b xs \<Longrightarrow> mapped_after True xs"
  by (induction xs arbitrary: b) (auto split: event.splits)

lemma mapped_after_quiet:
  "(\<forall>ev\<in>set xs. (\<forall>k. ev \<noteq> MappedAddr k) \<and> ev \<noteq> UnmappedAddr) \<Longrightarrow> mapped_after b xs = b"
  by (induction xs arbitrary: b) (auto split: event.splits)

lemma map_ok_refl [simp]: "map_ok s s"
  by (auto simp: map_ok_def)

lemma map_ok_trans:
  assumes "map_ok s t" and "map_ok t u"
  shows "map_ok s u"
proof -
  obtain xs where xs: "m_events t = m_events s @ xs"
      "m_State t = Closed \<longrightarrow> \<not> mapped_after (m_State s \<noteq> Closed) xs"
    and 1: "lim_ok s \<longrightarrow> lim_ok t \<and>
        (settled s \<longrightarrow> settled t \<and> session_key t = session_key s \<and> (\<forall>k. MappedAddr k \<notin> set xs)) \<and>
        (\<forall>k. MappedAddr k \<in> set xs \<longrightarrow> settled t \<and> session_key t = k)"
    using assms(1) by (auto simp: map_ok_def)
  obtain ys where ys: "m_events u = m_events t @ ys"
      "m_State u = Closed \<longrightarrow> \<not> mapped_after (m_State t \<noteq> Closed) ys"
    and 2: "lim_ok t \<longrightarrow> lim_ok u \<and>
        (settled t \<longrightarrow> settled u \<and> session_key u = session_key t \<and> (\<forall>k. MappedAddr k \<notin> set ys)) \<and>
        (\<forall>k. MappedAddr k \<in> set ys \<longrightarrow> settled u \<and> session_key u = k)"
    using assms(2) by (auto simp: map_ok_def)
  have "m_State u = Closed \<longrightarrow> \<not> mapped_after (m_State s \<noteq> Closed) (xs @ ys)"
    using xs(2) ys(2) mapped_after_mono [of _ ys] by (cases "m_State t = Closed") (auto simp: mapped_after_append)
  moreover have "m_events u = m_events s @ (xs @ ys)" using xs(1) ys(1) by simp
  moreover have "m_RemoteAddr u = m_RemoteAddr s" using assms by (simp add: map_ok_def)
  ultimately show ?thesis
    unfolding map_ok_def using 1 2 by (intro conjI exI [of _ "xs @ ys"]) (auto simp del: append_assoc)
qed


section \<open>Steps that do not concern it\<close>

definition map_view :: "session \<Rightarrow> State \<times> nat \<times> bytes \<times> GotLIM_fn \<times> (u64 \<times> handler OutboundMessage) list" where
  "map_view s = (m_State s, m_RemoteAddr s, session_key s, GotLIM s, m_TXMsgs s)"

definition quiet :: "session \<Rightarrow> session \<Rightarrow> bool" where
  "quiet s s' \<longleftrightarrow> map_view s' = map_view s \<and>
     (\<exists>evs. m_events s' = m_events s @ evs \<and> (\<forall>ev\<in>set evs. (\<forall>k. ev \<noteq> MappedAddr k) \<and> ev \<noteq> UnmappedAddr))"

lemma quiet_refl [simp]: "quiet s s"
  by (auto simp: quiet_def)

lemma quiet_trans: "quiet s t \<Longrightarrow> quiet t u \<Longrightarrow> quiet s u"
  by (fastforce simp: quiet_def)

lemma map_ok_quiet:
  assumes "quiet s s'"
  shows "map_ok s s'"
proof -
  obtain evs where evs: "m_events s' = m_events s @ evs"
    "\<forall>ev\<in>set evs. (\<forall>k. ev \<noteq> MappedAddr k) \<and> ev \<noteq> UnmappedAddr"
    using assms by (auto simp: quiet_def)
  have v: "m_State s' = m_State s" "m_RemoteAddr s' = m_RemoteAddr s" "session_key s' = session_key s"
    "GotLIM s' = GotLIM s" "m_TXMsgs s' = m_TXMsgs s"
    using assms by (simp_all add: quiet_def map_view_def)
  have "lim_ok s' = lim_ok s" "settled s' = settled s"
    using v by (simp_all add: lim_ok_def settled_def lim_pending_def)
  then show ?thesis
    unfolding map_ok_def using evs v mapped_after_quiet [OF evs(2)]
    by (intro conjI exI [of _ evs]) auto
qed

text \<open>A field update outside the view is quiet, and so is an event of another kind.\<close>

lemma quiet_upd:
  "map_view s' = map_view s \<Longrightarrow> m_events s' = m_events s \<Longrightarrow> quiet s s'"
  by (auto simp: quiet_def)

lemma quiet_emit: "(\<forall>k. ev \<noteq> MappedAddr k) \<Longrightarrow> ev \<noteq> UnmappedAddr \<Longrightarrow> quiet s (emit ev s)"
  by (auto simp: quiet_def map_view_def emit_def)

lemma quiet_draw: "quiet s (snd (draw e s))"
  by (rule quiet_upd) (simp_all add: draw_def map_view_def)

lemma quiet_TriggerPump: "quiet s (TriggerPump s)"
  by (simp add: TriggerPump_def quiet_emit)

lemma quiet_Send_LL: "quiet s (Send_LL e pkt s)"
  unfolding Send_LL_def
  by (rule quiet_trans [OF quiet_emit [of "SentTo pkt"]]) (auto intro: quiet_upd simp: map_view_def emit_def)

lemma quiet_EncryptWorker: "quiet s (EncryptWorker e msgs s)"
  unfolding EncryptWorker_def
  by (induction msgs arbitrary: s) (auto intro: quiet_trans [OF quiet_Send_LL])

lemma quiet_EncryptAndSend: "quiet s (EncryptAndSend e pkt s)"
proof -
  let ?t = "TriggerPump (s\<lparr>m_EncryptNext := m_EncryptNext s @ [pkt]\<rparr>)"
  have 1: "quiet s ?t"
    by (rule quiet_trans [OF quiet_upd quiet_TriggerPump]) (simp_all add: map_view_def)
  have "quiet ?t (EncryptWorker e (m_EncryptNext ?t) ?t)" by (rule quiet_EncryptWorker)
  moreover have "quiet u (u\<lparr>m_EncryptNext := []\<rparr>)" for u
    by (rule quiet_upd) (simp_all add: map_view_def)
  ultimately show ?thesis
    unfolding EncryptAndSend_def Let_def using 1 quiet_trans by auto
qed

lemma quiet_sends: "quiet s (fold (EncryptAndSend e) pkts s)"
  by (induction pkts arbitrary: s) (auto intro: quiet_trans [OF quiet_EncryptAndSend])

section \<open>Messages, closing and mapping\<close>

lemma map_ok_TXMsgs:
  assumes "omap_ok (m_TXMsgs s) \<Longrightarrow> omap_ok txs"
    and "\<And>k m. (k, m) \<in> set txs \<Longrightarrow> om_Completed m = Some LIMDelivered \<Longrightarrow>
           \<exists>m'. (k, m') \<in> set (m_TXMsgs s) \<and> om_Completed m' = Some LIMDelivered"
  shows "map_ok s (s\<lparr>m_TXMsgs := txs\<rparr>)"
proof -
  let ?s = "s\<lparr>m_TXMsgs := txs\<rparr>"
  have p: "lim_pending ?s \<Longrightarrow> lim_pending s" using assms(2) by (force simp: lim_pending_def)
  have "lim_ok s \<Longrightarrow> lim_ok ?s"
    unfolding lim_ok_def using assms p by (auto simp: lim_pending_def) (metis, metis)
  with p show ?thesis by (auto simp: map_ok_def settled_def)
qed

lemma map_ok_erase_tx: "map_ok s (s\<lparr>m_TXMsgs := omap_erase k (m_TXMsgs s)\<rparr>)"
  using set_omap_erase [of k "m_TXMsgs s"] by (intro map_ok_TXMsgs) auto

lemma map_ok_put_tx:
  assumes "map_of (m_TXMsgs s) i = Some msg" and "om_Completed msg' = om_Completed msg"
  shows "map_ok s (s\<lparr>m_TXMsgs := omap_put i msg' (m_TXMsgs s)\<rparr>)"
proof (rule map_ok_TXMsgs)
  fix k m
  assume "(k, m) \<in> set (omap_put i msg' (m_TXMsgs s))" and m: "om_Completed m = Some LIMDelivered"
  from subsetD [OF set_omap_put this(1)] have "k = i \<and> m = msg' \<or> (k, m) \<in> set (m_TXMsgs s)" by simp
  then show "\<exists>m'. (k, m') \<in> set (m_TXMsgs s) \<and> om_Completed m' = Some LIMDelivered"
  proof
    assume "k = i \<and> m = msg'"
    then show ?thesis using map_of_SomeD [OF assms(1)] assms(2) m by (intro exI [of _ msg]) simp
  qed (use m in blast)
qed (rule omap_ok_put)

lemma map_ok_emplace_tx:
  assumes "om_Completed msg \<noteq> Some LIMDelivered"
  shows "map_ok s (s\<lparr>m_TXMsgs := omap_emplace i msg (m_TXMsgs s)\<rparr>)"
  using set_omap_emplace [of i msg "m_TXMsgs s"] assms
  by (intro map_ok_TXMsgs) auto

lemma map_ok_Close: "map_ok s (Session_Close e s)"
proof (cases "m_State s = Closed")
  case False
  define t where "t = (emit UnmappedAddr (snd (draw e s)))\<lparr>m_State := Closed\<rparr>"
  have "lim_ok t = lim_ok s" "settled t = settled s" "session_key t = session_key s"
    by (simp_all add: t_def emit_def draw_def lim_ok_def settled_def lim_pending_def)
  moreover have "m_events t = m_events s @ [UnmappedAddr]" "m_RemoteAddr t = m_RemoteAddr s"
    by (simp_all add: t_def emit_def draw_def)
  ultimately have 1: "map_ok s t"
    unfolding map_ok_def by (intro conjI exI [of _ "[UnmappedAddr]"]) auto
  have q: "quiet t (t\<lparr>m_SentClosed := True\<rparr>)"
    by (rule quiet_upd) (simp_all add: map_view_def)
  have "Session_Close e s = t \<or>
      Session_Close e s = EncryptAndSend e (CreatePacket (fst (draw e s)) eCLOS 0 16 16) (t\<lparr>m_SentClosed := True\<rparr>)"
    using False by (simp add: Session_Close_def t_def draw_def Let_def)
  then show ?thesis
    using 1 map_ok_trans [OF 1 map_ok_quiet [OF quiet_trans [OF q quiet_EncryptAndSend]]] by auto
qed (simp add: Session_Close_def)

lemma map_ok_flush_message:
  assumes "flush_message e i s = Inr s'"
  shows "map_ok s s'"
proof (cases "map_of (m_TXMsgs s) i")
  case (Some msg)
  then obtain pkts p msg' where
      f: "FlushUnAcked (e_oxenc e) (e_rnd e) (e_now e) (m_rpos s) msg = Inr (pkts, p, msg')"
    and s': "s' = fold (EncryptAndSend e) pkts
               (s\<lparr>m_rpos := p, m_TXMsgs := omap_put i msg' (m_TXMsgs s)\<rparr>)"
    using assms by (auto simp: flush_message_def bind_exn_Inr_iff)
  have m: "om_Completed msg' = om_Completed msg"
    using f by (auto simp: FlushUnAcked_def split: sum.splits prod.splits)
  have q: "quiet s (s\<lparr>m_rpos := p\<rparr>)" by (rule quiet_upd) (simp_all add: map_view_def)
  have "map_ok (s\<lparr>m_rpos := p\<rparr>) (s\<lparr>m_rpos := p, m_TXMsgs := omap_put i msg' (m_TXMsgs s)\<rparr>)"
    using map_ok_put_tx [of "s\<lparr>m_rpos := p\<rparr>" i msg msg'] Some m by simp
  from map_ok_trans [OF map_ok_trans [OF map_ok_quiet [OF q] this] map_ok_quiet [OF quiet_sends]]
  show ?thesis by (simp add: s')
qed (use assms in \<open>simp add: flush_message_def\<close>)

text \<open>
  The two places that ask to be filed: a session that becomes \<^verbatim>\<open>Ready\<close> with nothing of the
  handshake left over.
\<close>

lemma map_ok_MapAddr:
  assumes "map_ok s t" and "lim_ok s \<Longrightarrow> settled t" and "m_State t = Ready"
    and "lim_ok s \<Longrightarrow> \<not> settled s"
  shows "map_ok s (MapAddr e t)"
proof (cases "e_MapAddr e t")
  case MapOk
  obtain evs where "m_events t = m_events s @ evs" "lim_ok s \<Longrightarrow> lim_ok t"
    "\<forall>k. lim_ok s \<and> MappedAddr k \<in> set evs \<longrightarrow> session_key t = k"
    using assms(1) by (auto simp: map_ok_def)
  moreover have "m_RemoteAddr t = m_RemoteAddr s" using assms(1) by (simp add: map_ok_def)
  moreover let ?t = "emit (MappedAddr (session_key t)) t"
  have "lim_ok ?t = lim_ok t" "settled ?t = settled t" "session_key ?t = session_key t"
    by (simp_all add: emit_def lim_ok_def settled_def lim_pending_def)
  ultimately show ?thesis
    unfolding map_ok_def MapAddr_def MapOk using assms(2-4)
    by (intro conjI exI [of _ "evs @ [MappedAddr (session_key t)]"]) (auto simp: emit_def mapped_after_append)
next
  case MapTooMany
  then show ?thesis using map_ok_trans [OF assms(1) map_ok_Close] by (simp add: MapAddr_def)
qed (use assms(1) in \<open>simp add: MapAddr_def\<close>)

lemma map_ok_emit: "(\<forall>k. ev \<noteq> MappedAddr k) \<Longrightarrow> ev \<noteq> UnmappedAddr \<Longrightarrow> map_ok s (emit ev s)"
  by (simp add: map_ok_quiet quiet_emit)

lemma map_ok_run_handler:
  assumes "h \<noteq> Some (LIMDelivered, eDeliverySuccess)"
  shows "map_ok s (run_handler e h s)"
  using assms by (cases "(e, h, s)" rule: run_handler.cases) (auto intro: map_ok_emit)

section \<open>Sending\<close>

lemma quiet_enqueue_tx:
  "quiet (s\<lparr>m_TXMsgs := omap_emplace (m_TXID s)
     (new_OutboundMessage (e_crypto e) (m_TXID s) buf (e_now e) h prio) (m_TXMsgs s)\<rparr>)
     (enqueue_tx e buf h prio s)"
proof -
  let ?txs = "omap_emplace (m_TXID s) (new_OutboundMessage (e_crypto e) (m_TXID s) buf (e_now e) h prio) (m_TXMsgs s)"
  have "quiet (s\<lparr>m_TXMsgs := ?txs\<rparr>) (s\<lparr>m_TXID := m_TXID s + 1, m_TXMsgs := ?txs\<rparr>)"
    by (rule quiet_upd) (simp_all add: map_view_def)
  from quiet_trans [OF quiet_trans [OF quiet_trans [OF this quiet_TriggerPump] quiet_draw] quiet_EncryptAndSend]
  show ?thesis unfolding enqueue_tx_def Let_def .
qed

lemma map_ok_enqueue_tx:
  assumes "h \<noteq> Some LIMDelivered"
  shows "map_ok s (enqueue_tx e buf h prio s)"
proof -
  have "om_Completed (new_OutboundMessage (e_crypto e) (m_TXID s) buf (e_now e) h prio) \<noteq> Some LIMDelivered"
    using assms by (simp add: new_OutboundMessage_def)
  from map_ok_trans [OF map_ok_emplace_tx [OF this] map_ok_quiet [OF quiet_enqueue_tx]] show ?thesis .
qed

text \<open>What follows the queueing of a message is the same for every message.\<close>

lemma map_ok_after_enqueue:
  assumes "SendMessageBuffer e buf h prio s = Inr (b, s')" and "\<not> MaxSendQueueSize \<le> length (m_TXMsgs s)"
  shows "map_ok (enqueue_tx e buf h prio s) s'"
proof -
  obtain t where t: "(if length buf > FragmentSize
        then flush_message e (m_TXID s) (enqueue_tx e buf h prio s)
        else Inr (enqueue_tx e buf h prio s)) = Inr t"
    and s': "s' = t\<lparr>m_Stats := (m_Stats t)\<lparr>totalInFlightTX := totalInFlightTX (m_Stats t) + 1\<rparr>\<rparr>"
    using assms(1) unfolding SendMessageBuffer_eq [OF assms(2)] bind_exn_Inr_iff by blast
  have "map_ok (enqueue_tx e buf h prio s) t"
    using t map_ok_flush_message by (cases "length buf > FragmentSize") auto
  moreover have "quiet t s'" by (rule quiet_upd) (simp_all add: s' map_view_def)
  ultimately show ?thesis using map_ok_trans map_ok_quiet by blast
qed

lemma SendMessageBuffer_full:
  "MaxSendQueueSize \<le> length (m_TXMsgs s) \<Longrightarrow> SendMessageBuffer e buf h prio s =
     Inr (False, run_handler e (map_option (\<lambda>h. (h, eDeliveryDropped)) h) s)"
  by (simp add: SendMessageBuffer_def)

lemma map_ok_SendMessageBuffer:
  assumes "SendMessageBuffer e buf h prio s = Inr (b, s')" and "h \<noteq> Some LIMDelivered"
  shows "map_ok s s'"
proof (cases "MaxSendQueueSize \<le> length (m_TXMsgs s)")
  case True
  then show ?thesis
    using assms(1) map_ok_run_handler [of "map_option (\<lambda>h. (h, eDeliveryDropped)) h" s e]
    by (auto simp: SendMessageBuffer_full)
next
  case False
  from map_ok_trans [OF map_ok_enqueue_tx [OF assms(2)] map_ok_after_enqueue [OF assms(1) False]]
  show ?thesis .
qed

lemma SendOurLIM_cases:
  assumes "SendOurLIM e h s = Inr s'"
  obtains "s' = snd (draw e s)"
  | buf b where "SendMessageBuffer e buf h 0 (snd (draw e s)) = Inr (b, s')"
  using assms by (auto simp: SendOurLIM_def split_beta Let_def bind_exn_Inr_iff split: option.splits)

lemma map_ok_SendOurLIM:
  assumes "SendOurLIM e None s = Inr s'"
  shows "map_ok s s'"
  using assms map_ok_trans [OF map_ok_quiet [OF quiet_draw] map_ok_SendMessageBuffer] map_ok_quiet [OF quiet_draw]
  by (elim SendOurLIM_cases) auto

lemma map_ok_GotOutboundLIM:
  assumes "GotOutboundLIM e rc s = Inr s'" and "GotLIM s = OutboundLIM"
  shows "map_ok s s'"
proof (cases "rc_pubkey rc = session_key s")
  case True
  define t where "t = snd (draw e (s\<lparr>m_RemoteRC := rc, GotLIM := RenegLIM\<rparr>))"
  have f: "m_RemoteAddr t = m_RemoteAddr s" "m_events t = m_events s" "m_State t = m_State s" "GotLIM t = RenegLIM"
    "session_key t = session_key s" "m_TXMsgs t = m_TXMsgs s"
    using True by (simp_all add: t_def draw_def)
  have ns: "\<not> settled s" and np: "lim_ok s \<Longrightarrow> \<not> lim_pending s"
    using assms(2) by (auto simp: settled_def lim_ok_def)
  have t: "map_ok s t"
    unfolding map_ok_def using f ns by (intro conjI exI [of _ "[]"]) (auto simp: lim_ok_def lim_pending_def)
  have "SendOurLIM e (Some LIMDelivered) (s\<lparr>m_RemoteRC := rc, GotLIM := RenegLIM\<rparr>) = Inr s'"
    using assms(1) True by (simp add: GotOutboundLIM_def)
  then show ?thesis
  proof (cases rule: SendOurLIM_cases)
    case 1
    with t show ?thesis by (simp add: t_def)
  next
    case (2 buf b)
    then have send: "SendMessageBuffer e buf (Some LIMDelivered) 0 t = Inr (b, s')" by (simp add: t_def)
    show ?thesis
    proof (cases "MaxSendQueueSize \<le> length (m_TXMsgs t)")
      case True
      then show ?thesis using send t by (simp add: SendMessageBuffer_full)
    next
      case False
      let ?m = "new_OutboundMessage (e_crypto e) (m_TXID t) buf (e_now e) (Some LIMDelivered) 0"
      let ?txs = "omap_emplace (m_TXID t) ?m (m_TXMsgs t)"
      have sub: "set ?txs \<subseteq> insert (m_TXID t, ?m) (set (m_TXMsgs s))" using set_omap_emplace f(6) by metis
      have one: "k = m_TXID t" if "lim_ok s" "(k, m) \<in> set ?txs" "om_Completed m = Some LIMDelivered" for k m
        using np [OF that(1)] subsetD [OF sub that(2)] that(3) by (auto simp: lim_pending_def)
      have "lim_ok s \<Longrightarrow> omap_ok ?txs" using f(6) by (simp add: lim_ok_def omap_ok_emplace)
      with one f(4) have "lim_ok s \<Longrightarrow> lim_ok (t\<lparr>m_TXMsgs := ?txs\<rparr>)"
        unfolding lim_ok_def [of "t\<lparr>m_TXMsgs := ?txs\<rparr>"] by (simp, blast)
      then have "map_ok s (t\<lparr>m_TXMsgs := ?txs\<rparr>)"
        unfolding map_ok_def using f ns by (intro conjI exI [of _ "[]"]) auto
      from map_ok_trans [OF map_ok_trans [OF this map_ok_quiet [OF quiet_enqueue_tx]] map_ok_after_enqueue [OF send False]]
      show ?thesis .
    qed
  qed
qed (use assms in \<open>simp add: GotOutboundLIM_def\<close>)

lemma map_ok_GotInboundLIM:
  assumes "GotInboundLIM e rc s = Inr s'" and "GotLIM s = InboundLIM"
  shows "map_ok s s'"
proof (cases "rc_pubkey rc = m_ExpectedIdent s")
  case True
  let ?t = "s\<lparr>m_State := Ready, GotLIM := RenegLIM, m_RemoteRC := rc\<rparr>"
  have ns: "\<not> settled s" using assms(2) by (simp add: settled_def)
  have np: "lim_ok s \<Longrightarrow> \<not> lim_pending s" using assms(2) by (auto simp: lim_ok_def)
  have t: "map_ok s ?t"
    unfolding map_ok_def using ns by (intro conjI exI [of _ "[]"]) (auto simp: lim_ok_def lim_pending_def)
  have "map_ok s (MapAddr e ?t)"
    using np ns t by (intro map_ok_MapAddr) (simp_all add: settled_def lim_pending_def)
  from map_ok_trans [OF this map_ok_emit, of "Established True"]
  show ?thesis using assms(1) True by (simp add: GotInboundLIM_def Let_def)
qed (use assms in \<open>simp add: GotInboundLIM_def\<close>)

section \<open>Handlers\<close>

lemma map_ok_state:
  assumes "st \<noteq> Closed"
  shows "map_ok s (s\<lparr>m_State := st\<rparr>)"
  unfolding map_ok_def using assms
  by (intro conjI exI [of _ "[]"]) (auto simp: lim_ok_def settled_def lim_pending_def)

lemma lim_erased:
  assumes "lim_ok s" and "map_of (m_TXMsgs s) i = Some msg" and "om_Completed msg = Some LIMDelivered"
  shows "\<not> lim_pending (s\<lparr>m_TXMsgs := omap_erase i (m_TXMsgs s)\<rparr>)" "GotLIM s = RenegLIM"
proof -
  have i: "(i, msg) \<in> set (m_TXMsgs s)" using assms(2) by (rule map_of_SomeD)
  then have "k = i" if "(k, m) \<in> set (m_TXMsgs s)" "om_Completed m = Some LIMDelivered" for k m
    using that assms(1,3) unfolding lim_ok_def by blast
  then show "\<not> lim_pending (s\<lparr>m_TXMsgs := omap_erase i (m_TXMsgs s)\<rparr>)"
    by (auto simp: lim_pending_def omap_erase_def)
  have "lim_pending s" using assms(2,3) by (rule lim_pendingI)
  then show "GotLIM s = RenegLIM" using assms(1) by (simp add: lim_ok_def)
qed

lemma map_ok_complete_lim:
  assumes "map_of (m_TXMsgs s) i = Some msg" and "om_Completed msg = Some LIMDelivered"
  shows "map_ok s (complete_tx e i msg s)"
proof -
  let ?r = "s\<lparr>m_State := Ready\<rparr>"
  have c: "complete_tx e i msg s =
      (emit (Established False) (MapAddr e ?r))\<lparr>m_TXMsgs := omap_erase i (m_TXMsgs (MapAddr e ?r))\<rparr>"
    using assms(2) by (simp add: complete_tx_def Completed_def Let_def emit_def)
  have r: "map_ok s ?r" by (rule map_ok_state) simp
  have after: "map_ok s ((emit (Established False) t)\<lparr>m_TXMsgs := omap_erase i (m_TXMsgs t)\<rparr>)" if "map_ok s t" for t
    using map_ok_trans [OF map_ok_trans [OF that map_ok_emit, of "Established False"] map_ok_erase_tx [of _ i]]
    by (simp add: emit_def)
  show ?thesis
  proof (cases "e_MapAddr e ?r")
    case MapOk
    let ?u = "(emit (Established False) (emit (MappedAddr (session_key s)) ?r))\<lparr>m_TXMsgs := omap_erase i (m_TXMsgs s)\<rparr>"
    have u: "complete_tx e i msg s = ?u" unfolding c by (simp add: MapAddr_def MapOk emit_def)
    have "lim_pending s" using assms by (rule lim_pendingI)
    then have ns: "\<not> settled s" by (simp add: settled_def)
    have "map_ok s (s\<lparr>m_TXMsgs := omap_erase i (m_TXMsgs s)\<rparr>)" by (rule map_ok_erase_tx)
    then have "lim_ok s \<Longrightarrow> lim_ok ?u"
      by (auto simp: map_ok_def lim_ok_def lim_pending_def emit_def)
    moreover have "lim_ok s \<Longrightarrow> settled ?u"
      using lim_erased [OF _ assms] by (simp add: settled_def lim_pending_def emit_def)
    ultimately show ?thesis
      unfolding map_ok_def u using ns
      by (intro conjI exI [of _ "[MappedAddr (session_key s), Established False]"]) (auto simp: emit_def)
  next
    case MapTooMany
    then show ?thesis unfolding c using after [OF map_ok_trans [OF r map_ok_Close]] by (simp add: MapAddr_def)
  next
    case MapNotPending
    then show ?thesis unfolding c using after [OF r] by (simp add: MapAddr_def)
  qed
qed

lemma map_ok_complete_tx:
  assumes "map_of (m_TXMsgs s) i = Some msg"
  shows "map_ok s (complete_tx e i msg s)"
proof (cases "om_Completed msg = Some LIMDelivered")
  case False
  then have "map_ok s (run_handler e (fst (Completed msg)) s)"
    by (intro map_ok_run_handler) (auto simp: Completed_def)
  from map_ok_trans [OF this map_ok_erase_tx] show ?thesis by (simp add: complete_tx_def Let_def)
qed (rule map_ok_complete_lim [OF assms])

lemma map_ok_call_GotLIM:
  assumes "call_GotLIM e rc s = Inr s'"
  shows "map_ok s s'"
proof (cases "GotLIM s")
  case RenegLIM
  then show ?thesis using assms by (auto simp: call_GotLIM_def GotRenegLIM_def intro: map_ok_emit)
qed (use assms in \<open>auto simp: call_GotLIM_def intro: map_ok_GotInboundLIM map_ok_GotOutboundLIM\<close>)

lemma map_ok_SendKeepAlive: "map_ok s (SendKeepAlive e s)"
  using quiet_trans [OF quiet_draw quiet_EncryptAndSend]
  by (auto simp: SendKeepAlive_def split_beta Let_def intro: map_ok_quiet)

lemma map_ok_run_call:
  assumes "run_call e c s = Inr s'"
  shows "map_ok s s'"
proof (cases c)
  case (CallSendMessageBuffer buf h prio)
  then obtain b where "SendMessageBuffer e buf (map_option UserHandler h) prio s = Inr (b, s')"
    using assms by (auto simp: bind_exn_Inr_iff)
  then show ?thesis by (rule map_ok_SendMessageBuffer) auto
next
  case CallRenegotiateSession
  then have "SendOurLIM e None s = Inr s'" using assms by (simp add: RenegotiateSession_def)
  then show ?thesis by (rule map_ok_SendOurLIM)
qed (use assms in \<open>auto intro: map_ok_call_GotLIM map_ok_SendKeepAlive map_ok_Close\<close>)

lemma map_ok_run_calls: "run_calls e cs s = Inr s' \<Longrightarrow> map_ok s s'"
proof (induction cs arbitrary: s)
  case (Cons c cs)
  then obtain t where "run_call e c s = Inr t" "run_calls e cs t = Inr s'" by (auto simp: bind_exn_Inr_iff)
  then show ?case using map_ok_trans [OF map_ok_run_call] Cons.IH by blast
qed simp

lemma map_ok_upd: "map_view s' = map_view s \<Longrightarrow> m_events s' = m_events s \<Longrightarrow> map_ok s s'"
  by (rule map_ok_quiet [OF quiet_upd])

lemma map_ok_HandleRecvMsgCompleted:
  assumes "HandleRecvMsgCompleted e msg s = Inr s'"
  shows "map_ok s s'"
proof (cases "m_ReplayFilter s (im_MsgID msg) = None")
  case True
  let ?s = "s\<lparr>m_ReplayFilter := umap_emplace (im_MsgID msg) (e_now e) (m_ReplayFilter s)\<rparr>"
  obtain t where t: "HandleMessage e (im_MsgID msg) (im_Data msg) ?s = Inr t"
    and s': "s' = (let u = EncryptAndSend e (ACKS (e_oxenc e) (fst (draw e t)) msg) (snd (draw e t))
                   in u\<lparr>m_RXMsgs := omap_erase (im_MsgID msg) (m_RXMsgs u)\<rparr>)"
    using assms True by (rule HandleRecvMsgCompleted_freshE)
  have 1: "map_ok s ?s" by (rule map_ok_upd) (simp_all add: map_view_def)
  have 2: "map_ok ?s (emit (Delivered (e_now e) (im_MsgID msg) (im_Data msg)) ?s)" by (rule map_ok_emit) auto
  note 3 = map_ok_run_calls [OF t [unfolded HandleMessage_def]]
  have "quiet u (u\<lparr>m_RXMsgs := omap_erase (im_MsgID msg) (m_RXMsgs u)\<rparr>)" for u
    by (rule quiet_upd) (simp_all add: map_view_def)
  then have "quiet t s'"
    unfolding s' Let_def using quiet_trans [OF quiet_trans [OF quiet_draw quiet_EncryptAndSend]] by blast
  then show ?thesis using map_ok_trans [OF map_ok_trans [OF map_ok_trans [OF 1 2] 3] map_ok_quiet] by blast
next
  case False
  then show ?thesis
    using assms by (auto simp: HandleRecvMsgCompleted_def Let_def map_view_def intro!: map_ok_upd)
qed

lemma map_ok_store_fragment:
  assumes "store_fragment e i msg s = Inr s'"
  shows "map_ok s s'"
proof -
  let ?t = "s\<lparr>m_RXMsgs := omap_put i msg (m_RXMsgs s)\<rparr>"
  have "map_ok s ?t" by (rule map_ok_upd) (simp_all add: map_view_def)
  moreover have "s' = ?t \<or> HandleRecvMsgCompleted e msg ?t = Inr s'"
    using assms by (auto simp: store_fragment_def bind_exn_Inr_iff Let_def split: if_splits)
  ultimately show ?thesis using map_ok_HandleRecvMsgCompleted map_ok_trans by blast
qed

lemma map_ok_HandleXMIT:
  assumes "HandleXMIT e data s = Inr s'"
  shows "map_ok s s'"
proof -
  have acc: "map_ok s (accept_xmit e rxid sz h s)" for rxid sz h
    unfolding accept_xmit_def
    by (rule map_ok_quiet [OF quiet_trans [OF quiet_upd quiet_TriggerPump]]) (simp_all add: map_view_def)
  from assms show ?thesis
  proof (cases rule: HandleXMIT_cases)
    case (5 rxid sz h buf msg)
    from map_ok_trans [OF acc map_ok_store_fragment [OF 5(3)]] show ?thesis .
  qed (auto intro!: map_ok_upd simp: queue_mack_def map_view_def acc)
qed

lemma map_ok_HandleDATA:
  assumes "HandleDATA e data s = Inr s'"
  shows "map_ok s s'"
proof -
  have rx: "quiet s (s\<lparr>m_LastRX := e_now e\<rparr>)" by (rule quiet_upd) (simp_all add: map_view_def)
  from assms show ?thesis
  proof (cases rule: HandleDATA_cases)
    case (3 pkt)
    show ?thesis
      unfolding 3 by (rule map_ok_quiet [OF quiet_trans [OF quiet_trans [OF rx quiet_draw] quiet_EncryptAndSend]])
  next
    case (4 rxid msg msg' sz)
    from map_ok_trans [OF map_ok_quiet [OF rx] map_ok_store_fragment [OF 4(3)]] show ?thesis .
  qed (auto intro!: map_ok_upd simp: queue_mack_def map_view_def)
qed

lemma map_ok_HandleMACK_loop: "map_ok s (HandleMACK_loop e n ptr data s)"
proof (induction n arbitrary: ptr s)
  case (Suc n)
  define acked where "acked = load_be64 (e_oxenc e) (segment ptr 8 data)"
  show ?case
  proof (cases "map_of (m_TXMsgs s) acked")
    case None
    then show ?thesis using Suc by (simp add: acked_def Let_def)
  next
    case (Some msg)
    let ?t = "s\<lparr>m_Stats := (m_Stats s)\<lparr>totalAckedTX := totalAckedTX (m_Stats s) + 1,
                 totalInFlightTX := totalInFlightTX (m_Stats s) - 1\<rparr>\<rparr>"
    have t: "map_ok s ?t" by (rule map_ok_upd) (simp_all add: map_view_def)
    have c: "map_ok ?t (complete_tx e acked msg ?t)" using Some by (intro map_ok_complete_tx) simp
    show ?thesis
      using Some map_ok_trans [OF map_ok_trans [OF t c] Suc.IH] by (simp add: acked_def [symmetric] Let_def)
  qed
qed simp

lemma map_of_omap_put_same: "map_of (omap_put k v m) k = Some v"
  by (induction k v m rule: omap_put.induct) auto

lemma map_ok_HandleACKS:
  assumes "HandleACKS e data s = Inr s'"
  shows "map_ok s s'"
proof (cases "length data < 11 + PacketOverhead")
  case False
  define txid where "txid = load_be64 (e_oxenc e) (segment (2 + PacketOverhead) 8 data)"
  define s1 where "s1 = s\<lparr>m_LastRX := e_now e\<rparr>"
  have 1: "map_ok s s1" by (rule map_ok_upd) (simp_all add: s1_def map_view_def)
  note H = assms [unfolded HandleACKS_def if_not_P [OF False] Let_def, folded s1_def txid_def]
  show ?thesis
  proof (cases "map_of (m_TXMsgs s1) txid")
    case (Some msg)
    define msg' where "msg' = Ack (data ! (10 + PacketOverhead)) msg"
    define s2 where "s2 = s1\<lparr>m_TXMsgs := omap_put txid msg' (m_TXMsgs s1)\<rparr>"
    have 2: "map_ok s1 s2" unfolding s2_def using Some by (rule map_ok_put_tx) (simp add: msg'_def Ack_def)
    have "s' = complete_tx e txid msg' s2 \<or> flush_message e txid s2 = Inr s'"
      using H Some by (auto simp: bind_exn_Inr_iff msg'_def [symmetric] s2_def [symmetric] split: if_splits)
    moreover have "map_ok s2 (complete_tx e txid msg' s2)"
      by (rule map_ok_complete_tx) (simp add: s2_def map_of_omap_put_same)
    ultimately have "map_ok s2 s'" using map_ok_flush_message by blast
    from map_ok_trans [OF map_ok_trans [OF 1 2] this] show ?thesis .
  qed (use H 1 in simp)
qed (use assms in \<open>simp add: HandleACKS_def\<close>)

lemma map_ok_HandleNACK:
  assumes "HandleNACK e data s = Inr s'"
  shows "map_ok s s'"
proof -
  have "quiet t (t\<lparr>m_LastRX := e_now e\<rparr>)" for t by (rule quiet_upd) (simp_all add: map_view_def)
  then show ?thesis
    using assms quiet_trans [OF quiet_trans [OF quiet_draw quiet_EncryptAndSend]]
    by (fastforce simp: HandleNACK_def Let_def split_beta intro!: map_ok_quiet split: if_splits option.splits)
qed

lemma map_ok_HandleCommand:
  assumes "HandleCommand e data s = Inr s'"
  shows "map_ok s s'"
proof -
  have mack: "map_ok s t" if "HandleMACK e data s = Inr t" for t
    using that by (auto simp: HandleMACK_def Let_def map_ok_HandleMACK_loop split: if_splits)
  have ping: "map_ok s (s\<lparr>m_LastRX := e_now e\<rparr>)" by (rule map_ok_upd) (simp_all add: map_view_def)
  show ?thesis
    using assms mack ping map_ok_Close
    by (auto simp: HandleCommand_def bind_exn_Inr_iff HandlePING_def HandleCLOS_def
        dest: map_ok_HandleXMIT map_ok_HandleDATA map_ok_HandleACKS map_ok_HandleNACK split: if_splits)
qed

lemma map_ok_HandleCommands: "HandleCommands e rs s = Inr s' \<Longrightarrow> map_ok s s'"
proof (induction rs arbitrary: s)
  case (Cons r rs)
  then obtain t where "HandleCommand e r s = Inr t" "HandleCommands e rs t = Inr s'"
    by (auto simp: bind_exn_Inr_iff)
  then show ?case using map_ok_trans [OF map_ok_HandleCommand] Cons.IH by blast
qed simp

lemma map_ok_HandleQueues: "HandleQueues e qs s = Inr s' \<Longrightarrow> map_ok s s'"
proof (induction qs arbitrary: s)
  case (Cons q qs)
  then obtain t where t: "HandleCommands e q (s\<lparr>m_PlaintextRecv := qs\<rparr>) = Inr t" "HandleQueues e qs t = Inr s'"
    by (auto simp: bind_exn_Inr_iff)
  have "map_ok s (s\<lparr>m_PlaintextRecv := qs\<rparr>)" by (rule map_ok_upd) (simp_all add: map_view_def)
  from map_ok_trans [OF map_ok_trans [OF this map_ok_HandleCommands [OF t(1)]] Cons.IH [OF t(2)]] show ?case .
qed simp

lemma quiet_SendMACK: "quiet s (SendMACK e s)"
  unfolding SendMACK_def
proof (induction e s rule: SendMACK_loop.induct)
  case (1 e s)
  show ?case
  proof (cases "m_SendMACKs s = []")
    case True
    then show ?thesis by (subst SendMACK_loop.simps) simp
  next
    case False
    let ?n = "min (length (m_SendMACKs s)) MaxACKSInMACK"
    let ?u = "(snd (draw e s))\<lparr>m_SendMACKs := drop ?n (m_SendMACKs (snd (draw e s)))\<rparr>"
    let ?mack = "poke (3 + PacketOverhead)
      (concat (map (write_be64 (e_oxenc e)) (take ?n (m_SendMACKs (snd (draw e s))))))
      ((CreatePacket (fst (draw e s)) eMACK (1 + ?n * 8) 16 16)[PacketOverhead + CommandOverhead := of_nat ?n])"
    note ih = 1 [OF False refl refl prod.collapse refl refl refl refl]
    have eq: "SendMACK_loop e s = SendMACK_loop e (EncryptAndSend e ?mack ?u)"
      using False by (subst SendMACK_loop.simps) (simp add: Let_def split_beta)
    have "quiet s ?u"
      by (rule quiet_trans [OF quiet_draw quiet_upd]) (simp_all add: map_view_def)
    from quiet_trans [OF quiet_trans [OF this quiet_EncryptAndSend] ih] show ?thesis by (simp add: eq)
  qed
qed

section \<open>Every step of a session\<close>

lemma map_ok_HandlePlaintext:
  assumes "HandlePlaintext e s = Inr s'"
  shows "map_ok s s'"
proof (cases "m_PlaintextEmpty s")
  case False
  let ?s = "s\<lparr>m_PlaintextEmpty := True\<rparr>"
  obtain t where t: "HandleQueues e (m_PlaintextRecv s) ?s = Inr t"
    and s': "s' = emit WokePlaintext (SendMACK e t)"
    using assms False by (auto simp: HandlePlaintext_def bind_exn_Inr_iff)
  have 1: "map_ok s ?s" by (rule map_ok_upd) (simp_all add: map_view_def)
  have "quiet t s'" unfolding s' by (rule quiet_trans [OF quiet_SendMACK quiet_emit]) auto
  from map_ok_trans [OF map_ok_trans [OF 1 map_ok_HandleQueues [OF t]] map_ok_quiet [OF this]] show ?thesis .
qed (use assms in \<open>simp add: HandlePlaintext_def\<close>)

lemma quiet_run_job: "quiet s (run_job e j s)"
proof (cases j)
  case (DecryptJob ps)
  have "quiet s (emit WokePlaintext t)" if "map_view t = map_view s" "m_events t = m_events s" for t
    by (rule quiet_trans [OF quiet_upd [OF that] quiet_emit]) auto
  then show ?thesis by (simp add: DecryptJob DecryptWorker_def Let_def map_view_def)
qed (simp add: quiet_EncryptWorker)

lemma quiet_Pump_acks: "quiet s (Pump_acks e ids s)"
proof (induction ids arbitrary: s)
  case (Cons i ids)
  have "quiet t (t\<lparr>m_RXMsgs := q\<rparr>)" for t q by (rule quiet_upd) (simp_all add: map_view_def)
  then have "quiet s (EncryptAndSend e pkt ((snd (draw e s))\<lparr>m_RXMsgs := q\<rparr>))" for pkt q
    using quiet_trans [OF quiet_trans [OF quiet_draw] quiet_EncryptAndSend] by blast
  then show ?case
    using quiet_trans [OF _ Cons.IH] Cons.IH by (auto simp: split_beta Let_def split: option.split)
qed simp

lemma map_ok_Pump_resend: "Pump_resend e ids s = Inr s' \<Longrightarrow> map_ok s s'"
proof (induction ids arbitrary: s)
  case (Cons i ids)
  then obtain t where "flush_message e i s = Inr t" "Pump_resend e ids t = Inr s'"
    by (auto simp: bind_exn_Inr_iff)
  then show ?case using map_ok_trans [OF map_ok_flush_message] Cons.IH by blast
qed simp

lemma map_ok_Session_Pump:
  assumes "Session_Pump e s = Inr s'"
  shows "map_ok s s'"
proof -
  obtain t where t: "(if m_State s = Ready \<or> m_State s = LinkIntro
      then Pump_resend e (to_resend (e_now e) (m_TXMsgs (pump_acked e s))) (pump_acked e s)
      else Inr s) = Inr t" and s': "s' = queue_jobs t"
    using assms unfolding Session_Pump_eq bind_exn_Inr_iff by auto
  have "map_ok s (pump_acked e s)"
    unfolding pump_acked_def Let_def
    using map_ok_trans [OF map_ok_SendKeepAlive map_ok_quiet [OF quiet_Pump_acks]] map_ok_quiet [OF quiet_Pump_acks]
    by auto
  then have "map_ok s t" using t map_ok_trans [OF _ map_ok_Pump_resend] by (auto split: if_splits)
  moreover have "map_ok t s'" by (rule map_ok_upd) (simp_all add: s' queue_jobs_def Let_def map_view_def)
  ultimately show ?thesis by (rule map_ok_trans)
qed

lemma map_ok_drop_tx: "map_ok s (drop_tx e kv s)"
proof -
  let ?s = "s\<lparr>m_Stats := (m_Stats s)\<lparr>totalDroppedTX := totalDroppedTX (m_Stats s) + 1,
                totalInFlightTX := totalInFlightTX (m_Stats s) - 1\<rparr>\<rparr>"
  have 1: "map_ok s ?s" by (rule map_ok_upd) (simp_all add: map_view_def)
  have "map_ok ?s (run_handler e (fst (InformTimeout (snd kv))) ?s)"
    by (rule map_ok_run_handler) (auto simp: InformTimeout_def)
  from map_ok_trans [OF map_ok_trans [OF 1 this] map_ok_erase_tx] show ?thesis by (simp add: drop_tx_def Let_def)
qed

lemma map_ok_fold:
  assumes "\<And>x s. map_ok s (f x s)"
  shows "map_ok s (fold f xs s)"
proof (induction xs arbitrary: s)
  case (Cons x xs)
  show ?case using map_ok_trans [OF assms Cons.IH] by simp
qed simp

lemma map_ok_Session_Tick: "map_ok s (Session_Tick e s)"
proof -
  define s1 where "s1 = (if ShouldResetRates s (e_now e)
    then (ResetRates s)\<lparr>m_ResetRatesAt := e_now e + 1000\<rparr> else s)"
  define s2 where "s2 = fold (drop_tx e)
    (filter (\<lambda>kv. OutboundMessage_IsTimedOut (snd kv) (e_now e)) (m_TXMsgs s1)) s1"
  define s3 where "s3 = fold (drop_rx (e_now e))
    (filter (\<lambda>kv. InboundMessage_IsTimedOut (snd kv) (e_now e)) (m_RXMsgs s2)) s2"
  have 1: "map_ok s s1" by (rule map_ok_upd) (simp_all add: s1_def ResetRates_def map_view_def)
  have 2: "map_ok s1 s2" unfolding s2_def by (rule map_ok_fold) (rule map_ok_drop_tx)
  have 3: "map_ok s2 s3"
    unfolding s3_def by (rule map_ok_fold, rule map_ok_upd) (simp_all add: drop_rx_def map_view_def)
  have "map_ok s3 (Session_Tick e s)"
    by (rule map_ok_upd)
      (simp_all add: Session_Tick_def Let_def s1_def [symmetric] s2_def [symmetric] s3_def [symmetric] map_view_def)
  from map_ok_trans [OF map_ok_trans [OF map_ok_trans [OF 1 2] 3] this] show ?thesis .
qed

lemma map_ok_state_after:
  assumes "map_ok s t" and "st \<noteq> Closed"
  shows "map_ok s (t\<lparr>m_State := st\<rparr>)"
  using map_ok_trans [OF assms(1) map_ok_state [OF assms(2)]] .

lemma map_ok_Recv_LL:
  assumes "Recv_LL e data s = Inr (b, s')"
  shows "map_ok s s'"
proof -
  define t where "t = s\<lparr>m_RXRate := m_RXRate s + of_nat (length data),
    m_Stats := (m_Stats s)\<lparr>totalPacketsRX := totalPacketsRX (m_Stats s) + 1\<rparr>\<rparr>"
  have t: "map_ok s t" by (rule map_ok_upd) (simp_all add: t_def map_view_def)
  have u: "map_ok x (EncryptAndSend e pkt (snd (draw e y)))" if "map_view y = map_view x" "m_events y = m_events x" for x y pkt
    by (rule map_ok_quiet [OF quiet_trans [OF quiet_trans [OF quiet_upd [OF that] quiet_draw] quiet_EncryptAndSend]])
  have send: "map_ok x (EncryptAndSend e pkt y)" if "quiet x y" for x y pkt
    by (rule map_ok_quiet [OF quiet_trans [OF that quiet_EncryptAndSend]])
  have intro: "map_ok t (HandleGotIntro e d t)" for d
    unfolding HandleGotIntro_def Let_def draw_def
    by (auto simp: map_view_def intro!: map_ok_upd map_ok_state_after send quiet_upd split: option.split)
  have ack: "map_ok t (HandleGotIntroAck e d t)" for d
    unfolding HandleGotIntroAck_def Let_def draw_def
    by (auto simp: map_view_def intro!: map_ok_upd map_ok_state_after send quiet_upd split: option.split)
  have "map_ok x (x\<lparr>m_LastRX := e_now e, m_State := LinkIntro\<rparr>)" for x
    using map_ok_state_after [OF map_ok_upd [of "x\<lparr>m_LastRX := e_now e\<rparr>" x], of LinkIntro] by (simp add: map_view_def)
  then have req: "map_ok t x" if "HandleCreateSessionRequest e d t = Inr x" for d x
    using that map_ok_trans map_ok_SendOurLIM
    by (fastforce simp: HandleCreateSessionRequest_def split: option.splits if_splits)
  have data: "map_ok t (HandleSessionData d t)" for d
    unfolding HandleSessionData_def
    by (rule map_ok_quiet [OF quiet_trans [OF quiet_upd quiet_TriggerPump]]) (simp_all add: map_view_def)
  note H = assms [unfolded Recv_LL_def Let_def, folded t_def]
  have "map_ok t s'"
    using H intro ack req data by (auto simp: bind_exn_Inr_iff split: State.splits if_splits option.splits)
  with t show ?thesis by (rule map_ok_trans)
qed

lemma map_ok_Session_Start: "map_ok s (Session_Start e s)"
proof -
  have send: "map_ok x (EncryptAndSend e pkt y)" if "quiet x y" for x y pkt
    by (rule map_ok_quiet [OF quiet_trans [OF that quiet_EncryptAndSend]])
  have key: "map_ok x (y\<lparr>m_SessionKey := k\<rparr>)" if "map_ok x y" for x y k
    using map_ok_trans [OF that map_ok_upd [of "y\<lparr>m_SessionKey := k\<rparr>"]] by (simp add: map_view_def)
  show ?thesis
    unfolding Session_Start_def GenerateAndSendIntro_def Let_def draw_def
    by (auto simp: map_view_def intro!: key map_ok_state_after send quiet_upd split: option.split)
qed

lemma session_step_map_ok: "session_step cr cs cs' \<Longrightarrow> map_ok (snd cs) (snd cs')"
proof (induction rule: session_step.induct)
  case (step_Job c e j s s')
  have "map_ok s (s\<lparr>m_Jobs := take j (m_Jobs s) @ drop (Suc j) (m_Jobs s)\<rparr>)"
    by (rule map_ok_upd) (simp_all add: map_view_def)
  from map_ok_trans [OF this map_ok_quiet [OF quiet_run_job]] step_Job show ?case by simp
qed (auto intro: map_ok_Recv_LL map_ok_HandlePlaintext map_ok_Session_Pump map_ok_Session_Tick map_ok_run_call
    map_ok_Session_Start)

end
