(* ===== verification/Link_Layer.thy ===== *)
theory Link_Layer
  imports Iwp_Mapping
begin

text \<open>
  The link layer, from \<^verbatim>\<open>llarp/link/server.cpp\<close> and \<^verbatim>\<open>llarp/iwp/linklayer.cpp\<close>: the sessions
  of a node, filed by address while their handshake runs and by the key of the peer once it
  is done, with the table that finds the session of a datagram. Sessions are shared objects
  that change under both tables, so they live in a store and the tables hold their indices;
  a session is never freed in the model, its index just leaves the tables. What a session
  asks of the layer during one of its methods are the events it has emitted, which are
  replayed on the layer.
\<close>


section \<open>State\<close>

text \<open>What the layer tells the router, in order.\<close>

datatype router_call =
    SessionClosed bytes
  | HandleTimeout nat
  | BeforeConnect RouterContact
  | PumpDone
  | RouterTriggerPump
  | WakeupPlaintext

record link_layer =
  ll_Inbound :: bool
  ll_HasBeforeConnect :: bool
  sessions :: "session list"
  m_Pending :: "(nat \<times> nat) list"
  m_AuthedLinks :: "(bytes \<times> nat) list"
  m_AuthedAddrs :: "(nat, bytes) umap"
  m_RecentlyClosed :: "(nat, llarp_time_t) umap"
  ll_notes :: "router_call list"

definition new_LinkLayer :: "bool \<Rightarrow> bool \<Rightarrow> link_layer" where
  "new_LinkLayer allowInbound before =
     \<lparr>ll_Inbound = allowInbound, ll_HasBeforeConnect = before, sessions = [], m_Pending = [],
      m_AuthedLinks = [], m_AuthedAddrs = Map.empty, m_RecentlyClosed = Map.empty, ll_notes = []\<rparr>"

definition notify :: "router_call \<Rightarrow> link_layer \<Rightarrow> link_layer" where
  "notify n l = l\<lparr>ll_notes := ll_notes l @ [n]\<rparr>"


section \<open>Calls of a session on its layer\<close>

definition UnmapAddr :: "nat \<Rightarrow> link_layer \<Rightarrow> link_layer" where
  "UnmapAddr addr l = l\<lparr>m_AuthedAddrs := umap_erase addr (m_AuthedAddrs l)\<rparr>"

text \<open>
  \<^verbatim>\<open>MapAddr(pk, s)\<close> for a session whose remote endpoint is \<open>addr\<close>. The call of \<^verbatim>\<open>s->Close()\<close>
  in the second case is made by the session on the result \<^term>\<open>MapTooMany\<close>.
\<close>

definition ILinkLayer_MapAddr :: "bytes \<Rightarrow> nat \<Rightarrow> link_layer \<Rightarrow> map_result \<times> link_layer" where
  "ILinkLayer_MapAddr pk addr l =
     (case map_of (m_Pending l) addr of
        Some i \<Rightarrow>
          if pk \<in> fst ` set (m_AuthedLinks l) then (MapTooMany, l)
          else (MapOk, notify RouterTriggerPump
                 (l\<lparr>m_AuthedAddrs := umap_emplace addr pk (m_AuthedAddrs l),
                    m_AuthedLinks := m_AuthedLinks l @ [(pk, i)],
                    m_Pending := omap_erase addr (m_Pending l)\<rparr>))
      | None \<Rightarrow> (MapNotPending, l))"

fun replay_event :: "nat \<Rightarrow> event \<Rightarrow> link_layer \<Rightarrow> link_layer" where
  "replay_event addr (MappedAddr pk) l = snd (ILinkLayer_MapAddr pk addr l)"
| "replay_event addr UnmappedAddr l = UnmapAddr addr l"
| "replay_event addr _ l = l"

text \<open>The virtual methods of \<^verbatim>\<open>ILinkSession\<close> that change a session, and a job of a worker.\<close>

datatype sop =
    OpRecv_LL bytes
  | OpHandlePlaintext
  | OpPump
  | OpTick
  | OpSendMessageBuffer bytes "nat option" u16
  | OpSendKeepAlive
  | OpRenegotiateSession
  | OpClose
  | OpStart
  | OpJob nat

fun session_op :: "env \<Rightarrow> sop \<Rightarrow> session \<Rightarrow> exn + bool \<times> session" where
  "session_op e (OpRecv_LL pkt) s = Recv_LL e pkt s"
| "session_op e OpHandlePlaintext s = bind_exn (HandlePlaintext e s) (\<lambda>s. Inr (True, s))"
| "session_op e OpPump s = bind_exn (Session_Pump e s) (\<lambda>s. Inr (True, s))"
| "session_op e OpTick s = Inr (True, Session_Tick e s)"
| "session_op e (OpSendMessageBuffer buf h prio) s = SendMessageBuffer e buf (map_option UserHandler h) prio s"
| "session_op e OpSendKeepAlive s = Inr (True, SendKeepAlive e s)"
| "session_op e OpRenegotiateSession s = bind_exn (RenegotiateSession e s) (\<lambda>s. Inr (True, s))"
| "session_op e OpClose s = Inr (True, Session_Close e s)"
| "session_op e OpStart s = Inr (True, Session_Start e s)"
| "session_op e (OpJob j) s =
     (if j < length (m_Jobs s)
      then Inr (True, run_job e (m_Jobs s ! j) (s\<lparr>m_Jobs := take j (m_Jobs s) @ drop (Suc j) (m_Jobs s)\<rparr>))
      else Inr (False, s))"

definition new_events :: "session \<Rightarrow> session \<Rightarrow> event list" where
  "new_events s s' = drop (length (m_events s)) (m_events s')"

text \<open>
  The layer as the session sees it during a method: once it has been filed, it is not
  pending any more.
\<close>

definition session_env :: "link_layer \<Rightarrow> session \<Rightarrow> env \<Rightarrow> env" where
  "session_env l s e = e\<lparr>e_MapAddr := \<lambda>t.
     if list_ex (\<lambda>ev. case ev of MappedAddr _ \<Rightarrow> True | _ \<Rightarrow> False) (new_events s t) then MapNotPending
     else fst (ILinkLayer_MapAddr (rc_pubkey (m_RemoteRC t)) (m_RemoteAddr t) l)\<rparr>"

definition run_session :: "env \<Rightarrow> nat \<Rightarrow> sop \<Rightarrow> link_layer \<Rightarrow> exn + bool \<times> link_layer" where
  "run_session e i op l =
     (if i < length (sessions l)
      then (let s = sessions l ! i in
        bind_exn (session_op (session_env l s e) op s) (\<lambda>(b, s').
          Inr (b, fold (replay_event (m_RemoteAddr s)) (new_events s s') (l\<lparr>sessions := (sessions l)[i := s']\<rparr>))))
      else Inl OutOfBounds)"

text \<open>The same method on several sessions, one after the other.\<close>

primrec run_sessions :: "env \<Rightarrow> sop \<Rightarrow> nat list \<Rightarrow> link_layer \<Rightarrow> exn + link_layer" where
  "run_sessions e op [] l = Inr l"
| "run_sessions e op (i # is) l = bind_exn (run_session e i op l) (\<lambda>(_, l). run_sessions e op is l)"


section \<open>Queries\<close>

definition HasSessionTo :: "bytes \<Rightarrow> link_layer \<Rightarrow> bool" where
  "HasSessionTo pk l \<longleftrightarrow> map_of (m_AuthedLinks l) pk \<noteq> None"

definition FindSessionByPubkey :: "bytes \<Rightarrow> link_layer \<Rightarrow> nat option" where
  "FindSessionByPubkey pk l = map_of (m_AuthedLinks l) pk"

text \<open>The order in which sessions are visited, from a random start when asked to.\<close>

definition ForEachSession :: "nat \<Rightarrow> bool \<Rightarrow> link_layer \<Rightarrow> nat list" where
  "ForEachSession randint randomize l =
     (if m_AuthedLinks l = [] then []
      else (let sz = randint mod length (m_AuthedLinks l); ids = map snd (m_AuthedLinks l)
            in if randomize then drop sz ids @ take sz ids else ids))"

definition NumberOfPendingSessions :: "link_layer \<Rightarrow> nat" where
  "NumberOfPendingSessions l = length (m_Pending l)"

definition PickAddress :: "RouterContact \<Rightarrow> AddressInfo option" where
  "PickAddress rc = find (\<lambda>addr. ai_dialect addr = ''iwp'') (rc_addrs rc)"

definition IsCompatable :: "RouterContact \<Rightarrow> bool" where
  "IsCompatable other \<longleftrightarrow> list_ex (\<lambda>ai. ai_dialect ai = ''iwp'') (rc_addrs other)"


section \<open>Operations\<close>

definition VisitSessionByPubkey :: "env \<Rightarrow> bytes \<Rightarrow> sop \<Rightarrow> link_layer \<Rightarrow> exn + bool \<times> link_layer" where
  "VisitSessionByPubkey e pk visit l =
     (case map_of (m_AuthedLinks l) pk of None \<Rightarrow> Inr (False, l) | Some i \<Rightarrow> run_session e i visit l)"

definition RecvFrom :: "env \<Rightarrow> nat \<Rightarrow> bytes \<Rightarrow> link_layer \<Rightarrow> exn + link_layer" where
  "RecvFrom e from pkt l =
     (let recv = (\<lambda>i isNewSession l.
            bind_exn (run_session e i (OpRecv_LL pkt) l) (\<lambda>(success, l).
              let l = (if \<not> success \<and> isNewSession then l\<lparr>m_Pending := omap_erase from (m_Pending l)\<rparr> else l)
              in Inr (notify WakeupPlaintext l)))
      in case m_AuthedAddrs l from of
           None \<Rightarrow>
             (case map_of (m_Pending l) from of
                Some i \<Rightarrow> recv i False l
              | None \<Rightarrow>
                  if \<not> ll_Inbound l then Inr l
                  else recv (length (sessions l)) True
                         (l\<lparr>sessions := sessions l @ [Session_inbound e from],
                            m_Pending := m_Pending l @ [(from, length (sessions l))]\<rparr>))
         | Some pk \<Rightarrow>
             (case map_of (m_AuthedLinks l) pk of
                Some i \<Rightarrow> recv i False l
              | None \<Rightarrow> Inr l))"

definition HandleWakeupPlaintext :: "env \<Rightarrow> link_layer \<Rightarrow> exn + link_layer" where
  "HandleWakeupPlaintext e l =
     (let m_WakingUp = map snd (m_AuthedLinks l) @ map snd (m_Pending l)
      in bind_exn (run_sessions e OpHandlePlaintext m_WakingUp l) (\<lambda>l. Inr (notify PumpDone l)))"

text \<open>
  The two loops of \<^verbatim>\<open>Pump\<close>. The first collects the keys of the links that timed out, the
  second the pending sessions that did.
\<close>

primrec Pump_authed :: "env \<Rightarrow> (bytes \<times> nat) list \<Rightarrow> bytes list \<Rightarrow> link_layer \<Rightarrow> exn + bytes list \<times> link_layer" where
  "Pump_authed e [] closedSessions l = Inr (closedSessions, l)"
| "Pump_authed e (x # xs) closedSessions l =
     (if snd x < length (sessions l) then
        (if \<not> TimedOut (sessions l ! snd x) (e_now e)
         then bind_exn (run_session e (snd x) OpPump l) (\<lambda>(_, l). Pump_authed e xs closedSessions l)
         else bind_exn (run_session e (snd x) OpClose l) (\<lambda>(_, l).
           let l = UnmapAddr (m_RemoteAddr (sessions l ! snd x)) l;
               l = l\<lparr>m_AuthedLinks := removeAll x (m_AuthedLinks l)\<rparr>
           in Pump_authed e xs (fst x # closedSessions) l))
      else Inl OutOfBounds)"

primrec Pump_pending :: "env \<Rightarrow> (nat \<times> nat) list \<Rightarrow> nat list \<Rightarrow> link_layer \<Rightarrow> exn + nat list \<times> link_layer" where
  "Pump_pending e [] closedPending l = Inr (closedPending, l)"
| "Pump_pending e (x # xs) closedPending l =
     (if snd x < length (sessions l) then
        (if \<not> TimedOut (sessions l ! snd x) (e_now e)
         then bind_exn (run_session e (snd x) OpPump l) (\<lambda>(_, l). Pump_pending e xs closedPending l)
         else (let l = UnmapAddr (m_RemoteAddr (sessions l ! snd x)) l;
                   l = l\<lparr>m_Pending := omap_erase (fst x) (m_Pending l)\<rparr>
               in Pump_pending e xs (closedPending @ [snd x]) l))
      else Inl OutOfBounds)"

definition ILinkLayer_Pump :: "env \<Rightarrow> link_layer \<Rightarrow> exn + link_layer" where
  "ILinkLayer_Pump e l =
     bind_exn (Pump_authed e (m_AuthedLinks l) [] l) (\<lambda>(closedSessions, l).
     bind_exn (Pump_pending e (m_Pending l) [] l) (\<lambda>(closedPending, l).
       let l = fold (\<lambda>r l. if r \<notin> fst ` set (m_AuthedLinks l) then notify (SessionClosed r) l else l)
                 (remdups closedSessions) l
       in Inr (fold (\<lambda>i l. if m_Inbound (sessions l ! i) then l else notify (HandleTimeout i) l) closedPending l)))"

definition PutSession :: "session \<Rightarrow> link_layer \<Rightarrow> bool \<times> link_layer" where
  "PutSession s l =
     (let address = m_RemoteAddr s
      in if map_of (m_Pending l) address \<noteq> None then (False, l)
         else (True, l\<lparr>sessions := sessions l @ [s], m_Pending := m_Pending l @ [(address, length (sessions l))]\<rparr>))"

definition NewOutboundSession :: "env \<Rightarrow> RouterContact \<Rightarrow> AddressInfo \<Rightarrow> link_layer \<Rightarrow> exn + session" where
  "NewOutboundSession e rc ai l = (if ll_Inbound l then Inl LogicError else Inr (Session_outbound e rc ai))"

definition TryEstablishTo :: "env \<Rightarrow> RouterContact \<Rightarrow> link_layer \<Rightarrow> exn + bool \<times> link_layer" where
  "TryEstablishTo e rc l =
     (if rc_pubkey rc \<in> fst ` set (m_AuthedLinks l) then Inr (False, l)
      else case PickAddress rc of
             None \<Rightarrow> Inr (False, l)
           | Some to \<Rightarrow>
               if map_of (m_Pending l) (ai_addr to) \<noteq> None then Inr (False, l)
               else bind_exn (NewOutboundSession e rc to l) (\<lambda>s.
                 let l = (if ll_HasBeforeConnect l then notify (BeforeConnect rc) l else l);
                     (put, l) = PutSession s l
                 in if \<not> put then Inr (False, l)
                    else bind_exn (run_session e (length (sessions l) - 1) OpStart l) (\<lambda>(_, l). Inr (True, l))))"

definition ILinkLayer_Tick :: "env \<Rightarrow> link_layer \<Rightarrow> exn + link_layer" where
  "ILinkLayer_Tick e l =
     bind_exn (run_sessions e OpTick (map snd (m_AuthedLinks l)) l) (\<lambda>l.
     bind_exn (run_sessions e OpTick (map snd (m_Pending l)) l) (\<lambda>l.
       Inr (l\<lparr>m_RecentlyClosed := umap_erase_if (\<lambda>_ t. t \<ge> e_now e) (m_RecentlyClosed l)\<rparr>)))"

definition ILinkLayer_Stop :: "env \<Rightarrow> link_layer \<Rightarrow> exn + link_layer" where
  "ILinkLayer_Stop e l =
     bind_exn (run_sessions e OpClose (map snd (m_AuthedLinks l)) l)
       (\<lambda>l. run_sessions e OpClose (map snd (m_Pending l)) l)"

definition CloseGraceWindow :: llarp_time_t where
  "CloseGraceWindow = 500"

primrec CloseSessionTo_loop :: "env \<Rightarrow> (bytes \<times> nat) list \<Rightarrow> link_layer \<Rightarrow> exn + link_layer" where
  "CloseSessionTo_loop e [] l = Inr l"
| "CloseSessionTo_loop e (x # xs) l =
     bind_exn (run_session e (snd x) OpClose l) (\<lambda>(_, l).
       CloseSessionTo_loop e xs
         (l\<lparr>m_RecentlyClosed := umap_emplace (m_RemoteAddr (sessions l ! snd x)) (e_now e + CloseGraceWindow) (m_RecentlyClosed l),
            m_AuthedLinks := removeAll x (m_AuthedLinks l)\<rparr>))"

definition CloseSessionTo :: "env \<Rightarrow> bytes \<Rightarrow> link_layer \<Rightarrow> exn + link_layer" where
  "CloseSessionTo e remote l =
     bind_exn (CloseSessionTo_loop e (filter (\<lambda>x. fst x = remote) (m_AuthedLinks l)) l)
       (\<lambda>l. Inr (notify (SessionClosed remote) l))"

primrec KeepAlive_loop :: "env \<Rightarrow> nat list \<Rightarrow> link_layer \<Rightarrow> exn + link_layer" where
  "KeepAlive_loop e [] l = Inr l"
| "KeepAlive_loop e (i # is) l =
     (if i < length (sessions l) then
        (if ShouldPing e (sessions l ! i)
         then bind_exn (run_session e i OpSendKeepAlive l) (\<lambda>(_, l). KeepAlive_loop e is l)
         else KeepAlive_loop e is l)
      else Inl OutOfBounds)"

definition KeepAliveSessionTo :: "env \<Rightarrow> bytes \<Rightarrow> link_layer \<Rightarrow> exn + link_layer" where
  "KeepAliveSessionTo e remote l =
     KeepAlive_loop e (map snd (filter (\<lambda>x. fst x = remote) (m_AuthedLinks l))) l"

text \<open>The session with the shortest queue, the first of those that have it.\<close>

primrec lowest_backlog :: "session list \<Rightarrow> nat list \<Rightarrow> nat option \<Rightarrow> nat option" where
  "lowest_backlog heap [] s = s"
| "lowest_backlog heap (i # is) s =
     lowest_backlog heap is
       (case s of None \<Rightarrow> Some i
        | Some j \<Rightarrow> if length (m_TXMsgs (heap ! i)) < length (m_TXMsgs (heap ! j)) then Some i else s)"

definition SendTo :: "env \<Rightarrow> bytes \<Rightarrow> bytes \<Rightarrow> nat option \<Rightarrow> u16 \<Rightarrow> link_layer \<Rightarrow> exn + bool \<times> link_layer" where
  "SendTo e remote buf completed priority l =
     (case lowest_backlog (sessions l) (map snd (filter (\<lambda>x. fst x = remote) (m_AuthedLinks l))) None of
        None \<Rightarrow> Inr (False, l)
      | Some i \<Rightarrow> run_session e i (OpSendMessageBuffer buf completed priority) l)"

end
