(* ===== verification/Link_Tables.thy ===== *)
theory Link_Tables
  imports Link_Layer
begin

text \<open>
  The tables of the link layer agree with the sessions: the invariant, and that one method
  of one session keeps it, over the discipline that every session follows
  (\<open>Iwp_Mapping\<close>) and the authentication invariant of the handshake (\<open>Iwp_Handshake\<close>).
\<close>


section \<open>The invariant\<close>

definition table_ids :: "link_layer \<Rightarrow> nat list" where
  "table_ids l = map snd (m_Pending l) @ map snd (m_AuthedLinks l)"

text \<open>
  The part of the invariant that does not mention the address table, and what an entry of
  that table means. \<open>except\<close> is a session that is being changed and may be closed for the moment.
\<close>

definition tables_ok :: "crypto \<Rightarrow> link_layer \<Rightarrow> bool" where
  "tables_ok cr l \<longleftrightarrow>
     distinct (map fst (m_Pending l)) \<and> distinct (map fst (m_AuthedLinks l)) \<and>
     distinct (table_ids l) \<and> (\<forall>i\<in>set (table_ids l). i < length (sessions l)) \<and>
     (\<forall>s\<in>set (sessions l). lim_ok s \<and> auth_inv cr s) \<and>
     (\<forall>(a, i)\<in>set (m_Pending l). m_RemoteAddr (sessions l ! i) = a) \<and>
     (\<forall>(pk, i)\<in>set (m_AuthedLinks l). settled (sessions l ! i) \<and> session_key (sessions l ! i) = pk)"

definition addrs_ok :: "nat option \<Rightarrow> link_layer \<Rightarrow> bool" where
  "addrs_ok except l \<longleftrightarrow> (\<forall>a pk. m_AuthedAddrs l a = Some pk \<longrightarrow>
     (\<exists>i. (pk, i) \<in> set (m_AuthedLinks l) \<and> m_RemoteAddr (sessions l ! i) = a \<and>
          (Some i = except \<or> m_State (sessions l ! i) \<noteq> Closed)))"

definition link_inv :: "crypto \<Rightarrow> link_layer \<Rightarrow> bool" where
  "link_inv cr l \<longleftrightarrow> tables_ok cr l \<and> addrs_ok None l"

lemma authed_unique:
  "tables_ok cr l \<Longrightarrow> (pk, i) \<in> set (m_AuthedLinks l) \<Longrightarrow> (pk, j) \<in> set (m_AuthedLinks l) \<Longrightarrow> i = j"
  by (auto simp: tables_ok_def dest: eq_key_imp_eq_value)

lemma tables_ok_cong:
  "m_Pending l' = m_Pending l \<Longrightarrow> m_AuthedLinks l' = m_AuthedLinks l \<Longrightarrow> sessions l' = sessions l \<Longrightarrow>
     tables_ok cr l' = tables_ok cr l"
  by (simp add: tables_ok_def table_ids_def)

lemma addrs_ok_cong:
  "m_AuthedAddrs l' = m_AuthedAddrs l \<Longrightarrow> m_AuthedLinks l' = m_AuthedLinks l \<Longrightarrow> sessions l' = sessions l \<Longrightarrow>
     addrs_ok x l' = addrs_ok x l"
  by (simp add: addrs_ok_def)

lemma link_inv_notify [simp]: "link_inv cr (notify n l) = link_inv cr l"
  using tables_ok_cong [of "notify n l" l] addrs_ok_cong [of "notify n l" l]
  by (simp add: link_inv_def notify_def)

lemma tables_ok_UnmapAddr [simp]: "tables_ok cr (UnmapAddr a l) = tables_ok cr l"
  by (rule tables_ok_cong) (simp_all add: UnmapAddr_def)

lemma addrs_ok_UnmapAddr: "addrs_ok x l \<Longrightarrow> addrs_ok x (UnmapAddr a l)"
  by (auto simp: addrs_ok_def UnmapAddr_def umap_erase_def split: if_splits)

lemma link_inv_UnmapAddr: "link_inv cr l \<Longrightarrow> link_inv cr (UnmapAddr a l)"
  by (simp add: link_inv_def addrs_ok_UnmapAddr)

lemma set_erase: "set (omap_erase a m) = {x \<in> set m. fst x \<noteq> a}"
  by (auto simp: omap_erase_def)

lemma distinct_map_filter_append:
  "distinct (map f xs @ map g ys) \<Longrightarrow> distinct (map f (filter P xs) @ map g (filter Q ys))"
  by (auto simp: distinct_map_filter)

lemma tables_ok_sub:
  assumes "tables_ok cr l" and "m_Pending l' = filter P (m_Pending l)"
    and "m_AuthedLinks l' = filter Q (m_AuthedLinks l)" and "sessions l' = sessions l"
  shows "tables_ok cr l'"
  using assms(1) unfolding tables_ok_def table_ids_def assms(2-4)
  by (auto simp: distinct_map_filter distinct_map_filter_append)

section \<open>One method of one session\<close>

lemma session_op_step:
  assumes "session_op e op s = Inr (b, s')" and "c \<le> e_now e"
  shows "s' = s \<or> session_step (e_crypto e) (c, s) (e_now e, s')"
proof (cases op)
  case (OpSendMessageBuffer buf h prio)
  then have "run_call e (CallSendMessageBuffer buf h prio) s = Inr s'" using assms by (simp add: bind_exn_Inr_iff)
  from step_Call [OF assms(2) refl this] show ?thesis by simp
next
  case OpSendKeepAlive
  then have "run_call e CallSendKeepAlive s = Inr s'" using assms by simp
  from step_Call [OF assms(2) refl this] show ?thesis by simp
next
  case OpRenegotiateSession
  then have "run_call e CallRenegotiateSession s = Inr s'" using assms by (auto simp: bind_exn_Inr_iff)
  from step_Call [OF assms(2) refl this] show ?thesis by simp
next
  case OpClose
  then have "run_call e CallClose s = Inr s'" using assms by simp
  from step_Call [OF assms(2) refl this] show ?thesis by simp
next
  case (OpJob j)
  then show ?thesis using assms by (auto intro: step_Job split: if_splits)
qed (use assms in \<open>auto simp: bind_exn_Inr_iff intro: step_Recv step_Plaintext step_Pump step_Tick step_Start\<close>)

lemma session_op_ok:
  assumes "session_op e op s = Inr (b, s')"
  shows "map_ok s s'" "auth_inv (e_crypto e) s \<Longrightarrow> auth_inv (e_crypto e) s'"
  using session_op_step [OF assms order_refl] session_step_map_ok [of "e_crypto e"] auth_inv_step [of "e_crypto e"]
  by fastforce+

lemma OpJob_no_map:
  assumes "session_op e (OpJob j) s = Inr (b, s')"
  shows "MappedAddr k \<notin> set (new_events s s')"
proof (cases "j < length (m_Jobs s)")
  case True
  let ?t = "s\<lparr>m_Jobs := take j (m_Jobs s) @ drop (Suc j) (m_Jobs s)\<rparr>"
  have "quiet ?t s'" using assms True quiet_run_job by auto
  then show ?thesis by (auto simp: quiet_def new_events_def)
qed (use assms in \<open>simp add: new_events_def\<close>)

text \<open>How the tables change while a session runs: not at all, or the session is filed.\<close>

definition filed :: "nat \<Rightarrow> link_layer \<Rightarrow> link_layer \<Rightarrow> bool" where
  "filed i l l' \<longleftrightarrow> length (sessions l') = length (sessions l) \<and> ll_Inbound l' = ll_Inbound l \<and>
     (\<forall>j<length (sessions l). m_RemoteAddr (sessions l' ! j) = m_RemoteAddr (sessions l ! j)) \<and>
     (m_Pending l' = m_Pending l \<and> m_AuthedLinks l' = m_AuthedLinks l \<or>
      (\<exists>a pk. (a, i) \<in> set (m_Pending l) \<and> m_Pending l' = omap_erase a (m_Pending l) \<and>
         m_AuthedLinks l' = m_AuthedLinks l @ [(pk, i)]))"

lemma pending_not_authed:
  assumes "tables_ok cr l" and "(a, i) \<in> set (m_Pending l)"
  shows "(pk, i) \<notin> set (m_AuthedLinks l)"
proof
  assume "(pk, i) \<in> set (m_AuthedLinks l)"
  then have "i \<in> snd ` set (m_Pending l) \<inter> snd ` set (m_AuthedLinks l)"
    using assms(2) by (auto intro: rev_image_eqI)
  moreover have "snd ` set (m_Pending l) \<inter> snd ` set (m_AuthedLinks l) = {}"
    using assms(1) by (simp add: tables_ok_def table_ids_def)
  ultimately show False by blast
qed

lemma filed_trans:
  assumes "filed i l m" and "filed i m n" and "tables_ok cr m"
  shows "filed i l n"
proof -
  have "m_Pending n = m_Pending l \<and> m_AuthedLinks n = m_AuthedLinks l \<or>
      (\<exists>a pk. (a, i) \<in> set (m_Pending l) \<and> m_Pending n = omap_erase a (m_Pending l) \<and>
         m_AuthedLinks n = m_AuthedLinks l @ [(pk, i)])"
  proof (cases "m_Pending m = m_Pending l \<and> m_AuthedLinks m = m_AuthedLinks l")
    case True
    then show ?thesis using assms(2) by (simp add: filed_def)
  next
    case False
    then obtain a pk where m: "(a, i) \<in> set (m_Pending l)" "m_Pending m = omap_erase a (m_Pending l)"
        "m_AuthedLinks m = m_AuthedLinks l @ [(pk, i)]"
      using assms(1) by (auto simp: filed_def)
    then have "(pk, i) \<in> set (m_AuthedLinks m)" by simp
    then have "\<And>a. (a, i) \<notin> set (m_Pending m)" using pending_not_authed [OF assms(3)] by blast
    then have "m_Pending n = m_Pending m" "m_AuthedLinks n = m_AuthedLinks m" using assms(2) by (auto simp: filed_def)
    with m show ?thesis by auto
  qed
  then show ?thesis using assms(1,2) by (auto simp: filed_def)
qed

lemma MapAddr_cases:
  obtains "snd (ILinkLayer_MapAddr k a l) = l"
  | i where "map_of (m_Pending l) a = Some i" "k \<notin> fst ` set (m_AuthedLinks l)"
      "snd (ILinkLayer_MapAddr k a l) = notify RouterTriggerPump
         (l\<lparr>m_AuthedAddrs := umap_emplace a k (m_AuthedAddrs l), m_AuthedLinks := m_AuthedLinks l @ [(k, i)],
            m_Pending := omap_erase a (m_Pending l)\<rparr>)"
  by (cases "map_of (m_Pending l) a"; cases "k \<in> fst ` set (m_AuthedLinks l)") (auto simp: ILinkLayer_MapAddr_def)

lemma tables_ok_file:
  assumes "tables_ok cr l" and "(a, i) \<in> set (m_Pending l)" and "k \<notin> fst ` set (m_AuthedLinks l)"
    and "settled (sessions l ! i)" and "session_key (sessions l ! i) = k"
    and "m_Pending l' = omap_erase a (m_Pending l)" "m_AuthedLinks l' = m_AuthedLinks l @ [(k, i)]"
      "sessions l' = sessions l"
  shows "tables_ok cr l'"
proof -
  have d: "distinct (map snd (m_Pending l))" "distinct (map snd (m_AuthedLinks l))"
    "snd ` set (m_Pending l) \<inter> snd ` set (m_AuthedLinks l) = {}" "distinct (map fst (m_Pending l))"
    using assms(1) by (auto simp: tables_ok_def table_ids_def)
  have "i \<notin> snd ` set (omap_erase a (m_Pending l))"
  proof
    assume "i \<in> snd ` set (omap_erase a (m_Pending l))"
    then obtain a' where "(a', i) \<in> set (m_Pending l)" "a' \<noteq> a" by (auto simp: set_erase)
    with d(1) assms(2) show False by (metis distinct_map inj_onD prod.inject snd_conv)
  qed
  moreover have "i \<notin> snd ` set (m_AuthedLinks l)" using d(3) assms(2) by force
  moreover have "distinct (map snd (omap_erase a (m_Pending l)))" "distinct (map fst (omap_erase a (m_Pending l)))"
    using d by (simp_all add: omap_erase_def distinct_map_filter)
  moreover have "snd ` set (omap_erase a (m_Pending l)) \<inter> snd ` set (m_AuthedLinks l) = {}"
    using d(3) by (auto simp: set_erase)
  ultimately have "distinct (table_ids l')"
    using d(2) unfolding table_ids_def assms(6,7) by auto
  moreover have "set (table_ids l') \<subseteq> set (table_ids l)"
    using assms(2) unfolding table_ids_def assms(6,7) by (auto simp: set_erase intro: rev_image_eqI)
  then have "\<forall>j\<in>set (table_ids l'). j < length (sessions l)"
    using assms(1) unfolding tables_ok_def by blast
  ultimately show ?thesis
    using assms(1,3-5) unfolding tables_ok_def assms(6-8)
    by (auto simp: set_erase omap_erase_def distinct_map_filter)
qed

lemma replay_ok:
  assumes "tables_ok cr l" and "addrs_ok (Some i) l" and "m_RemoteAddr (sessions l ! i) = a"
    and "\<And>pk. m_AuthedAddrs l a = Some pk \<Longrightarrow> (pk, i) \<in> set (m_AuthedLinks l) \<Longrightarrow> b"
    and "\<And>k. MappedAddr k \<in> set evs \<Longrightarrow> settled (sessions l ! i) \<and> session_key (sessions l ! i) = k \<and>
           (\<forall>j. (a, j) \<in> set (m_Pending l) \<longrightarrow> j = i)"
    and "l' = fold (replay_event a) evs l"
  shows "tables_ok cr l' \<and> addrs_ok (Some i) l' \<and> filed i l l' \<and> sessions l' = sessions l \<and>
    (\<forall>pk. m_AuthedAddrs l' a = Some pk \<and> (pk, i) \<in> set (m_AuthedLinks l') \<longrightarrow> mapped_after b evs)"
  using assms
proof (induction evs arbitrary: l b)
  case Nil
  then show ?case by (auto simp: filed_def)
next
  case (Cons ev evs)
  define m where "m = replay_event a ev l"
  define c where "c = (case ev of MappedAddr _ \<Rightarrow> True | UnmappedAddr \<Rightarrow> False | _ \<Rightarrow> b)"
  have step: "tables_ok cr m \<and> addrs_ok (Some i) m \<and> filed i l m \<and> sessions m = sessions l \<and>
      set (m_Pending m) \<subseteq> set (m_Pending l) \<and>
      (\<forall>pk. m_AuthedAddrs m a = Some pk \<and> (pk, i) \<in> set (m_AuthedLinks m) \<longrightarrow> c)"
  proof (cases ev)
    case (MappedAddr k)
    have k: "settled (sessions l ! i)" "session_key (sessions l ! i) = k" "\<And>j. (a, j) \<in> set (m_Pending l) \<Longrightarrow> j = i"
      using Cons.prems(5) [of k] MappedAddr by auto
    have m: "m = snd (ILinkLayer_MapAddr k a l)" by (simp add: m_def MappedAddr)
    show ?thesis
    proof (cases rule: MapAddr_cases [of k a l])
      case 1
      with Cons.prems(1,2) show ?thesis by (simp add: m c_def MappedAddr filed_def)
    next
      case (2 j)
      have p: "(a, i) \<in> set (m_Pending l)" using 2(1) k(3) by (metis map_of_SomeD)
      have "j = i" using 2(1) k(3) by (metis map_of_SomeD)
      then have f: "m_Pending m = omap_erase a (m_Pending l)" "m_AuthedLinks m = m_AuthedLinks l @ [(k, i)]"
        "sessions m = sessions l" "m_AuthedAddrs m = umap_emplace a k (m_AuthedAddrs l)" "ll_Inbound m = ll_Inbound l"
        using 2(3) by (simp_all add: m notify_def)
      have "tables_ok cr m"
        using tables_ok_file [OF Cons.prems(1) p 2(2) k(1,2) f(1-3)] .
      moreover have "addrs_ok (Some i) m"
        using Cons.prems(2,3) unfolding addrs_ok_def f(2-4) umap_emplace_def
        by (auto split: option.splits if_splits)
      ultimately show ?thesis using f p by (auto simp: c_def MappedAddr filed_def set_erase)
    qed
  next
    case UnmappedAddr
    then have "m = UnmapAddr a l" by (simp add: m_def)
    then show ?thesis
      using Cons.prems(1,2) addrs_ok_UnmapAddr [of "Some i" l a]
      by (simp add: c_def UnmappedAddr filed_def) (simp add: UnmapAddr_def umap_erase_def)
  qed (use Cons.prems(1,2,4) in \<open>auto simp: m_def c_def filed_def\<close>)
  have "l' = fold (replay_event a) evs m" using Cons.prems(6) by (simp add: m_def)
  then have "tables_ok cr l' \<and> addrs_ok (Some i) l' \<and> filed i m l' \<and> sessions l' = sessions m \<and>
      (\<forall>pk. m_AuthedAddrs l' a = Some pk \<and> (pk, i) \<in> set (m_AuthedLinks l') \<longrightarrow> mapped_after c evs)"
    using step Cons.prems(3,5) by (intro Cons.IH) auto
  moreover have "filed i l l'"
    using filed_trans step calculation by blast
  ultimately show ?case using step by (simp add: c_def)
qed

lemma run_sessionE:
  assumes "run_session e i op l = Inr (b, l')"
  obtains s' where "i < length (sessions l)"
    "session_op (session_env l (sessions l ! i) e) op (sessions l ! i) = Inr (b, s')"
    "l' = fold (replay_event (m_RemoteAddr (sessions l ! i))) (new_events (sessions l ! i) s')
            (l\<lparr>sessions := (sessions l)[i := s']\<rparr>)"
  using assms by (auto simp: run_session_def Let_def bind_exn_Inr_iff split: if_splits)

lemma tables_ok_update:
  assumes "tables_ok cr l" and "i < length (sessions l)" and "map_ok (sessions l ! i) s'" and "auth_inv cr s'"
  shows "tables_ok cr (l\<lparr>sessions := (sessions l)[i := s']\<rparr>)"
proof -
  let ?s = "sessions l ! i"
  have s: "lim_ok ?s" using assms(1,2) by (simp add: tables_ok_def)
  have s': "lim_ok s'" "m_RemoteAddr s' = m_RemoteAddr ?s" "settled ?s \<Longrightarrow> settled s' \<and> session_key s' = session_key ?s"
    using assms(3) s by (auto simp: map_ok_def)
  have nth: "(sessions l)[i := s'] ! j = (if j = i then s' else sessions l ! j)" for j
    using assms(2) by (simp add: nth_list_update)
  have "\<forall>s\<in>set ((sessions l)[i := s']). lim_ok s \<and> auth_inv cr s"
    using assms(1,4) s'(1) set_update_subset_insert [of "sessions l" i s'] by (auto simp: tables_ok_def)
  then show ?thesis
    using assms(1) s'(2,3) unfolding tables_ok_def table_ids_def by (auto simp: nth)
qed

lemma run_session_inv:
  assumes "link_inv cr l" and "e_crypto e = cr" and "run_session e i op l = Inr (b, l')"
    and "i \<in> set (table_ids l) \<or> (\<exists>j. op = OpJob j)"
  shows "link_inv cr l' \<and> filed i l l'"
proof -
  let ?s = "sessions l ! i"
  obtain s' where i: "i < length (sessions l)"
    and op: "session_op (session_env l ?s e) op ?s = Inr (b, s')"
    and l': "l' = fold (replay_event (m_RemoteAddr ?s)) (new_events ?s s') (l\<lparr>sessions := (sessions l)[i := s']\<rparr>)"
    using assms(3) by (rule run_sessionE)
  define evs where "evs = new_events ?s s'"
  define l0 where "l0 = l\<lparr>sessions := (sessions l)[i := s']\<rparr>"
  have T: "tables_ok cr l" and A: "addrs_ok None l" using assms(1) by (simp_all add: link_inv_def)
  have lim: "lim_ok ?s" "auth_inv cr ?s" using T i by (simp_all add: tables_ok_def)
  have m: "map_ok ?s s'" by (rule session_op_ok(1) [OF op])
  have "e_crypto (session_env l ?s e) = cr" using assms(2) by (simp add: session_env_def)
  then have au: "auth_inv cr s'" using session_op_ok(2) [OF op] lim(2) by simp
  have evs: "m_events s' = m_events ?s @ evs" and rem: "m_RemoteAddr s' = m_RemoteAddr ?s"
    and cl: "m_State s' = Closed \<Longrightarrow> \<not> mapped_after (m_State ?s \<noteq> Closed) evs"
    and set: "settled ?s \<Longrightarrow> MappedAddr k \<notin> set evs"
    and mp: "MappedAddr k \<in> set evs \<Longrightarrow> settled s' \<and> session_key s' = k" for k
    using m lim(1) by (auto simp: map_ok_def evs_def new_events_def)
  have l0: "sessions l0 ! i = s'" "m_Pending l0 = m_Pending l" "m_AuthedLinks l0 = m_AuthedLinks l"
    "m_AuthedAddrs l0 = m_AuthedAddrs l" "\<And>j. j \<noteq> i \<Longrightarrow> sessions l0 ! j = sessions l ! j"
    using i by (simp_all add: l0_def)
  have t0: "tables_ok cr l0" unfolding l0_def by (rule tables_ok_update [OF T i m au])
  have a0: "addrs_ok (Some i) l0"
    using A rem unfolding addrs_ok_def l0 by (metis l0(1,5) option.inject option.distinct(1))
  have b0: "m_State ?s \<noteq> Closed" if "m_AuthedAddrs l0 (m_RemoteAddr ?s) = Some pk" "(pk, i) \<in> set (m_AuthedLinks l0)" for pk
    using A that authed_unique [OF T] unfolding addrs_ok_def l0 by blast
  have pend: "j = i" if "MappedAddr k \<in> set evs" "(m_RemoteAddr ?s, j) \<in> set (m_Pending l0)" for k j
  proof -
    have "\<not> (\<exists>j. op = OpJob j)" using OpJob_no_map [of "session_env l ?s e" _ ?s b s'] op that(1) by (auto simp: evs_def)
    then have "i \<in> set (table_ids l)" using assms(4) by blast
    moreover have "(pk, i) \<notin> set (m_AuthedLinks l)" for pk
      using that(1) set T by (auto simp: tables_ok_def)
    ultimately obtain a where "(a, i) \<in> set (m_Pending l)" by (auto simp: table_ids_def)
    moreover have "a = m_RemoteAddr ?s" using T calculation by (auto simp: tables_ok_def)
    ultimately show ?thesis using that(2) T unfolding l0 by (auto simp: tables_ok_def dest: eq_key_imp_eq_value)
  qed
  have R: "tables_ok cr l' \<and> addrs_ok (Some i) l' \<and> filed i l0 l' \<and> sessions l' = sessions l0 \<and>
      (\<forall>pk. m_AuthedAddrs l' (m_RemoteAddr ?s) = Some pk \<and> (pk, i) \<in> set (m_AuthedLinks l') \<longrightarrow>
         mapped_after (m_State ?s \<noteq> Closed) evs)"
    by (rule replay_ok [OF t0 a0]) (use rem b0 mp pend l' i in \<open>auto simp: evs_def l0_def\<close>)
  have "addrs_ok None l'"
    using R cl rem l0(1) unfolding addrs_ok_def by (metis (no_types) option.inject)
  moreover have "filed i l l'"
  proof -
    have "m_RemoteAddr (sessions l0 ! j) = m_RemoteAddr (sessions l ! j)" for j
      using rem l0(1,5) by (cases "j = i") auto
    then show ?thesis using R unfolding filed_def l0(2,3) by (simp add: l0_def)
  qed
  ultimately show ?thesis using R by (simp add: link_inv_def)
qed

end
