(* ===== verification/Link_Layer_Inv.thy ===== *)
theory Link_Layer_Inv
  imports Link_Tables
begin

text \<open>
  Every operation of the link layer keeps its tables in agreement with the sessions, and every
  session of a layer is a run of the session model; what follows for all runs of a layer.
\<close>

section \<open>Operations of the layer\<close>

text \<open>
  Together with the invariant of the tables: every session of the store is one that the
  session model reaches, no later than at the time of the layer.
\<close>

definition layer_inv :: "crypto \<Rightarrow> llarp_time_t \<Rightarrow> link_layer \<Rightarrow> bool" where
  "layer_inv cr t l \<longleftrightarrow> link_inv cr l \<and>
     (\<forall>s\<in>set (sessions l). \<exists>c\<le>t. reach (session_init cr) (session_step cr) (c, s))"

lemma layer_inv_mono: "layer_inv cr t l \<Longrightarrow> t \<le> u \<Longrightarrow> layer_inv cr u l"
  by (auto simp: layer_inv_def intro: order_trans)

lemma layer_inv_cong:
  "m_Pending l' = m_Pending l \<Longrightarrow> m_AuthedLinks l' = m_AuthedLinks l \<Longrightarrow> sessions l' = sessions l \<Longrightarrow>
     m_AuthedAddrs l' = m_AuthedAddrs l \<Longrightarrow> layer_inv cr t l' = layer_inv cr t l"
  using tables_ok_cong [of l' l] addrs_ok_cong [of l' l] by (simp add: layer_inv_def link_inv_def)

lemma layer_inv_notify [simp]: "layer_inv cr t (notify n l) = layer_inv cr t l"
  by (rule layer_inv_cong) (simp_all add: notify_def)

lemma layer_inv_UnmapAddr: "layer_inv cr t l \<Longrightarrow> layer_inv cr t (UnmapAddr a l)"
  by (simp add: layer_inv_def link_inv_UnmapAddr) (simp add: UnmapAddr_def)

lemma sessions_replay [simp]: "sessions (fold (replay_event a) evs l) = sessions l"
proof (induction evs arbitrary: l)
  case (Cons ev evs)
  have "sessions (snd (ILinkLayer_MapAddr k a l)) = sessions l" for k
    by (rule MapAddr_cases [of k a l]) (simp_all add: notify_def)
  then show ?case by (cases ev) (simp_all add: Cons UnmapAddr_def)
qed simp

lemma layer_inv_run_session:
  assumes "layer_inv cr (e_now e) l" and "e_crypto e = cr" and "run_session e i op l = Inr (b, l')"
    and "i \<in> set (table_ids l) \<or> (\<exists>j. op = OpJob j)"
  shows "layer_inv cr (e_now e) l' \<and> filed i l l'"
proof -
  obtain s' where i: "i < length (sessions l)"
    and op: "session_op (session_env l (sessions l ! i) e) op (sessions l ! i) = Inr (b, s')"
    and l': "l' = fold (replay_event (m_RemoteAddr (sessions l ! i))) (new_events (sessions l ! i) s')
       (l\<lparr>sessions := (sessions l)[i := s']\<rparr>)"
    using assms(3) by (rule run_sessionE)
  obtain c where c: "c \<le> e_now e" "reach (session_init cr) (session_step cr) (c, sessions l ! i)"
    using assms(1) nth_mem [OF i] unfolding layer_inv_def by blast
  have sel: "e_now (session_env l s e) = e_now e" "e_crypto (session_env l s e) = cr" for s
    using assms(2) by (simp_all add: session_env_def)
  have "s' = sessions l ! i \<or> session_step cr (c, sessions l ! i) (e_now e, s')"
    using session_op_step [OF op, of c] c(1) by (simp add: sel)
  then have "\<exists>c\<le>e_now e. reach (session_init cr) (session_step cr) (c, s')"
    using c reach_step [OF c(2)] by blast
  then have "\<forall>s\<in>set (sessions l'). \<exists>c\<le>e_now e. reach (session_init cr) (session_step cr) (c, s)"
    using assms(1) set_update_subset_insert [of "sessions l" i s'] by (auto simp: layer_inv_def l')
  then show ?thesis using run_session_inv [OF _ assms(2-4)] assms(1) by (simp add: layer_inv_def)
qed

lemma pending_unique:
  "tables_ok cr l \<Longrightarrow> (a, i) \<in> set (m_Pending l) \<Longrightarrow> (a, j) \<in> set (m_Pending l) \<Longrightarrow> i = j"
  by (auto simp: tables_ok_def dest: eq_key_imp_eq_value)

lemma pending_addr: "tables_ok cr l \<Longrightarrow> (a, i) \<in> set (m_Pending l) \<Longrightarrow> m_RemoteAddr (sessions l ! i) = a"
  by (auto simp: tables_ok_def)

lemma filed_ids:
  assumes "tables_ok cr l" and "filed i l l'"
  shows "set (table_ids l') = set (table_ids l)"
proof (cases "m_Pending l' = m_Pending l \<and> m_AuthedLinks l' = m_AuthedLinks l")
  case False
  then obtain a pk where a: "(a, i) \<in> set (m_Pending l)" "m_Pending l' = omap_erase a (m_Pending l)"
      "m_AuthedLinks l' = m_AuthedLinks l @ [(pk, i)]"
    using assms(2) by (auto simp: filed_def)
  have "x = (a, i)" if "x \<in> set (m_Pending l)" "fst x = a" for x
    using pending_unique [OF assms(1) _ a(1), of "snd x"] that by (metis prod.collapse)
  then have "set (m_Pending l) = insert (a, i) (set (omap_erase a (m_Pending l)))"
    unfolding set_erase using a(1) by blast
  then have "snd ` set (m_Pending l) = insert i (snd ` set (m_Pending l'))" unfolding a(2) by simp
  then show ?thesis by (simp add: table_ids_def a(3))
qed (simp add: table_ids_def)

lemma layer_inv_tables: "layer_inv cr t l \<Longrightarrow> tables_ok cr l"
  by (simp add: layer_inv_def link_inv_def)

lemma layer_inv_run_sessions:
  assumes "run_sessions e op is l = Inr l'" and "layer_inv cr (e_now e) l" and "e_crypto e = cr"
    and "set is \<subseteq> set (table_ids l)"
  shows "layer_inv cr (e_now e) l' \<and> set (table_ids l') = set (table_ids l)"
  using assms
proof (induction "is" arbitrary: l)
  case (Cons i xs)
  then obtain b m where m: "run_session e i op l = Inr (b, m)" "run_sessions e op xs m = Inr l'"
    by (auto simp: bind_exn_Inr_iff)
  have "layer_inv cr (e_now e) m" "filed i l m" using layer_inv_run_session [OF _ _ m(1)] Cons.prems by simp_all
  moreover have "set (table_ids m) = set (table_ids l)"
    using filed_ids calculation(2) layer_inv_tables Cons.prems(2) by blast
  ultimately show ?case using Cons.IH [OF m(2)] Cons.prems by simp
qed simp

text \<open>A session enters the tables as a pending one and leaves them once it is closed.\<close>

lemma lim_ok_init: "session_init cr cs \<Longrightarrow> lim_ok (snd cs)"
  by (induction rule: session_init.induct)
    (simp_all add: lim_ok_def lim_pending_def omap_ok_def Session_outbound_def Session_inbound_def Session_common_def)

lemma layer_inv_pend:
  assumes "layer_inv cr t l" and "session_init cr (t, s)" and "map_of (m_Pending l) (m_RemoteAddr s) = None"
    and "l' = l\<lparr>sessions := sessions l @ [s], m_Pending := m_Pending l @ [(m_RemoteAddr s, length (sessions l))]\<rparr>"
  shows "layer_inv cr t l'"
proof -
  have s: "lim_ok s" "auth_inv cr s" using lim_ok_init [OF assms(2)] handshake.inv_init [OF assms(2)] by simp_all
  have T: "tables_ok cr l" and A: "addrs_ok None l" using assms(1) by (simp_all add: layer_inv_def link_inv_def)
  have lt: "i < length (sessions l)" if "(x, i) \<in> set (m_Pending l) \<or> (y, i) \<in> set (m_AuthedLinks l)" for x y i
  proof -
    have "i \<in> set (table_ids l)" using that by (auto simp: table_ids_def intro: rev_image_eqI)
    then show ?thesis using T by (simp add: tables_ok_def)
  qed
  have nth: "(x, i) \<in> set (m_Pending l) \<Longrightarrow> (sessions l @ [s]) ! i = sessions l ! i"
      "(y, i) \<in> set (m_AuthedLinks l) \<Longrightarrow> (sessions l @ [s]) ! i = sessions l ! i" for x y i
    using lt [of x i] lt [of _ i y] by (simp_all add: nth_append)
  have "length (sessions l) \<notin> set (table_ids l)" using T by (auto simp: tables_ok_def)
  moreover have "m_RemoteAddr s \<notin> fst ` set (m_Pending l)" using assms(3) by (simp add: map_of_eq_None_iff)
  ultimately have "tables_ok cr l'"
    using T s unfolding tables_ok_def assms(4) table_ids_def by (auto simp: nth less_Suc_eq)
  moreover have "addrs_ok None l'"
    using A nth(2) unfolding addrs_ok_def assms(4) by simp metis
  ultimately show ?thesis
    using assms(1) reach_init [of "session_init cr", OF assms(2)] by (auto simp: layer_inv_def link_inv_def assms(4))
qed

lemma layer_inv_drop_pending:
  "layer_inv cr t l \<Longrightarrow> layer_inv cr t (l\<lparr>m_Pending := omap_erase a (m_Pending l)\<rparr>)"
  using tables_ok_sub [of cr l "l\<lparr>m_Pending := omap_erase a (m_Pending l)\<rparr>" "\<lambda>x. fst x \<noteq> a" "\<lambda>_. True"]
  by (simp add: layer_inv_def link_inv_def addrs_ok_def omap_erase_def)

lemma layer_inv_drop_closed:
  assumes "layer_inv cr t l" and "x \<in> set (m_AuthedLinks l)" and "m_State (sessions l ! snd x) = Closed"
  shows "layer_inv cr t (l\<lparr>m_AuthedLinks := removeAll x (m_AuthedLinks l)\<rparr>)"
proof -
  let ?l = "l\<lparr>m_AuthedLinks := removeAll x (m_AuthedLinks l)\<rparr>"
  have T: "tables_ok cr l" and A: "addrs_ok None l" using assms(1) by (simp_all add: layer_inv_def link_inv_def)
  have "tables_ok cr ?l"
    by (rule tables_ok_sub [OF T, of _ "\<lambda>_. True" "\<lambda>y. y \<noteq> x"]) (simp_all add: removeAll_filter_not_eq eq_commute)
  moreover have "addrs_ok None ?l"
    using A assms(3) unfolding addrs_ok_def by (fastforce)
  ultimately show ?thesis using assms(1) by (simp add: layer_inv_def link_inv_def)
qed

lemma run_session_Close:
  assumes "run_session e i OpClose l = Inr (b, l')"
  shows "m_State (sessions l' ! i) = Closed"
proof -
  have "m_State (Session_Close f s) = Closed" for f s
  proof -
    have "m_State (EncryptAndSend f pkt t) = m_State t" for pkt t
      using auth_view_EncryptAndSend [of f pkt t] by (simp add: auth_view_def)
    then show ?thesis by (simp add: Session_Close_def Let_def emit_def split: prod.split)
  qed
  then show ?thesis using assms by (auto elim!: run_sessionE)
qed

lemma ids_mem [intro]:
  "(a, i) \<in> set (m_Pending l) \<Longrightarrow> i \<in> set (table_ids l)"
  "(pk, i) \<in> set (m_AuthedLinks l) \<Longrightarrow> i \<in> set (table_ids l)"
  by (auto simp: table_ids_def intro: rev_image_eqI)

text \<open>A method of an established session leaves the tables alone.\<close>

lemma layer_inv_run_authed:
  assumes "layer_inv cr (e_now e) l" and "e_crypto e = cr" and "run_session e i op l = Inr (b, l')"
    and "(pk, i) \<in> set (m_AuthedLinks l)"
  shows "layer_inv cr (e_now e) l'" "m_AuthedLinks l' = m_AuthedLinks l" "m_Pending l' = m_Pending l"
proof -
  have r: "layer_inv cr (e_now e) l' \<and> filed i l l'" using layer_inv_run_session [OF assms(1-3)] assms(4) by blast
  then show "layer_inv cr (e_now e) l'" by simp
  have "(a, i) \<notin> set (m_Pending l)" for a
    using pending_not_authed [OF layer_inv_tables [OF assms(1)]] assms(4) by blast
  then show "m_AuthedLinks l' = m_AuthedLinks l" "m_Pending l' = m_Pending l" using r by (auto simp: filed_def)
qed

lemma layer_inv_VisitSessionByPubkey:
  "VisitSessionByPubkey e pk op l = Inr (b, l') \<Longrightarrow> layer_inv (e_crypto e) (e_now e) l \<Longrightarrow>
     layer_inv (e_crypto e) (e_now e) l'"
  by (auto simp: VisitSessionByPubkey_def split: option.splits dest!: map_of_SomeD intro: layer_inv_run_authed(1))

lemma layer_inv_recv:
  assumes "bind_exn (run_session e i op l) (\<lambda>(ok, l). Inr (notify n (if f ok then l\<lparr>m_Pending := omap_erase a (m_Pending l)\<rparr> else l)))
      = Inr l'"
    and "layer_inv (e_crypto e) (e_now e) l" and "i \<in> set (table_ids l)"
  shows "layer_inv (e_crypto e) (e_now e) l'"
proof -
  obtain b m where m: "run_session e i op l = Inr (b, m)"
    and l': "l' = notify n (if f b then m\<lparr>m_Pending := omap_erase a (m_Pending m)\<rparr> else m)"
    using assms(1) by (auto simp: bind_exn_Inr_iff)
  have "layer_inv (e_crypto e) (e_now e) m" using layer_inv_run_session [OF assms(2) refl m] assms(3) by simp
  then show ?thesis using layer_inv_drop_pending by (auto simp: l')
qed

lemma layer_inv_RecvFrom:
  assumes "RecvFrom e a pkt l = Inr l'" and "layer_inv (e_crypto e) (e_now e) l"
  shows "layer_inv (e_crypto e) (e_now e) l'"
proof -
  let ?l = "l\<lparr>sessions := sessions l @ [Session_inbound e a], m_Pending := m_Pending l @ [(a, length (sessions l))]\<rparr>"
  have a: "m_RemoteAddr (Session_inbound e a) = a" by (simp add: Session_inbound_def)
  have new: "layer_inv (e_crypto e) (e_now e) ?l" if "map_of (m_Pending l) a = None"
    using layer_inv_pend [OF assms(2) init_inbound [OF refl, of e a], of ?l] that by (simp add: a)
  have recv: "bind_exn (run_session e i (OpRecv_LL pkt) m) (\<lambda>(ok, l).
        let l = if \<not> ok \<and> isNew then l\<lparr>m_Pending := omap_erase a (m_Pending l)\<rparr> else l in Inr (notify WakeupPlaintext l)) = Inr l' \<Longrightarrow>
      layer_inv (e_crypto e) (e_now e) m \<Longrightarrow> i \<in> set (table_ids m) \<Longrightarrow> layer_inv (e_crypto e) (e_now e) l'" for i m isNew
    using layer_inv_recv [where f = "\<lambda>ok. \<not> ok \<and> isNew" and op = "OpRecv_LL pkt" and n = WakeupPlaintext and a = a
      and e = e and l' = l' and i = i and l = m] by (simp add: Let_def)
  show ?thesis
  proof (cases "m_AuthedAddrs l a")
    case None
    show ?thesis
    proof (cases "map_of (m_Pending l) a")
      case None
      have "length (sessions l) \<in> set (table_ids ?l)" by (simp add: table_ids_def)
      then show ?thesis
        using assms recv [of _ ?l True] new [OF None] None \<open>m_AuthedAddrs l a = None\<close>
        by (auto simp: RecvFrom_def Let_def split: if_splits)
    next
      case (Some i)
      have "i \<in> set (table_ids l)" using map_of_SomeD [OF Some] by blast
      then show ?thesis using assms recv [of i l False] Some None by (simp add: RecvFrom_def)
    qed
  next
    case (Some pk)
    show ?thesis
    proof (cases "map_of (m_AuthedLinks l) pk")
      case i: (Some i)
      have "i \<in> set (table_ids l)" using map_of_SomeD [OF i] by blast
      then show ?thesis using assms recv [of i l False] Some i by (simp add: RecvFrom_def)
    qed (use assms Some in \<open>simp add: RecvFrom_def\<close>)
  qed
qed

lemma layer_inv_HandleWakeupPlaintext:
  assumes "HandleWakeupPlaintext e l = Inr l'" and "layer_inv (e_crypto e) (e_now e) l"
  shows "layer_inv (e_crypto e) (e_now e) l'"
proof -
  obtain m where "run_sessions e OpHandlePlaintext (map snd (m_AuthedLinks l) @ map snd (m_Pending l)) l = Inr m"
    and "l' = notify PumpDone m"
    using assms(1) by (auto simp: HandleWakeupPlaintext_def bind_exn_Inr_iff)
  then show ?thesis using layer_inv_run_sessions [OF _ assms(2) refl] by (simp add: table_ids_def)
qed

lemma layer_inv_Pump_authed:
  assumes "Pump_authed e xs ks l = Inr (ks', l')" and "layer_inv (e_crypto e) (e_now e) l"
    and "distinct xs" and "set xs \<subseteq> set (m_AuthedLinks l)"
  shows "layer_inv (e_crypto e) (e_now e) l'"
  using assms
proof (induction xs arbitrary: ks l)
  case (Cons x xs)
  have x: "(fst x, snd x) \<in> set (m_AuthedLinks l)" using Cons.prems(4) by simp
  have lt: "snd x < length (sessions l)"
    using Cons.prems(1) by (auto split: if_splits)
  show ?case
  proof (cases "TimedOut (sessions l ! snd x) (e_now e)")
    case False
    then obtain b m where m: "run_session e (snd x) OpPump l = Inr (b, m)" "Pump_authed e xs ks m = Inr (ks', l')"
      using Cons.prems(1) lt by (auto simp: bind_exn_Inr_iff)
    note r = layer_inv_run_authed [OF Cons.prems(2) refl m(1) x]
    show ?thesis by (rule Cons.IH [OF m(2) r(1)]) (use Cons.prems(3,4) r(2) in auto)
  next
    case True
    then obtain b m n where m: "run_session e (snd x) OpClose l = Inr (b, m)"
      and n: "n = UnmapAddr (m_RemoteAddr (sessions m ! snd x)) m"
      and l': "Pump_authed e xs (fst x # ks) (n\<lparr>m_AuthedLinks := removeAll x (m_AuthedLinks n)\<rparr>) = Inr (ks', l')"
      using Cons.prems(1) lt by (auto simp: bind_exn_Inr_iff Let_def)
    note r = layer_inv_run_authed [OF Cons.prems(2) refl m x]
    have "layer_inv (e_crypto e) (e_now e) n" unfolding n by (rule layer_inv_UnmapAddr [OF r(1)])
    moreover have nm: "sessions n = sessions m" "m_AuthedLinks n = m_AuthedLinks l" using r(2) by (simp_all add: n UnmapAddr_def)
    ultimately have "layer_inv (e_crypto e) (e_now e) (n\<lparr>m_AuthedLinks := removeAll x (m_AuthedLinks n)\<rparr>)"
      using layer_inv_drop_closed [of _ _ n x] run_session_Close [OF m] x by simp
    then show ?thesis by (rule Cons.IH [OF l']) (use Cons.prems(3,4) nm in auto)
  qed
qed simp

lemma layer_inv_Pump_pending:
  assumes "Pump_pending e xs is l = Inr (is', l')" and "layer_inv (e_crypto e) (e_now e) l"
    and "distinct (map fst xs)" and "set xs \<subseteq> set (m_Pending l)"
  shows "layer_inv (e_crypto e) (e_now e) l'"
  using assms
proof (induction xs arbitrary: "is" l)
  case (Cons x xs)
  have x: "snd x \<in> set (table_ids l)" using Cons.prems(4) by (cases x) auto
  have lt: "snd x < length (sessions l)" using Cons.prems(1) by (auto split: if_splits)
  have rest: "set xs \<subseteq> set (omap_erase (fst x) (m_Pending l))" "set xs \<subseteq> set (m_Pending l)"
    using Cons.prems(3,4) by (auto simp: set_erase intro: rev_image_eqI)
  show ?case
  proof (cases "TimedOut (sessions l ! snd x) (e_now e)")
    case False
    then obtain b m where m: "run_session e (snd x) OpPump l = Inr (b, m)" "Pump_pending e xs is m = Inr (is', l')"
      using Cons.prems(1) lt by (auto simp: bind_exn_Inr_iff)
    have r: "layer_inv (e_crypto e) (e_now e) m \<and> filed (snd x) l m"
      using layer_inv_run_session [OF Cons.prems(2) refl m(1)] x by simp
    have "a = fst x" if "(a, snd x) \<in> set (m_Pending l)" for a
      using pending_addr [OF layer_inv_tables [OF Cons.prems(2)], of _ "snd x"] that Cons.prems(4)
      by (metis list.set_intros(1) prod.collapse subsetD)
    then have "set xs \<subseteq> set (m_Pending m)" using r rest by (auto simp: filed_def)
    then show ?thesis using Cons.IH [OF m(2)] r Cons.prems(3) by simp
  next
    case True
    let ?n = "UnmapAddr (m_RemoteAddr (sessions l ! snd x)) l"
    have l': "Pump_pending e xs (is @ [snd x]) (?n\<lparr>m_Pending := omap_erase (fst x) (m_Pending ?n)\<rparr>) = Inr (is', l')"
      using Cons.prems(1) lt True by (simp add: Let_def)
    have "m_Pending ?n = m_Pending l" by (simp add: UnmapAddr_def)
    then show ?thesis
      using Cons.IH [OF l' layer_inv_drop_pending [OF layer_inv_UnmapAddr [OF Cons.prems(2)]]] Cons.prems(3) rest by simp
  qed
qed simp

lemma layer_inv_fold:
  "(\<And>x l. layer_inv cr t (f x l) = layer_inv cr t l) \<Longrightarrow> layer_inv cr t (fold f xs l) = layer_inv cr t l"
  by (induction xs arbitrary: l) simp_all

lemma layer_inv_Pump:
  assumes "ILinkLayer_Pump e l = Inr l'" and "layer_inv (e_crypto e) (e_now e) l"
  shows "layer_inv (e_crypto e) (e_now e) l'"
proof -
  obtain ks m "is" n where m: "Pump_authed e (m_AuthedLinks l) [] l = Inr (ks, m)"
    and n: "Pump_pending e (m_Pending m) [] m = Inr (is, n)"
    and l': "l' = fold (\<lambda>i l. if m_Inbound (sessions l ! i) then l else notify (HandleTimeout i) l) is
        (fold (\<lambda>r l. if r \<notin> fst ` set (m_AuthedLinks l) then notify (SessionClosed r) l else l) (remdups ks) n)"
    using assms(1) by (auto simp: ILinkLayer_Pump_def bind_exn_Inr_iff Let_def)
  have "distinct (m_AuthedLinks l)" using layer_inv_tables [OF assms(2)] by (auto simp: tables_ok_def distinct_map)
  then have "layer_inv (e_crypto e) (e_now e) m" using layer_inv_Pump_authed [OF m assms(2)] by simp
  then have "layer_inv (e_crypto e) (e_now e) n"
    using layer_inv_Pump_pending [OF n] layer_inv_tables by (simp add: tables_ok_def)
  then show ?thesis
    unfolding l' by (subst layer_inv_fold, simp, subst layer_inv_fold) simp_all
qed

lemma layer_inv_TryEstablishTo:
  assumes "TryEstablishTo e rc l = Inr (b, l')" and "layer_inv (e_crypto e) (e_now e) l"
  shows "layer_inv (e_crypto e) (e_now e) l'"
proof (cases "l' = l \<or> (\<exists>n. l' = notify n l)")
  case False
  define k where "k = (if ll_HasBeforeConnect l then notify (BeforeConnect rc) l else l)"
  have k: "layer_inv (e_crypto e) (e_now e) k" "m_Pending k = m_Pending l"
    using assms(2) by (simp_all add: k_def) (simp add: notify_def)
  obtain to c m where p: "map_of (m_Pending l) (ai_addr to) = None"
    and m: "PutSession (Session_outbound e rc to) k = (True, m)"
    and r: "run_session e (length (sessions m) - 1) OpStart m = Inr (c, l')"
    using assms(1) False
    by (auto simp: TryEstablishTo_def NewOutboundSession_def k_def Let_def bind_exn_Inr_iff PutSession_def
        split: if_splits option.splits prod.splits)
  have m': "m = k\<lparr>sessions := sessions k @ [Session_outbound e rc to],
      m_Pending := m_Pending k @ [(m_RemoteAddr (Session_outbound e rc to), length (sessions k))]\<rparr>"
    and none: "map_of (m_Pending k) (m_RemoteAddr (Session_outbound e rc to)) = None"
    using m by (simp_all add: PutSession_def Let_def split: if_splits)
  have "layer_inv (e_crypto e) (e_now e) m"
    by (rule layer_inv_pend [OF k(1) init_outbound [OF refl] none m'])
  moreover have "length (sessions m) - 1 \<in> set (table_ids m)" by (simp add: m' table_ids_def)
  ultimately show ?thesis using layer_inv_run_session [OF _ refl r] by simp
qed (use assms(2) in auto)

lemma layer_inv_Tick:
  assumes "ILinkLayer_Tick e l = Inr l'" and "layer_inv (e_crypto e) (e_now e) l"
  shows "layer_inv (e_crypto e) (e_now e) l'"
proof -
  obtain m n where m: "run_sessions e OpTick (map snd (m_AuthedLinks l)) l = Inr m"
    and n: "run_sessions e OpTick (map snd (m_Pending m)) m = Inr n"
    and l': "l' = n\<lparr>m_RecentlyClosed := umap_erase_if (\<lambda>_ t. t \<ge> e_now e) (m_RecentlyClosed n)\<rparr>"
    using assms(1) by (auto simp: ILinkLayer_Tick_def bind_exn_Inr_iff)
  have "layer_inv (e_crypto e) (e_now e) m"
    using layer_inv_run_sessions [OF m assms(2) refl] by (simp add: table_ids_def)
  then have "layer_inv (e_crypto e) (e_now e) n"
    using layer_inv_run_sessions [OF n _ refl] by (simp add: table_ids_def)
  then show ?thesis unfolding l' by (subst layer_inv_cong) simp_all
qed

lemma layer_inv_Stop:
  assumes "ILinkLayer_Stop e l = Inr l'" and "layer_inv (e_crypto e) (e_now e) l"
  shows "layer_inv (e_crypto e) (e_now e) l'"
proof -
  obtain m where m: "run_sessions e OpClose (map snd (m_AuthedLinks l)) l = Inr m"
    and n: "run_sessions e OpClose (map snd (m_Pending m)) m = Inr l'"
    using assms(1) by (auto simp: ILinkLayer_Stop_def bind_exn_Inr_iff)
  have "layer_inv (e_crypto e) (e_now e) m"
    using layer_inv_run_sessions [OF m assms(2) refl] by (simp add: table_ids_def)
  then show ?thesis using layer_inv_run_sessions [OF n _ refl] by (simp add: table_ids_def)
qed

lemma layer_inv_CloseSessionTo_loop:
  assumes "CloseSessionTo_loop e xs l = Inr l'" and "layer_inv (e_crypto e) (e_now e) l"
    and "distinct xs" and "set xs \<subseteq> set (m_AuthedLinks l)"
  shows "layer_inv (e_crypto e) (e_now e) l'"
  using assms
proof (induction xs arbitrary: l)
  case (Cons x xs)
  have x: "(fst x, snd x) \<in> set (m_AuthedLinks l)" using Cons.prems(4) by simp
  obtain b m where m: "run_session e (snd x) OpClose l = Inr (b, m)"
    and l': "CloseSessionTo_loop e xs
       (m\<lparr>m_RecentlyClosed := umap_emplace (m_RemoteAddr (sessions m ! snd x)) (e_now e + CloseGraceWindow) (m_RecentlyClosed m),
          m_AuthedLinks := removeAll x (m_AuthedLinks m)\<rparr>) = Inr l'"
    using Cons.prems(1) by (auto simp: bind_exn_Inr_iff)
  note r = layer_inv_run_authed [OF Cons.prems(2) refl m x]
  have "layer_inv (e_crypto e) (e_now e) (m\<lparr>m_AuthedLinks := removeAll x (m_AuthedLinks m)\<rparr>)"
    using layer_inv_drop_closed [OF r(1)] run_session_Close [OF m] x r(2) by simp
  then have "layer_inv (e_crypto e) (e_now e)
       (m\<lparr>m_RecentlyClosed := umap_emplace (m_RemoteAddr (sessions m ! snd x)) (e_now e + CloseGraceWindow) (m_RecentlyClosed m),
          m_AuthedLinks := removeAll x (m_AuthedLinks m)\<rparr>)"
    by (subst layer_inv_cong [where l = "m\<lparr>m_AuthedLinks := removeAll x (m_AuthedLinks m)\<rparr>"]) simp_all
  then show ?case by (rule Cons.IH [OF l']) (use Cons.prems(3,4) r(2) in auto)
qed simp

lemma layer_inv_CloseSessionTo:
  assumes "CloseSessionTo e pk l = Inr l'" and "layer_inv (e_crypto e) (e_now e) l"
  shows "layer_inv (e_crypto e) (e_now e) l'"
proof -
  obtain m where m: "CloseSessionTo_loop e (filter (\<lambda>x. fst x = pk) (m_AuthedLinks l)) l = Inr m"
    and l': "l' = notify (SessionClosed pk) m"
    using assms(1) by (auto simp: CloseSessionTo_def bind_exn_Inr_iff)
  have "distinct (m_AuthedLinks l)" using layer_inv_tables [OF assms(2)] by (auto simp: tables_ok_def distinct_map)
  then show ?thesis using layer_inv_CloseSessionTo_loop [OF m assms(2)] by (auto simp: l')
qed

lemma layer_inv_KeepAlive_loop:
  assumes "KeepAlive_loop e is l = Inr l'" and "layer_inv (e_crypto e) (e_now e) l"
    and "set is \<subseteq> snd ` set (m_AuthedLinks l)"
  shows "layer_inv (e_crypto e) (e_now e) l'"
  using assms
proof (induction "is" arbitrary: l)
  case (Cons i xs)
  obtain pk where pk: "(pk, i) \<in> set (m_AuthedLinks l)" using Cons.prems(3) by auto
  show ?case
  proof (cases "ShouldPing e (sessions l ! i)")
    case True
    then obtain b m where m: "run_session e i OpSendKeepAlive l = Inr (b, m)" "KeepAlive_loop e xs m = Inr l'"
      using Cons.prems(1) by (auto simp: bind_exn_Inr_iff split: if_splits)
    note r = layer_inv_run_authed [OF Cons.prems(2) refl m(1) pk]
    show ?thesis using Cons.IH [OF m(2) r(1)] Cons.prems(3) r(2) by simp
  qed (use Cons in \<open>auto split: if_splits\<close>)
qed simp

lemma lowest_backlog_mem: "lowest_backlog h is s = Some i \<Longrightarrow> i \<in> set is \<or> s = Some i"
  by (induction "is" arbitrary: s) (auto split: option.splits if_splits)

lemma layer_inv_SendTo:
  assumes "SendTo e pk buf cb prio l = Inr (b, l')" and "layer_inv (e_crypto e) (e_now e) l"
  shows "layer_inv (e_crypto e) (e_now e) l'"
  using assms layer_inv_run_authed(1) [OF assms(2) refl]
  by (fastforce simp: SendTo_def split: option.splits dest!: lowest_backlog_mem)


section \<open>Runs of the layer\<close>

text \<open>
  What the router and the event loop call on a link layer. \<open>CallJob i j\<close> is a job of session \<open>i\<close>
  that a worker thread finishes, which may happen after the session has left the tables.
\<close>

datatype layer_call =
    LRecvFrom nat bytes
  | LWakeupPlaintext
  | LPump
  | LTick
  | LStop
  | LTryEstablishTo RouterContact
  | LCloseSessionTo bytes
  | LKeepAliveSessionTo bytes
  | LSendTo bytes bytes "nat option" u16
  | LVisitSession bytes sop
  | LJob nat nat

fun run_layer :: "env \<Rightarrow> layer_call \<Rightarrow> link_layer \<Rightarrow> exn + link_layer" where
  "run_layer e (LRecvFrom a pkt) l = RecvFrom e a pkt l"
| "run_layer e LWakeupPlaintext l = HandleWakeupPlaintext e l"
| "run_layer e LPump l = ILinkLayer_Pump e l"
| "run_layer e LTick l = ILinkLayer_Tick e l"
| "run_layer e LStop l = ILinkLayer_Stop e l"
| "run_layer e (LTryEstablishTo rc) l = bind_exn (TryEstablishTo e rc l) (\<lambda>(_, l). Inr l)"
| "run_layer e (LCloseSessionTo pk) l = CloseSessionTo e pk l"
| "run_layer e (LKeepAliveSessionTo pk) l = KeepAliveSessionTo e pk l"
| "run_layer e (LSendTo pk buf h prio) l = bind_exn (SendTo e pk buf h prio l) (\<lambda>(_, l). Inr l)"
| "run_layer e (LVisitSession pk visit) l = bind_exn (VisitSessionByPubkey e pk visit l) (\<lambda>(_, l). Inr l)"
| "run_layer e (LJob i j) l = bind_exn (run_session e i (OpJob j) l) (\<lambda>(_, l). Inr l)"

inductive layer_step :: "crypto \<Rightarrow> llarp_time_t \<times> link_layer \<Rightarrow> llarp_time_t \<times> link_layer \<Rightarrow> bool"
  for cr :: crypto where
  layer_call: "c \<le> e_now e \<Longrightarrow> e_crypto e = cr \<Longrightarrow> run_layer e call l = Inr l' \<Longrightarrow>
     layer_step cr (c, l) (e_now e, l')"

inductive layer_init :: "llarp_time_t \<times> link_layer \<Rightarrow> bool" where
  layer_new: "layer_init (c, new_LinkLayer allowInbound before)"

inductive_cases layer_stepE: "layer_step cr cl cl'"

lemma layer_inv_run_layer:
  assumes "run_layer e call l = Inr l'" and "layer_inv (e_crypto e) (e_now e) l"
  shows "layer_inv (e_crypto e) (e_now e) l'"
proof (cases call)
  case (LJob i j)
  then obtain b where "run_session e i (OpJob j) l = Inr (b, l')" using assms(1) by (auto simp: bind_exn_Inr_iff)
  then show ?thesis using layer_inv_run_session [OF assms(2) refl] by blast
next
  case (LKeepAliveSessionTo pk)
  then have k: "KeepAlive_loop e (map snd (filter (\<lambda>x. fst x = pk) (m_AuthedLinks l))) l = Inr l'"
    using assms(1) by (simp add: KeepAliveSessionTo_def)
  show ?thesis by (rule layer_inv_KeepAlive_loop [OF k assms(2)]) auto
qed (use assms in \<open>auto simp: bind_exn_Inr_iff intro: layer_inv_RecvFrom layer_inv_HandleWakeupPlaintext
       layer_inv_Pump layer_inv_Tick layer_inv_Stop layer_inv_TryEstablishTo layer_inv_CloseSessionTo
       layer_inv_SendTo layer_inv_VisitSessionByPubkey\<close>)

lemma layer_inv_new: "layer_inv cr t (new_LinkLayer allowInbound before)"
  by (simp add: layer_inv_def link_inv_def tables_ok_def addrs_ok_def table_ids_def new_LinkLayer_def)

interpretation layer: invariant_system layer_init "layer_step cr" "\<lambda>cl. layer_inv cr (fst cl) (snd cl)" for cr
proof unfold_locales
  show "layer_inv cr (fst cl) (snd cl)" if "layer_init cl" for cl
    using that by cases (simp add: layer_inv_new)
  show "layer_inv cr (fst cl') (snd cl')" if "layer_step cr cl cl'" and "layer_inv cr (fst cl) (snd cl)" for cl cl'
    using that layer_inv_run_layer [OF _ layer_inv_mono] by (auto elim!: layer_stepE)
qed

text \<open>
  A layer that accepts an inbound peer: the handshake of the session model, received from
  address 5.
\<close>

definition accept_calls :: "(llarp_time_t \<times> layer_call) list" where
  "accept_calls = [(1, LRecvFrom 5 hs_intro), (2, LRecvFrom 5 hs_request), (3, LRecvFrom 5 example_packet),
     (3, LPump), (3, LJob 0 0), (3, LWakeupPlaintext)]"

primrec run_layer_calls :: "(llarp_time_t \<times> layer_call) list \<Rightarrow> link_layer \<Rightarrow> exn + link_layer" where
  "run_layer_calls [] l = Inr l"
| "run_layer_calls (x # xs) l = bind_exn (run_layer (hs_env (fst x)) (snd x) l) (run_layer_calls xs)"

definition accept_observe :: "exn + (nat \<times> nat) list \<times> (bytes \<times> nat) list \<times> bytes option \<times> nat \<times> State \<times> bool \<times> bool" where
  "accept_observe = bind_exn (run_layer_calls accept_calls (new_LinkLayer True False)) (\<lambda>l.
     Inr (m_Pending l, m_AuthedLinks l, m_AuthedAddrs l 5, length (sessions l), m_State (sessions l ! 0),
          m_Inbound (sessions l ! 0), m_SentClosed (sessions l ! 0)))"

lemma accept_observe_eval:
  "accept_observe = Inr ([], [(replicate 32 9, 0)], Some (replicate 32 9), 1, Ready, True, False)"
  by code_simp

lemma run_layer_calls_reach:
  assumes "run_layer_calls xs l = Inr l'" and "reach layer_init (layer_step plain_crypto) (c, l)"
    and "sorted (c # map fst xs)"
  shows "reach layer_init (layer_step plain_crypto) (last (c # map fst xs), l')"
  using assms
proof (induction xs arbitrary: c l)
  case (Cons x xs)
  then obtain m where m: "run_layer (hs_env (fst x)) (snd x) l = Inr m" "run_layer_calls xs m = Inr l'"
    by (auto simp: bind_exn_Inr_iff)
  have "layer_step plain_crypto (c, l) (fst x, m)"
    using layer_call [of c "hs_env (fst x)" plain_crypto, OF _ _ m(1)] Cons.prems(3) by simp
  from Cons.IH [OF m(2) reach_step [OF Cons.prems(2) this]] Cons.prems(3) show ?case by simp
qed simp

lemma accept_reach:
  obtains l where "reach layer_init (layer_step plain_crypto) (3, l)" "m_Pending l = []"
    "m_AuthedLinks l = [(replicate 32 9, 0)]" "m_AuthedAddrs l 5 = Some (replicate 32 9)"
    "length (sessions l) = 1" "m_State (sessions l ! 0) = Ready" "m_Inbound (sessions l ! 0)"
    "\<not> m_SentClosed (sessions l ! 0)"
proof -
  obtain l where l: "run_layer_calls accept_calls (new_LinkLayer True False) = Inr l"
    and v: "m_Pending l = []" "m_AuthedLinks l = [(replicate 32 9, 0)]" "m_AuthedAddrs l 5 = Some (replicate 32 9)"
      "length (sessions l) = 1" "m_State (sessions l ! 0) = Ready" "m_Inbound (sessions l ! 0)"
      "\<not> m_SentClosed (sessions l ! 0)"
    using accept_observe_eval by (auto simp: accept_observe_def bind_exn_Inr_iff simp del: run_layer_calls.simps)
  have "reach layer_init (layer_step plain_crypto) (3, l)"
    using run_layer_calls_reach [OF l reach_init [of layer_init, OF layer_new [of 0]]] by (simp add: accept_calls_def)
  then show thesis using v that by blast
qed


section \<open>Receiving a datagram\<close>

text \<open>
  What \<^verbatim>\<open>RecvFrom\<close> does once it has chosen a session: the session receives the packet, all
  others stay as they are, and a new session that refuses it is forgotten.
\<close>

definition deliver :: "env \<Rightarrow> nat \<Rightarrow> bytes \<Rightarrow> nat \<Rightarrow> bool \<Rightarrow> link_layer \<Rightarrow> exn + link_layer" where
  "deliver e from pkt i isNewSession l =
     bind_exn (run_session e i (OpRecv_LL pkt) l) (\<lambda>(success, l).
       let l = (if \<not> success \<and> isNewSession then l\<lparr>m_Pending := omap_erase from (m_Pending l)\<rparr> else l)
       in Inr (notify WakeupPlaintext l))"

lemma RecvFrom_deliver:
  "RecvFrom e from pkt l =
     (case m_AuthedAddrs l from of
        None \<Rightarrow>
          (case map_of (m_Pending l) from of
             Some i \<Rightarrow> deliver e from pkt i False l
           | None \<Rightarrow>
               if \<not> ll_Inbound l then Inr l
               else deliver e from pkt (length (sessions l)) True
                      (l\<lparr>sessions := sessions l @ [Session_inbound e from],
                         m_Pending := m_Pending l @ [(from, length (sessions l))]\<rparr>))
      | Some pk \<Rightarrow> (case map_of (m_AuthedLinks l) pk of Some i \<Rightarrow> deliver e from pkt i False l | None \<Rightarrow> Inr l))"
  by (simp only: RecvFrom_def deliver_def Let_def)

lemma deliver_sessions:
  assumes "i < length (sessions l)"
  shows "\<exists>m. case Recv_LL (e\<lparr>e_MapAddr := m\<rparr>) pkt (sessions l ! i) of
      Inl x \<Rightarrow> deliver e from pkt i new l = Inl x
    | Inr (b, s') \<Rightarrow> \<exists>l'. deliver e from pkt i new l = Inr l' \<and> sessions l' = (sessions l)[i := s'] \<and>
        (new \<and> \<not> b \<longrightarrow> from \<notin> fst ` set (m_Pending l'))"
proof -
  obtain m where m: "session_env l (sessions l ! i) e = e\<lparr>e_MapAddr := m\<rparr>" by (simp add: session_env_def)
  show ?thesis
    using assms
    by (intro exI [of _ m])
      (auto simp: deliver_def run_session_def m Let_def notify_def omap_erase_def split: sum.split)
qed

text \<open>The session \<open>s\<close>, at place \<open>i\<close>, receives the datagram, and no other session changes.\<close>

definition receives :: "env \<Rightarrow> nat \<Rightarrow> bytes \<Rightarrow> link_layer \<Rightarrow> nat \<Rightarrow> session \<Rightarrow> bool" where
  "receives e from pkt l i s \<longleftrightarrow>
     (\<exists>m. case Recv_LL (e\<lparr>e_MapAddr := m\<rparr>) pkt s of
        Inl x \<Rightarrow> RecvFrom e from pkt l = Inl x
      | Inr (b, s') \<Rightarrow> \<exists>l'. RecvFrom e from pkt l = Inr l' \<and>
          sessions l' = take i (sessions l) @ s' # drop (Suc i) (sessions l) \<and>
          (i = length (sessions l) \<and> \<not> b \<longrightarrow> from \<notin> fst ` set (m_Pending l')))"

lemma receives_known:
  assumes "i < length (sessions l)" and "RecvFrom e from pkt l = deliver e from pkt i False l"
  shows "receives e from pkt l i (sessions l ! i)"
proof -
  obtain m where "case Recv_LL (e\<lparr>e_MapAddr := m\<rparr>) pkt (sessions l ! i) of
      Inl x \<Rightarrow> deliver e from pkt i False l = Inl x
    | Inr (b, s') \<Rightarrow> \<exists>l'. deliver e from pkt i False l = Inr l' \<and> sessions l' = (sessions l)[i := s'] \<and>
        (False \<and> \<not> b \<longrightarrow> from \<notin> fst ` set (m_Pending l'))"
    using deliver_sessions [OF assms(1)] by blast
  then show ?thesis
    unfolding receives_def using assms
    by (intro exI [of _ m]) (auto simp: upd_conv_take_nth_drop split: sum.splits)
qed

lemma receives_new:
  assumes "m_AuthedAddrs l from = None" and "from \<notin> fst ` set (m_Pending l)" and "ll_Inbound l"
  shows "receives e from pkt l (length (sessions l)) (Session_inbound e from)"
proof -
  let ?s = "Session_inbound e from" and ?i = "length (sessions l)"
  let ?l = "l\<lparr>sessions := sessions l @ [?s], m_Pending := m_Pending l @ [(from, ?i)]\<rparr>"
  have "map_of (m_Pending l) from = None" using assms(2) by (simp add: map_of_eq_None_iff)
  then have r: "RecvFrom e from pkt l = deliver e from pkt ?i True ?l"
    using assms by (simp add: RecvFrom_deliver)
  obtain m where "case Recv_LL (e\<lparr>e_MapAddr := m\<rparr>) pkt (sessions ?l ! ?i) of
      Inl x \<Rightarrow> deliver e from pkt ?i True ?l = Inl x
    | Inr (b, s') \<Rightarrow> \<exists>l'. deliver e from pkt ?i True ?l = Inr l' \<and> sessions l' = (sessions ?l)[?i := s'] \<and>
        (True \<and> \<not> b \<longrightarrow> from \<notin> fst ` set (m_Pending l'))"
    using deliver_sessions [where i = ?i and l = ?l and new = True] by fastforce
  then show ?thesis
    unfolding receives_def by (intro exI [of _ m]) (auto simp: r split: sum.splits)
qed


section \<open>Properties\<close>

text \<open>
  C29. The tables of the link layer agree with the sessions, in every state the layer reaches by
  datagrams, pumps, ticks, jobs of workers and calls of the router, in any order: no key and
  no address is filed twice and no session is in both tables; a pending session is filed
  under its own address; an established one is filed under the key of the router contact it
  holds; and an address in the address table leads to an established session at that address
  that is not closed.
\<close>

theorem link_tables_consistent:
  assumes "reach layer_init (layer_step cr) (c, l)"
  shows "distinct (map fst (m_Pending l)) \<and> distinct (map fst (m_AuthedLinks l)) \<and>
    distinct (map snd (m_Pending l) @ map snd (m_AuthedLinks l)) \<and>
    (\<forall>a i. (a, i) \<in> set (m_Pending l) \<longrightarrow> i < length (sessions l) \<and> m_RemoteAddr (sessions l ! i) = a) \<and>
    (\<forall>pk i. (pk, i) \<in> set (m_AuthedLinks l) \<longrightarrow>
       i < length (sessions l) \<and> rc_pubkey (m_RemoteRC (sessions l ! i)) = pk) \<and>
    (\<forall>a pk. m_AuthedAddrs l a = Some pk \<longrightarrow>
       (\<exists>i. (pk, i) \<in> set (m_AuthedLinks l) \<and> m_RemoteAddr (sessions l ! i) = a \<and> m_State (sessions l ! i) \<noteq> Closed))"
proof -
  have T: "tables_ok cr l" and A: "addrs_ok None l"
    using layer.reach_inv [OF assms] by (simp_all add: layer_inv_def link_inv_def)
  have "\<forall>a i. (a, i) \<in> set (m_Pending l) \<longrightarrow> i < length (sessions l)"
    "\<forall>pk i. (pk, i) \<in> set (m_AuthedLinks l) \<longrightarrow> i < length (sessions l)"
    using T unfolding tables_ok_def by blast+
  with T A show ?thesis unfolding tables_ok_def addrs_ok_def table_ids_def by fast
qed

theorem link_tables_consistent_witness:
  "\<exists>c l i. reach layer_init (layer_step plain_crypto) (c, l) \<and> m_AuthedAddrs l 5 = Some (replicate 32 9) \<and>
     m_RemoteAddr (sessions l ! i) = 5 \<and> m_State (sessions l ! i) \<noteq> Closed \<and>
     rc_pubkey (m_RemoteRC (sessions l ! i)) = replicate 32 9"
proof -
  obtain l where r: "reach layer_init (layer_step plain_crypto) (3, l)"
    and a: "m_AuthedAddrs l 5 = Some (replicate 32 9)"
    by (rule accept_reach)
  show ?thesis using link_tables_consistent [OF r] r a by metis
qed

text \<open>
  C30. Datagrams reach their sessions. In every state the layer reaches, a datagram from an
  address is received by one session and leaves all others as they are. If the address is
  known, that session is in the tables, has this address as its remote address, is not
  closed when the address is in the address table, and is a run of the session model. If it
  is not known, an inbound layer creates a session for the address, which it forgets when
  the session refuses the datagram, and an outbound layer ignores the datagram.
\<close>

theorem datagram_reaches_its_session:
  assumes "reach layer_init (layer_step cr) (c, l)"
  shows "if m_AuthedAddrs l from = None \<and> from \<notin> fst ` set (m_Pending l)
    then (if ll_Inbound l then receives e from pkt l (length (sessions l)) (Session_inbound e from)
          else RecvFrom e from pkt l = Inr l)
    else \<exists>i < length (sessions l). receives e from pkt l i (sessions l ! i) \<and>
      m_RemoteAddr (sessions l ! i) = from \<and> i \<in> snd ` set (m_Pending l) \<union> snd ` set (m_AuthedLinks l) \<and>
      (m_AuthedAddrs l from \<noteq> None \<longrightarrow> m_State (sessions l ! i) \<noteq> Closed) \<and>
      (\<exists>t\<le>c. reach (session_init cr) (session_step cr) (t, sessions l ! i))"
proof -
  have inv: "tables_ok cr l" "addrs_ok None l" "\<forall>s\<in>set (sessions l). \<exists>t\<le>c. reach (session_init cr) (session_step cr) (t, s)"
    using layer.reach_inv [OF assms] by (auto simp: layer_inv_def link_inv_def)
  have ids: "\<forall>i \<in> set (table_ids l). i < length (sessions l)" using inv(1) by (simp add: tables_ok_def)
  consider (authed) pk where "m_AuthedAddrs l from = Some pk"
    | (pending) i where "m_AuthedAddrs l from = None" "map_of (m_Pending l) from = Some i"
    | (unknown) "m_AuthedAddrs l from = None" "map_of (m_Pending l) from = None"
    by (cases "m_AuthedAddrs l from"; cases "map_of (m_Pending l) from") auto
  then show ?thesis
  proof cases
    case authed
    obtain i where i: "(pk, i) \<in> set (m_AuthedLinks l)" "m_RemoteAddr (sessions l ! i) = from" "m_State (sessions l ! i) \<noteq> Closed"
      using inv(2) authed by (auto simp: addrs_ok_def)
    moreover from i(1) have "i \<in> snd ` set (m_AuthedLinks l)" by force
    moreover from this have len: "i < length (sessions l)" using ids by (simp add: table_ids_def)
    moreover have "map_of (m_AuthedLinks l) pk = Some i" using i(1) inv(1) by (simp add: tables_ok_def)
    then have "receives e from pkt l i (sessions l ! i)"
      using len authed by (intro receives_known) (simp_all add: RecvFrom_deliver)
    ultimately show ?thesis using authed inv(3) nth_mem [OF len] by auto
  next
    case (pending i)
    then have i: "(from, i) \<in> set (m_Pending l)" by (blast dest: map_of_SomeD)
    then have "i \<in> snd ` set (m_Pending l)" "from \<in> fst ` set (m_Pending l)" by force+
    moreover from this have len: "i < length (sessions l)" using ids by (simp add: table_ids_def)
    moreover have "m_RemoteAddr (sessions l ! i) = from" using i inv(1) by (auto simp: tables_ok_def)
    moreover have "receives e from pkt l i (sessions l ! i)"
      using len pending by (intro receives_known) (simp_all add: RecvFrom_deliver)
    ultimately show ?thesis using pending inv(3) nth_mem [OF len] by auto
  next
    case unknown
    then have "\<not> ll_Inbound l \<longrightarrow> RecvFrom e from pkt l = Inr l" by (simp add: RecvFrom_deliver)
    with unknown show ?thesis using receives_new [of l "from" e pkt] by (simp add: map_of_eq_None_iff)
  qed
qed

theorem datagram_reaches_its_session_witness:
  "\<exists>l m. reach layer_init (layer_step plain_crypto) (3, l) \<and> m_AuthedAddrs l 5 = Some (replicate 32 9) \<and>
     m_RemoteAddr (sessions l ! 0) = 5 \<and> m_State (sessions l ! 0) = Ready \<and>
     (case Recv_LL ((example_env 4)\<lparr>e_MapAddr := m\<rparr>) example_packet (sessions l ! 0) of
        Inl x \<Rightarrow> RecvFrom (example_env 4) 5 example_packet l = Inl x
      | Inr (b, s') \<Rightarrow> \<exists>l'. RecvFrom (example_env 4) 5 example_packet l = Inr l' \<and> sessions l' = [s'])"
proof -
  obtain l where r: "reach layer_init (layer_step plain_crypto) (3, l)"
    and l: "m_AuthedAddrs l 5 = Some (replicate 32 9)" "length (sessions l) = 1" "m_State (sessions l ! 0) = Ready"
    by (rule accept_reach)
  obtain s0 where s0: "sessions l = [s0]" using l(2) by (auto simp: length_Suc_conv)
  have "receives (example_env 4) 5 example_packet l 0 (sessions l ! 0) \<and> m_RemoteAddr (sessions l ! 0) = 5"
    using datagram_reaches_its_session [OF r, of 5 "example_env 4" example_packet] by (auto simp: l(1) s0)
  then obtain m where
    "m_RemoteAddr (sessions l ! 0) = 5"
    "case Recv_LL ((example_env 4)\<lparr>e_MapAddr := m\<rparr>) example_packet (sessions l ! 0) of
       Inl x \<Rightarrow> RecvFrom (example_env 4) 5 example_packet l = Inl x
     | Inr (b, s') \<Rightarrow> \<exists>l'. RecvFrom (example_env 4) 5 example_packet l = Inr l' \<and> sessions l' = [s']"
    by (auto simp: receives_def s0 split: sum.splits)
  then show ?thesis using r l by blast
qed

text \<open>
  C31. A link is filed under a key only if the peer has proved that key: an inbound session that
  has not sent its close message and is filed under \<open>pk\<close> has verified a signature of
  \<open>pk\<close> on a 96 byte introduction that starts with \<open>pk\<close>.
\<close>

theorem filed_link_authenticated:
  assumes "reach layer_init (layer_step cr) (c, l)" and "FindSessionByPubkey pk l = Some i"
    and "m_Inbound (sessions l ! i)" and "\<not> m_SentClosed (sessions l ! i)"
  shows "\<exists>buf Z. length buf = 96 \<and> take 32 buf = pk \<and> length Z = 64 \<and> verify cr pk buf Z"
proof -
  let ?s = "sessions l ! i"
  have T: "tables_ok cr l" using layer.reach_inv [OF assms(1)] layer_inv_tables by simp
  have "(pk, i) \<in> set (m_AuthedLinks l)" using assms(2) by (auto simp: FindSessionByPubkey_def dest: map_of_SomeD)
  moreover have "i < length (sessions l)" using T calculation unfolding tables_ok_def by blast
  ultimately have s: "auth_inv cr ?s" "settled ?s" "session_key ?s = pk" using T by (auto simp: tables_ok_def)
  then have "m_State ?s \<noteq> Initial" "m_ExpectedIdent ?s = pk"
    using assms(3) by (auto simp: auth_inv_def settled_def)
  then show ?thesis using s(1) assms(3,4) by (auto simp: auth_inv_def signed_intro_def)
qed

theorem filed_link_authenticated_witness:
  "(\<exists>c l i. reach layer_init (layer_step plain_crypto) (c, l) \<and> FindSessionByPubkey (replicate 32 9) l = Some i \<and>
      m_State (sessions l ! i) = Ready) \<and>
   (\<exists>buf Z. length buf = 96 \<and> take 32 buf = replicate 32 9 \<and> length Z = 64 \<and>
      verify plain_crypto (replicate 32 9) buf Z)"
proof -
  obtain l where r: "reach layer_init (layer_step plain_crypto) (3, l)"
    and l: "m_AuthedLinks l = [(replicate 32 9, 0)]" "m_State (sessions l ! 0) = Ready"
      "m_Inbound (sessions l ! 0)" "\<not> m_SentClosed (sessions l ! 0)"
    by (rule accept_reach)
  have "FindSessionByPubkey (replicate 32 9) l = Some 0" by (simp add: FindSessionByPubkey_def l(1))
  from filed_link_authenticated [OF r this l(3,4)] this r l(2) show ?thesis by blast
qed

end
