(* ===== verification/Queue_Manager.thy ===== *)
theory Queue_Manager
  imports Belnet_Prelude
begin

text \<open>
  The index management of the bounded queue, from \<^verbatim>\<open>llarp/util/thread/queue_manager.hpp\<close> and
  \<^verbatim>\<open>queue_manager.cpp\<close>: a ring of cells, each with a generation and one of four states
  packed into 32 bits, and a push and a pop index that run through all generations and
  wrap around. The operations are translated with their loops and their
  compare-and-exchange operations, each run to its end without another thread in between;
  a loop that would spin for another thread has no result. The assertions of the source
  are branches that fail, so that the theorems show they never do.
\<close>

section \<open>Encodings\<close>

datatype ElementState = Empty | Writing | Full | Reading

datatype QueueReturn = Success | QueueDisabled | QueueEmpty | QueueFull

fun to_underlying :: "ElementState \<Rightarrow> u32" where
  "to_underlying Empty = 0"
| "to_underlying Writing = 1"
| "to_underlying Full = 2"
| "to_underlying Reading = 3"

definition ElementState_of :: "u32 \<Rightarrow> ElementState" where
  "ElementState_of w =
     (if w = 0 then Empty else if w = 1 then Writing else if w = 2 then Full else Reading)"

definition GENERATION_COUNT_SHIFT :: nat where "GENERATION_COUNT_SHIFT = 2"
definition NUM_ELEMENT_GENERATIONS :: nat where "NUM_ELEMENT_GENERATIONS = 2 ^ 30"
definition ELEMENT_STATE_MASK :: u32 where "ELEMENT_STATE_MASK = 3"
definition DISABLED_STATE_MASK :: u32 where "DISABLED_STATE_MASK = 0x80000000"
definition NUM_COMBINED_INDEXES :: nat where "NUM_COMBINED_INDEXES = 2 ^ 31"
definition MAX_CAPACITY :: nat where "MAX_CAPACITY = 2 ^ 30"

lemmas queue_consts = GENERATION_COUNT_SHIFT_def NUM_ELEMENT_GENERATIONS_def ELEMENT_STATE_MASK_def
  DISABLED_STATE_MASK_def NUM_COMBINED_INDEXES_def MAX_CAPACITY_def

definition isDisabledFlagSet :: "u32 \<Rightarrow> bool" where
  "isDisabledFlagSet encodedIndex \<longleftrightarrow> encodedIndex AND DISABLED_STATE_MASK \<noteq> 0"

definition discardDisabledFlag :: "u32 \<Rightarrow> u32" where
  "discardDisabledFlag encodedIndex = encodedIndex AND NOT DISABLED_STATE_MASK"

definition encodeElement :: "u32 \<Rightarrow> ElementState \<Rightarrow> u32" where
  "encodeElement generation state = push_bit GENERATION_COUNT_SHIFT generation OR to_underlying state"

definition decodeGenerationFromElementState :: "u32 \<Rightarrow> u32" where
  "decodeGenerationFromElementState state = drop_bit GENERATION_COUNT_SHIFT state"

definition decodeStateFromElementState :: "u32 \<Rightarrow> ElementState" where
  "decodeStateFromElementState state = ElementState_of (state AND ELEMENT_STATE_MASK)"


section \<open>The manager\<close>

record QueueManager =
  m_pushIndex :: u32
  m_popIndex :: u32
  m_capacity :: nat
  m_maxGeneration :: u32
  m_maxCombinedIndex :: u32
  m_states :: "u32 list"

text \<open>
  \<^verbatim>\<open>compare_exchange_strong\<close> on a cell: whether it succeeded, the value of the cell and the
  value of \<^verbatim>\<open>expected\<close> afterwards.
\<close>

definition compare_exchange :: "'a \<Rightarrow> 'a \<Rightarrow> 'a \<Rightarrow> bool \<times> 'a \<times> 'a" where
  "compare_exchange expected desired cell =
     (if cell = expected then (True, desired, expected) else (False, cell, cell))"

definition nextCombinedIndex :: "QueueManager \<Rightarrow> u32 \<Rightarrow> u32" where
  "nextCombinedIndex qm index = (if m_maxCombinedIndex qm = index then 0 else index + 1)"

definition nextGeneration :: "QueueManager \<Rightarrow> u32 \<Rightarrow> u32" where
  "nextGeneration qm generation = (if m_maxGeneration qm = generation then 0 else generation + 1)"

definition circularDifference :: "u32 \<Rightarrow> u32 \<Rightarrow> u32 \<Rightarrow> exn + int" where
  "circularDifference startingValue subtractValue m =
     (if \<not> (m \<le> 0x80000000 \<and> startingValue < m \<and> subtractValue < m)
      then Inl AssertFailed
      else let difference = startingValue - subtractValue
           in if sint difference > sint (m div 2) then Inr (sint (difference - m))
              else if sint difference < - sint (m div 2) then Inr (sint (difference + m))
              else Inr (sint difference))"

definition numGenerations :: "nat \<Rightarrow> u32" where
  "numGenerations capacity =
     of_nat (min (NUM_COMBINED_INDEXES div capacity) NUM_ELEMENT_GENERATIONS)"

definition new_QueueManager :: "nat \<Rightarrow> exn + QueueManager" where
  "new_QueueManager capacity =
     (if \<not> (0 < capacity \<and> capacity \<le> MAX_CAPACITY) then Inl AssertFailed
      else Inr \<lparr>m_pushIndex = 0, m_popIndex = 0, m_capacity = capacity,
            m_maxGeneration = numGenerations capacity - 1,
            m_maxCombinedIndex = numGenerations capacity * of_nat capacity - 1,
            m_states = replicate capacity 0\<rparr>)"

definition push_next :: "QueueManager \<Rightarrow> u32 \<Rightarrow> u32 \<times> QueueManager" where
  "push_next qm combinedIndex =
     (let (_, cell, expected) =
            compare_exchange combinedIndex (nextCombinedIndex qm combinedIndex) (m_pushIndex qm)
      in (expected, qm\<lparr>m_pushIndex := cell\<rparr>))"

definition pop_next :: "QueueManager \<Rightarrow> u32 \<Rightarrow> u32 \<times> QueueManager" where
  "pop_next qm loadedPopIndex =
     (let (_, cell, expected) =
            compare_exchange loadedPopIndex (nextCombinedIndex qm loadedPopIndex) (m_popIndex qm)
      in (expected, qm\<lparr>m_popIndex := cell\<rparr>))"

partial_function (option) reservePushIndex_loop ::
  "QueueManager \<Rightarrow> u32 \<Rightarrow> u32 \<Rightarrow> (exn + QueueReturn \<times> u32 \<times> u32 \<times> QueueManager) option" where
  "reservePushIndex_loop qm loadedPushIndex savedPushIndex =
     (if isDisabledFlagSet loadedPushIndex then Some (Inr (QueueDisabled, 0, 0, qm))
      else
        let combinedIndex = discardDisabledFlag loadedPushIndex;
            currGen = of_nat (unat combinedIndex div m_capacity qm);
            currIdx = unat combinedIndex mod m_capacity qm;
            (ok, cell, compare) = compare_exchange (encodeElement currGen Empty)
              (encodeElement currGen Writing) (m_states qm ! currIdx)
        in if ok
           then let qm = qm\<lparr>m_states := (m_states qm)[currIdx := cell]\<rparr>;
                    (_, qm) = push_next qm combinedIndex
                in Some (Inr (Success, currGen, of_nat currIdx, qm))
           else
             let elemGen = decodeGenerationFromElementState compare;
                 difference = sint (currGen - elemGen);
                 circular = circularDifference currGen elemGen (m_maxGeneration qm + 1)
             in if difference = 1 \<or> difference = - sint (m_maxGeneration qm)
                then
                  let state = decodeStateFromElementState compare
                  in if circular \<noteq> Inr 1 then Some (Inl AssertFailed)
                     else if state = Reading
                     then reservePushIndex_loop qm (m_pushIndex qm) savedPushIndex
                     else if state = Empty then Some (Inl AssertFailed)
                     else if savedPushIndex \<noteq> loadedPushIndex
                     then reservePushIndex_loop qm (m_pushIndex qm) loadedPushIndex
                     else Some (Inr (QueueFull, 0, 0, qm))
                else if isl circular \<or> projr circular > 0 then Some (Inl AssertFailed)
                else let (combinedIndex, qm) = push_next qm combinedIndex
                     in reservePushIndex_loop qm combinedIndex savedPushIndex)"

definition reservePushIndex ::
  "QueueManager \<Rightarrow> (exn + QueueReturn \<times> u32 \<times> u32 \<times> QueueManager) option" where
  "reservePushIndex qm = reservePushIndex_loop qm (m_pushIndex qm) (- 1)"

definition commitPushIndex :: "u32 \<Rightarrow> u32 \<Rightarrow> QueueManager \<Rightarrow> exn + QueueManager" where
  "commitPushIndex generation index qm =
     (if generation \<le> m_maxGeneration qm \<and> unat index < m_capacity qm \<and>
         decodeStateFromElementState (m_states qm ! unat index) = Writing \<and>
         decodeGenerationFromElementState (m_states qm ! unat index) = generation
      then Inr (qm\<lparr>m_states := (m_states qm)[unat index := encodeElement generation Full]\<rparr>)
      else Inl AssertFailed)"

partial_function (option) reservePopIndex_loop ::
  "QueueManager \<Rightarrow> u32 \<Rightarrow> u32 \<Rightarrow> (exn + QueueReturn \<times> u32 \<times> u32 \<times> QueueManager) option" where
  "reservePopIndex_loop qm loadedPopIndex savedPopIndex =
     (let currGen = of_nat (unat loadedPopIndex div m_capacity qm);
          currIdx = unat loadedPopIndex mod m_capacity qm;
          (ok, cell, compare) = compare_exchange (encodeElement currGen Full)
            (encodeElement currGen Reading) (m_states qm ! currIdx)
      in if ok
         then let qm = qm\<lparr>m_states := (m_states qm)[currIdx := cell]\<rparr>;
                  (_, qm) = pop_next qm loadedPopIndex
              in Some (Inr (Success, currGen, of_nat currIdx, qm))
         else
           let elemGen = decodeGenerationFromElementState compare;
               state = decodeStateFromElementState compare;
               difference = sint (currGen - elemGen)
           in if difference = 1 \<or> difference = - sint (m_maxGeneration qm)
              then if state = Reading \<and>
                      circularDifference currGen elemGen (m_maxGeneration qm + 1) = Inr 1
                   then Some (Inr (QueueEmpty, 0, 0, qm)) else Some (Inl AssertFailed)
              else if difference = 0 \<and> state = Empty
              then if savedPopIndex \<noteq> loadedPopIndex
                   then reservePopIndex_loop qm (m_popIndex qm) loadedPopIndex
                   else Some (Inr (QueueEmpty, 0, 0, qm))
              else if difference \<noteq> 0 \<or> state = Writing
              then reservePopIndex_loop qm (m_popIndex qm) savedPopIndex
              else let (loadedPopIndex, qm) = pop_next qm loadedPopIndex
                   in reservePopIndex_loop qm loadedPopIndex savedPopIndex)"

definition reservePopIndex ::
  "QueueManager \<Rightarrow> (exn + QueueReturn \<times> u32 \<times> u32 \<times> QueueManager) option" where
  "reservePopIndex qm = reservePopIndex_loop qm (m_popIndex qm) (- 1)"

definition commitPopIndex :: "u32 \<Rightarrow> u32 \<Rightarrow> QueueManager \<Rightarrow> exn + QueueManager" where
  "commitPopIndex generation index qm =
     (if generation \<le> m_maxGeneration qm \<and> unat index < m_capacity qm \<and>
         decodeStateFromElementState (m_states qm ! unat index) = Reading \<and>
         decodeGenerationFromElementState (m_states qm ! unat index) = generation
      then Inr (qm\<lparr>m_states := (m_states qm)[unat index :=
                     encodeElement (nextGeneration qm generation) Empty]\<rparr>)
      else Inl AssertFailed)"

text \<open>
  The loops of \<^verbatim>\<open>disable\<close> and \<^verbatim>\<open>enable\<close> repeat only when another thread changes the index
  between the load and the exchange.
\<close>

definition QueueManager_disable :: "QueueManager \<Rightarrow> QueueManager" where
  "QueueManager_disable qm =
     (let index = m_pushIndex qm
      in if isDisabledFlagSet index then qm
         else let (_, cell, _) = compare_exchange index (index OR DISABLED_STATE_MASK) (m_pushIndex qm)
              in qm\<lparr>m_pushIndex := cell\<rparr>)"

definition QueueManager_enable :: "QueueManager \<Rightarrow> QueueManager" where
  "QueueManager_enable qm =
     (let index = m_pushIndex qm
      in if \<not> isDisabledFlagSet index then qm
         else let (_, cell, _) =
                    compare_exchange index (index AND NOT DISABLED_STATE_MASK) (m_pushIndex qm)
              in qm\<lparr>m_pushIndex := cell\<rparr>)"

partial_function (option) reservePopForClear_loop ::
  "QueueManager \<Rightarrow> u32 \<Rightarrow> u32 \<Rightarrow> u32 \<Rightarrow> (exn + (u32 \<times> u32) option \<times> QueueManager) option" where
  "reservePopForClear_loop qm loadedCombinedIndex endGeneration endIndex =
     (let endCombinedIndex = endGeneration * of_nat (m_capacity qm) + endIndex;
          circular = circularDifference endCombinedIndex loadedCombinedIndex (m_maxCombinedIndex qm + 1)
      in if isl circular then Some (Inl AssertFailed)
         else if projr circular = 0 then Some (Inr (None, qm))
         else if \<not> 0 < projr circular then Some (Inl AssertFailed)
         else
           let currIdx = unat loadedCombinedIndex mod m_capacity qm;
               currGen = of_nat (unat loadedCombinedIndex div m_capacity qm);
               (ok, cell, compare) = compare_exchange (encodeElement currGen Full)
                 (encodeElement currGen Reading) (m_states qm ! currIdx)
           in if ok
              then let qm = qm\<lparr>m_states := (m_states qm)[currIdx := cell]\<rparr>;
                       (_, qm) = pop_next qm loadedCombinedIndex
                   in Some (Inr (Some (currGen, of_nat currIdx), qm))
              else
                let state = decodeStateFromElementState compare
                in if state = Writing \<or> state = Full
                   then reservePopForClear_loop qm (m_popIndex qm) endGeneration endIndex
                   else let (loadedCombinedIndex, qm) = pop_next qm loadedCombinedIndex
                        in reservePopForClear_loop qm loadedCombinedIndex endGeneration endIndex)"

definition reservePopForClear ::
  "u32 \<Rightarrow> u32 \<Rightarrow> QueueManager \<Rightarrow> (exn + (u32 \<times> u32) option \<times> QueueManager) option" where
  "reservePopForClear endGeneration endIndex qm =
     (if endGeneration \<le> m_maxGeneration qm \<and> unat endIndex < m_capacity qm
      then reservePopForClear_loop qm (m_popIndex qm) endGeneration endIndex
      else Some (Inl AssertFailed))"

definition abortPushIndexReservation :: "u32 \<Rightarrow> u32 \<Rightarrow> QueueManager \<Rightarrow> exn + QueueManager" where
  "abortPushIndexReservation generation index qm =
     (let loadedPopIndex = m_popIndex qm
      in if generation \<le> m_maxGeneration qm \<and> unat index < m_capacity qm \<and>
            of_nat (unat generation * m_capacity qm + unat index) = m_popIndex qm \<and>
            decodeStateFromElementState (m_states qm ! unat index) = Writing \<and>
            decodeGenerationFromElementState (m_states qm ! unat index) = generation \<and>
            unat generation = unat loadedPopIndex div m_capacity qm \<and>
            unat index = unat loadedPopIndex mod m_capacity qm
         then
           let qm = qm\<lparr>m_states := (m_states qm)[unat index := encodeElement generation Reading]\<rparr>;
               (_, qm) = pop_next qm loadedPopIndex
           in Inr (qm\<lparr>m_states := (m_states qm)[unat index :=
                        encodeElement (nextGeneration qm generation) Empty]\<rparr>)
         else Inl AssertFailed)"

definition QueueManager_size :: "QueueManager \<Rightarrow> exn + nat" where
  "QueueManager_size qm =
     (let combinedPushIndex = discardDisabledFlag (m_pushIndex qm);
          combinedPopIndex = m_popIndex qm;
          difference = sint (combinedPushIndex - combinedPopIndex);
          circular = circularDifference combinedPushIndex combinedPopIndex (m_maxCombinedIndex qm + 1)
      in if difference \<ge> 0
         then if difference > int (m_capacity qm)
              then if isl circular \<or> \<not> 0 > projr circular then Inl AssertFailed else Inr 0
              else Inr (nat difference)
         else if difference < - sint (m_maxCombinedIndex qm div 2)
         then if isl circular \<or> \<not> 0 < projr circular then Inl AssertFailed
              else Inr (min (unat (combinedPushIndex - combinedPopIndex + m_maxCombinedIndex qm + 1))
                         (m_capacity qm))
         else Inr 0)"

definition QueueManager_enabled :: "QueueManager \<Rightarrow> bool" where
  "QueueManager_enabled qm \<longleftrightarrow> \<not> isDisabledFlagSet (m_pushIndex qm)"


section \<open>Facts on the encodings\<close>

lemma bit_below_30:
  assumes "unat (g :: u32) < 2 ^ 30" and "bit g n"
  shows "n < 30"
proof -
  have "take_bit 30 g = g"
    using assms(1) by (simp add: word_unat_eq_iff unsigned_take_bit_eq take_bit_nat_eq_self)
  with assms(2) show ?thesis by (metis bit_take_bit_iff)
qed

lemma bit_to_underlying: "bit (to_underlying st) n \<Longrightarrow> n < 2"
  by (cases st) (auto simp: bit_simps bit_numeral_rec bit_1_iff split: nat.splits)

lemma decode_encode:
  assumes "unat g < 2 ^ 30"
  shows "decodeGenerationFromElementState (encodeElement g st) = g"
    and "decodeStateFromElementState (encodeElement g st) = st"
proof -
  show "decodeGenerationFromElementState (encodeElement g st) = g"
  proof (rule bit_eqI)
    fix n
    show "bit (decodeGenerationFromElementState (encodeElement g st)) n = bit g n"
      using bit_below_30 [OF assms, of n] bit_to_underlying [of st "2 + n"]
      by (auto simp: decodeGenerationFromElementState_def encodeElement_def queue_consts bit_simps
          dest: bit_imp_le_length)
  qed
  have "encodeElement g st AND 3 = to_underlying st"
  proof (rule bit_eqI)
    fix n
    have "bit (3 :: u32) n \<longleftrightarrow> n < 2" by (auto simp: bit_numeral_rec bit_1_iff split: nat.splits)
    then show "bit (encodeElement g st AND 3) n = bit (to_underlying st) n"
      using bit_to_underlying [of st n] by (auto simp: encodeElement_def queue_consts bit_simps)
  qed
  then show "decodeStateFromElementState (encodeElement g st) = st"
    by (cases st) (simp_all add: decodeStateFromElementState_def ElementState_of_def queue_consts)
qed

lemma encodeElement_inject:
  "unat g < 2 ^ 30 \<Longrightarrow> unat g' < 2 ^ 30 \<Longrightarrow>
     encodeElement g st = encodeElement g' st' \<longleftrightarrow> g = g' \<and> st = st'"
  by (metis decode_encode)

section \<open>Signed differences\<close>

lemma sint_of_int_small:
  "- (2 ^ 31) \<le> i \<Longrightarrow> i < 2 ^ 31 \<Longrightarrow> sint (of_int i :: u32) = i"
  by (simp add: signed_of_int signed_take_bit_int_eq_self)

lemma sint_diff:
  assumes "a \<le> 2 ^ 31" and "b \<le> 2 ^ 31" and "int a - int b < 2 ^ 31"
  shows "sint (of_nat a - of_nat b :: u32) = int a - int b"
proof -
  have "(of_nat a - of_nat b :: u32) = of_int (int a - int b)" by simp
  then show ?thesis using assms sint_of_int_small [of "int a - int b"] by simp
qed

lemma sint_of_nat: "a < 2 ^ 31 \<Longrightarrow> sint (of_nat a :: u32) = int a"
  using sint_diff [of a 0] by simp

lemma unat_of_nat_32: "a < 2 ^ 32 \<Longrightarrow> unat (of_nat a :: u32) = a"
  by (rule unat_of_nat_small) simp

lemma of_nat_div_32: "a < 2 ^ 32 \<Longrightarrow> b < 2 ^ 32 \<Longrightarrow> (of_nat a :: u32) div of_nat b = of_nat (a div b)"
  by (simp add: word_unat_eq_iff unat_div unat_of_nat_32 le_less_trans [OF div_le_dividend])

lemma of_nat_le_32: "a < 2 ^ 32 \<Longrightarrow> b < 2 ^ 32 \<Longrightarrow> (of_nat a :: u32) \<le> of_nat b \<longleftrightarrow> a \<le> b"
  by (simp add: word_le_nat_alt unat_of_nat_32)

lemma of_nat_less_32: "a < 2 ^ 32 \<Longrightarrow> b < 2 ^ 32 \<Longrightarrow> (of_nat a :: u32) < of_nat b \<longleftrightarrow> a < b"
  by (simp add: word_less_nat_alt unat_of_nat_32)

lemma of_nat_eq_32: "a < 2 ^ 32 \<Longrightarrow> b < 2 ^ 32 \<Longrightarrow> (of_nat a :: u32) = of_nat b \<longleftrightarrow> a = b"
  by (simp add: word_unat_eq_iff unat_of_nat_32)

lemma circularDifference_eq:
  assumes "a < m" and "b < m" and "m \<le> 2 ^ 31"
  shows "circularDifference (of_nat a) (of_nat b) (of_nat m) =
    Inr (if int a - int b > int (m div 2) then int a - int b - int m
         else if int a - int b < - int (m div 2) then int a - int b + int m
         else int a - int b)"
proof -
  have guard: "(of_nat m :: u32) \<le> 0x80000000" "(of_nat a :: u32) < of_nat m" "(of_nat b :: u32) < of_nat m"
    using assms of_nat_le_32 [of m "2 ^ 31"] by (simp_all add: of_nat_less_32)
  have d: "sint (of_nat a - of_nat b :: u32) = int a - int b"
    using assms by (intro sint_diff) auto
  have half: "sint ((of_nat m :: u32) div 2) = int (m div 2)"
    using assms of_nat_div_32 [of m 2] by (simp add: sint_of_nat)
  have minus: "sint (of_nat a - of_nat b - of_nat m :: u32) = int a - int b - int m"
    if "int a - int b > int (m div 2)"
    using sint_of_int_small [of "int a - int b - int m"] that assms by simp
  have plus: "sint (of_nat a - of_nat b + of_nat m :: u32) = int a - int b + int m"
    if "int a - int b < - int (m div 2)"
    using sint_of_int_small [of "int a - int b + int m"] that assms by simp
  show ?thesis
    using guard minus plus by (simp add: circularDifference_def d half)
qed


section \<open>The ring\<close>

text \<open>
  The number of generations and the number of combined indices of a ring. A quarter of a
  cycle is enough for the wrapped differences to be read back; with only two generations
  the assertion on a full queue would fail at the end of a cycle, so capacities above a
  third of all combined indices are left out.
\<close>

definition gens :: "nat \<Rightarrow> nat" where
  "gens cap = min (2 ^ 31 div cap) (2 ^ 30)"

definition cycle :: "nat \<Rightarrow> nat" where
  "cycle cap = gens cap * cap"

definition cap_ok :: "nat \<Rightarrow> bool" where
  "cap_ok cap \<longleftrightarrow> 0 < cap \<and> cap \<le> 2 ^ 31 div 3"

lemma gens_bounds:
  assumes "cap_ok cap"
  shows "3 \<le> gens cap" and "gens cap \<le> 2 ^ 30" and "gens cap * cap \<le> 2 ^ 31"
proof -
  have "cap * 3 \<le> 2 ^ 31" using assms by (simp add: cap_ok_def)
  then have "3 \<le> 2 ^ 31 div cap" using assms by (simp add: cap_ok_def less_eq_div_iff_mult_less_eq)
  then show "3 \<le> gens cap" by (simp add: gens_def)
  show "gens cap \<le> 2 ^ 30" by (simp add: gens_def)
  have "gens cap * cap \<le> (2 ^ 31 div cap) * cap" by (intro mult_right_mono) (simp_all add: gens_def)
  also have "\<dots> \<le> 2 ^ 31" by simp
  finally show "gens cap * cap \<le> 2 ^ 31" .
qed

lemma cycle_bounds:
  assumes "cap_ok cap"
  shows "cycle cap \<le> 2 ^ 31" and "3 * cap \<le> cycle cap" and "0 < cycle cap" and "0 < cap"
  using gens_bounds [OF assms] assms by (auto simp: cycle_def cap_ok_def)

lemma cycle_mod_cap [simp]: "x mod cycle cap mod cap = x mod cap"
  by (simp add: cycle_def mod_mod_cancel)

lemma cycle_div_less: "cap_ok cap \<Longrightarrow> x mod cycle cap div cap < gens cap"
  using cycle_bounds [of cap] by (simp add: cycle_def div_less_iff_less_mult)

text \<open>One turn of the ring is the next generation of the same cell.\<close>

lemma cycle_turn:
  assumes "cap_ok cap" and "q < cycle cap"
  shows "(q + cap) mod cycle cap div cap =
    (if Suc (q div cap) = gens cap then 0 else Suc (q div cap))"
proof (cases "Suc (q div cap) = gens cap")
  case True
  then have "cycle cap = q div cap * cap + cap" by (simp add: cycle_def flip: True)
  then have "q + cap = cycle cap + q mod cap" using div_mult_mod_eq [of q cap] by linarith
  moreover have "q mod cap < cycle cap" "q mod cap < cap"
    using cycle_bounds [OF assms(1)] mod_less_divisor [of cap q] by linarith+
  ultimately show ?thesis using True by simp
next
  case False
  have "q div cap < gens cap" using assms by (simp add: cycle_def less_mult_imp_div_less)
  with False have "Suc (Suc (q div cap)) \<le> gens cap" by simp
  then have "Suc (Suc (q div cap)) * cap \<le> cycle cap"
    unfolding cycle_def by (rule mult_right_mono) simp
  moreover have "q < Suc (q div cap) * cap"
    using cycle_bounds(4) [OF assms(1)] dividend_less_div_times [of cap q] by simp
  ultimately have "q + cap < cycle cap" by simp
  then show ?thesis using False cycle_bounds(4) [OF assms(1)] by (simp add: div_add_self2)
qed

lemma ring_index_inject:
  assumes "k < cap" and "k' < cap" and "(q + k) mod cap = (q + k') mod (cap :: nat)"
  shows "k = k'"
  using assms
proof (induction k k' rule: linorder_wlog)
  case (le k k')
  then have "cap dvd (q + k') - (q + k)" by (subst mod_eq_dvd_iff_nat [symmetric]) auto
  then have "cap dvd k' - k" by simp
  with le show ?case using dvd_imp_le [of cap "k' - k"] by fastforce
qed metis

definition elem :: "nat \<Rightarrow> nat \<Rightarrow> ElementState \<Rightarrow> u32" where
  "elem cap c st = encodeElement (of_nat (c mod cycle cap div cap)) st"

text \<open>
  \<open>ring_ok qm q st\<close>: counted from the combined index \<open>q\<close>, the \<open>k\<close>-th cell is in the
  generation that belongs to it and in state \<open>st k\<close>.
\<close>

definition ring_ok :: "QueueManager \<Rightarrow> nat \<Rightarrow> (nat \<Rightarrow> ElementState) \<Rightarrow> bool" where
  "ring_ok qm q st \<longleftrightarrow>
     cap_ok (m_capacity qm) \<and> m_maxGeneration qm = of_nat (gens (m_capacity qm) - 1) \<and>
     m_maxCombinedIndex qm = of_nat (cycle (m_capacity qm) - 1) \<and>
     length (m_states qm) = m_capacity qm \<and> q < cycle (m_capacity qm) \<and>
     (\<forall>k<m_capacity qm. m_states qm ! ((q + k) mod m_capacity qm) = elem (m_capacity qm) (q + k) (st k))"

lemma ring_ok_index [simp]:
  "ring_ok (qm\<lparr>m_pushIndex := x\<rparr>) q st = ring_ok qm q st"
  "ring_ok (qm\<lparr>m_popIndex := x\<rparr>) q st = ring_ok qm q st"
  by (simp_all add: ring_ok_def)

lemma ring_ok_cong: "(\<And>k. k < m_capacity qm \<Longrightarrow> st k = st' k) \<Longrightarrow> ring_ok qm q st = ring_ok qm q st'"
  by (auto simp: ring_ok_def)

lemma decode_elem:
  assumes "cap_ok cap"
  shows "decodeGenerationFromElementState (elem cap c st) = of_nat (c mod cycle cap div cap)"
    and "decodeStateFromElementState (elem cap c st) = st"
proof -
  have "c mod cycle cap div cap < 2 ^ 30"
    using cycle_div_less [OF assms, of c] gens_bounds(2) [OF assms] by linarith
  then have "unat (of_nat (c mod cycle cap div cap) :: u32) < 2 ^ 30"
    by (subst unat_of_nat_32) simp_all
  then show "decodeGenerationFromElementState (elem cap c st) = of_nat (c mod cycle cap div cap)"
    "decodeStateFromElementState (elem cap c st) = st"
    unfolding elem_def by (simp_all only: decode_encode)
qed

lemma elem_state_inject: "cap_ok cap \<Longrightarrow> elem cap c st = elem cap c st' \<longleftrightarrow> st = st'"
  by (metis decode_elem(2))

lemma ring_update:
  assumes "ring_ok qm q st" and "k < m_capacity qm"
  shows "ring_ok (qm\<lparr>m_states := (m_states qm)[(q + k) mod m_capacity qm := elem (m_capacity qm) (q + k) s]\<rparr>)
    q (st(k := s))"
  using assms ring_index_inject [of k "m_capacity qm" _ q]
  by (auto simp: ring_ok_def nth_list_update)

lemma ring_shift:
  assumes r: "ring_ok qm q st"
  defines "cap \<equiv> m_capacity qm"
  shows "ring_ok (qm\<lparr>m_states := (m_states qm)[q mod cap := elem cap (q + cap) Empty]\<rparr>)
    ((q + 1) mod cycle cap) (\<lambda>k. if Suc k = cap then Empty else st (Suc k))"
proof -
  have cap: "cap_ok cap" and len: "length (m_states qm) = cap" and c0: "0 < cycle cap" "0 < cap"
    using r cycle_bounds [of cap] by (auto simp: ring_ok_def cap_def)
  have idx: "(Suc q mod cycle cap + k) mod cap = Suc (q + k) mod cap" for k
    by (metis cycle_mod_cap mod_add_left_eq add_Suc)
  have el: "elem cap (Suc q mod cycle cap + k) s = elem cap (Suc (q + k)) s" for k s
    by (simp add: elem_def mod_add_left_eq)
  have "(m_states qm)[q mod cap := elem cap (q + cap) Empty] ! ((q + Suc k) mod cap) =
      elem cap (q + Suc k) (if Suc k = cap then Empty else st (Suc k))" if "k < cap" for k
  proof (cases "Suc k = cap")
    case True
    then show ?thesis using c0(2) len by simp
  next
    case False
    with that have k: "Suc k < cap" by simp
    then have "(q + Suc k) mod cap \<noteq> q mod cap"
      using ring_index_inject [of "Suc k" cap 0 q] by auto
    moreover have "m_states qm ! ((q + Suc k) mod cap) = elem cap (q + Suc k) (st (Suc k))"
      using r k unfolding ring_ok_def cap_def by blast
    ultimately show ?thesis using False by simp
  qed
  then show ?thesis
    using r c0 by (simp add: ring_ok_def idx el flip: cap_def)
qed

lemma nextCombinedIndex_eq:
  assumes "ring_ok qm q st" and "c < cycle (m_capacity qm)"
  shows "nextCombinedIndex qm (of_nat c) = of_nat ((c + 1) mod cycle (m_capacity qm))"
proof -
  have b: "cycle (m_capacity qm) \<le> 2 ^ 31" "0 < cycle (m_capacity qm)"
    using assms(1) cycle_bounds by (auto simp: ring_ok_def)
  have m: "m_maxCombinedIndex qm = of_nat (cycle (m_capacity qm) - 1)"
    using assms(1) by (simp add: ring_ok_def)
  have eq: "(of_nat (cycle (m_capacity qm) - 1) :: u32) = of_nat c \<longleftrightarrow> cycle (m_capacity qm) - 1 = c"
    using b assms(2) by (intro of_nat_eq_32) auto
  show ?thesis
  proof (cases "Suc c = cycle (m_capacity qm)")
    case True
    then have "cycle (m_capacity qm) - 1 = c" by simp
    with True eq show ?thesis unfolding nextCombinedIndex_def m by simp
  next
    case False
    then have "cycle (m_capacity qm) - 1 \<noteq> c" "(c + 1) mod cycle (m_capacity qm) = c + 1"
      using assms(2) b(2) by auto
    with eq show ?thesis unfolding nextCombinedIndex_def m by simp
  qed
qed

lemma nextGeneration_eq:
  assumes "ring_ok qm q st"
  shows "encodeElement (nextGeneration qm (of_nat (q div m_capacity qm))) Empty =
    elem (m_capacity qm) (q + m_capacity qm) Empty"
proof -
  let ?cap = "m_capacity qm"
  have cap: "cap_ok ?cap" and q: "q < cycle ?cap"
    and m: "m_maxGeneration qm = of_nat (gens ?cap - 1)"
    using assms by (auto simp: ring_ok_def)
  have g: "gens ?cap \<le> 2 ^ 30" "3 \<le> gens ?cap" using gens_bounds [OF cap] by auto
  have "q div ?cap < gens ?cap" using q by (simp add: cycle_def less_mult_imp_div_less)
  then have "(of_nat (gens ?cap - 1) :: u32) = of_nat (q div ?cap) \<longleftrightarrow> gens ?cap - 1 = q div ?cap"
    using g by (intro of_nat_eq_32) auto
  then show ?thesis
    using g by (auto simp: nextGeneration_def m elem_def cycle_turn [OF cap q] add.commute)
qed

section \<open>Operations on a quiescent ring\<close>

text \<open>
  Between operations, \<open>n\<close> cells from the pop index on are full and the others empty;
  between the reservation of a cell and its commit, the cell after the full ones is being
  written.
\<close>

definition qm_inv :: "QueueManager \<Rightarrow> nat \<Rightarrow> nat \<Rightarrow> bool" where
  "qm_inv qm q n \<longleftrightarrow>
     m_popIndex qm = of_nat q \<and> n \<le> m_capacity qm \<and>
     discardDisabledFlag (m_pushIndex qm) = of_nat ((q + n) mod cycle (m_capacity qm)) \<and>
     ring_ok qm q (\<lambda>k. if k < n then Full else Empty)"

definition reserving :: "QueueManager \<Rightarrow> nat \<Rightarrow> nat \<Rightarrow> bool" where
  "reserving qm q n \<longleftrightarrow>
     m_popIndex qm = of_nat q \<and> n < m_capacity qm \<and>
     discardDisabledFlag (m_pushIndex qm) = of_nat ((q + Suc n) mod cycle (m_capacity qm)) \<and>
     ring_ok qm q (\<lambda>k. if k < n then Full else if k = n then Writing else Empty)"

lemma bit_DISABLED_STATE_MASK: "bit DISABLED_STATE_MASK n \<longleftrightarrow> n = 31"
proof -
  have mask: "DISABLED_STATE_MASK = 2 ^ 31" by (simp add: DISABLED_STATE_MASK_def)
  show ?thesis unfolding mask bit_exp_iff by auto
qed

lemma isDisabledFlagSet_bit: "isDisabledFlagSet w \<longleftrightarrow> bit w 31"
  by (auto simp: isDisabledFlagSet_def bit_and_iff bit_eq_iff [of _ 0] bit_DISABLED_STATE_MASK)

lemma bit_discardDisabledFlag: "bit (discardDisabledFlag w) n \<longleftrightarrow> n \<noteq> 31 \<and> bit w n"
  by (auto simp: discardDisabledFlag_def bit_and_iff bit_not_iff bit_DISABLED_STATE_MASK
      dest: bit_imp_le_length)

lemma discard_enabled: "\<not> isDisabledFlagSet w \<Longrightarrow> discardDisabledFlag w = w"
  by (rule bit_eqI) (auto simp: bit_discardDisabledFlag isDisabledFlagSet_bit)

lemma of_nat_enabled: "x < 2 ^ 31 \<Longrightarrow> \<not> isDisabledFlagSet (of_nat x)"
  by (simp add: isDisabledFlagSet_bit bit_iff_odd_drop_bit drop_bit_eq_div)
    (simp add: even_iff_mod_2_eq_zero word_unat_eq_iff unat_mod unat_div unat_of_nat_32)

lemma cycle_less:
  assumes "cap_ok cap"
  shows "x mod cycle cap < cycle cap" and "x mod cycle cap < 2 ^ 31"
proof -
  show "x mod cycle cap < cycle cap" using cycle_bounds(3) [OF assms] by (rule mod_less_divisor)
  then show "x mod cycle cap < 2 ^ 31" using cycle_bounds(1) [OF assms] by (rule less_le_trans)
qed

lemma unat_cycle: "cap_ok cap \<Longrightarrow> unat (of_nat (x mod cycle cap) :: u32) = x mod cycle cap"
  using cycle_less(2) [of cap x] by (intro unat_of_nat_32) simp

lemma ring_okD:
  assumes "ring_ok qm q st"
  shows "cap_ok (m_capacity qm)" and "q < cycle (m_capacity qm)"
    and "length (m_states qm) = m_capacity qm"
    and "m_maxGeneration qm = of_nat (gens (m_capacity qm) - 1)"
    and "m_maxCombinedIndex qm = of_nat (cycle (m_capacity qm) - 1)"
    and "k < m_capacity qm \<Longrightarrow>
      m_states qm ! ((q + k) mod m_capacity qm) = elem (m_capacity qm) (q + k) (st k)"
  using assms by (auto simp: ring_ok_def)

lemma unat_ring_index:
  assumes "cap_ok cap"
  shows "unat (of_nat (x mod cap) :: u32) = x mod cap"
proof (rule unat_of_nat_32)
  have "x mod cap < cap" using assms by (simp add: cap_ok_def)
  also have "cap \<le> 2 ^ 32" using assms by (simp add: cap_ok_def)
  finally show "x mod cap < 2 ^ 32" .
qed

lemma reservePushIndex_success:
  assumes inv: "qm_inv qm q n" and "n < m_capacity qm" and "QueueManager_enabled qm"
  defines "cap \<equiv> m_capacity qm"
  shows "\<exists>qm'. reservePushIndex qm =
      Some (Inr (Success, of_nat ((q + n) mod cycle cap div cap), of_nat ((q + n) mod cap), qm')) \<and>
    reserving qm' q n \<and> QueueManager_enabled qm' \<and> m_capacity qm' = cap"
proof -
  let ?c = "(q + n) mod cycle cap" and ?i = "(q + n) mod cap"
  have r: "ring_ok qm q (\<lambda>k. if k < n then Full else Empty)" and n: "n < cap"
    using inv assms(2) by (auto simp: qm_inv_def cap_def)
  note R = ring_okD [OF r, folded cap_def]
  have en: "\<not> isDisabledFlagSet (m_pushIndex qm)" using assms(3) by (simp add: QueueManager_enabled_def)
  then have push: "m_pushIndex qm = of_nat ?c"
    using inv discard_enabled [OF en] by (simp add: qm_inv_def cap_def)
  have flag: "\<not> isDisabledFlagSet (of_nat ?c)" "discardDisabledFlag (of_nat ?c) = of_nat ?c"
    using en discard_enabled by (simp_all flip: push)
  have cell: "m_states qm ! ?i = encodeElement (of_nat (?c div cap)) Empty"
    using R(6) [OF n] by (simp add: elem_def)
  let ?qm1 = "qm\<lparr>m_states := (m_states qm)[?i := encodeElement (of_nat (?c div cap)) Writing]\<rparr>"
  let ?qm2 = "?qm1\<lparr>m_pushIndex := of_nat (Suc (q + n) mod cycle cap)\<rparr>"
  have r1: "ring_ok ?qm1 q ((\<lambda>k. if k < n then Full else Empty)(n := Writing))"
    using ring_update [OF r assms(2), of Writing] by (simp add: cap_def elem_def)
  then have nxt: "nextCombinedIndex ?qm1 (of_nat ?c) = of_nat (Suc (q + n) mod cycle cap)"
    using nextCombinedIndex_eq [OF r1, of ?c] cycle_less(1) [OF R(1)]
    by (simp add: cap_def mod_Suc_eq)
  have res: "reservePushIndex qm = Some (Inr (Success, of_nat (?c div cap), of_nat ?i, ?qm2))"
    unfolding reservePushIndex_def
    by (subst reservePushIndex_loop.simps)
      (simp add: push flag unat_cycle [OF R(1)] cell compare_exchange_def push_next_def nxt Let_def
        flip: cap_def)
  have en2: "\<not> isDisabledFlagSet (of_nat (Suc (q + n) mod cycle cap))"
    by (rule of_nat_enabled) (rule cycle_less [OF R(1)])
  have st: "(\<lambda>k. if k < n then Full else Empty)(n := Writing) =
      (\<lambda>k. if k < n then Full else if k = n then Writing else Empty)" by auto
  have "reserving ?qm2 q n"
    using inv n r1 [unfolded st] discard_enabled [OF en2]
    by (simp add: reserving_def qm_inv_def cap_def)
  then show ?thesis using res en2 by (intro exI [of _ ?qm2]) (simp add: QueueManager_enabled_def cap_def)
qed

lemma commitPushIndex_success:
  assumes "reserving qm q n"
  defines "cap \<equiv> m_capacity qm"
  shows "\<exists>qm'. commitPushIndex (of_nat ((q + n) mod cycle cap div cap)) (of_nat ((q + n) mod cap)) qm = Inr qm' \<and>
    qm_inv qm' q (Suc n) \<and> m_capacity qm' = cap \<and> m_pushIndex qm' = m_pushIndex qm"
proof -
  let ?g = "(q + n) mod cycle cap div cap" and ?i = "(q + n) mod cap"
  have r: "ring_ok qm q (\<lambda>k. if k < n then Full else if k = n then Writing else Empty)" and n: "n < cap"
    using assms by (auto simp: reserving_def)
  note R = ring_okD [OF r, folded cap_def]
  have cell: "m_states qm ! ?i = elem cap (q + n) Writing" using R(6) [OF n] by simp
  have ui: "unat (of_nat ?i :: u32) = ?i" by (rule unat_ring_index [OF R(1)])
  have g: "?g < gens cap" by (rule cycle_div_less [OF R(1)])
  then have "(of_nat ?g :: u32) \<le> m_maxGeneration qm"
    using gens_bounds(2) [OF R(1)] unfolding R(4) by (subst of_nat_le_32) auto
  then have "commitPushIndex (of_nat ?g) (of_nat ?i) qm =
      Inr (qm\<lparr>m_states := (m_states qm)[?i := elem cap (q + n) Full]\<rparr>)"
    using n by (simp add: commitPushIndex_def ui cell decode_elem [OF R(1)] flip: cap_def)
      (simp add: elem_def)
  moreover have "ring_ok (qm\<lparr>m_states := (m_states qm)[?i := elem cap (q + n) Full]\<rparr>) q
      ((\<lambda>k. if k < n then Full else if k = n then Writing else Empty)(n := Full))"
    using ring_update [OF r, of n Full] n by (simp add: cap_def)
  moreover have "(\<lambda>k. if k < n then Full else if k = n then Writing else Empty)(n := Full) =
      (\<lambda>k. if k < Suc n then Full else Empty)" by auto
  ultimately show ?thesis
    using assms n by (auto simp: qm_inv_def reserving_def cap_def)
qed

lemma reservePushIndex_disabled:
  "\<not> QueueManager_enabled qm \<Longrightarrow> reservePushIndex qm = Some (Inr (QueueDisabled, 0, 0, qm))"
  unfolding reservePushIndex_def QueueManager_enabled_def
  by (subst reservePushIndex_loop.simps) simp

text \<open>The generations of a cell and of the same cell one turn later.\<close>

lemma turn_difference:
  assumes "ring_ok qm q st"
  defines "cap \<equiv> m_capacity qm"
  defines "a \<equiv> (q + cap) mod cycle cap div cap" and "b \<equiv> q div cap"
  shows "sint (of_nat a - of_nat b :: u32) = 1 \<or> sint (of_nat a - of_nat b :: u32) = - sint (m_maxGeneration qm)"
    and "circularDifference (of_nat a) (of_nat b) (m_maxGeneration qm + 1) = Inr 1"
proof -
  note R = ring_okD [OF assms(1), folded cap_def]
  have g: "3 \<le> gens cap" "gens cap \<le> 2 ^ 30" using gens_bounds [OF R(1)] by auto
  have b: "b < gens cap" using R(2) by (simp add: b_def cycle_def less_mult_imp_div_less)
  have a: "a = (if Suc b = gens cap then 0 else Suc b)"
    unfolding a_def b_def by (rule cycle_turn [OF R(1,2)])
  have ab: "a < gens cap" "a \<le> 2 ^ 31" "b \<le> 2 ^ 31" using a b g by (auto split: if_splits)
  have m: "m_maxGeneration qm + 1 = of_nat (gens cap)" using g by (simp add: R(4) of_nat_diff)
  have sm: "sint (m_maxGeneration qm) = int (gens cap) - 1"
    unfolding R(4) using g by (subst sint_of_nat) (simp_all add: of_nat_diff)
  have d: "sint (of_nat a - of_nat b :: u32) = int a - int b"
    using ab b g by (intro sint_diff) auto
  show "sint (of_nat a - of_nat b :: u32) = 1 \<or>
      sint (of_nat a - of_nat b :: u32) = - sint (m_maxGeneration qm)"
    unfolding d sm using a by (auto split: if_splits)
  have "circularDifference (of_nat a) (of_nat b) (of_nat (gens cap)) =
      Inr (if int a - int b > int (gens cap div 2) then int a - int b - int (gens cap)
           else if int a - int b < - int (gens cap div 2) then int a - int b + int (gens cap)
           else int a - int b)"
    using ab b g by (intro circularDifference_eq) auto
  also have "\<dots> = Inr 1" using a b g by (auto split: if_splits)
  finally show "circularDifference (of_nat a) (of_nat b) (m_maxGeneration qm + 1) = Inr 1"
    unfolding m .
qed

lemma reservePushIndex_full:
  assumes inv: "qm_inv qm q (m_capacity qm)" and en: "QueueManager_enabled qm"
  shows "reservePushIndex qm = Some (Inr (QueueFull, 0, 0, qm))"
proof -
  define cap where "cap = m_capacity qm"
  let ?c = "(q + cap) mod cycle cap"
  have r: "ring_ok qm q (\<lambda>k. if k < cap then Full else Empty)"
    using inv by (simp add: qm_inv_def cap_def)
  note R = ring_okD [OF r, folded cap_def] and T = turn_difference [OF r, folded cap_def]
  have en': "\<not> isDisabledFlagSet (m_pushIndex qm)" using en by (simp add: QueueManager_enabled_def)
  then have push: "m_pushIndex qm = of_nat ?c"
    using inv discard_enabled [OF en'] by (simp add: qm_inv_def cap_def)
  have flag: "\<not> isDisabledFlagSet (of_nat ?c)" "discardDisabledFlag (of_nat ?c) = of_nat ?c"
    using en' discard_enabled by (simp_all flip: push)
  have idx: "?c mod cap = q mod cap" by simp
  have cell: "m_states qm ! (q mod cap) = elem cap q Full"
    using R(6) [of 0] cycle_bounds(4) [OF R(1)] by simp
  have enc: "encodeElement (of_nat (?c div cap)) st = elem cap (q + cap) st" for st
    by (simp add: elem_def)
  have ne: "elem cap q Full \<noteq> elem cap (q + cap) Empty"
    using decode_elem(2) [OF R(1)] by (metis ElementState.distinct(3))
  have gen: "decodeGenerationFromElementState (elem cap q Full) = of_nat (q div cap)"
    using decode_elem(1) [OF R(1), of q Full] R(2) by simp
  have step: "reservePushIndex_loop qm (of_nat ?c) saved =
      (if saved \<noteq> of_nat ?c then reservePushIndex_loop qm (of_nat ?c) (of_nat ?c)
       else Some (Inr (QueueFull, 0, 0, qm)))" for saved
    using T ne
    by (subst reservePushIndex_loop.simps)
      (simp add: Let_def compare_exchange_def flag unat_cycle [OF R(1)] idx cell enc gen
        decode_elem(2) [OF R(1)] push flip: cap_def)
  show ?thesis
    unfolding reservePushIndex_def push by (subst step, subst step) simp
qed

text \<open>
  Popping: after the reservation the pop index is one further while the first cell is
  being read; the commit turns this cell over to the next generation.
\<close>

definition popping :: "QueueManager \<Rightarrow> nat \<Rightarrow> (nat \<Rightarrow> ElementState) \<Rightarrow> bool" where
  "popping qm q st \<longleftrightarrow>
     m_popIndex qm = of_nat ((q + 1) mod cycle (m_capacity qm)) \<and> ring_ok qm q st \<and> st 0 = Reading"

lemma pop_cell:
  assumes r: "ring_ok qm q st" and "st 0 = Full" and pop: "m_popIndex qm = of_nat q"
  defines "cap \<equiv> m_capacity qm"
  defines "qm' \<equiv> qm\<lparr>m_states := (m_states qm)[q mod cap := elem cap q Reading],
                   m_popIndex := of_nat ((q + 1) mod cycle cap)\<rparr>"
  shows "m_states qm ! (q mod cap) = elem cap q Full" and "popping qm' q (st(0 := Reading))"
    and "snd (pop_next (qm\<lparr>m_states := (m_states qm)[q mod cap := elem cap q Reading]\<rparr>) (of_nat q)) = qm'"
proof -
  note R = ring_okD [OF r, folded cap_def]
  have "0 < cap" by (rule cycle_bounds(4) [OF R(1)])
  then show "m_states qm ! (q mod cap) = elem cap q Full" using R(6) [of 0] assms(2) by simp
  have r1: "ring_ok (qm\<lparr>m_states := (m_states qm)[q mod cap := elem cap q Reading]\<rparr>) q (st(0 := Reading))"
    using ring_update [OF r, of 0 Reading] \<open>0 < cap\<close> by (simp add: cap_def)
  then show "popping qm' q (st(0 := Reading))" by (simp add: popping_def qm'_def cap_def)
  show "snd (pop_next (qm\<lparr>m_states := (m_states qm)[q mod cap := elem cap q Reading]\<rparr>) (of_nat q)) = qm'"
    using nextCombinedIndex_eq [OF r1, of q] R(2) pop
    by (simp add: pop_next_def compare_exchange_def qm'_def cap_def)
qed

lemma encode_elem_self: "q < cycle cap \<Longrightarrow> encodeElement (of_nat (q div cap)) st = elem cap q st"
  by (simp add: elem_def)

lemma unat_below_cycle: "cap_ok cap \<Longrightarrow> q < cycle cap \<Longrightarrow> unat (of_nat q :: u32) = q"
  using unat_cycle [of cap q] by simp

lemma reservePopIndex_success:
  assumes inv: "qm_inv qm q n" and "0 < n"
  defines "cap \<equiv> m_capacity qm"
  shows "\<exists>qm'. reservePopIndex qm = Some (Inr (Success, of_nat (q div cap), of_nat (q mod cap), qm')) \<and>
    popping qm' q ((\<lambda>k. if k < n then Full else Empty)(0 := Reading)) \<and>
    m_capacity qm' = cap \<and> m_pushIndex qm' = m_pushIndex qm"
proof -
  have r: "ring_ok qm q (\<lambda>k. if k < n then Full else Empty)" and pop: "m_popIndex qm = of_nat q"
    using inv by (simp_all add: qm_inv_def)
  note R = ring_okD [OF r, folded cap_def]
  have "(if 0 < n then Full else Empty) = Full" using assms(2) by simp
  note P = pop_cell [OF r this pop, folded cap_def]
  define qm' where "qm' = qm\<lparr>m_states := (m_states qm)[q mod cap := elem cap q Reading],
                   m_popIndex := of_nat ((q + 1) mod cycle cap)\<rparr>"
  have "reservePopIndex qm = Some (Inr (Success, of_nat (q div cap), of_nat (q mod cap), qm'))"
    unfolding reservePopIndex_def pop
    by (subst reservePopIndex_loop.simps)
      (simp add: Let_def compare_exchange_def unat_below_cycle [OF R(1,2)] encode_elem_self [OF R(2)]
        P(1) P(3) [unfolded qm'_def [symmetric]] split_beta flip: cap_def qm'_def)
  moreover have "popping qm' q ((\<lambda>k. if k < n then Full else Empty)(0 := Reading))"
    using P(2) by (simp add: qm'_def)
  moreover have "m_capacity qm' = cap" "m_pushIndex qm' = m_pushIndex qm"
    by (simp_all add: qm'_def cap_def)
  ultimately show ?thesis by blast
qed

lemma commitPopIndex_success:
  assumes p: "popping qm q st"
  defines "cap \<equiv> m_capacity qm"
  shows "\<exists>qm'. commitPopIndex (of_nat (q div cap)) (of_nat (q mod cap)) qm = Inr qm' \<and>
    ring_ok qm' ((q + 1) mod cycle cap) (\<lambda>k. if Suc k = cap then Empty else st (Suc k)) \<and>
    m_popIndex qm' = of_nat ((q + 1) mod cycle cap) \<and> m_pushIndex qm' = m_pushIndex qm \<and>
    m_capacity qm' = cap"
proof -
  have r: "ring_ok qm q st" and "st 0 = Reading" using p by (simp_all add: popping_def)
  note R = ring_okD [OF r, folded cap_def]
  have "0 < cap" by (rule cycle_bounds(4) [OF R(1)])
  then have cell: "m_states qm ! (q mod cap) = elem cap q Reading" using R(6) [of 0] \<open>st 0 = Reading\<close> by simp
  have g: "q div cap < gens cap" using R(2) by (simp add: cycle_def less_mult_imp_div_less)
  then have "(of_nat (q div cap) :: u32) \<le> m_maxGeneration qm"
    using gens_bounds(2) [OF R(1)] unfolding R(4) by (subst of_nat_le_32) auto
  then have "commitPopIndex (of_nat (q div cap)) (of_nat (q mod cap)) qm =
      Inr (qm\<lparr>m_states := (m_states qm)[q mod cap := elem cap (q + cap) Empty]\<rparr>)"
    using \<open>0 < cap\<close> R(2) nextGeneration_eq [OF r]
    by (simp add: commitPopIndex_def unat_ring_index [OF R(1)] cell decode_elem [OF R(1)] flip: cap_def)
  moreover have "ring_ok (qm\<lparr>m_states := (m_states qm)[q mod cap := elem cap (q + cap) Empty]\<rparr>)
      ((q + 1) mod cycle cap) (\<lambda>k. if Suc k = cap then Empty else st (Suc k))"
    using ring_shift [OF r] by (simp add: cap_def)
  ultimately show ?thesis using p by (simp add: popping_def cap_def)
qed

lemma qm_inv_popped:
  assumes "qm_inv qm q (Suc n)"
    and "ring_ok qm' ((q + 1) mod cycle (m_capacity qm))
      (\<lambda>k. if Suc k = m_capacity qm then Empty
           else ((\<lambda>k. if k < Suc n then Full else Empty)(0 := Reading)) (Suc k))"
    and "m_popIndex qm' = of_nat ((q + 1) mod cycle (m_capacity qm))"
    and "m_pushIndex qm' = m_pushIndex qm" and "m_capacity qm' = m_capacity qm"
  shows "qm_inv qm' ((q + 1) mod cycle (m_capacity qm)) n"
proof -
  have "Suc n \<le> m_capacity qm" using assms(1) by (simp add: qm_inv_def)
  then have "ring_ok qm' ((q + 1) mod cycle (m_capacity qm)) (\<lambda>k. if k < n then Full else Empty)"
    using assms(2,5) by (subst ring_ok_cong [rotated]) auto
  moreover have "((q + 1) mod cycle (m_capacity qm) + n) mod cycle (m_capacity qm) =
      (q + Suc n) mod cycle (m_capacity qm)" by (simp add: mod_add_left_eq)
  ultimately show ?thesis
    using assms by (simp add: qm_inv_def)
qed

lemma reservePopIndex_empty:
  assumes inv: "qm_inv qm q 0"
  shows "reservePopIndex qm = Some (Inr (QueueEmpty, 0, 0, qm))"
proof -
  define cap where "cap = m_capacity qm"
  have r: "ring_ok qm q (\<lambda>k. Empty)" and pop: "m_popIndex qm = of_nat q"
    using inv by (simp_all add: qm_inv_def)
  note R = ring_okD [OF r, folded cap_def]
  have cell: "m_states qm ! (q mod cap) = elem cap q Empty"
    using R(6) [of 0] cycle_bounds(4) [OF R(1)] by simp
  have ne: "elem cap q Empty \<noteq> elem cap q Full" by (simp add: elem_state_inject [OF R(1)])
  have g: "3 \<le> gens cap" "gens cap \<le> 2 ^ 30" using gens_bounds [OF R(1)] by auto
  have gen: "decodeGenerationFromElementState (elem cap q Empty) = of_nat (q div cap)"
    using decode_elem(1) [OF R(1), of q Empty] R(2) by simp
  have "sint (m_maxGeneration qm) = int (gens cap - 1)"
    unfolding R(4) using g by (intro sint_of_nat) auto
  then have mg: "sint (m_maxGeneration qm) \<noteq> 0" using g by simp
  have step: "reservePopIndex_loop qm (of_nat q) saved =
      (if saved \<noteq> of_nat q then reservePopIndex_loop qm (of_nat q) (of_nat q)
       else Some (Inr (QueueEmpty, 0, 0, qm)))" for saved
    using ne mg
    by (subst reservePopIndex_loop.simps)
      (simp add: Let_def compare_exchange_def unat_below_cycle [OF R(1,2)] encode_elem_self [OF R(2)]
        cell gen decode_elem(2) [OF R(1)] pop flip: cap_def)
  show ?thesis
    unfolding reservePopIndex_def pop by (subst step, subst step) simp
qed

lemma QueueManager_size_eq:
  assumes inv: "qm_inv qm q n"
  shows "QueueManager_size qm = Inr n"
proof -
  define cap where "cap = m_capacity qm"
  let ?p = "(q + n) mod cycle cap"
  have r: "ring_ok qm q (\<lambda>k. if k < n then Full else Empty)" and n: "n \<le> cap"
    and idx: "m_popIndex qm = of_nat q" "discardDisabledFlag (m_pushIndex qm) = of_nat ?p"
    using inv by (simp_all add: qm_inv_def cap_def)
  note R = ring_okD [OF r, folded cap_def] and C = cycle_bounds [OF ring_okD(1) [OF r], folded cap_def]
  have q31: "q < 2 ^ 31" and p31: "?p < 2 ^ 31" and p: "?p < cycle cap"
    using R(2) C(1) cycle_less [OF R(1)] by auto
  have d: "sint (of_nat ?p - of_nat q :: u32) = int ?p - int q"
    using p31 q31 by (intro sint_diff) auto
  have half: "sint (m_maxCombinedIndex qm div 2) = int ((cycle cap - 1) div 2)"
    using of_nat_div_32 [of "cycle cap - 1" 2] C(1) unfolding R(5)
    by (simp add: sint_of_nat del: of_nat_diff)
  have m: "m_maxCombinedIndex qm + 1 = of_nat (cycle cap)" using C(3) by (simp add: R(5) of_nat_diff)
  show ?thesis
  proof (cases "q + n < cycle cap")
    case True
    then show ?thesis
      using n d by (simp add: QueueManager_size_def idx Let_def flip: cap_def)
  next
    case False
    then have pe: "?p = q + n - cycle cap"
      using R(2) n C(2) by (subst mod_if) auto
    then have diff: "int ?p - int q = int n - int (cycle cap)" using False by simp
    have neg: "int ?p - int q < 0" "int ?p - int q < - int ((cycle cap - 1) div 2)"
      unfolding diff using n C(2,4) by auto
    have circ: "circularDifference (of_nat ?p) (of_nat q) (of_nat (cycle cap)) = Inr (int n)"
      unfolding circularDifference_eq [OF p R(2) C(1)] diff using n C(2,4) by auto
    have "unat (of_nat ?p - of_nat q + m_maxCombinedIndex qm + 1 :: u32) = n"
    proof -
      have "(of_nat ?p - of_nat q + m_maxCombinedIndex qm + 1 :: u32) = of_int (int ?p - int q + int (cycle cap))"
        using m by (simp add: add.assoc)
      also have "\<dots> = of_nat n" unfolding diff by simp
      finally show ?thesis using n C(1,2) by (simp add: unat_of_nat_32)
    qed
    moreover have "0 < n" using False R(2) by simp
    ultimately show ?thesis
      using n neg d half by (simp add: QueueManager_size_def idx Let_def m circ flip: cap_def)
  qed
qed

text \<open>Disabling and enabling touch the flag only.\<close>

lemma discard_or_mask: "discardDisabledFlag (w OR DISABLED_STATE_MASK) = discardDisabledFlag w"
  by (rule bit_eqI) (auto simp: bit_discardDisabledFlag bit_or_iff bit_DISABLED_STATE_MASK)

lemma discard_discard: "discardDisabledFlag (discardDisabledFlag w) = discardDisabledFlag w"
  by (rule bit_eqI) (auto simp: bit_discardDisabledFlag)

lemma QueueManager_disable_ok:
  "qm_inv qm q n \<Longrightarrow> qm_inv (QueueManager_disable qm) q n"
  "\<not> QueueManager_enabled (QueueManager_disable qm)"
  by (auto simp: QueueManager_disable_def QueueManager_enabled_def compare_exchange_def qm_inv_def
      Let_def discard_or_mask) (simp add: isDisabledFlagSet_bit bit_or_iff bit_DISABLED_STATE_MASK)

lemma QueueManager_enable_ok:
  "qm_inv qm q n \<Longrightarrow> qm_inv (QueueManager_enable qm) q n"
  "QueueManager_enabled (QueueManager_enable qm)"
proof -
  have e: "QueueManager_enable qm = qm\<lparr>m_pushIndex := discardDisabledFlag (m_pushIndex qm)\<rparr>"
    if "isDisabledFlagSet (m_pushIndex qm)"
    using that by (simp add: QueueManager_enable_def compare_exchange_def Let_def flip: discardDisabledFlag_def)
  have u: "QueueManager_enable qm = qm" if "\<not> isDisabledFlagSet (m_pushIndex qm)"
    using that by (simp add: QueueManager_enable_def Let_def)
  show "qm_inv (QueueManager_enable qm) q n" if "qm_inv qm q n"
    using that discard_discard [of "m_pushIndex qm"]
    by (cases "isDisabledFlagSet (m_pushIndex qm)") (auto simp: e u qm_inv_def)
  show "QueueManager_enabled (QueueManager_enable qm)"
    by (cases "isDisabledFlagSet (m_pushIndex qm)")
      (simp_all add: e u QueueManager_enabled_def isDisabledFlagSet_bit [of "discardDisabledFlag w" for w]
        bit_discardDisabledFlag)
qed

text \<open>The clearing loop of the push guard: one full cell, then the reserved one.\<close>

lemma reserving_end:
  assumes "reserving qm q n"
  defines "cap \<equiv> m_capacity qm"
  shows "circularDifference
      (of_nat ((q + n) mod cycle cap div cap) * of_nat cap + of_nat ((q + n) mod cap))
      (of_nat q) (m_maxCombinedIndex qm + 1) = Inr (int n)"
proof -
  let ?p = "(q + n) mod cycle cap"
  have r: "ring_ok qm q (\<lambda>k. if k < n then Full else if k = n then Writing else Empty)" and n: "n < cap"
    using assms by (simp_all add: reserving_def)
  note R = ring_okD [OF r, folded cap_def] and C = cycle_bounds [OF ring_okD(1) [OF r], folded cap_def]
  have m: "m_maxCombinedIndex qm + 1 = of_nat (cycle cap)" using C(3) by (simp add: R(5) of_nat_diff)
  have "?p div cap * cap + (q + n) mod cap = ?p"
    using div_mult_mod_eq [of ?p cap] by simp
  then have e: "(of_nat (?p div cap) * of_nat cap + of_nat ((q + n) mod cap) :: u32) = of_nat ?p"
    by (metis of_nat_add of_nat_mult)
  have p: "?p < cycle cap" by (rule cycle_less(1) [OF R(1)])
  have "int ?p - int q = (if q + n < cycle cap then int n else int n - int (cycle cap))"
    using R(2) n C(2) by (auto simp: mod_if)
  then show ?thesis
    unfolding e m circularDifference_eq [OF p R(2) C(1)] using n C(2) by auto
qed

lemma reserved_cell_bounds:
  assumes "ring_ok qm q st"
  defines "cap \<equiv> m_capacity qm"
  shows "of_nat (x mod cycle cap div cap) \<le> m_maxGeneration qm" and "unat (of_nat (x mod cap) :: u32) < cap"
proof -
  note R = ring_okD [OF assms(1), folded cap_def]
  have "x mod cycle cap div cap < gens cap" by (rule cycle_div_less [OF R(1)])
  then show "of_nat (x mod cycle cap div cap) \<le> m_maxGeneration qm"
    using gens_bounds(2) [OF R(1)] unfolding R(4) by (subst of_nat_le_32) auto
  show "unat (of_nat (x mod cap) :: u32) < cap"
    using cycle_bounds(4) [OF R(1)] by (simp add: unat_ring_index [OF R(1)])
qed

lemma reservePopForClear_step:
  assumes inv: "reserving qm q (Suc n)"
  defines "cap \<equiv> m_capacity qm"
  defines "g \<equiv> of_nat ((q + Suc n) mod cycle cap div cap)" and "i \<equiv> of_nat ((q + Suc n) mod cap)"
  shows "\<exists>qm' qm''. reservePopForClear g i qm =
      Some (Inr (Some (of_nat (q div cap), of_nat (q mod cap)), qm')) \<and>
    commitPopIndex (of_nat (q div cap)) (of_nat (q mod cap)) qm' = Inr qm'' \<and>
    reserving qm'' ((q + 1) mod cycle cap) n \<and> m_capacity qm'' = cap \<and> m_pushIndex qm'' = m_pushIndex qm"
proof -
  let ?st = "\<lambda>k. if k < Suc n then Full else if k = Suc n then Writing else Empty"
  have r: "ring_ok qm q ?st" and n: "Suc n < cap" and pop: "m_popIndex qm = of_nat q"
    using inv by (simp_all add: reserving_def cap_def)
  note R = ring_okD [OF r, folded cap_def] and P = pop_cell [OF r _ pop, folded cap_def]
  define qm' where "qm' = qm\<lparr>m_states := (m_states qm)[q mod cap := elem cap q Reading],
                   m_popIndex := of_nat ((q + 1) mod cycle cap)\<rparr>"
  have gi: "g \<le> m_maxGeneration qm" "unat i < cap"
    using reserved_cell_bounds [OF r, of "q + Suc n"] unfolding g_def i_def cap_def by blast+
  have e: "circularDifference (g * of_nat cap + i) (of_nat q) (m_maxCombinedIndex qm + 1) = Inr (int (Suc n))"
    unfolding g_def i_def using reserving_end [OF inv] by (simp add: cap_def)
  have 1: "reservePopForClear g i qm = Some (Inr (Some (of_nat (q div cap), of_nat (q mod cap)), qm'))"
    using gi P(1,3)
    by (simp add: reservePopForClear_def pop flip: cap_def, subst reservePopForClear_loop.simps)
      (simp add: Let_def e compare_exchange_def unat_below_cycle [OF R(1,2)] encode_elem_self [OF R(2)]
        split_beta qm'_def flip: cap_def)
  have "popping qm' q (?st(0 := Reading))" using P(2) by (simp add: qm'_def)
  from commitPopIndex_success [OF this] obtain qm'' where 2:
    "commitPopIndex (of_nat (q div cap)) (of_nat (q mod cap)) qm' = Inr qm''"
    "ring_ok qm'' ((q + 1) mod cycle cap) (\<lambda>k. if Suc k = cap then Empty else (?st(0 := Reading)) (Suc k))"
    "m_popIndex qm'' = of_nat ((q + 1) mod cycle cap)" "m_pushIndex qm'' = m_pushIndex qm"
    "m_capacity qm'' = cap"
    by (auto simp: qm'_def cap_def)
  have "ring_ok qm'' ((q + 1) mod cycle cap) (\<lambda>k. if k < n then Full else if k = n then Writing else Empty)"
    using 2(2,5) n by (subst ring_ok_cong [rotated]) auto
  moreover have "((q + 1) mod cycle cap + Suc n) mod cycle cap = (q + Suc (Suc n)) mod cycle cap"
    using mod_add_left_eq [of "q + 1" "cycle cap" "Suc n"] by simp
  ultimately have "reserving qm'' ((q + 1) mod cycle cap) n"
    using inv 2 n by (simp add: reserving_def cap_def)
  with 1 2 show ?thesis by blast
qed

lemma reservePopForClear_stop:
  assumes inv: "reserving qm q 0"
  defines "cap \<equiv> m_capacity qm"
  shows "reservePopForClear (of_nat (q mod cycle cap div cap)) (of_nat (q mod cap)) qm = Some (Inr (None, qm))"
proof -
  have r: "ring_ok qm q (\<lambda>k. if k < 0 then Full else if k = 0 then Writing else Empty)"
    and pop: "m_popIndex qm = of_nat q"
    using inv by (simp_all add: reserving_def)
  show ?thesis
    using reserving_end [OF inv] reserved_cell_bounds [OF r, of q]
    by (simp add: reservePopForClear_def pop flip: cap_def, subst reservePopForClear_loop.simps)
      (simp add: Let_def flip: cap_def)
qed

lemma abortPushIndexReservation_ok:
  assumes inv: "reserving qm q 0"
  defines "cap \<equiv> m_capacity qm"
  shows "\<exists>qm'. abortPushIndexReservation (of_nat (q mod cycle cap div cap)) (of_nat (q mod cap)) qm = Inr qm' \<and>
    qm_inv qm' ((q + 1) mod cycle cap) 0 \<and> m_capacity qm' = cap \<and> m_pushIndex qm' = m_pushIndex qm"
proof -
  let ?st = "\<lambda>k. if k < 0 then Full else if k = 0 then Writing else Empty"
  have r: "ring_ok qm q ?st" and pop: "m_popIndex qm = of_nat q"
    and push: "discardDisabledFlag (m_pushIndex qm) = of_nat ((q + 1) mod cycle cap)"
    using inv by (simp_all add: reserving_def cap_def)
  note R = ring_okD [OF r, folded cap_def] and C = cycle_bounds [OF ring_okD(1) [OF r], folded cap_def]
  note B = reserved_cell_bounds [OF r, folded cap_def]
  have q: "q mod cycle cap = q" using R(2) by simp
  have cell: "m_states qm ! (q mod cap) = elem cap q Writing" using R(6) [of 0] C(4) by simp
  have qd: "q div cap * cap + q mod cap = q" by simp
  have "q < 2 ^ 32" using R(2) C(1) by simp
  then have u: "unat (of_nat (q div cap) :: u32) = q div cap"
    by (intro unat_of_nat_32 le_less_trans [OF div_le_dividend])
  have r1: "ring_ok (qm\<lparr>m_states := (m_states qm)[q mod cap := elem cap q Reading]\<rparr>) q (?st(0 := Reading))"
    using ring_update [OF r, of 0 Reading] C(4) by (simp add: cap_def)
  define qm' where "qm' = qm\<lparr>m_popIndex := of_nat ((q + 1) mod cycle cap),
      m_states := (m_states qm)[q mod cap := elem cap (q + cap) Empty]\<rparr>"
  have nx: "pop_next (qm\<lparr>m_states := (m_states qm)[q mod cap := elem cap q Reading]\<rparr>) (of_nat q) =
      (of_nat q, qm\<lparr>m_states := (m_states qm)[q mod cap := elem cap q Reading],
          m_popIndex := of_nat ((q + 1) mod cycle cap)\<rparr>)"
    using nextCombinedIndex_eq [OF r1, of q] R(2) pop
    by (simp add: pop_next_def compare_exchange_def cap_def)
  have ng: "encodeElement (nextGeneration (qm\<lparr>m_states := xs, m_popIndex := y\<rparr>) (of_nat (q div cap))) Empty =
      elem cap (q + cap) Empty" for xs y
    using nextGeneration_eq [OF r] by (simp add: nextGeneration_def cap_def)
  have "abortPushIndexReservation (of_nat (q div cap)) (of_nat (q mod cap)) qm = Inr qm'"
    using B [of q] by (simp add: abortPushIndexReservation_def pop Let_def u unat_ring_index [OF R(1)] qd q cell
        decode_elem [OF R(1)] unat_below_cycle [OF R(1,2)] encode_elem_self [OF R(2)] nx ng qm'_def flip: cap_def)
  moreover have "ring_ok qm' ((q + 1) mod cycle cap) (\<lambda>k. if k < 0 then Full else Empty)"
    using ring_shift [OF r] unfolding qm'_def by (simp add: cap_def ring_ok_def)
  ultimately show ?thesis
    using push by (simp add: qm_inv_def q qm'_def flip: cap_def)
qed

lemma new_QueueManager_ok:
  assumes "cap_ok cap"
  shows "\<exists>qm. new_QueueManager cap = Inr qm \<and> qm_inv qm 0 0 \<and> QueueManager_enabled qm \<and> m_capacity qm = cap"
proof -
  note C = cycle_bounds [OF assms] and G = gens_bounds [OF assms]
  have n: "numGenerations cap = of_nat (gens cap)"
    by (simp add: numGenerations_def gens_def queue_consts)
  have m: "(of_nat (gens cap) :: u32) * of_nat cap - 1 = of_nat (cycle cap - 1)"
    "(of_nat (gens cap) :: u32) - 1 = of_nat (gens cap - 1)"
    using C(3) G(1) by (simp_all add: of_nat_diff cycle_def)
  have el: "elem cap k Empty = 0" if "k < cap" for k
  proof -
    have "k < cycle cap" using that C(2) by simp
    then show ?thesis using that by (simp add: elem_def encodeElement_def)
  qed
  have "cap \<le> MAX_CAPACITY" using assms by (simp add: cap_ok_def queue_consts)
  then show ?thesis
    using assms C(3,4) el of_nat_enabled [of 0]
    by (auto simp: new_QueueManager_def n m qm_inv_def ring_ok_def QueueManager_enabled_def discard_enabled)
qed

end
