(* ===== verification/Lockfree_Queue.thy ===== *)
theory Lockfree_Queue
  imports Queue_Manager
begin

text \<open>
  The bounded queue of \<^verbatim>\<open>llarp/util/thread/queue.hpp\<close> on top of its index manager, with the
  semaphore of \<^verbatim>\<open>llarp/util/thread/threading.hpp\<close>. The storage is a list of cells that hold
  an object or nothing. The operations are run one at a time; a thread that would sleep on
  a semaphore gives the result \<open>Blocked\<close>. The copy or move constructor of the element type
  is a parameter, which may throw. The theory shows that the queue implements a bounded
  first-in first-out list, on every branch and with no failing assertion.
\<close>

section \<open>The semaphore\<close>

record Semaphore = m_count :: u64

definition Semaphore_notify :: "Semaphore \<Rightarrow> Semaphore" where
  "Semaphore_notify s = s\<lparr>m_count := m_count s + 1\<rparr>"

text \<open>No value: the caller sleeps until somebody notifies.\<close>

definition Semaphore_wait :: "Semaphore \<Rightarrow> Semaphore option" where
  "Semaphore_wait s = (if m_count s > 0 then Some (s\<lparr>m_count := m_count s - 1\<rparr>) else None)"

text \<open>With nobody else running, a wait on a count of zero ends by the timeout.\<close>

definition Semaphore_waitFor :: "Semaphore \<Rightarrow> bool \<times> Semaphore" where
  "Semaphore_waitFor s = (if m_count s > 0 then (True, s\<lparr>m_count := m_count s - 1\<rparr>) else (False, s))"


section \<open>The queue\<close>

record 'a Queue =
  m_data :: "'a option list"
  m_manager :: QueueManager
  m_waitingPoppers :: u32
  m_popSemaphore :: Semaphore
  m_waitingPushers :: u32
  m_pushSemaphore :: Semaphore

datatype 'r blocking =
    Returned 'r
  | Threw
  | Blocked

definition new_Queue :: "nat \<Rightarrow> exn + 'a Queue" where
  "new_Queue capacity =
     bind_exn (new_QueueManager capacity) (\<lambda>qm.
       Inr \<lparr>m_data = replicate capacity None, m_manager = qm,
            m_waitingPoppers = 0, m_popSemaphore = \<lparr>m_count = 0\<rparr>,
            m_waitingPushers = 0, m_pushSemaphore = \<lparr>m_count = 0\<rparr>\<rparr>)"

definition notify_pushers :: "nat \<Rightarrow> 'a Queue \<Rightarrow> 'a Queue" where
  "notify_pushers n Q = Q\<lparr>m_pushSemaphore := (Semaphore_notify ^^ n) (m_pushSemaphore Q)\<rparr>"

partial_function (option) QueuePushGuard_clear ::
  "u32 \<Rightarrow> u32 \<Rightarrow> nat \<Rightarrow> 'a Queue \<Rightarrow> (exn + nat \<times> 'a Queue) option" where
  "QueuePushGuard_clear m_generation m_index poppedItems Q =
     (case reservePopForClear m_generation m_index (m_manager Q) of
        None \<Rightarrow> None
      | Some (Inl e) \<Rightarrow> Some (Inl e)
      | Some (Inr (None, qm)) \<Rightarrow> Some (Inr (poppedItems, Q\<lparr>m_manager := qm\<rparr>))
      | Some (Inr (Some (generation, index), qm)) \<Rightarrow>
          (case commitPopIndex generation index qm of
             Inl e \<Rightarrow> Some (Inl e)
           | Inr qm \<Rightarrow> QueuePushGuard_clear m_generation m_index (Suc poppedItems)
                        (Q\<lparr>m_data := (m_data Q)[unat index := None], m_manager := qm\<rparr>)))"

text \<open>The destructor of a push guard that has not been released.\<close>

definition QueuePushGuard_dtor :: "u32 \<Rightarrow> u32 \<Rightarrow> 'a Queue \<Rightarrow> (exn + 'a Queue) option" where
  "QueuePushGuard_dtor m_generation m_index Q =
     (case QueuePushGuard_clear m_generation m_index 1 Q of
        None \<Rightarrow> None
      | Some (Inl e) \<Rightarrow> Some (Inl e)
      | Some (Inr (poppedItems, Q)) \<Rightarrow>
          Some (bind_exn (abortPushIndexReservation m_generation m_index (m_manager Q)) (\<lambda>qm.
            Inr (notify_pushers poppedItems (Q\<lparr>m_manager := qm\<rparr>)))))"

definition QueuePopGuard_dtor :: "u32 \<Rightarrow> u32 \<Rightarrow> 'a Queue \<Rightarrow> exn + 'a Queue" where
  "QueuePopGuard_dtor m_generation m_index Q =
     bind_exn (commitPopIndex m_generation m_index (m_manager Q)) (\<lambda>qm.
       let Q = Q\<lparr>m_data := (m_data Q)[unat m_index := None], m_manager := qm\<rparr>
       in Inr (if m_waitingPushers Q > 0 then notify_pushers 1 Q else Q))"

text \<open>
  \<open>ctor\<close> constructs the stored object from the argument, or throws. The guard is released
  right after the construction, so its destructor acts only when the construction throws.
\<close>

definition tryPushBack ::
  "('a \<Rightarrow> 'b option) \<Rightarrow> 'a \<Rightarrow> 'b Queue \<Rightarrow> (exn + QueueReturn blocking \<times> 'b Queue) option" where
  "tryPushBack ctor value Q =
     (case reservePushIndex (m_manager Q) of
        None \<Rightarrow> None
      | Some (Inl e) \<Rightarrow> Some (Inl e)
      | Some (Inr (retVal, generation, index, qm)) \<Rightarrow>
          let Q = Q\<lparr>m_manager := qm\<rparr>
          in if retVal \<noteq> Success then Some (Inr (Returned retVal, Q))
             else
               case ctor value of
                 None \<Rightarrow> map_option (\<lambda>r. bind_exn r (\<lambda>Q. Inr (Threw, Q))) (QueuePushGuard_dtor generation index Q)
               | Some x \<Rightarrow>
                   Some (bind_exn (commitPushIndex generation index (m_manager Q)) (\<lambda>qm.
                     let Q = Q\<lparr>m_data := (m_data Q)[unat index := Some x], m_manager := qm\<rparr>
                     in Inr (Returned Success,
                          if m_waitingPoppers Q > 0
                          then Q\<lparr>m_popSemaphore := Semaphore_notify (m_popSemaphore Q)\<rparr> else Q))))"

text \<open>Taking the object out of a cell that holds none would read raw storage.\<close>

definition take_front :: "u32 \<Rightarrow> u32 \<Rightarrow> 'a Queue \<Rightarrow> exn + 'a \<times> 'a Queue" where
  "take_front generation index Q =
     (case m_data Q ! unat index of
        None \<Rightarrow> Inl OutOfBounds
      | Some x \<Rightarrow> bind_exn (QueuePopGuard_dtor generation index Q) (\<lambda>Q. Inr (x, Q)))"

definition tryPopFront :: "'a Queue \<Rightarrow> (exn + 'a option \<times> 'a Queue) option" where
  "tryPopFront Q =
     (case reservePopIndex (m_manager Q) of
        None \<Rightarrow> None
      | Some (Inl e) \<Rightarrow> Some (Inl e)
      | Some (Inr (retVal, generation, index, qm)) \<Rightarrow>
          let Q = Q\<lparr>m_manager := qm\<rparr>
          in if retVal \<noteq> Success then Some (Inr (None, Q))
             else Some (bind_exn (take_front generation index Q) (\<lambda>(x, Q). Inr (Some x, Q))))"

definition Queue_capacity :: "'a Queue \<Rightarrow> nat" where
  "Queue_capacity Q = m_capacity (m_manager Q)"

definition Queue_size :: "'a Queue \<Rightarrow> exn + nat" where
  "Queue_size Q = QueueManager_size (m_manager Q)"

definition Queue_enabled :: "'a Queue \<Rightarrow> bool" where
  "Queue_enabled Q = QueueManager_enabled (m_manager Q)"

definition Queue_full :: "'a Queue \<Rightarrow> exn + bool" where
  "Queue_full Q = bind_exn (Queue_size Q) (\<lambda>n. Inr (Queue_capacity Q \<le> n))"

definition Queue_empty :: "'a Queue \<Rightarrow> exn + bool" where
  "Queue_empty Q = bind_exn (Queue_size Q) (\<lambda>n. Inr (0 \<ge> n))"

partial_function (option) pushBack ::
  "('a \<Rightarrow> 'b option) \<Rightarrow> 'a \<Rightarrow> 'b Queue \<Rightarrow> (exn + QueueReturn blocking \<times> 'b Queue) option" where
  "pushBack ctor value Q =
     (case tryPushBack ctor value Q of
        None \<Rightarrow> None
      | Some (Inl e) \<Rightarrow> Some (Inl e)
      | Some (Inr (retVal, Q)) \<Rightarrow>
          if retVal = Returned QueueDisabled \<or> retVal = Returned Success \<or> retVal = Threw
          then Some (Inr (retVal, Q))
          else
            let Q = Q\<lparr>m_waitingPushers := m_waitingPushers Q + 1\<rparr>
            in case Queue_full Q of
                 Inl e \<Rightarrow> Some (Inl e)
               | Inr f \<Rightarrow>
                   if f \<and> Queue_enabled Q
                   then case Semaphore_wait (m_pushSemaphore Q) of
                          None \<Rightarrow> Some (Inr (Blocked, Q))
                        | Some s \<Rightarrow>
                            pushBack ctor value
                              (Q\<lparr>m_pushSemaphore := s, m_waitingPushers := m_waitingPushers Q - 1\<rparr>)
                   else pushBack ctor value (Q\<lparr>m_waitingPushers := m_waitingPushers Q - 1\<rparr>))"

partial_function (option) popFront :: "'a Queue \<Rightarrow> (exn + 'a blocking \<times> 'a Queue) option" where
  "popFront Q =
     (case reservePopIndex (m_manager Q) of
        None \<Rightarrow> None
      | Some (Inl e) \<Rightarrow> Some (Inl e)
      | Some (Inr (retVal, generation, index, qm)) \<Rightarrow>
          let Q = Q\<lparr>m_manager := qm\<rparr>
          in if retVal = Success
             then Some (bind_exn (take_front generation index Q) (\<lambda>(x, Q). Inr (Returned x, Q)))
             else
               let Q = Q\<lparr>m_waitingPoppers := m_waitingPoppers Q + 1\<rparr>
               in case Queue_empty Q of
                    Inl e \<Rightarrow> Some (Inl e)
                  | Inr e \<Rightarrow>
                      if e
                      then case Semaphore_wait (m_popSemaphore Q) of
                             None \<Rightarrow> Some (Inr (Blocked, Q))
                           | Some s \<Rightarrow>
                               popFront (Q\<lparr>m_popSemaphore := s,
                                          m_waitingPoppers := m_waitingPoppers Q - 1\<rparr>)
                      else popFront (Q\<lparr>m_waitingPoppers := m_waitingPoppers Q - 1\<rparr>))"

partial_function (option) popFrontWithTimeout_loop ::
  "bool \<Rightarrow> 'a Queue \<Rightarrow> (exn + 'a option \<times> 'a Queue) option" where
  "popFrontWithTimeout_loop secondTry Q =
     (case reservePopIndex (m_manager Q) of
        None \<Rightarrow> None
      | Some (Inl e) \<Rightarrow> Some (Inl e)
      | Some (Inr (retVal, generation, index, qm)) \<Rightarrow>
          let Q = Q\<lparr>m_manager := qm\<rparr>
          in if retVal = Success
             then Some (bind_exn (take_front generation index Q) (\<lambda>(x, Q). Inr (Some x, Q)))
             else if secondTry then Some (Inr (None, Q))
             else
               let Q = Q\<lparr>m_waitingPoppers := m_waitingPoppers Q + 1\<rparr>
               in case Queue_empty Q of
                    Inl e \<Rightarrow> Some (Inl e)
                  | Inr e \<Rightarrow>
                      if e
                      then popFrontWithTimeout_loop True
                             (Q\<lparr>m_popSemaphore := snd (Semaphore_waitFor (m_popSemaphore Q)),
                                m_waitingPoppers := m_waitingPoppers Q - 1\<rparr>)
                      else popFrontWithTimeout_loop False
                             (Q\<lparr>m_waitingPoppers := m_waitingPoppers Q - 1\<rparr>))"

definition popFrontWithTimeout :: "'a Queue \<Rightarrow> (exn + 'a option \<times> 'a Queue) option" where
  "popFrontWithTimeout Q = popFrontWithTimeout_loop False Q"

partial_function (option) removeAll_loop ::
  "nat \<Rightarrow> u32 \<Rightarrow> 'a Queue \<Rightarrow> (exn + u32 \<times> 'a Queue) option" where
  "removeAll_loop elemCount poppedItems Q =
     (if \<not> unat poppedItems < elemCount then Some (Inr (poppedItems + 1, Q))
      else
        case reservePopIndex (m_manager Q) of
          None \<Rightarrow> None
        | Some (Inl e) \<Rightarrow> Some (Inl e)
        | Some (Inr (retVal, generation, index, qm)) \<Rightarrow>
            if retVal \<noteq> Success then Some (Inr (poppedItems + 1, Q\<lparr>m_manager := qm\<rparr>))
            else
              case commitPopIndex generation index qm of
                Inl e \<Rightarrow> Some (Inl e)
              | Inr qm \<Rightarrow>
                  removeAll_loop elemCount (poppedItems + 1)
                    (Q\<lparr>m_data := (m_data Q)[unat index := None], m_manager := qm\<rparr>))"

definition removeAll :: "'a Queue \<Rightarrow> (exn + 'a Queue) option" where
  "removeAll Q =
     (case Queue_size Q of
        Inl e \<Rightarrow> Some (Inl e)
      | Inr elemCount \<Rightarrow>
          (case removeAll_loop elemCount 0 Q of
             None \<Rightarrow> None
           | Some (Inl e) \<Rightarrow> Some (Inl e)
           | Some (Inr (poppedItems, Q)) \<Rightarrow>
               Some (Inr (notify_pushers (unat (min poppedItems (m_waitingPushers Q))) Q))))"

definition Queue_disable :: "'a Queue \<Rightarrow> 'a Queue" where
  "Queue_disable Q =
     (let Q = Q\<lparr>m_manager := QueueManager_disable (m_manager Q)\<rparr>
      in notify_pushers (unat (m_waitingPushers Q)) Q)"

definition Queue_enable :: "'a Queue \<Rightarrow> 'a Queue" where
  "Queue_enable Q = Q\<lparr>m_manager := QueueManager_enable (m_manager Q)\<rparr>"

text \<open>A thread that slept in \<^verbatim>\<open>m_pushSemaphore.wait()\<close> runs on.\<close>

definition pushBack_resume ::
  "('a \<Rightarrow> 'b option) \<Rightarrow> 'a \<Rightarrow> 'b Queue \<Rightarrow> (exn + QueueReturn blocking \<times> 'b Queue) option" where
  "pushBack_resume ctor value Q =
     (case Semaphore_wait (m_pushSemaphore Q) of
        None \<Rightarrow> Some (Inr (Blocked, Q))
      | Some s \<Rightarrow> pushBack ctor value
                    (Q\<lparr>m_pushSemaphore := s, m_waitingPushers := m_waitingPushers Q - 1\<rparr>))"


section \<open>The cells of the storage\<close>

definition data_ok :: "nat \<Rightarrow> nat \<Rightarrow> 'a option list \<Rightarrow> 'a list \<Rightarrow> bool" where
  "data_ok cap q cells xs \<longleftrightarrow>
     length cells = cap \<and> (\<forall>k<length xs. cells ! ((q + k) mod cap) = Some (xs ! k))"

lemma data_push:
  assumes "data_ok cap q cells xs" and "length xs < cap"
  shows "data_ok cap q (cells[(q + length xs) mod cap := Some x]) (xs @ [x])"
  unfolding data_ok_def
proof (intro conjI allI impI)
  show "length (cells[(q + length xs) mod cap := Some x]) = cap" using assms by (simp add: data_ok_def)
  fix k
  assume k: "k < length (xs @ [x])"
  show "cells[(q + length xs) mod cap := Some x] ! ((q + k) mod cap) = Some ((xs @ [x]) ! k)"
  proof (cases "k = length xs")
    case True
    then show ?thesis using assms by (simp add: data_ok_def)
  next
    case False
    with k have "k < length xs" by simp
    moreover from this have "(q + k) mod cap \<noteq> (q + length xs) mod cap"
      using ring_index_inject [of k cap "length xs" q] assms(2) by auto
    ultimately show ?thesis using assms by (simp add: data_ok_def nth_append)
  qed
qed

lemma data_front: "data_ok cap q cells (x # xs) \<Longrightarrow> cells ! (q mod cap) = Some x"
  by (force simp: data_ok_def)

lemma data_pop:
  assumes "data_ok cap q cells (x # xs)" and "length (x # xs) \<le> cap"
  shows "data_ok cap ((q + 1) mod cycle cap) (cells[q mod cap := y]) xs"
  unfolding data_ok_def
proof (intro conjI allI impI)
  show "length (cells[q mod cap := y]) = cap" using assms by (simp add: data_ok_def)
  fix k
  assume k: "k < length xs"
  have "((q + 1) mod cycle cap + k) mod cap = (q + Suc k) mod cap"
    by (metis cycle_mod_cap mod_add_left_eq add_Suc_right add_Suc add.commute plus_1_eq_Suc)
  moreover have "(q + Suc k) mod cap \<noteq> q mod cap"
    using ring_index_inject [of "Suc k" cap 0 q] k assms(2) by auto
  moreover have "cells ! ((q + Suc k) mod cap) = Some (xs ! k)"
    using assms(1) k unfolding data_ok_def by (metis Suc_less_eq length_Cons nth_Cons_Suc)
  ultimately show "cells[q mod cap := y] ! (((q + 1) mod cycle cap + k) mod cap) = Some (xs ! k)"
    by simp
qed


section \<open>The list a queue holds\<close>

definition holds :: "'a Queue \<Rightarrow> 'a list \<Rightarrow> bool" where
  "holds Q xs \<longleftrightarrow>
     (\<exists>q. qm_inv (m_manager Q) q (length xs) \<and> data_ok (m_capacity (m_manager Q)) q (m_data Q) xs)"

lemmas queue_defs = Queue_capacity_def Queue_size_def Queue_enabled_def Queue_full_def Queue_empty_def

lemma holds_only [simp]:
  "holds (Q\<lparr>m_waitingPoppers := a\<rparr>) xs = holds Q xs" "holds (Q\<lparr>m_popSemaphore := b\<rparr>) xs = holds Q xs"
  "holds (Q\<lparr>m_waitingPushers := a\<rparr>) xs = holds Q xs" "holds (Q\<lparr>m_pushSemaphore := b\<rparr>) xs = holds Q xs"
  "holds (notify_pushers n Q) xs = holds Q xs"
  by (simp_all add: holds_def notify_pushers_def)

lemma notify_pushers_sel [simp]:
  "m_data (notify_pushers n Q) = m_data Q" "m_manager (notify_pushers n Q) = m_manager Q"
  "m_waitingPushers (notify_pushers n Q) = m_waitingPushers Q"
  by (simp_all add: notify_pushers_def)

lemma holds_bound: "holds Q xs \<Longrightarrow> length xs \<le> Queue_capacity Q \<and> 0 < Queue_capacity Q"
  using cycle_bounds(4) ring_okD(1) by (fastforce simp: holds_def qm_inv_def Queue_capacity_def)

lemma Queue_size_eq: "holds Q xs \<Longrightarrow> Queue_size Q = Inr (length xs)"
  by (auto simp: holds_def Queue_size_def QueueManager_size_eq)

lemma tryPushBack_disabled:
  "\<not> Queue_enabled Q \<Longrightarrow> tryPushBack ctor v Q = Some (Inr (Returned QueueDisabled, Q))"
  by (simp add: tryPushBack_def Queue_enabled_def reservePushIndex_disabled)

lemma tryPushBack_full:
  assumes "holds Q xs" and "Queue_enabled Q" and "length xs = Queue_capacity Q"
  shows "tryPushBack ctor v Q = Some (Inr (Returned QueueFull, Q))"
  using assms by (auto simp: tryPushBack_def queue_defs holds_def dest: reservePushIndex_full)

text \<open>The reservation made, a construction that succeeds ends in the appended element.\<close>

lemma reserve_cell:
  assumes "holds Q xs" and "Queue_enabled Q" and "length xs < Queue_capacity Q"
  defines "cap \<equiv> Queue_capacity Q"
  obtains q qm where "reservePushIndex (m_manager Q) =
      Some (Inr (Success, of_nat ((q + length xs) mod cycle cap div cap), of_nat ((q + length xs) mod cap), qm))"
    and "reserving qm q (length xs)" and "QueueManager_enabled qm" and "m_capacity qm = cap"
    and "data_ok cap q (m_data Q) xs" and "cap_ok cap"
proof -
  obtain q where q: "qm_inv (m_manager Q) q (length xs)" "data_ok cap q (m_data Q) xs"
    using assms by (auto simp: holds_def cap_def Queue_capacity_def)
  moreover have "cap_ok cap" using q(1) ring_okD(1) by (fastforce simp: qm_inv_def cap_def Queue_capacity_def)
  moreover note reservePushIndex_success [OF q(1)] assms(2,3)
  ultimately show thesis using that by (force simp: cap_def queue_defs)
qed

lemma tryPushBack_stored:
  assumes "holds Q xs" and "Queue_enabled Q" and "length xs < Queue_capacity Q" and "ctor v = Some x"
  shows "\<exists>Q'. tryPushBack ctor v Q = Some (Inr (Returned Success, Q')) \<and> holds Q' (xs @ [x]) \<and>
    Queue_capacity Q' = Queue_capacity Q \<and> Queue_enabled Q' \<and> m_waitingPushers Q' = m_waitingPushers Q"
proof -
  define cap where "cap = Queue_capacity Q"
  obtain q qm where r: "reservePushIndex (m_manager Q) =
      Some (Inr (Success, of_nat ((q + length xs) mod cycle cap div cap), of_nat ((q + length xs) mod cap), qm))"
    "reserving qm q (length xs)" "QueueManager_enabled qm" "m_capacity qm = cap"
    "data_ok cap q (m_data Q) xs" "cap_ok cap"
    using reserve_cell [OF assms(1-3)] unfolding cap_def by metis
  obtain qm' where c: "commitPushIndex (of_nat ((q + length xs) mod cycle cap div cap))
      (of_nat ((q + length xs) mod cap)) qm = Inr qm'"
    "qm_inv qm' q (Suc (length xs))" "m_capacity qm' = cap" "m_pushIndex qm' = m_pushIndex qm"
    using commitPushIndex_success [OF r(2)] r(4) by auto
  have d: "data_ok cap q ((m_data Q)[(q + length xs) mod cap := Some x]) (xs @ [x])"
    using data_push [OF r(5)] assms(3) by (simp add: cap_def)
  have "QueueManager_enabled qm'" using r(3) c(4) by (simp add: QueueManager_enabled_def)
  with r c d show ?thesis
    by (auto simp: tryPushBack_def assms(4) holds_def Let_def unat_ring_index Queue_capacity_def
        Queue_enabled_def cap_def [unfolded Queue_capacity_def, symmetric])
qed

lemma QueuePushGuard_clear_ok:
  assumes "reserving (m_manager Q) q (length xs)"
    and "data_ok (m_capacity (m_manager Q)) q (m_data Q) xs"
  defines "cap \<equiv> m_capacity (m_manager Q)"
  shows "\<exists>Q' q'. QueuePushGuard_clear (of_nat ((q + length xs) mod cycle cap div cap))
      (of_nat ((q + length xs) mod cap)) p Q = Some (Inr (p + length xs, Q')) \<and>
    reserving (m_manager Q') q' 0 \<and> (q + length xs) mod cycle cap = q' \<and>
    length (m_data Q') = cap \<and> m_capacity (m_manager Q') = cap \<and>
    m_pushIndex (m_manager Q') = m_pushIndex (m_manager Q)"
  using assms(1,2) unfolding cap_def
proof (induction xs arbitrary: Q q p)
  case Nil
  have "q < cycle (m_capacity (m_manager Q))" using Nil(1) by (simp add: reserving_def ring_ok_def)
  then show ?case
    using Nil reservePopForClear_stop [of "m_manager Q" q]
    by (subst QueuePushGuard_clear.simps) (auto simp: data_ok_def)
next
  case (Cons x xs)
  let ?cap = "m_capacity (m_manager Q)"
  let ?g = "of_nat ((q + length (x # xs)) mod cycle ?cap div ?cap) :: u32"
  let ?i = "of_nat ((q + length (x # xs)) mod ?cap) :: u32"
  have cap: "cap_ok ?cap" and n: "length (x # xs) \<le> ?cap"
    using Cons.prems(1) by (auto simp: reserving_def ring_ok_def)
  obtain qm' qm'' where s: "reservePopForClear ?g ?i (m_manager Q) =
      Some (Inr (Some (of_nat (q div ?cap), of_nat (q mod ?cap)), qm'))"
    "commitPopIndex (of_nat (q div ?cap)) (of_nat (q mod ?cap)) qm' = Inr qm''"
    "reserving qm'' ((q + 1) mod cycle ?cap) (length xs)" "m_capacity qm'' = ?cap"
    "m_pushIndex qm'' = m_pushIndex (m_manager Q)"
    using reservePopForClear_step [of "m_manager Q" q "length xs"] Cons.prems(1) by auto
  define Q'' where "Q'' = Q\<lparr>m_data := (m_data Q)[q mod ?cap := None], m_manager := qm''\<rparr>"
  have "((q + 1) mod cycle ?cap + length xs) mod cycle ?cap = (q + length (x # xs)) mod cycle ?cap"
    using mod_add_left_eq [of "q + 1" "cycle ?cap" "length xs"] by simp
  moreover have "((q + 1) mod cycle ?cap + length xs) mod ?cap = (q + length (x # xs)) mod ?cap"
    by (metis calculation cycle_mod_cap)
  moreover note Cons.IH [of Q'' "(q + 1) mod cycle ?cap" "Suc p"]
    data_pop [OF Cons.prems(2) n, of None] s(3,4,5)
  ultimately show ?case
    using s(1,2) by (subst QueuePushGuard_clear.simps) (simp add: unat_ring_index [OF cap] Q''_def)
qed

lemma tryPushBack_threw:
  assumes "holds Q xs" and "Queue_enabled Q" and "length xs < Queue_capacity Q" and "ctor v = None"
  shows "\<exists>Q'. tryPushBack ctor v Q = Some (Inr (Threw, Q')) \<and> holds Q' [] \<and>
    Queue_capacity Q' = Queue_capacity Q \<and> Queue_enabled Q'"
proof -
  define cap where "cap = Queue_capacity Q"
  obtain q qm where r: "reservePushIndex (m_manager Q) =
      Some (Inr (Success, of_nat ((q + length xs) mod cycle cap div cap), of_nat ((q + length xs) mod cap), qm))"
    "reserving qm q (length xs)" "QueueManager_enabled qm" "m_capacity qm = cap"
    "data_ok cap q (m_data Q) xs" "cap_ok cap"
    using reserve_cell [OF assms(1-3)] unfolding cap_def by metis
  let ?g = "of_nat ((q + length xs) mod cycle cap div cap) :: u32" and ?i = "of_nat ((q + length xs) mod cap) :: u32"
  obtain Q' q' where c: "QueuePushGuard_clear ?g ?i 1 (Q\<lparr>m_manager := qm\<rparr>) = Some (Inr (1 + length xs, Q'))"
    "reserving (m_manager Q') q' 0" "(q + length xs) mod cycle cap = q'" "length (m_data Q') = cap"
    "m_capacity (m_manager Q') = cap" "m_pushIndex (m_manager Q') = m_pushIndex qm"
    using QueuePushGuard_clear_ok [of "Q\<lparr>m_manager := qm\<rparr>" q xs 1] r by auto
  have i: "(q + length xs) mod cap = q' mod cap" by (simp add: c(3) [symmetric] cycle_mod_cap)
  obtain qm' where a: "abortPushIndexReservation ?g ?i (m_manager Q') = Inr qm'"
    "qm_inv qm' ((q' + 1) mod cycle cap) 0" "m_capacity qm' = cap" "m_pushIndex qm' = m_pushIndex (m_manager Q')"
    using abortPushIndexReservation_ok [OF c(2)] c(5) unfolding i by (auto simp: c(3) [symmetric])
  have "QueueManager_enabled qm'" using r(3) a(4) c(6) by (simp add: QueueManager_enabled_def)
  moreover have "tryPushBack ctor v Q = Some (Inr (Threw, notify_pushers (1 + length xs) (Q'\<lparr>m_manager := qm'\<rparr>)))"
    using r(1) c(1) a(1) by (simp add: tryPushBack_def assms(4) QueuePushGuard_dtor_def)
  ultimately show ?thesis
    using a c(4) unfolding cap_def [symmetric] by (auto simp: holds_def data_ok_def queue_defs)
qed

lemma pop_reserved:
  assumes "holds Q (x # xs)"
  defines "cap \<equiv> Queue_capacity Q"
  obtains q qm qm' where "reservePopIndex (m_manager Q) = Some (Inr (Success, of_nat (q div cap), of_nat (q mod cap), qm))"
    and "commitPopIndex (of_nat (q div cap)) (of_nat (q mod cap)) qm = Inr qm'"
    and "qm_inv qm' ((q + 1) mod cycle cap) (length xs)" and "m_capacity qm' = cap"
    and "m_pushIndex qm' = m_pushIndex (m_manager Q)"
    and "data_ok cap q (m_data Q) (x # xs)" and "unat (of_nat (q mod cap) :: u32) = q mod cap"
    and "data_ok cap ((q + 1) mod cycle cap) ((m_data Q)[q mod cap := None]) xs"
proof -
  obtain q where q: "qm_inv (m_manager Q) q (Suc (length xs))" "data_ok cap q (m_data Q) (x # xs)"
    using assms by (auto simp: holds_def cap_def Queue_capacity_def)
  have cap: "cap_ok cap" and n: "length (x # xs) \<le> cap"
    using q(1) by (auto simp: qm_inv_def ring_ok_def cap_def Queue_capacity_def)
  obtain qm where p: "reservePopIndex (m_manager Q) = Some (Inr (Success, of_nat (q div cap), of_nat (q mod cap), qm))"
    "popping qm q ((\<lambda>k. if k < Suc (length xs) then Full else Empty)(0 := Reading))" "m_capacity qm = cap"
    "m_pushIndex qm = m_pushIndex (m_manager Q)"
    using reservePopIndex_success [OF q(1)] by (auto simp: cap_def Queue_capacity_def)
  obtain qm' where c: "commitPopIndex (of_nat (q div cap)) (of_nat (q mod cap)) qm = Inr qm'"
    "ring_ok qm' ((q + 1) mod cycle cap) (\<lambda>k. if Suc k = cap then Empty
       else ((\<lambda>k. if k < Suc (length xs) then Full else Empty)(0 := Reading)) (Suc k))"
    "m_popIndex qm' = of_nat ((q + 1) mod cycle cap)" "m_pushIndex qm' = m_pushIndex qm" "m_capacity qm' = cap"
    using commitPopIndex_success [OF p(2)] p(3) by blast
  have "qm_inv qm' ((q + 1) mod cycle cap) (length xs)"
    using qm_inv_popped [OF q(1)] c p(4) by (simp add: cap_def Queue_capacity_def)
  moreover have "m_pushIndex qm' = m_pushIndex (m_manager Q)" using c(4) p(4) by simp
  ultimately show thesis
    using p(1) c(1,5) q(2) unat_ring_index [OF cap] data_pop [OF q(2) n] by (intro that)
qed

lemma take_front_ok:
  assumes "commitPopIndex g (of_nat (q mod cap)) qm = Inr qm'" and "qm_inv qm' q' (length xs)"
    and "m_capacity qm' = cap" and "unat (of_nat (q mod cap) :: u32) = q mod cap"
    and "data_ok cap q (m_data Q) (x # xs)" and "data_ok cap q' ((m_data Q)[q mod cap := None]) xs"
  shows "\<exists>Q'. take_front g (of_nat (q mod cap)) (Q\<lparr>m_manager := qm\<rparr>) = Inr (x, Q') \<and> holds Q' xs \<and>
    m_manager Q' = qm' \<and> m_waitingPushers Q' = m_waitingPushers Q \<and>
    m_pushSemaphore Q' = (if m_waitingPushers Q > 0 then Semaphore_notify (m_pushSemaphore Q) else m_pushSemaphore Q)"
  using assms data_front [OF assms(5)]
  by (auto simp: take_front_def QueuePopGuard_dtor_def holds_def Let_def notify_pushers_def)

lemma tryPopFront_some:
  assumes "holds Q (x # xs)"
  shows "\<exists>Q'. tryPopFront Q = Some (Inr (Some x, Q')) \<and> holds Q' xs \<and>
    Queue_capacity Q' = Queue_capacity Q \<and> Queue_enabled Q' = Queue_enabled Q \<and>
    m_waitingPushers Q' = m_waitingPushers Q \<and>
    m_pushSemaphore Q' = (if m_waitingPushers Q > 0 then Semaphore_notify (m_pushSemaphore Q) else m_pushSemaphore Q)"
proof (rule pop_reserved [OF assms])
  define cap where "cap = Queue_capacity Q"
  fix q qm qm'
  assume a: "reservePopIndex (m_manager Q) =
      Some (Inr (Success, of_nat (q div Queue_capacity Q), of_nat (q mod Queue_capacity Q), qm))"
    "commitPopIndex (of_nat (q div Queue_capacity Q)) (of_nat (q mod Queue_capacity Q)) qm = Inr qm'"
    "qm_inv qm' ((q + 1) mod cycle (Queue_capacity Q)) (length xs)" "m_capacity qm' = Queue_capacity Q"
    "m_pushIndex qm' = m_pushIndex (m_manager Q)"
    "data_ok (Queue_capacity Q) q (m_data Q) (x # xs)"
    "unat (of_nat (q mod Queue_capacity Q) :: u32) = q mod Queue_capacity Q"
    "data_ok (Queue_capacity Q) ((q + 1) mod cycle (Queue_capacity Q)) ((m_data Q)[q mod Queue_capacity Q := None]) xs"
  from take_front_ok [OF a(2-4,7,6,8)] a(1,4,5)
  show ?thesis
    by (auto simp: tryPopFront_def Queue_enabled_def QueueManager_enabled_def Queue_capacity_def)
qed

lemma reservePop_none: "holds Q [] \<Longrightarrow> reservePopIndex (m_manager Q) = Some (Inr (QueueEmpty, 0, 0, m_manager Q))"
  by (auto simp: holds_def dest: reservePopIndex_empty)

lemma tryPopFront_none: "holds Q [] \<Longrightarrow> tryPopFront Q = Some (Inr (None, Q))"
  by (simp add: tryPopFront_def reservePop_none)

lemma removeAll_loop_ok:
  assumes "holds Q xs" and "unat p + length xs = n" and "n < 2 ^ 32"
  shows "\<exists>Q'. removeAll_loop n p Q = Some (Inr (of_nat n + 1, Q')) \<and> holds Q' [] \<and>
    Queue_capacity Q' = Queue_capacity Q \<and> Queue_enabled Q' = Queue_enabled Q"
  using assms
proof (induction xs arbitrary: Q p)
  case Nil
  moreover from Nil have "p = of_nat n" by auto
  ultimately show ?case by (subst removeAll_loop.simps) simp
next
  case (Cons x xs)
  have p: "unat p < n" "unat (p + 1) = Suc (unat p)"
    using Cons.prems(2,3) by (auto simp: unat_word_ariths)
  show ?case
  proof (rule pop_reserved [OF Cons.prems(1)])
    fix q qm qm'
    assume a: "reservePopIndex (m_manager Q) =
        Some (Inr (Success, of_nat (q div Queue_capacity Q), of_nat (q mod Queue_capacity Q), qm))"
      "commitPopIndex (of_nat (q div Queue_capacity Q)) (of_nat (q mod Queue_capacity Q)) qm = Inr qm'"
      "qm_inv qm' ((q + 1) mod cycle (Queue_capacity Q)) (length xs)" "m_capacity qm' = Queue_capacity Q"
      "m_pushIndex qm' = m_pushIndex (m_manager Q)"
      "unat (of_nat (q mod Queue_capacity Q) :: u32) = q mod Queue_capacity Q"
      "data_ok (Queue_capacity Q) ((q + 1) mod cycle (Queue_capacity Q)) ((m_data Q)[q mod Queue_capacity Q := None]) xs"
    define Q' where "Q' = Q\<lparr>m_data := (m_data Q)[q mod Queue_capacity Q := None], m_manager := qm'\<rparr>"
    have "holds Q' xs" using a by (auto simp: holds_def Q'_def)
    from Cons.IH [OF this, of "p + 1"] Cons.prems(2,3) p(2) a(4,5)
    have "\<exists>Q''. removeAll_loop n (p + 1) Q' = Some (Inr (of_nat n + 1, Q'')) \<and> holds Q'' [] \<and>
        Queue_capacity Q'' = Queue_capacity Q \<and> Queue_enabled Q'' = Queue_enabled Q"
      by (simp add: Q'_def queue_defs QueueManager_enabled_def)
    then show ?thesis
      using a(1,2,6) p(1) by (subst removeAll_loop.simps) (simp add: Q'_def)
  qed
qed

lemma removeAll_ok:
  assumes "holds Q xs"
  shows "\<exists>Q'. removeAll Q = Some (Inr Q') \<and> holds Q' [] \<and>
    Queue_capacity Q' = Queue_capacity Q \<and> Queue_enabled Q' = Queue_enabled Q"
proof -
  have "cap_ok (Queue_capacity Q)" "length xs \<le> Queue_capacity Q"
    using assms by (auto simp: holds_def qm_inv_def ring_ok_def Queue_capacity_def)
  then have "length xs < 2 ^ 32" by (simp add: cap_ok_def)
  with removeAll_loop_ok [OF assms, of 0 "length xs"] show ?thesis
    by (auto simp: removeAll_def Queue_size_eq [OF assms] Queue_capacity_def Queue_enabled_def)
qed

lemma disable_enable_capacity [simp]:
  "m_capacity (QueueManager_disable qm) = m_capacity qm" "m_capacity (QueueManager_enable qm) = m_capacity qm"
  by (simp_all add: QueueManager_disable_def QueueManager_enable_def Let_def split_beta)

lemma Queue_disable_ok:
  assumes "holds Q xs"
  shows "holds (Queue_disable Q) xs" and "\<not> Queue_enabled (Queue_disable Q)"
    and "Queue_capacity (Queue_disable Q) = Queue_capacity Q"
  using assms QueueManager_disable_ok by (auto simp: Queue_disable_def holds_def queue_defs Let_def)

lemma Queue_enable_ok:
  assumes "holds Q xs"
  shows "holds (Queue_enable Q) xs" and "Queue_enabled (Queue_enable Q)"
    and "Queue_capacity (Queue_enable Q) = Queue_capacity Q"
  using assms QueueManager_enable_ok by (auto simp: Queue_enable_def holds_def queue_defs)

lemma new_Queue_ok:
  assumes "cap_ok cap"
  shows "\<exists>Q. new_Queue cap = Inr Q \<and> holds Q [] \<and> Queue_capacity Q = cap \<and> Queue_enabled Q"
  using new_QueueManager_ok [OF assms] by (auto simp: new_Queue_def holds_def data_ok_def queue_defs)

lemma Queue_full_eq: "holds Q xs \<Longrightarrow> Queue_full Q = Inr (Queue_capacity Q \<le> length xs)"
  by (simp add: Queue_full_def Queue_size_eq)

lemma Queue_empty_eq: "holds Q xs \<Longrightarrow> Queue_empty Q = Inr (xs = [])"
  by (simp add: Queue_empty_def Queue_size_eq)

lemma waiting_frame [simp]:
  "Queue_capacity (Q\<lparr>m_waitingPushers := a\<rparr>) = Queue_capacity Q"
  "Queue_capacity (Q\<lparr>m_pushSemaphore := b\<rparr>) = Queue_capacity Q"
  "Queue_enabled (Q\<lparr>m_waitingPushers := a\<rparr>) = Queue_enabled Q"
  "Queue_enabled (Q\<lparr>m_pushSemaphore := b\<rparr>) = Queue_enabled Q"
  "Queue_capacity (Q\<lparr>m_waitingPoppers := a\<rparr>) = Queue_capacity Q"
  "Queue_capacity (Q\<lparr>m_popSemaphore := b\<rparr>) = Queue_capacity Q"
  "Queue_enabled (Q\<lparr>m_waitingPoppers := a\<rparr>) = Queue_enabled Q"
  "Queue_enabled (Q\<lparr>m_popSemaphore := b\<rparr>) = Queue_enabled Q"
  by (simp_all add: Queue_capacity_def Queue_enabled_def)

text \<open>
  The blocking operations return what the trying ones return, except on a full (empty)
  queue, where they use up the notifications that are pending and then sleep: the loops end.
\<close>

lemma pushBack_nonfull:
  assumes "tryPushBack ctor v Q = Some (Inr (r, Q'))"
    and "r = Returned QueueDisabled \<or> r = Returned Success \<or> r = Threw"
  shows "pushBack ctor v Q = Some (Inr (r, Q'))"
  using assms by (subst pushBack.simps) auto

lemma word_pred_induct [case_names zero pred]:
  assumes "P 0" and "\<And>w. w > 0 \<Longrightarrow> P (w - 1) \<Longrightarrow> P w"
  shows "P (w :: 'a::len word)"
proof (induction "unat w" arbitrary: w)
  case 0
  then show ?case using assms(1) by (simp add: unat_eq_0)
next
  case (Suc n)
  then have "w > 0" by (metis nat.simps(3) unat_0 word_gt_0)
  moreover from this Suc have "P (w - 1)" by (intro Suc(1)) (simp add: unat_minus_one word_gt_0)
  ultimately show ?case by (rule assms(2))
qed

lemma drained_semaphore:
  "m_count (m_pushSemaphore Q) = 0 \<Longrightarrow>
     Q\<lparr>m_waitingPushers := a, m_pushSemaphore := (m_pushSemaphore Q)\<lparr>m_count := 0\<rparr>\<rparr> = Q\<lparr>m_waitingPushers := a\<rparr>"
  "m_count (m_popSemaphore Q) = 0 \<Longrightarrow>
     Q\<lparr>m_waitingPoppers := a, m_popSemaphore := (m_popSemaphore Q)\<lparr>m_count := 0\<rparr>\<rparr> = Q\<lparr>m_waitingPoppers := a\<rparr>"
  by simp_all

lemma pushBack_full:
  assumes "holds Q xs" and "Queue_enabled Q" and "length xs = Queue_capacity Q"
  shows "pushBack ctor v Q = Some (Inr (Blocked,
    Q\<lparr>m_waitingPushers := m_waitingPushers Q + 1, m_pushSemaphore := (m_pushSemaphore Q)\<lparr>m_count := 0\<rparr>\<rparr>))"
  using assms
proof (induction "m_count (m_pushSemaphore Q)" arbitrary: Q rule: word_pred_induct)
  case zero
  note zero(1) [symmetric]
  moreover note zero(2-4) tryPushBack_full [OF zero(2-4), of ctor v]
  ultimately show ?case
    by (subst pushBack.simps) (simp add: Queue_full_eq [where xs = xs] Semaphore_wait_def drained_semaphore)
next
  case (pred Q)
  let ?s = "(m_pushSemaphore Q)\<lparr>m_count := m_count (m_pushSemaphore Q) - 1\<rparr>"
  from pred(1,3-5) show ?case
    using tryPushBack_full [OF pred(3-5), of ctor v] pred(2) [of "Q\<lparr>m_pushSemaphore := ?s,
        m_waitingPushers := m_waitingPushers Q\<rparr>"]
    by (subst pushBack.simps) (simp add: Queue_full_eq [where xs = xs] Semaphore_wait_def)
qed

lemma popFront_some:
  assumes "holds Q (x # xs)"
  shows "\<exists>Q'. popFront Q = Some (Inr (Returned x, Q')) \<and> tryPopFront Q = Some (Inr (Some x, Q'))"
proof -
  obtain Q' where t: "tryPopFront Q = Some (Inr (Some x, Q'))" using tryPopFront_some [OF assms] by blast
  then show ?thesis
    by (subst popFront.simps)
      (auto simp: tryPopFront_def Let_def bind_exn_Inr_iff split: option.splits sum.splits if_splits)
qed

lemma popFront_none:
  assumes "holds Q []"
  shows "popFront Q = Some (Inr (Blocked,
    Q\<lparr>m_waitingPoppers := m_waitingPoppers Q + 1, m_popSemaphore := (m_popSemaphore Q)\<lparr>m_count := 0\<rparr>\<rparr>))"
  using assms
proof (induction "m_count (m_popSemaphore Q)" arbitrary: Q rule: word_pred_induct)
  case zero
  note zero(1) [symmetric]
  moreover note zero(2) reservePop_none [OF zero(2)]
  ultimately show ?case
    by (subst popFront.simps) (simp add: Queue_empty_eq [where xs = "[]"] Semaphore_wait_def drained_semaphore)
next
  case (pred Q)
  let ?s = "(m_popSemaphore Q)\<lparr>m_count := m_count (m_popSemaphore Q) - 1\<rparr>"
  from pred(1,3) show ?case
    using reservePop_none [OF pred(3)] pred(2) [of "Q\<lparr>m_popSemaphore := ?s,
        m_waitingPoppers := m_waitingPoppers Q\<rparr>"]
    by (subst popFront.simps) (simp add: Queue_empty_eq [where xs = "[]"] Semaphore_wait_def)
qed

lemma popFrontWithTimeout_some:
  assumes "holds Q (x # xs)"
  shows "\<exists>Q'. popFrontWithTimeout Q = Some (Inr (Some x, Q')) \<and> tryPopFront Q = Some (Inr (Some x, Q'))"
proof -
  obtain Q' where t: "tryPopFront Q = Some (Inr (Some x, Q'))" using tryPopFront_some [OF assms] by blast
  then show ?thesis
    unfolding popFrontWithTimeout_def
    by (subst popFrontWithTimeout_loop.simps)
      (auto simp: tryPopFront_def Let_def bind_exn_Inr_iff split: option.splits sum.splits if_splits)
qed

lemma popFrontWithTimeout_none:
  assumes "holds Q []"
  shows "\<exists>Q'. popFrontWithTimeout Q = Some (Inr (None, Q')) \<and> holds Q' [] \<and>
    Queue_capacity Q' = Queue_capacity Q \<and> Queue_enabled Q' = Queue_enabled Q"
proof -
  define Q' where "Q' = Q\<lparr>m_popSemaphore := snd (Semaphore_waitFor (m_popSemaphore Q)),
      m_waitingPoppers := m_waitingPoppers Q\<rparr>"
  have h: "holds Q' []" using assms by (simp add: Q'_def)
  have "popFrontWithTimeout_loop True Q' = Some (Inr (None, Q'))"
    by (subst popFrontWithTimeout_loop.simps) (simp add: reservePop_none [OF h])
  then have "popFrontWithTimeout Q = Some (Inr (None, Q'))"
    unfolding popFrontWithTimeout_def using assms
    by (subst popFrontWithTimeout_loop.simps)
      (simp add: reservePop_none Queue_empty_eq [where xs = "[]"] Q'_def)
  then show ?thesis using h by (simp add: Q'_def)
qed


section \<open>The specification: a bounded first-in first-out list\<close>

record 'a fifo =
  items :: "'a list"
  limit :: nat
  accepting :: bool

datatype 'a queue_op =
    TryPush 'a | Push 'a | TryPop | Pop | PopTimeout | RemoveAll | Disable | Enable | Size

datatype 'b queue_out =
    Pushed "QueueReturn blocking" | Popped "'b blocking" | Tried "'b option" | Done | Count nat

definition fifo_push ::
  "('a \<Rightarrow> 'b option) \<Rightarrow> QueueReturn blocking \<Rightarrow> 'a \<Rightarrow> 'b fifo \<Rightarrow> QueueReturn blocking \<times> 'b fifo" where
  "fifo_push ctor on_full v f =
     (if \<not> accepting f then (Returned QueueDisabled, f)
      else if limit f \<le> length (items f) then (on_full, f)
      else case ctor v of
             None \<Rightarrow> (Threw, f\<lparr>items := []\<rparr>)
           | Some x \<Rightarrow> (Returned Success, f\<lparr>items := items f @ [x]\<rparr>))"

fun fifo_spec :: "('a \<Rightarrow> 'b option) \<Rightarrow> 'a queue_op \<Rightarrow> 'b fifo \<Rightarrow> 'b queue_out \<times> 'b fifo" where
  "fifo_spec ctor (TryPush v) f = apfst Pushed (fifo_push ctor (Returned QueueFull) v f)"
| "fifo_spec ctor (Push v) f = apfst Pushed (fifo_push ctor Blocked v f)"
| "fifo_spec ctor TryPop f =
     (case items f of [] \<Rightarrow> (Tried None, f) | x # xs \<Rightarrow> (Tried (Some x), f\<lparr>items := xs\<rparr>))"
| "fifo_spec ctor Pop f =
     (case items f of [] \<Rightarrow> (Popped Blocked, f) | x # xs \<Rightarrow> (Popped (Returned x), f\<lparr>items := xs\<rparr>))"
| "fifo_spec ctor PopTimeout f =
     (case items f of [] \<Rightarrow> (Tried None, f) | x # xs \<Rightarrow> (Tried (Some x), f\<lparr>items := xs\<rparr>))"
| "fifo_spec ctor RemoveAll f = (Done, f\<lparr>items := []\<rparr>)"
| "fifo_spec ctor Disable f = (Done, f\<lparr>accepting := False\<rparr>)"
| "fifo_spec ctor Enable f = (Done, f\<lparr>accepting := True\<rparr>)"
| "fifo_spec ctor Size f = (Count (length (items f)), f)"

definition answer :: "('r \<Rightarrow> 'o) \<Rightarrow> (exn + 'r \<times> 'q) option \<Rightarrow> ('o \<times> 'q) option" where
  "answer g r = (case r of Some (Inr (x, Q)) \<Rightarrow> Some (g x, Q) | _ \<Rightarrow> None)"

text \<open>An operation that loops or fails an assertion has no value.\<close>

fun queue_exec :: "('a \<Rightarrow> 'b option) \<Rightarrow> 'a queue_op \<Rightarrow> 'b Queue \<Rightarrow> ('b queue_out \<times> 'b Queue) option" where
  "queue_exec ctor (TryPush v) Q = answer Pushed (tryPushBack ctor v Q)"
| "queue_exec ctor (Push v) Q = answer Pushed (pushBack ctor v Q)"
| "queue_exec ctor TryPop Q = answer Tried (tryPopFront Q)"
| "queue_exec ctor Pop Q = answer Popped (popFront Q)"
| "queue_exec ctor PopTimeout Q = answer Tried (popFrontWithTimeout Q)"
| "queue_exec ctor RemoveAll Q =
     answer (\<lambda>_. Done) (map_option (\<lambda>r. bind_exn r (\<lambda>Q. Inr ((), Q))) (removeAll Q))"
| "queue_exec ctor Disable Q = Some (Done, Queue_disable Q)"
| "queue_exec ctor Enable Q = Some (Done, Queue_enable Q)"
| "queue_exec ctor Size Q = answer Count (Some (bind_exn (Queue_size Q) (\<lambda>n. Inr (n, Q))))"

definition queue_rel :: "'b Queue \<Rightarrow> 'b fifo \<Rightarrow> bool" where
  "queue_rel Q f \<longleftrightarrow> holds Q (items f) \<and> Queue_capacity Q = limit f \<and> Queue_enabled Q = accepting f"

lemma push_refines:
  assumes rel: "queue_rel Q f"
  shows "\<exists>Q'. tryPushBack ctor v Q = Some (Inr (fst (fifo_push ctor (Returned QueueFull) v f), Q')) \<and>
      queue_rel Q' (snd (fifo_push ctor (Returned QueueFull) v f))"
    and "\<exists>Q'. pushBack ctor v Q = Some (Inr (fst (fifo_push ctor Blocked v f), Q')) \<and>
      queue_rel Q' (snd (fifo_push ctor Blocked v f))"
proof -
  let ?tries = "\<exists>Q'. tryPushBack ctor v Q = Some (Inr (fst (fifo_push ctor (Returned QueueFull) v f), Q')) \<and>
      queue_rel Q' (snd (fifo_push ctor (Returned QueueFull) v f))"
  let ?wait = "\<exists>Q'. pushBack ctor v Q = Some (Inr (fst (fifo_push ctor Blocked v f), Q')) \<and>
      queue_rel Q' (snd (fifo_push ctor Blocked v f))"
  have h: "holds Q (items f)" and c: "Queue_capacity Q = limit f" and e: "Queue_enabled Q = accepting f"
    using rel by (simp_all add: queue_rel_def)
  consider (disabled) "\<not> accepting f" | (full) "accepting f" "length (items f) = Queue_capacity Q"
    | (room) "accepting f" "length (items f) < Queue_capacity Q"
    using holds_bound [OF h] by linarith
  then have "?tries \<and> ?wait"
  proof cases
    case disabled
    then show ?thesis
      using rel tryPushBack_disabled [of Q ctor v] e pushBack_nonfull [of ctor v Q] by (auto simp: fifo_push_def)
  next
    case full
    then show ?thesis
      using rel tryPushBack_full [OF h, of ctor v] pushBack_full [OF h, of ctor v] c e by (auto simp: fifo_push_def queue_rel_def)
  next
    case room
    then show ?thesis
      using tryPushBack_stored [OF h, of ctor v] tryPushBack_threw [OF h, of ctor v] pushBack_nonfull [of ctor v Q] c e
      by (cases "ctor v") (fastforce simp: fifo_push_def queue_rel_def)+
  qed
  then show ?tries and ?wait by auto
qed

lemma pop_refines:
  assumes "queue_rel Q f" and that: "p \<in> {TryPop, Pop, PopTimeout}"
  shows "\<exists>Q'. queue_exec ctor p Q = Some (fst (fifo_spec ctor p f), Q') \<and> queue_rel Q' (snd (fifo_spec ctor p f))"
proof (cases "items f")
  case Nil
  then show ?thesis
    using that assms tryPopFront_none [of Q] popFront_none [of Q] popFrontWithTimeout_none [of Q]
    by (auto simp: queue_rel_def answer_def)
next
  case (Cons x xs)
  then have h: "holds Q (x # xs)" using assms by (simp add: queue_rel_def)
  show ?thesis
    using that assms tryPopFront_some [OF h] popFront_some [OF h] popFrontWithTimeout_some [OF h] Cons
    by (fastforce simp: queue_rel_def answer_def)
qed

interpretation lq: refinement queue_rel "queue_exec ctor" "fifo_spec ctor" for ctor
proof
  fix Q :: "'a Queue" and f p
  assume rel: "queue_rel Q f"
  then have h: "holds Q (items f)" by (simp add: queue_rel_def)
  show "\<exists>Q'. queue_exec ctor p Q = Some (fst (fifo_spec ctor p f), Q') \<and> queue_rel Q' (snd (fifo_spec ctor p f))"
  proof (cases p)
    case RemoveAll
    then show ?thesis using rel removeAll_ok [OF h] by (auto simp: queue_rel_def answer_def)
  next
    case Disable
    then show ?thesis using rel Queue_disable_ok [OF h] by (auto simp: queue_rel_def)
  next
    case Enable
    then show ?thesis using rel Queue_enable_ok [OF h] by (auto simp: queue_rel_def)
  next
    case Size
    then show ?thesis using rel Queue_size_eq [OF h] by (auto simp: queue_rel_def answer_def)
  next
    case (TryPush v)
    then show ?thesis using push_refines(1) [OF rel, of ctor v] by (auto simp: answer_def)
  next
    case (Push v)
    then show ?thesis using push_refines(2) [OF rel, of ctor v] by (auto simp: answer_def)
  qed (rule pop_refines [OF rel], simp)+
qed


section \<open>Properties\<close>

text \<open>
  C11. The lock-free queue refines a bounded first-in first-out list. Built with any
  capacity up to a third of the index space, and driven by any sequence of trying and
  blocking pushes (whose construction may throw), pops, clears, size queries and switches,
  every operation returns, no assertion fails, and the answers are those of a list that is
  appended to and taken from the front: a full queue refuses, a disabled one reports so, an
  element whose construction throws empties the queue.
\<close>

theorem queue_refines_fifo:
  assumes "0 < cap" and "cap \<le> 2 ^ 31 div 3"
  shows "\<exists>Q Q'. new_Queue cap = Inr Q \<and>
    exec_all (queue_exec ctor) ops Q =
      Some (fst (spec_all (fifo_spec ctor) ops \<lparr>items = [], limit = cap, accepting = True\<rparr>), Q') \<and>
    queue_rel Q' (snd (spec_all (fifo_spec ctor) ops \<lparr>items = [], limit = cap, accepting = True\<rparr>))"
proof -
  have "cap_ok cap" using assms by (simp add: cap_ok_def)
  then obtain Q :: "'a Queue" where "new_Queue cap = Inr Q" "holds Q []" "Queue_capacity Q = cap" "Queue_enabled Q"
    using new_Queue_ok by blast
  with lq.exec_runs [of Q "\<lparr>items = [], limit = cap, accepting = True\<rparr>" ctor ops] show ?thesis
    by (auto simp: queue_rel_def)
qed

theorem queue_refines_fifo_witness:
  "\<exists>Q Q'. new_Queue 1 = Inr Q \<and>
    exec_all (queue_exec Some) [TryPush 5, TryPush (6 :: nat), Pop, Pop] Q =
      Some ([Pushed (Returned Success), Pushed (Returned QueueFull), Popped (Returned 5), Popped Blocked], Q') \<and>
    queue_rel Q' \<lparr>items = [], limit = 1, accepting = True\<rparr>"
  using queue_refines_fifo [of 1 Some "[TryPush 5, TryPush (6 :: nat), Pop, Pop]"]
  by (simp add: fifo_push_def)

text \<open>
  C12. A thread asleep in a blocking push is not forgotten: as soon as another thread pops,
  the semaphore it sleeps on is notified, and when it runs on its element is appended and
  the push reports success.
\<close>

theorem blocked_push_completes:
  assumes rel: "queue_rel Q f" and full: "accepting f" "length (items f) = limit f" and "ctor v = Some x"
    and counter: "m_waitingPushers Q < - 1"
  shows "\<exists>Q1 y Q2 Q3.
    pushBack ctor v Q = Some (Inr (Blocked, Q1)) \<and>
    tryPopFront Q1 = Some (Inr (Some y, Q2)) \<and>
    pushBack_resume ctor v Q2 = Some (Inr (Returned Success, Q3)) \<and>
    queue_rel Q3 (f\<lparr>items := tl (items f) @ [x]\<rparr>) \<and> m_waitingPushers Q3 = m_waitingPushers Q"
proof -
  have h: "holds Q (items f)" and c: "Queue_capacity Q = limit f" and e: "Queue_enabled Q"
    using rel full(1) by (simp_all add: queue_rel_def)
  have "0 < limit f" using holds_bound [OF h] c by simp
  with full(2) obtain y ys where f: "items f = y # ys" by (cases "items f") auto
  define Q1 where "Q1 = Q\<lparr>m_waitingPushers := m_waitingPushers Q + 1,
      m_pushSemaphore := (m_pushSemaphore Q)\<lparr>m_count := 0\<rparr>\<rparr>"
  have 1: "pushBack ctor v Q = Some (Inr (Blocked, Q1))"
    unfolding Q1_def by (rule pushBack_full [OF h e]) (simp add: full(2) c)
  have "holds Q1 (y # ys)" using h f by (simp add: Q1_def)
  moreover have "m_waitingPushers Q1 > 0"
    using counter by (auto simp: Q1_def word_gt_0 simp flip: eq_neg_iff_add_eq_0)
  ultimately obtain Q2 where 2: "tryPopFront Q1 = Some (Inr (Some y, Q2))" "holds Q2 ys"
    "Queue_capacity Q2 = limit f" "Queue_enabled Q2" "m_waitingPushers Q2 = m_waitingPushers Q + 1"
    "m_count (m_pushSemaphore Q2) = 1"
    using tryPopFront_some [of Q1 y ys] c e by (auto simp: Q1_def Semaphore_notify_def)
  define Q2' where "Q2' = Q2\<lparr>m_pushSemaphore := (m_pushSemaphore Q2)\<lparr>m_count := 0\<rparr>,
      m_waitingPushers := m_waitingPushers Q\<rparr>"
  have "holds Q2' ys" "Queue_enabled Q2'" "length ys < Queue_capacity Q2'"
    using 2 full(2) f by (simp_all add: Q2'_def)
  from tryPushBack_stored [where ctor = ctor and v = v, OF this \<open>ctor v = Some x\<close>] obtain Q3 where 3:
    "tryPushBack ctor v Q2' = Some (Inr (Returned Success, Q3))" "holds Q3 (ys @ [x])"
    "Queue_capacity Q3 = limit f" "Queue_enabled Q3" "m_waitingPushers Q3 = m_waitingPushers Q"
    using 2 by (auto simp: Q2'_def)
  have "pushBack_resume ctor v Q2 = Some (Inr (Returned Success, Q3))"
    using pushBack_nonfull [OF 3(1)] 2(5,6) by (simp add: pushBack_resume_def Semaphore_wait_def Q2'_def)
  with 1 2 3 full(1) f show ?thesis by (auto simp: queue_rel_def)
qed

theorem blocked_push_completes_witness:
  "\<exists>Q. queue_rel Q \<lparr>items = [7 :: nat], limit = 1, accepting = True\<rparr> \<and>
    (\<exists>Q1 y Q2 Q3.
      pushBack Some 8 Q = Some (Inr (Blocked, Q1)) \<and>
      tryPopFront Q1 = Some (Inr (Some y, Q2)) \<and>
      pushBack_resume Some 8 Q2 = Some (Inr (Returned Success, Q3)) \<and>
      queue_rel Q3 \<lparr>items = [8], limit = 1, accepting = True\<rparr>)"
proof -
  define qm where "qm = \<lparr>m_pushIndex = 1, m_popIndex = 0, m_capacity = 1,
    m_maxGeneration = of_nat (gens 1 - 1), m_maxCombinedIndex = of_nat (cycle 1 - 1), m_states = [elem 1 0 Full]\<rparr>"
  define Q where "Q = \<lparr>m_data = [Some (7 :: nat)], m_manager = qm,
    m_waitingPoppers = 0, m_popSemaphore = \<lparr>m_count = 0\<rparr>, m_waitingPushers = 0, m_pushSemaphore = \<lparr>m_count = 0\<rparr>\<rparr>"
  have "qm_inv qm 0 1"
    by (simp add: qm_inv_def qm_def ring_ok_def cap_ok_def cycle_def gens_def discardDisabledFlag_def
        DISABLED_STATE_MASK_def)
  then have rel: "queue_rel Q \<lparr>items = [7], limit = 1, accepting = True\<rparr>"
    by (auto simp: queue_rel_def holds_def Q_def data_ok_def queue_defs qm_def QueueManager_enabled_def
        isDisabledFlagSet_def DISABLED_STATE_MASK_def)
  moreover have "m_waitingPushers Q < - 1" by (simp add: Q_def word_gt_0)
  note blocked_push_completes [where ctor = Some and v = 8 and x = 8, OF rel _ _ _ this]
  ultimately show ?thesis by auto
qed

end
