(* ===== verification/Net_Int.thy ===== *)
theory Net_Int
  imports Belnet_Prelude
begin

text \<open>
  The integers of the network layer: the two-limb \<^verbatim>\<open>uint128_t\<close> of \<^verbatim>\<open>llarp/net/uint128.hpp\<close>, the
  bit counts of \<^verbatim>\<open>llarp/util/bits.hpp\<close>, the address conversions of \<^verbatim>\<open>llarp/net/ip.hpp\<close> and
  \<^verbatim>\<open>llarp/net/ip.cpp\<close> and the netmasks of \<^verbatim>\<open>llarp/net/net_bits.hpp\<close>. The wrappers
  \<^verbatim>\<open>huint_t\<close> and \<^verbatim>\<open>nuint_t\<close> hold one integer and forward every operator to it, so an address
  in host order is a \<open>uint128_t\<close> or a \<open>u32\<close> here. Every operation on the limbs is shown to be
  the operation on 128 bit words.
\<close>

section \<open>The two-limb integer\<close>

record uint128_t =
  lower :: u64
  upper :: u64

definition uint128 :: "u64 \<Rightarrow> u64 \<Rightarrow> uint128_t" where
  "uint128 u l = \<lparr>lower = l, upper = u\<rparr>"

definition uint128_and :: "uint128_t \<Rightarrow> uint128_t \<Rightarrow> uint128_t" where
  "uint128_and a b = a\<lparr>upper := upper a AND upper b, lower := lower a AND lower b\<rparr>"

definition uint128_or :: "uint128_t \<Rightarrow> uint128_t \<Rightarrow> uint128_t" where
  "uint128_or a b = a\<lparr>upper := upper a OR upper b, lower := lower a OR lower b\<rparr>"

definition uint128_xor :: "uint128_t \<Rightarrow> uint128_t \<Rightarrow> uint128_t" where
  "uint128_xor a b = a\<lparr>upper := upper a XOR upper b, lower := lower a XOR lower b\<rparr>"

definition uint128_not :: "uint128_t \<Rightarrow> uint128_t" where
  "uint128_not a = uint128 (NOT (upper a)) (NOT (lower a))"

definition uint128_bool :: "uint128_t \<Rightarrow> bool" where
  "uint128_bool a \<longleftrightarrow> lower a \<noteq> 0 \<or> upper a \<noteq> 0"

definition uint128_to_u32 :: "uint128_t \<Rightarrow> u32" where
  "uint128_to_u32 a = ucast (lower a)"

definition uint128_less :: "uint128_t \<Rightarrow> uint128_t \<Rightarrow> bool" where
  "uint128_less a b \<longleftrightarrow> upper a < upper b \<or> upper a = upper b \<and> lower a < lower b"

definition uint128_less_eq :: "uint128_t \<Rightarrow> uint128_t \<Rightarrow> bool" where
  "uint128_less_eq a b \<longleftrightarrow> upper a < upper b \<or> upper a = upper b \<and> lower a \<le> lower b"

definition uint128_inc :: "uint128_t \<Rightarrow> uint128_t" where
  "uint128_inc a =
     (let a = a\<lparr>lower := lower a + 1\<rparr> in if lower a = 0 then a\<lparr>upper := upper a + 1\<rparr> else a)"

definition uint128_add :: "uint128_t \<Rightarrow> uint128_t \<Rightarrow> uint128_t" where
  "uint128_add a b =
     (let a = a\<lparr>lower := lower a + lower b\<rparr>;
          a = (if lower a < lower b then a\<lparr>upper := upper a + 1\<rparr> else a)
      in a\<lparr>upper := upper a + upper b\<rparr>)"

definition uint128_sub :: "uint128_t \<Rightarrow> uint128_t \<Rightarrow> uint128_t" where
  "uint128_sub a b =
     (let a = (if lower b > lower a then a\<lparr>upper := upper a - 1\<rparr> else a);
          a = a\<lparr>lower := lower a - lower b\<rparr>
      in a\<lparr>upper := upper a - upper b\<rparr>)"

definition uint128_shl :: "uint128_t \<Rightarrow> nat \<Rightarrow> uint128_t" where
  "uint128_shl a shift =
     (if shift = 0 then a
      else if shift < 64
      then let a = a\<lparr>upper := push_bit shift (upper a) OR drop_bit (64 - shift) (lower a)\<rparr>
           in a\<lparr>lower := push_bit shift (lower a)\<rparr>
      else if shift = 64 then a\<lparr>upper := lower a, lower := 0\<rparr>
      else if shift < 128 then a\<lparr>upper := push_bit (shift - 64) (lower a), lower := 0\<rparr>
      else a\<lparr>lower := 0, upper := 0\<rparr>)"

definition uint128_shr :: "uint128_t \<Rightarrow> nat \<Rightarrow> uint128_t" where
  "uint128_shr a shift =
     (if shift = 0 then a
      else if shift < 64
      then let a = a\<lparr>lower := drop_bit shift (lower a) OR push_bit (64 - shift) (upper a)\<rparr>
           in a\<lparr>upper := drop_bit shift (upper a)\<rparr>
      else if shift = 64 then a\<lparr>lower := upper a, upper := 0\<rparr>
      else if shift < 128 then a\<lparr>lower := drop_bit (shift - 64) (upper a), upper := 0\<rparr>
      else a\<lparr>lower := 0, upper := 0\<rparr>)"


section \<open>Conversions of addresses\<close>

definition count_bits :: "'a::len word \<Rightarrow> nat" where
  "count_bits i = length (filter (bit i) [0..<LENGTH('a)])"

definition count_bits_128 :: "uint128_t \<Rightarrow> nat" where
  "count_bits_128 i = count_bits (upper i) + count_bits (lower i)"

definition ExpandV4 :: "u32 \<Rightarrow> uint128_t" where
  "ExpandV4 x = uint128_or (uint128 0 0x0000ffff00000000) (uint128 0 (ucast x))"

definition ExpandV4Lan :: "u32 \<Rightarrow> uint128_t" where
  "ExpandV4Lan x = uint128_or (uint128 0xfd00000000000000 0) (uint128 0 (ucast x))"

definition TruncateV6 :: "uint128_t \<Rightarrow> u32" where
  "TruncateV6 x = uint128_to_u32 (uint128_and x (uint128 0 0x00000000ffffffff))"

text \<open>
  \<^verbatim>\<open>oxenc::big_to_host\<close> on 64 bits is a parameter. The structure lies in memory with the lower
  limb first, each limb with its least significant byte first.
\<close>

primrec le_write :: "nat \<Rightarrow> 'a::len word \<Rightarrow> bytes" where
  "le_write 0 w = []"
| "le_write (Suc n) w = ucast w # le_write n (drop_bit 8 w)"

definition ntoh128 :: "(u64 \<Rightarrow> u64) \<Rightarrow> uint128_t \<Rightarrow> uint128_t" where
  "ntoh128 big_to_host i =
     (let loSwapped = big_to_host (lower i); hiSwapped = big_to_host (upper i)
      in uint128 loSwapped hiSwapped)"

definition HUIntToIn6 :: "(u64 \<Rightarrow> u64) \<Rightarrow> uint128_t \<Rightarrow> bytes" where
  "HUIntToIn6 big_to_host x =
     (let i = ntoh128 big_to_host x in le_write 8 (lower i) @ le_write 8 (upper i))"

definition In6ToHUInt :: "bytes \<Rightarrow> uint128_t" where
  "In6ToHUInt s6_addr =
     foldl (\<lambda>x b. uint128_or (uint128_shl x 8) (uint128 0 (ucast b))) (uint128 0 0) s6_addr"


section \<open>Netmasks\<close>

text \<open>The arguments are 32 bit integers, and the recursion ends for all of them.\<close>

function netmask_ipv6_bits_from :: "u32 \<Rightarrow> uint128_t" where
  "netmask_ipv6_bits_from numset =
     (if 128 - numset \<noteq> 0
      then uint128_or (uint128_shl (uint128 0 1) (unat numset)) (netmask_ipv6_bits_from (numset + 1))
      else uint128 0 0)"
  by auto

termination
proof (relation "measure (\<lambda>numset. unat (128 - numset))")
  fix numset :: u32
  assume "128 - numset \<noteq> 0"
  from measure_unat [OF this]
  show "(numset + 1, numset) \<in> measure (\<lambda>numset. unat (128 - numset))"
    by (simp add: algebra_simps)
qed simp

declare netmask_ipv6_bits_from.simps [simp del]

definition netmask_ipv6_bits :: "u32 \<Rightarrow> uint128_t" where
  "netmask_ipv6_bits numset = netmask_ipv6_bits_from (128 - numset)"

function netmask_ipv4_bits_from :: "u32 \<Rightarrow> u32" where
  "netmask_ipv4_bits_from numset =
     (if 32 - numset \<noteq> 0 then push_bit (unat numset) 1 OR netmask_ipv4_bits_from (numset + 1) else 0)"
  by auto

termination
proof (relation "measure (\<lambda>numset. unat (32 - numset))")
  fix numset :: u32
  assume "32 - numset \<noteq> 0"
  from measure_unat [OF this]
  show "(numset + 1, numset) \<in> measure (\<lambda>numset. unat (32 - numset))"
    by (simp add: algebra_simps)
qed simp

declare netmask_ipv4_bits_from.simps [simp del]

definition netmask_ipv4_bits :: "u32 \<Rightarrow> u32" where
  "netmask_ipv4_bits num = netmask_ipv4_bits_from (32 - num)"

definition ipaddr_ipv4_bits :: "u32 \<Rightarrow> u32 \<Rightarrow> u32 \<Rightarrow> u32 \<Rightarrow> u32" where
  "ipaddr_ipv4_bits a b c d = d OR push_bit 8 c OR push_bit 16 b OR push_bit 24 a"


section \<open>The limbs represent a 128 bit word\<close>

type_synonym u128 = "128 word"

definition val128 :: "uint128_t \<Rightarrow> u128" where
  "val128 a = push_bit 64 (ucast (upper a)) OR ucast (lower a)"

lemma bit_val128: "bit (val128 a) n \<longleftrightarrow> (if n < 64 then bit (lower a) n else bit (upper a) (n - 64))"
  by (auto simp: val128_def bit_simps dest: bit_imp_le_length)

lemma uint128_sel [simp]: "lower (uint128 u l) = l" "upper (uint128 u l) = u"
  by (simp_all add: uint128_def)

lemma val128_inject: "val128 a = val128 b \<longleftrightarrow> a = b"
proof
  assume eq: "val128 a = val128 b"
  have "bit (lower a) n = bit (lower b) n" for n
    using arg_cong [OF eq, of "\<lambda>w. bit w n"] by (cases "n < 64") (auto simp: bit_val128 dest: bit_imp_le_length)
  moreover have "bit (upper a) n = bit (upper b) n" for n
    using arg_cong [OF eq, of "\<lambda>w. bit w (n + 64)"] by (simp add: bit_val128)
  ultimately show "a = b" by (metis bit_eqI uint128_t.equality unit.exhaust)
qed simp

lemma val128_bitwise:
  "val128 (uint128_and a b) = val128 a AND val128 b"
  "val128 (uint128_or a b) = val128 a OR val128 b"
  "val128 (uint128_xor a b) = val128 a XOR val128 b"
  by (rule bit_eqI, simp add: bit_val128 bit_simps uint128_and_def uint128_or_def uint128_xor_def)+

lemma val128_not: "val128 (uint128_not a) = NOT (val128 a)"
  by (rule bit_eqI) (auto simp: bit_val128 bit_simps uint128_not_def)

lemma val128_shl: "val128 (uint128_shl a n) = push_bit n (val128 a)"
proof (rule bit_word_eqI)
  fix i
  assume "i < LENGTH(128)"
  then show "bit (val128 (uint128_shl a n)) i = bit (push_bit n (val128 a)) i"
    by (auto simp: bit_val128 bit_simps uint128_shl_def Let_def not_less ac_simps
        intro!: arg_cong [of _ _ "bit _"] dest: bit_imp_le_length)
qed

lemma val128_shr: "val128 (uint128_shr a n) = drop_bit n (val128 a)"
proof (rule bit_word_eqI)
  fix i
  assume "i < LENGTH(128)"
  then show "bit (val128 (uint128_shr a n)) i = bit (drop_bit n (val128 a)) i"
    by (auto simp: bit_val128 bit_simps uint128_shr_def Let_def not_less ac_simps
        intro!: arg_cong [of _ _ "bit _"] dest: bit_imp_le_length)
qed


lemma u64_lt: "uint (w :: u64) < 2 ^ 64"
  using uint_bounded [of w] by simp

lemma u64_range: "0 \<le> uint (w :: u64)" "uint w < 2 ^ 64"
  using u64_lt [of w] by simp_all

lemma val128_of_int: "val128 a = of_int (uint (upper a) * 2 ^ 64 + uint (lower a))"
proof -
  have disj: "push_bit 64 (ucast (upper a) :: u128) AND ucast (lower a) = 0"
    by (rule bit_eqI) (auto simp: bit_simps dest: bit_imp_le_length)
  show ?thesis
    unfolding val128_def disjunctive_add_eq_or [OF disj, symmetric]
    by (simp add: push_bit_eq_mult mult.commute)
qed

lemma uint_val128: "uint (val128 a) = uint (upper a) * 2 ^ 64 + uint (lower a)"
  using u64_lt [of "upper a"] u64_lt [of "lower a"]
  unfolding val128_of_int uint_word_of_int by (intro mod_pos_pos_trivial) simp_all

lemma limbs_less:
  fixes u u' l l' :: int
  assumes "0 \<le> l" "l < 2 ^ 64" "0 \<le> l'" "l' < 2 ^ 64"
  shows "u * 2 ^ 64 + l < u' * 2 ^ 64 + l' \<longleftrightarrow> u < u' \<or> u = u' \<and> l < l'"
    and "u * 2 ^ 64 + l \<le> u' * 2 ^ 64 + l' \<longleftrightarrow> u < u' \<or> u = u' \<and> l \<le> l'"
  using assms by (cases u u' rule: linorder_cases; simp; linarith)+

lemma val128_less: "uint128_less a b \<longleftrightarrow> val128 a < val128 b"
  unfolding word_less_def uint_val128 limbs_less(1) [OF u64_range u64_range]
  by (simp add: uint128_less_def word_less_def word_uint_eq_iff [of "upper a"])

lemma val128_less_eq: "uint128_less_eq a b \<longleftrightarrow> val128 a \<le> val128 b"
  unfolding word_le_def uint_val128 limbs_less(2) [OF u64_range u64_range]
  by (simp add: uint128_less_eq_def word_less_def word_le_def word_uint_eq_iff [of "upper a"])

lemma upper_wraps: "(of_int (uint (of_int x :: u64) * 2 ^ 64) :: u128) = of_int (x * 2 ^ 64)"
proof -
  have "take_bit 128 (push_bit 64 (take_bit 64 x)) = take_bit 128 (push_bit 64 x)"
    by (simp add: take_bit_push_bit)
  then show ?thesis
    unfolding word_of_int_eq_iff uint_word_of_int push_bit_eq_mult by (simp add: take_bit_eq_mod)
qed

lemma val128_limbs:
  assumes "upper c = of_int x" and "x * 2 ^ 64 + uint (lower c) = y"
  shows "val128 c = of_int y"
proof -
  have "val128 c = of_int (x * 2 ^ 64) + of_int (uint (lower c))"
    unfolding val128_of_int assms(1) of_int_add upper_wraps ..
  also have "\<dots> = of_int y" unfolding assms(2) [symmetric] of_int_add ..
  finally show ?thesis .
qed

lemma val128_add: "val128 (uint128_add a b) = val128 a + val128 b"
proof -
  let ?s = "lower a + lower b"
  have "uint ?s = (if uint (lower a) + uint (lower b) < 2 ^ 64 then uint (lower a) + uint (lower b)
      else uint (lower a) + uint (lower b) - 2 ^ 64)"
    using u64_lt [of "lower a"] u64_lt [of "lower b"] by (simp add: uint_word_ariths mod_add_if_z)
  moreover from this have "?s < lower b \<longleftrightarrow> \<not> uint (lower a) + uint (lower b) < 2 ^ 64"
    using u64_lt [of "lower a"] by (simp add: word_less_def)
  ultimately have "val128 (uint128_add a b) =
      of_int ((uint (upper a) + uint (upper b)) * 2 ^ 64 + (uint (lower a) + uint (lower b)))"
    by (cases "?s < lower b")
      (rule val128_limbs [where x = "uint (upper a) + 1 + uint (upper b)"]
        val128_limbs [where x = "uint (upper a) + uint (upper b)"];
        auto simp: uint128_add_def Let_def algebra_simps)+
  also have "\<dots> = of_int (uint (val128 a) + uint (val128 b))" by (simp add: uint_val128 algebra_simps)
  also have "\<dots> = val128 a + val128 b" by simp
  finally show ?thesis .
qed

lemma val128_sub: "val128 (uint128_sub a b) = val128 a - val128 b"
proof -
  let ?s = "lower a - lower b"
  have "uint ?s = (if uint (lower b) \<le> uint (lower a) then uint (lower a) - uint (lower b)
      else uint (lower a) - uint (lower b) + 2 ^ 64)"
    using u64_lt [of "lower a"] u64_lt [of "lower b"] by (simp add: uint_word_ariths mod_sub_if_z)
  then have "val128 (uint128_sub a b) =
      of_int ((uint (upper a) - uint (upper b)) * 2 ^ 64 + (uint (lower a) - uint (lower b)))"
    by (cases "lower b > lower a")
      (rule val128_limbs [where x = "uint (upper a) - 1 - uint (upper b)"]
        val128_limbs [where x = "uint (upper a) - uint (upper b)"];
        auto simp: uint128_sub_def Let_def algebra_simps word_less_def)+
  also have "\<dots> = of_int (uint (val128 a) - uint (val128 b))" by (simp add: uint_val128 algebra_simps)
  also have "\<dots> = val128 a - val128 b" by simp
  finally show ?thesis .
qed


lemma val128_inc: "val128 (uint128_inc a) = val128 a + 1"
proof -
  have "uint128_inc a = uint128_add a (uint128 0 1)"
    by (auto simp: uint128_inc_def uint128_add_def Let_def word_less_1)
  moreover have "val128 (uint128 0 1) = 1" by (simp add: val128_def)
  ultimately show ?thesis by (simp add: val128_add)
qed

lemma val128_uint128_0 [simp]: "val128 (uint128 0 l) = ucast l"
  by (simp add: val128_def)

lemma uint128_bool_val: "uint128_bool a \<longleftrightarrow> val128 a \<noteq> 0"
proof -
  have "uint128_bool a \<longleftrightarrow> a \<noteq> uint128 0 0" by (cases a) (auto simp: uint128_bool_def uint128_def)
  then show ?thesis using val128_inject [of a "uint128 0 0"] by simp
qed

lemmas val128_ops = val128_bitwise val128_not val128_shl val128_shr val128_add val128_sub val128_inc


section \<open>What the conversions and the masks are\<close>

lemma bit_netmask_ipv6_from:
  assumes "k \<le> 128"
  shows "bit (val128 (netmask_ipv6_bits_from (of_nat k))) i \<longleftrightarrow> k \<le> i \<and> i < 128"
  using assms
proof (induction k rule: inc_induct)
  case base
  then show ?case by (subst netmask_ipv6_bits_from.simps) simp
next
  case (step k)
  have u: "unat (of_nat k :: u32) = k" using step.hyps by (intro unat_of_nat_small) simp
  have ne: "(128 :: u32) \<noteq> of_nat k"
    using step.hyps u by auto
  from ne step show ?case
    by (subst netmask_ipv6_bits_from.simps) (auto simp: val128_ops u bit_simps add.commute)
qed

lemma bit_netmask_ipv6:
  assumes "n \<le> 128"
  shows "bit (val128 (netmask_ipv6_bits (of_nat n))) i \<longleftrightarrow> 128 - n \<le> i \<and> i < 128"
proof -
  have "(128 - of_nat n :: u32) = of_nat (128 - n)" using assms by (simp add: of_nat_diff)
  then show ?thesis using bit_netmask_ipv6_from [of "128 - n" i] by (simp add: netmask_ipv6_bits_def)
qed

lemma val128_netmask: "n \<le> 128 \<Longrightarrow> val128 (netmask_ipv6_bits (of_nat n)) = NOT (mask (128 - n))"
  by (rule bit_word_eqI) (simp add: bit_netmask_ipv6 bit_simps not_less)

lemma count_bits_128_val: "count_bits_128 a = length (filter (bit (val128 a)) [0..<128])"
proof -
  have "[0..<128] = [0..<64] @ map (\<lambda>i. i + 64) [0..<64]" 
    using upt_add_eq_append [of 0 64 64] map_add_upt [of 64 64] by simp
  then have "length (filter (bit (val128 a)) [0..<128]) =
      length (filter (bit (val128 a)) [0..<64]) + length (filter (\<lambda>i. bit (val128 a) (i + 64)) [0..<64])"
    by (simp add: filter_map o_def)
  moreover have "filter (bit (val128 a)) [0..<64] = filter (bit (lower a)) [0..<64]"
    by (rule filter_cong) (simp_all add: bit_val128)
  ultimately show ?thesis by (simp add: count_bits_128_def count_bits_def bit_val128)
qed

lemma count_netmask: "n \<le> 128 \<Longrightarrow> count_bits_128 (netmask_ipv6_bits (of_nat n)) = n"
proof -
  assume n: "n \<le> 128"
  have "[0..<128] = [0..<128 - n] @ [128 - n..<128]" 
    using upt_add_eq_append [of 0 "128 - n" n] n by simp
  then have "filter (\<lambda>i. 128 - n \<le> i \<and> i < 128) [0..<128] = [128 - n..<128]"
    by (auto simp: filter_empty_conv filter_id_conv)
  moreover have "bit (val128 (netmask_ipv6_bits (of_nat n))) = (\<lambda>i. 128 - n \<le> i \<and> i < 128)"
    by (rule ext) (rule bit_netmask_ipv6 [OF n])
  ultimately show ?thesis using n by (simp add: count_bits_128_val)
qed

lemma val128_ExpandV4: "val128 (ExpandV4 x) = 0xffff00000000 OR ucast x"
proof -
  have "(ucast (ucast x :: u64) :: u128) = ucast x"
    by (rule bit_word_eqI) (auto simp: bit_simps dest: bit_imp_le_length)
  then show ?thesis by (simp add: ExpandV4_def val128_ops)
qed

lemma TruncateV6_ExpandV4: "TruncateV6 (ExpandV4 x) = x"
proof (rule bit_word_eqI)
  fix n
  assume "n < LENGTH(32)"
  moreover have "bit (0xffffffff :: u64) n \<longleftrightarrow> n < 32"
  proof -
    have m: "(0xffffffff :: u64) = mask 32" by (simp add: mask_eq_exp_minus_1)
    show ?thesis unfolding m bit_mask_iff by (auto simp: possible_bit_word)
  qed
  moreover have "bit (0xffff00000000 :: u64) n \<Longrightarrow> 32 \<le> n"
  proof -
    have m: "(0xffff00000000 :: u64) = push_bit 32 0xffff" by (simp add: push_bit_eq_mult)
    show "bit (0xffff00000000 :: u64) n \<Longrightarrow> 32 \<le> n" unfolding m bit_push_bit_iff by simp
  qed
  ultimately show "bit (TruncateV6 (ExpandV4 x)) n = bit x n"
    by (auto simp: TruncateV6_def ExpandV4_def uint128_to_u32_def uint128_and_def uint128_or_def bit_simps)
qed

text \<open>The bytes of an address in network order are read back to the address.\<close>

lemma val128_In6_foldl:
  "val128 (foldl (\<lambda>x b. uint128_or (uint128_shl x 8) (uint128 0 (ucast b))) x (bs :: bytes)) =
     foldl (\<lambda>v b. push_bit 8 v OR ucast b) (val128 x) bs"
proof (induction bs arbitrary: x)
  case (Cons b bs)
  have "n < 64" if "bit b n" for n using bit_imp_le_length [OF that] by simp
  then have "(ucast (ucast b :: u64) :: u128) = ucast b"
    by (intro bit_word_eqI) (auto simp: bit_simps)
  with Cons show ?case by (simp add: val128_ops)
qed simp

lemma foldl_be_write:
  "foldl (\<lambda>v b. push_bit 8 v OR ucast b) (v :: u128) (be_write n (w :: u64)) =
     push_bit (8 * n) v OR take_bit (8 * n) (ucast w)"
proof (induction n arbitrary: v)
  case (Suc n)
  have "push_bit (8 * n) (push_bit 8 v OR ucast (ucast (drop_bit (8 * n) w) :: byte)) OR take_bit (8 * n) (ucast w) =
      push_bit (8 * Suc n) v OR take_bit (8 * Suc n) (ucast w)"
    by (rule bit_word_eqI) (auto simp: bit_simps not_less not_le algebra_simps dest: bit_imp_le_length)
  with Suc show ?case by simp
qed simp

lemma In6ToHUInt_HUIntToIn6:
  assumes "\<And>x. le_write 8 (big_to_host x) = be_write 8 x"
  shows "In6ToHUInt (HUIntToIn6 big_to_host a) = a"
proof -
  have "HUIntToIn6 big_to_host a = be_write 8 (upper a) @ be_write 8 (lower a)"
    by (simp add: HUIntToIn6_def ntoh128_def Let_def assms)
  moreover have "take_bit 64 (ucast w :: u128) = ucast (w :: u64)" for w
    by (rule bit_word_eqI) (auto simp: bit_simps dest: bit_imp_le_length)
  ultimately have "val128 (In6ToHUInt (HUIntToIn6 big_to_host a)) = val128 a"
    by (simp add: In6ToHUInt_def val128_In6_foldl foldl_be_write val128_def [of a])
  then show ?thesis by (simp add: val128_inject)
qed



section \<open>Property\<close>

text \<open>
  C13. The two-limb integer is a 128 bit word: bitwise operations, shifts by any amount
  (including none, a whole limb and more than both), increments, sums and differences with
  their carries and borrows, and the orderings all agree with the operations on 128 bit
  words, wrapping modulo \<open>2 ^ 128\<close>.
\<close>

theorem uint128_refines_word:
  "val128 (uint128_and a b) = val128 a AND val128 b \<and> val128 (uint128_or a b) = val128 a OR val128 b \<and>
   val128 (uint128_xor a b) = val128 a XOR val128 b \<and> val128 (uint128_not a) = NOT (val128 a) \<and>
   val128 (uint128_shl a n) = push_bit n (val128 a) \<and> val128 (uint128_shr a n) = drop_bit n (val128 a) \<and>
   val128 (uint128_add a b) = val128 a + val128 b \<and> val128 (uint128_sub a b) = val128 a - val128 b \<and>
   val128 (uint128_inc a) = val128 a + 1 \<and> (uint128_bool a \<longleftrightarrow> val128 a \<noteq> 0) \<and>
   (uint128_less a b \<longleftrightarrow> val128 a < val128 b) \<and> (uint128_less_eq a b \<longleftrightarrow> val128 a \<le> val128 b) \<and>
   (val128 a = val128 b \<longleftrightarrow> a = b)"
  by (simp add: val128_ops uint128_bool_val val128_less val128_less_eq val128_inject)

end
