(* ===== verification/Ip_Range.thy ===== *)
theory Ip_Range
  imports Net_Int
begin

text \<open>
  Address ranges (\<^verbatim>\<open>llarp/net/ip_range.hpp\<close>, \<^verbatim>\<open>llarp/net/ip_range.cpp\<close>) and the map from ranges to
  values (\<^verbatim>\<open>llarp/net/ip_range_map.hpp\<close>). A range is shown to be an interval of addresses, the
  overlap test to be exact for ranges with a prefix mask, and the search for a free private
  range to return the first candidate that shares no address with an excluded range. Its two
  callers are modelled too; the Windows one passes masks for which the test is not exact.
\<close>

section \<open>Ranges\<close>

record IPRange =
  addr :: uint128_t
  netmask_bits :: uint128_t

definition range_contains_ip :: "IPRange \<Rightarrow> uint128_t \<Rightarrow> bool" where
  "range_contains_ip r ip \<longleftrightarrow> uint128_and (addr r) (netmask_bits r) = uint128_and ip (netmask_bits r)"

definition V4MappedRange :: IPRange where
  "V4MappedRange = \<lparr>addr = uint128 0 0x0000ffff00000000, netmask_bits = netmask_ipv6_bits 96\<rparr>"

definition FromIPv4 :: "byte \<Rightarrow> byte \<Rightarrow> byte \<Rightarrow> byte \<Rightarrow> byte \<Rightarrow> IPRange" where
  "FromIPv4 a b c d m =
     \<lparr>addr = ExpandV4 (ipaddr_ipv4_bits (ucast a) (ucast b) (ucast c) (ucast d)),
      netmask_bits = netmask_ipv6_bits (ucast m + 96)\<rparr>"

text \<open>The overload on an address and a mask in network order; \<open>ToHost\<close> is a parameter.\<close>

definition FromIPv4_mask :: "(u32 \<Rightarrow> u32) \<Rightarrow> u32 \<Rightarrow> u32 \<Rightarrow> IPRange" where
  "FromIPv4_mask ToHost a netmask =
     \<lparr>addr = ExpandV4 (ToHost a), netmask_bits = netmask_ipv6_bits (of_nat (count_bits netmask) + 96)\<rparr>"

definition IsV4 :: "IPRange \<Rightarrow> bool" where
  "IsV4 r = range_contains_ip V4MappedRange (addr r)"

definition HostmaskBits :: "IPRange \<Rightarrow> nat" where
  "HostmaskBits r =
     (if IsV4 r then count_bits (TruncateV6 (netmask_bits r)) else count_bits_128 (netmask_bits r))"

definition range_contains_v4 :: "IPRange \<Rightarrow> u32 \<Rightarrow> bool" where
  "range_contains_v4 r ip \<longleftrightarrow> IsV4 r \<and> range_contains_ip r (ExpandV4 ip)"

definition HighestAddr :: "IPRange \<Rightarrow> uint128_t" where
  "HighestAddr r =
     uint128_sub
       (uint128_add (uint128_and (addr r) (netmask_bits r))
         (uint128_shl (uint128 0 1) (128 - count_bits_128 (netmask_bits r))))
       (uint128 0 1)"

definition range_contains :: "IPRange \<Rightarrow> IPRange \<Rightarrow> bool" where
  "range_contains r other \<longleftrightarrow> range_contains_ip r (addr other) \<and> range_contains_ip r (HighestAddr other)"

definition range_meets :: "IPRange \<Rightarrow> IPRange \<Rightarrow> bool" where
  "range_meets r other \<longleftrightarrow> range_contains r other \<or> range_contains other r"

definition range_less :: "IPRange \<Rightarrow> IPRange \<Rightarrow> bool" where
  "range_less r other =
     (let maskedA = uint128_and (addr r) (netmask_bits r);
          maskedB = uint128_and (addr other) (netmask_bits other)
      in uint128_less maskedA maskedB \<or>
         \<not> uint128_less maskedB maskedA \<and> uint128_less (netmask_bits r) (netmask_bits other))"

definition range_good :: "IPRange list \<Rightarrow> IPRange \<Rightarrow> bool" where
  "range_good excluding rng \<longleftrightarrow> \<not> list_ex (\<lambda>ex. range_meets ex rng) excluding"

definition private_ranges :: "IPRange list" where
  "private_ranges =
     map (\<lambda>oct. FromIPv4 172 (of_nat oct) 0 1 16) [16..<32] @
     map (\<lambda>oct. FromIPv4 10 (of_nat oct) 0 1 16) [0..<256] @
     map (\<lambda>oct. FromIPv4 192 168 (of_nat oct) 1 24) [0..<256]"

definition FindPrivateRange :: "IPRange list \<Rightarrow> IPRange option" where
  "FindPrivateRange excluding = List.find (range_good excluding) private_ranges"

text \<open>
  The two callers. On POSIX systems an interface contributes a range only if it has an IPv4
  address, \<open>Some (address, mask)\<close>; on Windows every unicast address of an adapter does, and
  \<open>asIPv6\<close> is the 128-bit form of the address, which is the mapped one for IPv4.
\<close>

definition posix_FindFreeRange :: "(u32 \<Rightarrow> u32) \<Rightarrow> (u32 \<times> u32) option list \<Rightarrow> IPRange option" where
  "posix_FindFreeRange ToHost ifs =
     FindPrivateRange (map (\<lambda>(a, m). FromIPv4_mask ToHost a m) (List.map_filter id ifs))"

definition ipaddr_netmask_bits :: "u32 \<Rightarrow> bool \<Rightarrow> uint128_t" where
  "ipaddr_netmask_bits bits is_v6 =
     (if is_v6 then netmask_ipv6_bits bits else ExpandV4 (netmask_ipv4_bits bits))"

record unicast_address =
  asIPv6 :: uint128_t
  OnLinkPrefixLength :: u32
  is_inet6 :: bool

definition win32_FindFreeRange :: "unicast_address list \<Rightarrow> IPRange option" where
  "win32_FindFreeRange addrs =
     FindPrivateRange
       (map (\<lambda>u. \<lparr>addr = asIPv6 u, netmask_bits = ipaddr_netmask_bits (OnLinkPrefixLength u) (is_inet6 u)\<rparr>) addrs)"


section \<open>The map from ranges to values\<close>

record 'v IPRangeMap = m_Entries :: "(IPRange \<times> 'v) list"

definition rm_Values :: "'v IPRangeMap \<Rightarrow> 'v set" where
  "rm_Values m = set (map snd (m_Entries m))"

definition rm_Empty :: "'v IPRangeMap \<Rightarrow> bool" where
  "rm_Empty m \<longleftrightarrow> m_Entries m = []"

definition rm_ContainsValue :: "'v \<Rightarrow> 'v IPRangeMap \<Rightarrow> bool" where
  "rm_ContainsValue v m \<longleftrightarrow> list_ex (\<lambda>e. snd e = v) (m_Entries m)"

definition rm_GetExact :: "IPRange \<Rightarrow> 'v IPRangeMap \<Rightarrow> 'v option" where
  "rm_GetExact rng m = map_option snd (List.find (\<lambda>e. fst e = rng) (m_Entries m))"

definition rm_FindAllEntries :: "uint128_t \<Rightarrow> 'v IPRangeMap \<Rightarrow> (IPRange \<times> 'v) set" where
  "rm_FindAllEntries ip m = set (filter (\<lambda>e. range_contains_ip (fst e) ip) (m_Entries m))"

definition rm_Insert :: "IPRange \<Rightarrow> 'v \<Rightarrow> 'v IPRangeMap \<Rightarrow> 'v IPRangeMap" where
  "rm_Insert rng v m = m\<lparr>m_Entries := m_Entries m @ [(rng, v)]\<rparr>"

definition rm_RemoveIf :: "(IPRange \<times> 'v \<Rightarrow> bool) \<Rightarrow> 'v IPRangeMap \<Rightarrow> 'v IPRangeMap" where
  "rm_RemoveIf visit m = m\<lparr>m_Entries := filter (\<lambda>e. \<not> visit e) (m_Entries m)\<rparr>"


section \<open>Ranges with a prefix mask are intervals\<close>

definition prefix_range :: "nat \<Rightarrow> IPRange \<Rightarrow> bool" where
  "prefix_range n r \<longleftrightarrow> n \<le> 128 \<and> netmask_bits r = netmask_ipv6_bits (of_nat n)"

abbreviation ipval :: "uint128_t \<Rightarrow> nat" where
  "ipval a \<equiv> unat (val128 a)"

lemma and_not_mask_eq_iff:
  "(a :: 'a::len word) AND NOT (mask k) = b AND NOT (mask k) \<longleftrightarrow> drop_bit k a = drop_bit k b"
proof
  assume eq: "a AND NOT (mask k) = b AND NOT (mask k)"
  show "drop_bit k a = drop_bit k b"
  proof (rule bit_word_eqI)
    fix n
    show "bit (drop_bit k a) n = bit (drop_bit k b) n"
      using arg_cong [OF eq, of "\<lambda>w. bit w (k + n)"]
      by (auto simp: bit_simps dest: bit_imp_le_length)
  qed
next
  assume eq: "drop_bit k a = drop_bit k b"
  show "a AND NOT (mask k) = b AND NOT (mask k)"
  proof (rule bit_word_eqI)
    fix n
    show "bit (a AND NOT (mask k)) n = bit (b AND NOT (mask k)) n"
      using arg_cong [OF eq, of "\<lambda>w. bit w (n - k)"] by (auto simp: bit_simps)
  qed
qed

lemma range_contains_ip_prefix:
  assumes "prefix_range n r"
  shows "range_contains_ip r ip \<longleftrightarrow> ipval ip div 2 ^ (128 - n) = ipval (addr r) div 2 ^ (128 - n)"
proof -
  have "range_contains_ip r ip \<longleftrightarrow> val128 (uint128_and (addr r) (netmask_bits r)) = val128 (uint128_and ip (netmask_bits r))"
    by (simp add: range_contains_ip_def val128_inject)
  also have "\<dots> \<longleftrightarrow> drop_bit (128 - n) (val128 (addr r)) = drop_bit (128 - n) (val128 ip)"
    using assms by (simp add: prefix_range_def val128_ops val128_netmask and_not_mask_eq_iff)
  also have "\<dots> \<longleftrightarrow> ipval (addr r) div 2 ^ (128 - n) = ipval ip div 2 ^ (128 - n)"
    unfolding word_unat_eq_iff unat_drop_bit_eq by (simp add: drop_bit_eq_div)
  finally show ?thesis by auto
qed


lemma unat_mask_128: "k \<le> 128 \<Longrightarrow> unat (mask k :: u128) = 2 ^ k - 1"
proof -
  assume "k \<le> 128"
  then have "unat (mask k :: u128) = mask k" by (intro bit_eqI) (auto simp: bit_simps)
  then show ?thesis by (simp add: mask_eq_exp_minus_1)
qed

lemma HighestAddr_prefix:
  assumes "prefix_range n r"
  shows "ipval (HighestAddr r) = ipval (addr r) div 2 ^ (128 - n) * 2 ^ (128 - n) + (2 ^ (128 - n) - 1)"
proof -
  let ?k = "128 - n" and ?a = "val128 (addr r)"
  have n: "n \<le> 128" using assms by (simp add: prefix_range_def)
  have "val128 (HighestAddr r) = (?a AND NOT (mask ?k)) + push_bit ?k 1 - 1"
    using assms by (simp add: HighestAddr_def prefix_range_def val128_ops val128_netmask count_netmask)
  also have "\<dots> = (?a AND NOT (mask ?k)) + mask ?k" by (simp add: mask_eq_exp_minus_1 push_bit_of_1)
  also have "\<dots> = (?a AND NOT (mask ?k)) OR mask ?k"
    by (rule disjunctive_add_eq_or) (simp add: and.assoc)
  finally have h: "val128 (HighestAddr r) = (?a AND NOT (mask ?k)) OR mask ?k" .
  have "drop_bit ?k (val128 (HighestAddr r)) = drop_bit ?k ?a"
    "take_bit ?k (val128 (HighestAddr r)) = mask ?k"
    unfolding h by (rule bit_word_eqI, auto simp: bit_simps dest: bit_imp_le_length)+
  then have "ipval (HighestAddr r) div 2 ^ ?k = ipval (addr r) div 2 ^ ?k"
    "ipval (HighestAddr r) mod 2 ^ ?k = 2 ^ ?k - 1"
    unfolding word_unat_eq_iff unat_drop_bit_eq unsigned_take_bit_eq
    by (simp_all add: drop_bit_eq_div take_bit_eq_mod unat_mask_128)
  then show ?thesis by (metis div_mult_mod_eq)
qed

lemma div_eq_interval:
  fixes x d q :: nat
  assumes "0 < d"
  shows "x div d = q \<longleftrightarrow> q * d \<le> x \<and> x \<le> q * d + (d - 1)"
proof
  assume "x div d = q"
  moreover have "x = x div d * d + x mod d" "x mod d \<le> d - 1" using assms by (simp_all add: less_Suc_eq_le [symmetric])
  ultimately show "q * d \<le> x \<and> x \<le> q * d + (d - 1)" by auto
next
  assume "q * d \<le> x \<and> x \<le> q * d + (d - 1)"
  with assms show "x div d = q" by (intro div_nat_eqI) (auto simp: mult.commute)
qed

text \<open>A range is the interval from its masked address to its highest address.\<close>

lemma range_interval:
  assumes "prefix_range n r"
  shows "range_contains_ip r ip \<longleftrightarrow>
    uint128_less_eq (uint128_and (addr r) (netmask_bits r)) ip \<and> uint128_less_eq ip (HighestAddr r)"
proof -
  let ?k = "128 - n" and ?q = "ipval (addr r) div 2 ^ (128 - n)"
  have l: "val128 (uint128_and (addr r) (netmask_bits r)) = val128 (addr r) AND NOT (mask ?k)"
    using assms by (simp add: prefix_range_def val128_ops val128_netmask)
  have "drop_bit ?k (val128 (uint128_and (addr r) (netmask_bits r))) = drop_bit ?k (val128 (addr r))"
    "take_bit ?k (val128 (uint128_and (addr r) (netmask_bits r))) = 0"
    unfolding l by (rule bit_word_eqI, auto simp: bit_simps dest: bit_imp_le_length)+
  then have "ipval (uint128_and (addr r) (netmask_bits r)) div 2 ^ ?k = ?q"
    "ipval (uint128_and (addr r) (netmask_bits r)) mod 2 ^ ?k = 0"
    unfolding word_unat_eq_iff unat_drop_bit_eq unsigned_take_bit_eq
    by (simp_all add: drop_bit_eq_div take_bit_eq_mod)
  then have low: "ipval (uint128_and (addr r) (netmask_bits r)) = ?q * 2 ^ ?k"
    by (metis add.right_neutral div_mult_mod_eq)
  show ?thesis
    unfolding val128_less_eq word_le_nat_alt low HighestAddr_prefix [OF assms] range_contains_ip_prefix [OF assms]
    by (rule div_eq_interval) simp
qed

lemma div_power_mono:
  assumes "k' \<le> k" and "x div 2 ^ k' = y div (2 ^ k' :: nat)"
  shows "x div 2 ^ k = y div 2 ^ k"
proof -
  have "(2 :: nat) ^ k = 2 ^ k' * 2 ^ (k - k')" using assms(1) by (simp flip: power_add)
  then show ?thesis using assms(2) by (simp add: div_mult2_eq)
qed

lemma interval_top: "(q * 2 ^ k + (2 ^ k - 1)) div 2 ^ k = (q :: nat)"
  by (rule iffD2 [OF div_eq_interval]) (simp, intro conjI le_add1 order_refl)

lemma range_contains_prefix:
  assumes "prefix_range n r" and "prefix_range n' r'" and "n \<le> n'"
  shows "range_contains r r' \<longleftrightarrow> ipval (addr r') div 2 ^ (128 - n) = ipval (addr r) div 2 ^ (128 - n)"
proof -
  have "ipval (HighestAddr r') div 2 ^ (128 - n') = ipval (addr r') div 2 ^ (128 - n')"
    unfolding HighestAddr_prefix [OF assms(2)] by (rule interval_top)
  then have "ipval (HighestAddr r') div 2 ^ (128 - n) = ipval (addr r') div 2 ^ (128 - n)"
    by (rule div_power_mono [rotated]) (rule diff_le_mono2 [OF assms(3)])
  then show ?thesis
    by (simp add: range_contains_def range_contains_ip_prefix [OF assms(1)])
qed

lemma range_meets_sym: "range_meets r r' = range_meets r' r"
  by (auto simp: range_meets_def)

lemma range_meets_iff_aux:
  assumes "prefix_range n r" and "prefix_range n' r'" and "n \<le> n'"
  shows "range_meets r r' \<longleftrightarrow> (\<exists>ip. range_contains_ip r ip \<and> range_contains_ip r' ip)"
proof
  assume "range_meets r r'"
  then show "\<exists>ip. range_contains_ip r ip \<and> range_contains_ip r' ip"
    by (auto simp: range_meets_def range_contains_def range_contains_ip_def)
next
  assume "\<exists>ip. range_contains_ip r ip \<and> range_contains_ip r' ip"
  then obtain ip where "ipval ip div 2 ^ (128 - n) = ipval (addr r) div 2 ^ (128 - n)"
    "ipval ip div 2 ^ (128 - n') = ipval (addr r') div 2 ^ (128 - n')"
    by (auto simp: range_contains_ip_prefix [OF assms(1)] range_contains_ip_prefix [OF assms(2)])
  moreover from this(2) have "ipval ip div 2 ^ (128 - n) = ipval (addr r') div 2 ^ (128 - n)"
    by (rule div_power_mono [rotated]) (rule diff_le_mono2 [OF assms(3)])
  ultimately show "range_meets r r'"
    by (simp add: range_meets_def range_contains_prefix [OF assms])
qed

lemma range_meets_iff:
  assumes "prefix_range n r" and "prefix_range n' r'"
  shows "range_meets r r' \<longleftrightarrow> (\<exists>ip. range_contains_ip r ip \<and> range_contains_ip r' ip)"
  using range_meets_iff_aux [OF assms] range_meets_iff_aux [OF assms(2,1)] range_meets_sym [of r r']
  by (cases "n \<le> n'") auto

lemma prefix_FromIPv4:
  assumes "unat m \<le> 32"
  shows "prefix_range (96 + unat m) (FromIPv4 a b c d m)"
  using assms by (simp add: prefix_range_def FromIPv4_def add.commute)

lemma private_ranges_prefix: "r \<in> set private_ranges \<Longrightarrow> \<exists>n. prefix_range n r"
proof -
  have "\<exists>n. prefix_range n (FromIPv4 a b c d 16)" "\<exists>n. prefix_range n (FromIPv4 a b c d 24)" for a b c d
    using prefix_FromIPv4 [of 16 a b c d] prefix_FromIPv4 [of 24 a b c d] by auto
  then show "r \<in> set private_ranges \<Longrightarrow> \<exists>n. prefix_range n r"
    by (auto simp: private_ranges_def simp del: upt_rec_numeral)
qed

lemma range_good_iff:
  assumes "\<forall>ex \<in> set excluding. \<exists>n. prefix_range n ex" and "c \<in> set private_ranges"
  shows "range_good excluding c \<longleftrightarrow>
    (\<forall>ex \<in> set excluding. \<not> (\<exists>ip. range_contains_ip ex ip \<and> range_contains_ip c ip))"
proof -
  obtain m where "prefix_range m c" using private_ranges_prefix [OF assms(2)] by blast
  then have "range_meets ex c \<longleftrightarrow> (\<exists>ip. range_contains_ip ex ip \<and> range_contains_ip c ip)" if "ex \<in> set excluding" for ex
    using assms(1) that range_meets_iff by blast
  then show ?thesis by (auto simp: range_good_def list_ex_iff)
qed

lemma find_Some_split:
  "List.find P xs = Some x \<longleftrightarrow> (\<exists>before after. xs = before @ x # after \<and> P x \<and> (\<forall>c \<in> set before. \<not> P c))"
proof
  show "\<exists>before after. xs = before @ x # after \<and> P x \<and> (\<forall>c \<in> set before. \<not> P c)" if "List.find P xs = Some x"
    using that
  proof (induction xs)
    case (Cons y ys)
    show ?case
    proof (cases "P y")
      case True
      with Cons.prems have "y # ys = [] @ x # ys \<and> P x" by simp
      then show ?thesis by fastforce
    next
      case False
      with Cons obtain before after where "ys = before @ x # after" "P x" "\<forall>c \<in> set before. \<not> P c" by auto
      with False have "y # ys = (y # before) @ x # after \<and> P x \<and> (\<forall>c \<in> set (y # before). \<not> P c)" by simp
      then show ?thesis by blast
    qed
  qed simp
  show "List.find P xs = Some x" if "\<exists>before after. xs = before @ x # after \<and> P x \<and> (\<forall>c \<in> set before. \<not> P c)"
  proof -
    from that obtain before after where "xs = before @ x # after" "P x" "\<forall>c \<in> set before. \<not> P c" by blast
    then show ?thesis by (induction before arbitrary: xs) auto
  qed
qed

text \<open>The ranges that the POSIX caller excludes all have prefix masks.\<close>

lemma count_bits_le: "count_bits (w :: 'a::len word) \<le> LENGTH('a)"
  unfolding count_bits_def by (rule order_trans [OF length_filter_le]) simp

lemma prefix_FromIPv4_mask: "prefix_range (96 + count_bits m) (FromIPv4_mask ToHost a m)"
  by (simp add: prefix_range_def FromIPv4_mask_def count_bits_le [of m, simplified] add.commute)

text \<open>
  The Windows caller passes IPv4 masks without the leading 80 bits, which are no prefixes, and
  the overlap test then misses an interface inside a candidate: with 172.16.5.2/24 in use the
  range 172.16/16, which contains that address, is returned as free.
\<close>

lemma FromIPv4_val:
  "val128 (addr (FromIPv4 a b c d m)) =
     0xffff00000000 OR ucast d OR push_bit 8 (ucast c) OR push_bit 16 (ucast b) OR push_bit 24 (ucast a)"
  unfolding FromIPv4_def ipaddr_ipv4_bits_def
  by (simp add: val128_ExpandV4) (rule bit_word_eqI, auto simp: bit_simps dest: bit_imp_le_length)

lemma range_contains_ip_drop:
  assumes "prefix_range n r"
  shows "range_contains_ip r ip \<longleftrightarrow> drop_bit (128 - n) (val128 (addr r)) = drop_bit (128 - n) (val128 ip)"
  using assms
  by (simp add: range_contains_ip_def val128_inject [symmetric] prefix_range_def val128_ops val128_netmask and_not_mask_eq_iff)

lemma win32_FindFreeRange_misses:
  "win32_FindFreeRange [\<lparr>asIPv6 = ExpandV4 0xac100502, OnLinkPrefixLength = 24, is_inet6 = False\<rparr>] = Some (FromIPv4 172 16 0 1 16)"
  "range_contains_ip (FromIPv4 172 16 0 1 16) (ExpandV4 0xac100502)"
proof -
  let ?c = "FromIPv4 172 16 0 1 16" and ?m = "uint128 0 0xffffffffff00"
  let ?w = "\<lparr>addr = ExpandV4 0xac100502, netmask_bits = ?m\<rparr>"
  have c: "range_contains_ip ?c ip \<longleftrightarrow> drop_bit 16 (val128 ip) = 0xffffac10" for ip
    using range_contains_ip_drop [OF prefix_FromIPv4 [of 16 172 16 0 1], of ip] by (auto simp: FromIPv4_val)
  show "range_contains_ip ?c (ExpandV4 0xac100502)" by (simp add: c val128_ExpandV4)
  have m: "ipaddr_netmask_bits 24 False = ?m"
    by (simp add: ipaddr_netmask_bits_def netmask_ipv4_bits_def netmask_ipv4_bits_from.simps ExpandV4_def uint128_or_def)
  have "count_bits_128 ?m = 40" by (simp add: count_bits_128_def count_bits_def upt_conv_Cons)
  then have "\<not> range_contains_ip ?c (HighestAddr ?w)"
    by (simp add: c HighestAddr_def val128_ops val128_ExpandV4)
  moreover have "\<not> range_contains_ip ?w (addr ?c)"
    by (simp add: range_contains_ip_def val128_inject [symmetric] val128_ops val128_ExpandV4 FromIPv4_val)
  ultimately have "range_good [?w] ?c" by (simp add: range_good_def range_meets_def range_contains_def)
  moreover have "private_ranges = ?c # tl private_ranges"
    unfolding private_ranges_def by (simp add: upt_rec [of 16] del: upt_rec_numeral)
  ultimately show "win32_FindFreeRange [\<lparr>asIPv6 = ExpandV4 0xac100502, OnLinkPrefixLength = 24, is_inet6 = False\<rparr>] = Some ?c"
    unfolding win32_FindFreeRange_def FindPrivateRange_def by (simp add: m) (metis find.simps(2))
qed


section \<open>Properties\<close>

text \<open>
  C14. For a range with a prefix mask of any length, membership is membership in the
  interval from the masked base address to \<^verbatim>\<open>HighestAddr\<close>, also for the mask of length zero,
  whose shift by 128 and subtraction wrap around.
\<close>

theorem range_is_interval:
  assumes "n \<le> 128" and "netmask_bits r = netmask_ipv6_bits (of_nat n)"
  shows "range_contains_ip r ip \<longleftrightarrow>
    uint128_less_eq (uint128_and (addr r) (netmask_bits r)) ip \<and> uint128_less_eq ip (HighestAddr r)"
  using assms by (intro range_interval) (simp add: prefix_range_def)

theorem range_is_interval_witness:
  "range_contains_ip \<lparr>addr = uint128 5 7, netmask_bits = netmask_ipv6_bits 0\<rparr> (uint128 9 9) \<and>
   uint128_less_eq (uint128 9 9) (HighestAddr \<lparr>addr = uint128 5 7, netmask_bits = netmask_ipv6_bits 0\<rparr>)"
proof -
  let ?r = "\<lparr>addr = uint128 5 7, netmask_bits = netmask_ipv6_bits 0\<rparr>"
  have "ipval a < 2 ^ LENGTH(128)" for a by (rule unsigned_less)
  then have "ipval a div 2 ^ 128 = 0" for a by simp
  then have "range_contains_ip ?r (uint128 9 9)"
    using range_contains_ip_prefix [of 0 ?r "uint128 9 9"] by (simp add: prefix_range_def)
  then show ?thesis using range_is_interval [of 0 ?r "uint128 9 9"] by simp
qed

text \<open>
  C15. The overlap test of two ranges with prefix masks is exact: it holds if and only if
  some address lies in both.
\<close>

theorem range_meets_exact:
  assumes "n \<le> 128" and "netmask_bits r = netmask_ipv6_bits (of_nat n)"
    and "n' \<le> 128" and "netmask_bits r' = netmask_ipv6_bits (of_nat n')"
  shows "range_meets r r' \<longleftrightarrow> (\<exists>ip. range_contains_ip r ip \<and> range_contains_ip r' ip)"
  using assms by (intro range_meets_iff [of n _ n']) (simp_all add: prefix_range_def)

theorem range_meets_exact_witness:
  "range_meets (FromIPv4 10 0 0 1 8) (FromIPv4 10 1 2 3 16) \<longleftrightarrow>
   (\<exists>ip. range_contains_ip (FromIPv4 10 0 0 1 8) ip \<and> range_contains_ip (FromIPv4 10 1 2 3 16) ip)"
  using range_meets_exact [of 104 "FromIPv4 10 0 0 1 8" 112 "FromIPv4 10 1 2 3 16"]
    prefix_FromIPv4 [of 8 10 0 0 1] prefix_FromIPv4 [of 16 10 1 2 3] by (simp add: prefix_range_def)

text \<open>
  C16. When every excluded range has a prefix mask, the range that is found is exactly the
  first of the candidates, in the order 172.16/16 to 172.31/16, 10.0/16 to 10.255/16,
  192.168.0/24 to 192.168.255/24, that has no address in common with any excluded range, and
  nothing is found exactly if every candidate has an address in common with one.
\<close>

theorem FindPrivateRange_first_free:
  assumes "\<forall>ex \<in> set excluding. \<exists>n \<le> 128. netmask_bits ex = netmask_ipv6_bits (of_nat n)"
  shows "(FindPrivateRange excluding = Some r \<longleftrightarrow>
      (\<exists>before after. private_ranges = before @ r # after \<and>
        (\<forall>ex \<in> set excluding. \<not> (\<exists>ip. range_contains_ip ex ip \<and> range_contains_ip r ip)) \<and>
        (\<forall>c \<in> set before. \<exists>ex \<in> set excluding. \<exists>ip. range_contains_ip ex ip \<and> range_contains_ip c ip))) \<and>
    (FindPrivateRange excluding = None \<longleftrightarrow>
      (\<forall>c \<in> set private_ranges. \<exists>ex \<in> set excluding. \<exists>ip. range_contains_ip ex ip \<and> range_contains_ip c ip))"
proof -
  have good: "range_good excluding c \<longleftrightarrow>
      (\<forall>ex \<in> set excluding. \<not> (\<exists>ip. range_contains_ip ex ip \<and> range_contains_ip c ip))"
    if "c \<in> set private_ranges" for c
    using assms by (intro range_good_iff [OF _ that]) (auto simp: prefix_range_def)
  have "FindPrivateRange excluding = Some r \<longleftrightarrow>
      (\<exists>before after. private_ranges = before @ r # after \<and>
        (\<forall>ex \<in> set excluding. \<not> (\<exists>ip. range_contains_ip ex ip \<and> range_contains_ip r ip)) \<and>
        (\<forall>c \<in> set before. \<exists>ex \<in> set excluding. \<exists>ip. range_contains_ip ex ip \<and> range_contains_ip c ip))"
    unfolding FindPrivateRange_def find_Some_split
  proof (intro ex_cong1 conj_cong refl ball_cong)
    fix before after c
    assume split: "private_ranges = before @ r # after"
    have mem: "r \<in> set private_ranges" "set before \<subseteq> set private_ranges" unfolding split by auto
    show "range_good excluding r \<longleftrightarrow> (\<forall>ex \<in> set excluding. \<not> (\<exists>ip. range_contains_ip ex ip \<and> range_contains_ip r ip))"
      by (rule good [OF mem(1)])
    show "\<not> range_good excluding c \<longleftrightarrow> (\<exists>ex \<in> set excluding. \<exists>ip. range_contains_ip ex ip \<and> range_contains_ip c ip)"
      if "c \<in> set before" using good [of c] that mem(2) by blast
  qed
  moreover have "FindPrivateRange excluding = None \<longleftrightarrow>
      (\<forall>c \<in> set private_ranges. \<exists>ex \<in> set excluding. \<exists>ip. range_contains_ip ex ip \<and> range_contains_ip c ip)"
    using good by (auto simp: FindPrivateRange_def find_None_iff)
  ultimately show ?thesis by blast
qed

theorem FindPrivateRange_first_free_witness:
  "FindPrivateRange [FromIPv4 172 16 9 9 24] = Some (FromIPv4 172 17 0 1 16)"
proof -
  let ?ex = "FromIPv4 172 16 9 9 24" and ?a = "FromIPv4 172 16 0 1 16" and ?b = "FromIPv4 172 17 0 1 16"
  have pre: "\<forall>ex \<in> set [?ex]. \<exists>n \<le> 128. netmask_bits ex = netmask_ipv6_bits (of_nat n)"
    using prefix_FromIPv4 [of 24 172 16 9 9] by (auto simp: prefix_range_def intro!: exI [of _ 120])
  have ex: "range_contains_ip ?ex ip \<longleftrightarrow> drop_bit 8 (val128 ip) = 0xffffac1009" for ip
    using range_contains_ip_drop [OF prefix_FromIPv4 [of 24 172 16 9 9], of ip] by (auto simp: FromIPv4_val)
  have a: "range_contains_ip ?a ip \<longleftrightarrow> drop_bit 16 (val128 ip) = 0xffffac10" for ip
    using range_contains_ip_drop [OF prefix_FromIPv4 [of 16 172 16 0 1], of ip] by (auto simp: FromIPv4_val)
  have b: "range_contains_ip ?b ip \<longleftrightarrow> drop_bit 16 (val128 ip) = 0xffffac11" for ip
    using range_contains_ip_drop [OF prefix_FromIPv4 [of 16 172 17 0 1], of ip] by (auto simp: FromIPv4_val)
  have "range_contains_ip ?ex (ExpandV4 0xac100909)" "range_contains_ip ?a (ExpandV4 0xac100909)"
    by (simp_all add: ex a val128_ExpandV4)
  moreover have "\<not> (range_contains_ip ?ex ip \<and> range_contains_ip ?b ip)" for ip
  proof -
    have "drop_bit 16 (val128 ip) = drop_bit 8 (drop_bit 8 (val128 ip))" by simp
    moreover have "drop_bit 8 (0xffffac1009 :: u128) \<noteq> 0xffffac11" by simp
    ultimately show ?thesis unfolding ex b by metis
  qed
  moreover have "private_ranges = [?a] @ ?b # tl (tl private_ranges)"
    unfolding private_ranges_def by (simp add: upt_rec [of 16] upt_rec [of 17] del: upt_rec_numeral)
  ultimately show ?thesis
    unfolding FindPrivateRange_first_free [OF pre, THEN conjunct1] by (intro exI [of _ "[?a]"] exI conjI) auto
qed

end
