(* ===== verification/Util_Str.thy ===== *)
theory Util_Str
  imports Belnet_Prelude
begin

text \<open>
  The string helpers of \<^verbatim>\<open>llarp/util/str.hpp\<close> and \<^verbatim>\<open>llarp/util/str.cpp\<close>, with the operations of
  \<^verbatim>\<open>std::string\<close> they use. Strings are byte strings; a literal of the sources is written with
  \<open>str\<close>. Splitting is shown to lose nothing and to leave no delimiter in a piece.
\<close>

section \<open>Operations of the standard library\<close>

definition str :: "string \<Rightarrow> bytes" where
  "str s = map (\<lambda>c. of_nat (of_char c)) s"

text \<open>\<^verbatim>\<open>find\<close> and \<^verbatim>\<open>rfind\<close>: the first and the last position at which the pattern occurs.\<close>

definition occurs_at :: "bytes \<Rightarrow> bytes \<Rightarrow> nat \<Rightarrow> bool" where
  "occurs_at pat s i \<longleftrightarrow> i + length pat \<le> length s \<and> take (length pat) (drop i s) = pat"

definition find_sub :: "bytes \<Rightarrow> bytes \<Rightarrow> nat option" where
  "find_sub pat s = List.find (occurs_at pat s) [0..<Suc (length s)]"

definition rfind_sub :: "bytes \<Rightarrow> bytes \<Rightarrow> nat option" where
  "rfind_sub pat s = List.find (occurs_at pat s) (rev [0..<Suc (length s)])"

text \<open>In the C locale \<^verbatim>\<open>tolower\<close> changes the letters of the alphabet only.\<close>

definition tolower :: "byte \<Rightarrow> byte" where
  "tolower c = (if 0x41 \<le> c \<and> c \<le> 0x5A then c + 0x20 else c)"

definition is_digit :: "byte \<Rightarrow> bool" where
  "is_digit c \<longleftrightarrow> 0x30 \<le> c \<and> c \<le> 0x39"

definition digits_value :: "bytes \<Rightarrow> nat" where
  "digits_value s = foldl (\<lambda>v c. 10 * v + (unat c - 0x30)) 0 s"


section \<open>The helpers\<close>

fun CaselessLessThan :: "bytes \<Rightarrow> bytes \<Rightarrow> bool" where
  "CaselessLessThan lhs [] = False"
| "CaselessLessThan [] (r # rhs) = True"
| "CaselessLessThan (l # lhs) (r # rhs) =
     (if tolower l < tolower r then True else if tolower l > tolower r then False
      else CaselessLessThan lhs rhs)"

definition caseless_count :: "bytes \<Rightarrow> bytes list \<Rightarrow> nat" where
  "caseless_count s vals = length (filter (\<lambda>v. \<not> CaselessLessThan s v \<and> \<not> CaselessLessThan v s) vals)"

definition IsFalseValue :: "bytes \<Rightarrow> bool" where
  "IsFalseValue s \<longleftrightarrow> caseless_count s [str ''no'', str ''false'', str ''0'', str ''off''] > 0"

definition IsTrueValue :: "bytes \<Rightarrow> bool" where
  "IsTrueValue s \<longleftrightarrow> caseless_count s [str ''yes'', str ''true'', str ''1'', str ''on''] > 0"

definition strip :: "byte set \<Rightarrow> bytes \<Rightarrow> bytes" where
  "strip ws s = rev (dropWhile (\<lambda>c. c \<in> ws) (rev (dropWhile (\<lambda>c. c \<in> ws) s)))"

definition TrimWhitespace :: "bytes \<Rightarrow> bytes" where
  "TrimWhitespace s = strip {0x20, 0x09, 0x0A, 0x0D, 0x0C, 0x0B} s"

definition str_trim :: "bytes \<Rightarrow> bytes" where
  "str_trim s = strip {0x20, 0x09, 0x0D, 0x0A} s"

definition starts_with :: "bytes \<Rightarrow> bytes \<Rightarrow> bool" where
  "starts_with s pre \<longleftrightarrow> take (length pre) s = pre"

definition ends_with :: "bytes \<Rightarrow> bytes \<Rightarrow> bool" where
  "ends_with s suf \<longleftrightarrow> length suf \<le> length s \<and> drop (length s - length suf) s = suf"

definition strip_prefix :: "bytes \<Rightarrow> bytes \<Rightarrow> bytes" where
  "strip_prefix s pre = (if starts_with s pre then drop (length pre) s else s)"

definition string_iequal :: "bytes \<Rightarrow> bytes \<Rightarrow> bool" where
  "string_iequal s1 s2 \<longleftrightarrow> map tolower s1 = map tolower s2"

definition lowercase_ascii_string :: "bytes \<Rightarrow> bytes" where
  "lowercase_ascii_string src = map (\<lambda>ch. if 0x41 \<le> ch \<and> ch \<le> 0x5A then ch + (0x61 - 0x41) else ch) src"

text \<open>\<open>hi\<close> is the largest value of the target type, an unsigned one.\<close>

definition parse_int :: "nat \<Rightarrow> bytes \<Rightarrow> nat option" where
  "parse_int hi s =
     (if s \<noteq> [] \<and> list_all is_digit s \<and> digits_value s \<le> hi then Some (digits_value s) else None)"

lemma find_sub_Some:
  assumes "find_sub pat s = Some i"
  shows "occurs_at pat s i" and "j < i \<Longrightarrow> \<not> occurs_at pat s j"
proof -
  obtain k where k: "k < Suc (length s)" "occurs_at pat s ([0..<Suc (length s)] ! k)" "i = [0..<Suc (length s)] ! k"
    "\<forall>j<k. \<not> occurs_at pat s ([0..<Suc (length s)] ! j)"
    using assms by (auto simp: find_sub_def find_Some_iff simp del: upt_Suc)
  then show "occurs_at pat s i" by simp
  show "\<not> occurs_at pat s j" if "j < i" using k that by (auto simp del: upt_Suc)
qed

lemma find_sub_None: "find_sub pat s = None \<longleftrightarrow> (\<forall>i. \<not> occurs_at pat s i)"
proof -
  have "occurs_at pat s i \<Longrightarrow> i < Suc (length s)" for i by (simp add: occurs_at_def)
  then show ?thesis by (auto simp: find_sub_def find_None_iff simp del: upt_Suc)
qed

text \<open>The loop runs only for a delimiter that is not empty.\<close>

function split_loop :: "bytes \<Rightarrow> bool \<Rightarrow> bytes list \<Rightarrow> bytes \<Rightarrow> bytes list \<times> bytes" where
  "split_loop delim trim results s =
     (if delim = [] then (results, s)
      else case find_sub delim s of
             None \<Rightarrow> (results, s)
           | Some pos \<Rightarrow>
               split_loop delim trim
                 (if \<not> trim \<or> results \<noteq> [] \<or> pos > 0 then results @ [take pos s] else results)
                 (drop (pos + length delim) s))"
  by auto

termination
proof (relation "measure (\<lambda>(delim, trim, results, s). length s)")
  fix delim :: bytes and s pos
  assume "delim \<noteq> []" and "find_sub delim s = Some pos"
  then have "0 < length delim" "pos + length delim \<le> length s"
    using find_sub_Some(1) [of delim s pos] by (auto simp: occurs_at_def)
  then have "length s - (pos + length delim) < length s" by linarith
  then show "((delim, trim, if \<not> trim \<or> results \<noteq> [] \<or> pos > 0 then results @ [take pos s] else results,
      drop (pos + length delim) s), delim, trim, results, s) \<in> measure (\<lambda>(delim, trim, results, s). length s)"
    for trim and results :: "bytes list"
    by simp
qed simp

declare split_loop.simps [simp del]

definition str_split :: "bytes \<Rightarrow> bytes \<Rightarrow> bool \<Rightarrow> bytes list" where
  "str_split s delim trim =
     (if delim = [] then map (\<lambda>c. [c]) s
      else let (results, s) = split_loop delim trim [] s
           in if \<not> trim \<or> s \<noteq> [] then results @ [s]
              else rev (dropWhile (\<lambda>p. p = []) (rev results)))"


text \<open>
  \<^verbatim>\<open>split_any\<close>: a run of delimiter characters ends a piece. \<^verbatim>\<open>find_first_of\<close> is the length of the
  prefix without them, \<^verbatim>\<open>find_first_not_of\<close> continues after the run.
\<close>

function split_any_loop :: "bytes \<Rightarrow> bool \<Rightarrow> bytes list \<Rightarrow> bytes \<Rightarrow> bytes list \<times> bytes" where
  "split_any_loop delims trim results s =
     (let piece = takeWhile (\<lambda>c. c \<notin> set delims) s
      in if length piece = length s then (results, s)
         else split_any_loop delims trim
                (if \<not> trim \<or> results \<noteq> [] \<or> piece \<noteq> [] then results @ [piece] else results)
                (dropWhile (\<lambda>c. c \<in> set delims) (drop (length piece + 1) s)))"
  by auto

termination
proof (relation "measure (\<lambda>(delims, trim, results, s). length s)")
  fix delims :: bytes and s piece
  assume "piece = takeWhile (\<lambda>c. c \<notin> set delims) s" and "length piece \<noteq> length s"
  then have "0 < length s" by auto
  moreover have "length (dropWhile (\<lambda>c. c \<in> set delims) (drop (length piece + 1) s)) \<le> length (drop (length piece + 1) s)"
    by (rule length_dropWhile_le)
  ultimately have "length (dropWhile (\<lambda>c. c \<in> set delims) (drop (length piece + 1) s)) < length s"
    unfolding length_drop by linarith
  then show "((delims, trim, if \<not> trim \<or> results \<noteq> [] \<or> piece \<noteq> [] then results @ [piece] else results,
      dropWhile (\<lambda>c. c \<in> set delims) (drop (length piece + 1) s)), delims, trim, results, s)
      \<in> measure (\<lambda>(delims, trim, results, s). length s)" for trim results
    by simp
qed simp

declare split_any_loop.simps [simp del]

definition split_any :: "bytes \<Rightarrow> bytes \<Rightarrow> bool \<Rightarrow> bytes list" where
  "split_any s delims trim =
     (if delims = [] then str_split s delims trim
      else let (results, s) = split_any_loop delims trim [] s
           in if \<not> trim \<or> s \<noteq> [] then results @ [s]
              else rev (dropWhile (\<lambda>p. p = []) (rev results)))"


section \<open>Splitting\<close>

primrec join :: "bytes \<Rightarrow> bytes list \<Rightarrow> bytes" where
  "join delim [] = []"
| "join delim (p # ps) = (case ps of [] \<Rightarrow> p | _ \<Rightarrow> p @ delim @ join delim ps)"

lemma join_Cons: "ps \<noteq> [] \<Longrightarrow> join delim (p # ps) = p @ delim @ join delim ps"
  by (cases ps) simp_all

lemma join_single [simp]: "join delim [p] = p"
  by simp

declare join.simps(2) [simp del]

lemma join_append: "ps \<noteq> [] \<Longrightarrow> join delim (ps @ [q]) = join delim ps @ delim @ q"
  by (induction ps rule: list_nonempty_induct) (simp_all add: join_Cons)

lemma occurs_at_split:
  assumes "occurs_at pat s i"
  shows "s = take i s @ pat @ drop (i + length pat) s"
proof -
  have "drop i s = pat @ drop (length pat) (drop i s)"
    using assms append_take_drop_id [of "length pat" "drop i s"] by (simp add: occurs_at_def)
  then show ?thesis using append_take_drop_id [of i s] by (simp add: add.commute)
qed

lemma occurs_at_append: "occurs_at pat s i \<Longrightarrow> occurs_at pat (s @ t) i"
  by (auto simp: occurs_at_def)

lemma occurs_at_take: "occurs_at pat (take n s) i \<Longrightarrow> occurs_at pat s i \<and> i + length pat \<le> n"
  using occurs_at_append [of pat "take n s" i "drop n s"] by (auto simp: occurs_at_def)

lemma find_sub_take: "find_sub pat s = Some i \<Longrightarrow> pat \<noteq> [] \<Longrightarrow> find_sub pat (take i s) = None"
  unfolding find_sub_None
proof (intro allI notI)
  fix j
  assume "find_sub pat s = Some i" "pat \<noteq> []" "occurs_at pat (take i s) j"
  moreover from this have "j < i" using occurs_at_take [of pat i s j] by (cases pat) auto
  ultimately show False using find_sub_Some(2) occurs_at_take by blast
qed


lemma split_loop_join:
  assumes "delim \<noteq> []"
  shows "join delim (fst (split_loop delim False results s) @ [snd (split_loop delim False results s)]) =
    join delim (results @ [s])"
  using assms
proof (induction delim "False" results s rule: split_loop.induct)
  case (1 delim results s)
  show ?case
  proof (cases "find_sub delim s")
    case None
    then show ?thesis by (simp add: split_loop.simps)
  next
    case (Some pos)
    then have s: "s = take pos s @ delim @ drop (pos + length delim) s"
      by (intro occurs_at_split find_sub_Some(1))
    have "join delim ((results @ [take pos s]) @ [drop (pos + length delim) s]) = join delim (results @ [s])"
      using s by (cases "results = []") (simp_all add: join_append join_Cons del: append_assoc, simp_all)
    then show ?thesis using 1 Some by (simp add: split_loop.simps [of delim False results s])
  qed
qed

lemma split_loop_pieces:
  assumes "delim \<noteq> []" and "\<forall>p\<in>set results. find_sub delim p = None"
  shows "(\<forall>p\<in>set (fst (split_loop delim trim results s)). find_sub delim p = None) \<and>
    find_sub delim (snd (split_loop delim trim results s)) = None"
  using assms
proof (induction delim trim results s rule: split_loop.induct)
  case (1 delim trim results s)
  show ?case
  proof (cases "find_sub delim s")
    case None
    then show ?thesis using 1(2,3) by (subst (1 2) split_loop.simps) simp
  next
    case (Some pos)
    let ?results = "if \<not> trim \<or> results \<noteq> [] \<or> pos > 0 then results @ [take pos s] else results"
    have "\<forall>p\<in>set ?results. find_sub delim p = None" using 1(3) find_sub_take [OF Some 1(2)] by simp
    from 1(1) [OF 1(2) Some 1(2) this]
    show ?thesis unfolding split_loop.simps [of delim trim results s] by (simp only: 1(2) Some option.case if_False simp_thms) blast
  qed
qed

text \<open>
  C17. Splitting on a delimiter that is not empty loses nothing: joined again with the
  delimiter, the pieces are the original string, and no piece contains the delimiter.
\<close>

theorem split_join:
  assumes "delim \<noteq> []"
  shows "join delim (str_split s delim False) = s \<and>
    list_all (\<lambda>p. find_sub delim p = None) (str_split s delim False)"
proof -
  have "str_split s delim False = fst (split_loop delim False [] s) @ [snd (split_loop delim False [] s)]"
    using assms by (simp add: str_split_def split_beta)
  then show ?thesis
    using split_loop_join [OF assms, of "[]" s] split_loop_pieces [OF assms, of "[]" False s]
    by (simp add: list_all_iff)
qed

theorem split_join_witness:
  "join (str ''--'') (str_split (str ''ab--c----de'') (str ''--'') False) = str ''ab--c----de''"
  using split_join [of "str ''--''" "str ''ab--c----de''"] by (simp add: str_def)

text \<open>A list of pieces without the delimiter character is what splitting their join returns.\<close>

lemma occurs_at_char: "occurs_at [d] s i \<longleftrightarrow> i < length s \<and> s ! i = d"
  by (auto simp: occurs_at_def Cons_nth_drop_Suc [symmetric] simp del: drop_Suc_Cons)

lemma find_char_None: "find_sub [d] s = None \<longleftrightarrow> d \<notin> set s"
  by (auto simp: find_sub_None occurs_at_char in_set_conv_nth)

lemma find_char_first:
  assumes "d \<notin> set p"
  shows "find_sub [d] (p @ d # t) = Some (length p)"
proof (cases "find_sub [d] (p @ d # t)")
  case None
  then show ?thesis by (simp add: find_char_None)
next
  case (Some i)
  have "occurs_at [d] (p @ d # t) (length p)" by (simp add: occurs_at_def)
  then have "i \<le> length p" using find_sub_Some(2) [OF Some] not_le by blast
  moreover have "\<not> i < length p"
  proof
    assume "i < length p"
    then have "p ! i = d" using find_sub_Some(1) [OF Some] by (simp add: occurs_at_char nth_append)
    with assms \<open>i < length p\<close> show False by (metis nth_mem)
  qed
  ultimately show ?thesis using Some by simp
qed

lemma split_loop_join_parts:
  assumes "ps \<noteq> []" and "\<forall>p\<in>set ps. d \<notin> set p"
  shows "split_loop [d] False results (join [d] ps) = (results @ butlast ps, last ps)"
  using assms
proof (induction ps arbitrary: results)
  case (Cons p ps)
  show ?case
  proof (cases ps)
    case Nil
    then show ?thesis using Cons.prems find_char_None [of d p] by (simp add: split_loop.simps)
  next
    case (Cons q qs)
    then have "join [d] (p # ps) = p @ d # join [d] ps" by (simp add: join_Cons)
    then show ?thesis
      using Cons.IH [of "results @ [p]"] Cons.prems Cons find_char_first [of d p "join [d] ps"]
      by (subst split_loop.simps) simp
  qed
qed simp

lemma split_join_parts:
  "ps \<noteq> [] \<Longrightarrow> \<forall>p\<in>set ps. d \<notin> set p \<Longrightarrow> str_split (join [d] ps) [d] False = ps"
  by (simp add: str_split_def split_loop_join_parts)


lemma caseless_equal: "\<not> CaselessLessThan s v \<and> \<not> CaselessLessThan v s \<longleftrightarrow> map tolower s = map tolower v"
proof (induction s v rule: CaselessLessThan.induct)
  case (1 lhs)
  then show ?case by (cases lhs) simp_all
qed auto

lemma IsTrueValue_iff:
  "IsTrueValue s \<longleftrightarrow> map tolower s \<in> set (map (map tolower) [str ''yes'', str ''true'', str ''1'', str ''on''])"
  by (auto simp: IsTrueValue_def caseless_count_def caseless_equal)

end
