(* ===== verification/Wire_Buffer.thy ===== *)
theory Wire_Buffer
  imports Belnet_Prelude
begin

text \<open>
  The stream buffer \<^verbatim>\<open>llarp_buffer_t\<close> of \<^verbatim>\<open>llarp/util/buffer.hpp\<close> and \<^verbatim>\<open>llarp/util/buffer.cpp\<close>: the
  bytes from \<^verbatim>\<open>base\<close> to \<^verbatim>\<open>base + sz\<close> and the position of \<^verbatim>\<open>cur\<close> in them. Accesses that the code
  does not guard give \<open>OutOfBounds\<close>, so the position never leaves the buffer.
\<close>

record llarp_buffer_t =
  base :: bytes
  cur :: nat

definition size_left :: "llarp_buffer_t \<Rightarrow> nat" where
  "size_left buf = length (base buf) - cur buf"

definition write_at_cur :: "bytes \<Rightarrow> llarp_buffer_t \<Rightarrow> llarp_buffer_t" where
  "write_at_cur bs buf = buf\<lparr>base := poke (cur buf) bs (base buf), cur := cur buf + length bs\<rparr>"

definition read_into :: "nat \<Rightarrow> llarp_buffer_t \<Rightarrow> bytes option \<times> llarp_buffer_t" where
  "read_into dist buf =
     (if size_left buf \<ge> dist
      then (Some (segment (cur buf) dist (base buf)), buf\<lparr>cur := cur buf + dist\<rparr>)
      else (None, buf))"

definition buf_write :: "bytes \<Rightarrow> llarp_buffer_t \<Rightarrow> bool \<times> llarp_buffer_t" where
  "buf_write bs buf = (if size_left buf \<ge> length bs then (True, write_at_cur bs buf) else (False, buf))"

definition buf_put :: "nat \<Rightarrow> bytes \<Rightarrow> llarp_buffer_t \<Rightarrow> bool \<times> llarp_buffer_t" where
  "buf_put sz bs buf = (if size_left buf < sz then (False, buf) else (True, write_at_cur bs buf))"

definition put_uint16 :: "oxenc \<Rightarrow> u16 \<Rightarrow> llarp_buffer_t \<Rightarrow> bool \<times> llarp_buffer_t" where
  "put_uint16 ox i buf = buf_put 2 (write_be16 ox i) buf"

definition put_uint32 :: "oxenc \<Rightarrow> u32 \<Rightarrow> llarp_buffer_t \<Rightarrow> bool \<times> llarp_buffer_t" where
  "put_uint32 ox i buf = buf_put 4 (write_be32 ox i) buf"

definition put_uint64 :: "oxenc \<Rightarrow> u64 \<Rightarrow> llarp_buffer_t \<Rightarrow> bool \<times> llarp_buffer_t" where
  "put_uint64 ox i buf = buf_put 8 (write_be64 ox i) buf"

definition buf_read :: "nat \<Rightarrow> (bytes \<Rightarrow> 'a) \<Rightarrow> llarp_buffer_t \<Rightarrow> 'a option \<times> llarp_buffer_t" where
  "buf_read sz ld buf =
     (if size_left buf < sz then (None, buf)
      else (Some (ld (segment (cur buf) sz (base buf))), buf\<lparr>cur := cur buf + sz\<rparr>))"

definition read_uint16 :: "oxenc \<Rightarrow> llarp_buffer_t \<Rightarrow> u16 option \<times> llarp_buffer_t" where
  "read_uint16 ox buf = buf_read 2 (load_be16 ox) buf"

definition read_uint32 :: "oxenc \<Rightarrow> llarp_buffer_t \<Rightarrow> u32 option \<times> llarp_buffer_t" where
  "read_uint32 ox buf = buf_read 4 (load_be32 ox) buf"

definition read_uint64 :: "oxenc \<Rightarrow> llarp_buffer_t \<Rightarrow> u64 option \<times> llarp_buffer_t" where
  "read_uint64 ox buf = buf_read 8 (load_be64 ox) buf"

text \<open>
  \<^verbatim>\<open>read_until\<close>: bytes before the delimiter, at most \<open>resultsize\<close> of them, are copied; the count
  is reported only if the buffer is not exhausted.
\<close>

definition read_until :: "byte \<Rightarrow> nat \<Rightarrow> llarp_buffer_t \<Rightarrow> bytes \<times> nat \<times> llarp_buffer_t" where
  "read_until delim resultsize buf =
     (let result = take resultsize (takeWhile (\<lambda>b. b \<noteq> delim) (drop (cur buf) (base buf)));
          buf = buf\<lparr>cur := cur buf + length result\<rparr>
      in (result, if size_left buf > 0 then length result else 0, buf))"

definition buf_copy :: "llarp_buffer_t \<Rightarrow> bytes" where
  "buf_copy buf = base buf"

definition copy_used :: "llarp_buffer_t \<Rightarrow> bytes" where
  "copy_used buf = take (cur buf) (base buf)"

definition view_remaining :: "llarp_buffer_t \<Rightarrow> bytes" where
  "view_remaining buf = segment (cur buf) (size_left buf) (base buf)"

definition buf_startswith :: "bytes \<Rightarrow> llarp_buffer_t \<Rightarrow> bool" where
  "buf_startswith pre buf \<longleftrightarrow> take (length pre) (view_remaining buf) = pre"

text \<open>A write of one byte, and a read of one, that the code does not guard.\<close>

definition put_byte :: "byte \<Rightarrow> llarp_buffer_t \<Rightarrow> exn + llarp_buffer_t" where
  "put_byte b buf = (if cur buf < length (base buf) then Inr (write_at_cur [b] buf) else Inl OutOfBounds)"

definition get_byte :: "llarp_buffer_t \<Rightarrow> exn + byte \<times> llarp_buffer_t" where
  "get_byte buf =
     (if cur buf < length (base buf) then Inr (base buf ! cur buf, buf\<lparr>cur := cur buf + 1\<rparr>)
      else Inl OutOfBounds)"


section \<open>A buffer as what is before and what is after the position\<close>

definition buf_at :: "bytes \<Rightarrow> bytes \<Rightarrow> llarp_buffer_t" where
  "buf_at pre post = \<lparr>base = pre @ post, cur = length pre\<rparr>"

lemma at_sel [simp]: "base (buf_at pre post) = pre @ post" "cur (buf_at pre post) = length pre"
  "size_left (buf_at pre post) = length post"
  by (simp_all add: buf_at_def size_left_def)

lemma at_move [simp]: "n \<le> length post \<Longrightarrow> (buf_at pre post)\<lparr>cur := length pre + n\<rparr> = buf_at (pre @ take n post) (drop n post)"
  by (simp add: buf_at_def)

lemma at_move_Suc [simp]: "post \<noteq> [] \<Longrightarrow> (buf_at pre post)\<lparr>cur := Suc (length pre)\<rparr> = buf_at (pre @ [hd post]) (tl post)"
  by (cases post) (simp_all add: buf_at_def)

lemma at_jump: "k \<le> length pre + length post \<Longrightarrow>
    (buf_at pre post)\<lparr>cur := k\<rparr> = buf_at (take k (pre @ post)) (drop k (pre @ post))"
  unfolding buf_at_def append_take_drop_id by (simp del: take_append)

lemma write_at: "length bs \<le> length post \<Longrightarrow> write_at_cur bs (buf_at pre post) = buf_at (pre @ bs) (drop (length bs) post)"
  by (simp add: write_at_cur_def buf_at_def poke_def)

lemma put_byte_at [simp]: "put_byte b (buf_at pre (c # post)) = Inr (buf_at (pre @ [b]) post)"
  by (simp add: put_byte_def write_at)

lemma put_byte_end [simp]: "put_byte b (buf_at pre []) = Inl OutOfBounds"
  by (simp add: put_byte_def)

lemma get_byte_at [simp]: "get_byte (buf_at pre (b # post)) = Inr (b, buf_at (pre @ [b]) post)"
  by (simp add: get_byte_def nth_append)

lemma get_byte_end [simp]: "get_byte (buf_at pre []) = Inl OutOfBounds"
  by (simp add: get_byte_def)

lemma buf_read_at:
  "length bs = n \<Longrightarrow> buf_read n ld (buf_at pre (bs @ post)) = (Some (ld bs), buf_at (pre @ bs) post)"
  by (auto simp: buf_read_def segment_def)

lemma buf_put_at:
  "length bs = n \<Longrightarrow> n \<le> length post \<Longrightarrow> buf_put n bs (buf_at pre post) = (True, buf_at (pre @ bs) (drop n post))"
  by (simp add: buf_put_def write_at)

text \<open>What was put is read back.\<close>

lemma put_uint16_at: "oxenc_ok ox \<Longrightarrow> 2 \<le> length post \<Longrightarrow>
    put_uint16 ox i (buf_at pre post) = (True, buf_at (pre @ write_be16 ox i) (drop 2 post))"
  by (simp add: put_uint16_def buf_put_at oxenc_okD)

lemma put_uint32_at: "oxenc_ok ox \<Longrightarrow> 4 \<le> length post \<Longrightarrow>
    put_uint32 ox i (buf_at pre post) = (True, buf_at (pre @ write_be32 ox i) (drop 4 post))"
  by (simp add: put_uint32_def buf_put_at oxenc_okD)

lemma read_uint16_at: "oxenc_ok ox \<Longrightarrow>
    read_uint16 ox (buf_at pre (write_be16 ox i @ post)) = (Some i, buf_at (pre @ write_be16 ox i) post)"
  by (simp add: read_uint16_def buf_read_at oxenc_okD)

lemma read_uint32_at: "oxenc_ok ox \<Longrightarrow>
    read_uint32 ox (buf_at pre (write_be32 ox i @ post)) = (Some i, buf_at (pre @ write_be32 ox i) post)"
  by (simp add: read_uint32_def buf_read_at oxenc_okD)

end
