(* ===== verification/Dns_Name.thy ===== *)
theory Dns_Name
  imports Util_Str Wire_Buffer Net_Int
begin

text \<open>
  Domain names: the wire form of \<^verbatim>\<open>llarp/dns/name.cpp\<close>, reverse lookups and reserved names.
  Encoding and decoding are shown to be inverse on names whose labels have one to 63 bytes,
  and reverse names to be parsed to the address they were made from.
\<close>

abbreviation dot :: byte where "dot \<equiv> 0x2E"

section \<open>The wire form\<close>

function DecodeName_loop :: "bytes \<Rightarrow> llarp_buffer_t \<Rightarrow> exn + bytes option \<times> llarp_buffer_t" where
  "DecodeName_loop name buf =
     (case get_byte buf of
        Inl e \<Rightarrow> Inl e
      | Inr (b, buf) \<Rightarrow>
          let l = unat b
          in if l \<noteq> 0
             then if size_left buf < l then Inr (None, buf)
                  else DecodeName_loop (name @ segment (cur buf) l (base buf) @ [dot]) (buf\<lparr>cur := cur buf + l\<rparr>)
             else Inr (Some name, buf))"
  by auto

termination
  by (relation "measure (\<lambda>(name, buf). length (base buf) - cur buf)")
    (auto simp: get_byte_def size_left_def split: if_splits)

declare DecodeName_loop.simps [simp del]

text \<open>\<^verbatim>\<open>pop_back\<close> on an empty string is undefined.\<close>

definition DecodeName :: "bool \<Rightarrow> llarp_buffer_t \<Rightarrow> exn + bytes option \<times> llarp_buffer_t" where
  "DecodeName trimTrailingDot buf =
     (if size_left buf < 1 then Inr (None, buf)
      else bind_exn (DecodeName_loop [] buf) (\<lambda>(result, buf).
        case result of
          None \<Rightarrow> Inr (None, buf)
        | Some name \<Rightarrow>
            if \<not> trimTrailingDot then Inr (Some name, buf)
            else if name = [] then Inl OutOfBounds
            else Inr (Some (butlast name), buf)))"

definition EncodeName_end :: "llarp_buffer_t \<Rightarrow> exn + bool \<times> llarp_buffer_t" where
  "EncodeName_end buf = bind_exn (put_byte 0 buf) (\<lambda>buf. Inr (True, buf))"

primrec EncodeName_loop :: "bytes list \<Rightarrow> llarp_buffer_t \<Rightarrow> exn + bool \<times> llarp_buffer_t" where
  "EncodeName_loop [] buf = EncodeName_end buf"
| "EncodeName_loop (part # parts) buf =
     (let l = length part
      in if l > 63 then Inr (False, buf)
         else bind_exn (put_byte (of_nat l) buf) (\<lambda>buf.
           if size_left buf < l then Inr (False, buf)
           else if l \<noteq> 0 then EncodeName_loop parts (write_at_cur part buf)
           else EncodeName_end buf))"

definition EncodeNameTo :: "llarp_buffer_t \<Rightarrow> bytes \<Rightarrow> exn + bool \<times> llarp_buffer_t" where
  "EncodeNameTo buf name =
     (let name = (if name \<noteq> [] \<and> last name = dot then butlast name else name)
      in EncodeName_loop (str_split name [dot] False) buf)"


section \<open>Reverse names and reserved names\<close>

primrec DecodePTR_octets :: "nat \<Rightarrow> bytes \<Rightarrow> byte list \<Rightarrow> byte list option" where
  "DecodePTR_octets 0 name q = Some q"
| "DecodePTR_octets (Suc i) name q =
     (case find_sub [dot] name of
        None \<Rightarrow> None
      | Some pos \<Rightarrow>
          (case parse_int 255 (take pos name) of
             None \<Rightarrow> None
           | Some v \<Rightarrow> DecodePTR_octets i (drop (pos + 1) name) (of_nat v # q)))"

text \<open>
  The hexadecimal routines of the oxen-encoding library are parameters. \<^verbatim>\<open>from_hex\<close> fills the
  sixteen bytes of the integer in memory order, the least significant first.
\<close>

record oxenc_hex =
  is_hex_digit :: "byte \<Rightarrow> bool"
  from_hex :: "bytes \<Rightarrow> bytes"

fun DecodePTR_nybbles :: "oxenc_hex \<Rightarrow> bytes \<Rightarrow> bytes \<Rightarrow> bytes option" where
  "DecodePTR_nybbles hx (a # d # b # e # name) acc =
     (if is_hex_digit hx a \<and> d = dot \<and> is_hex_digit hx b \<and> e = dot
      then DecodePTR_nybbles hx name (acc @ [b, a]) else None)"
| "DecodePTR_nybbles hx _ acc = Some acc"

primrec le_load64 :: "bytes \<Rightarrow> u64" where
  "le_load64 [] = 0"
| "le_load64 (b # bs) = ucast b OR push_bit 8 (le_load64 bs)"

definition le_load128 :: "bytes \<Rightarrow> uint128_t" where
  "le_load128 bs = uint128 (le_load64 (drop 8 bs)) (le_load64 (take 8 bs))"

definition DecodePTR :: "oxenc_hex \<Rightarrow> bytes \<Rightarrow> uint128_t option" where
  "DecodePTR hx name =
     (let v4 = find_sub (str ''.in-addr.arpa'') name;
          isV6 = (v4 = None);
          pos = (if isV6 then find_sub (str ''.ip6.arpa'') name else v4)
      in case pos of
           None \<Rightarrow> None
         | Some pos \<Rightarrow>
             let name = take (pos + 1) name;
                 numdots = length (filter (\<lambda>c. c = dot) name)
             in if numdots = 4 \<and> \<not> isV6
                then case DecodePTR_octets 4 name [] of
                       None \<Rightarrow> None
                     | Some q \<Rightarrow> Some (ExpandV4 (ipaddr_ipv4_bits (ucast (q ! 0)) (ucast (q ! 1))
                                   (ucast (q ! 2)) (ucast (q ! 3))))
                else if numdots = 32 \<and> length name = 64 \<and> isV6
                then map_option (\<lambda>digits. le_load128 (from_hex hx digits)) (DecodePTR_nybbles hx name [])
                else None)"

definition NameIsReserved :: "bytes \<Rightarrow> bool" where
  "NameIsReserved name \<longleftrightarrow>
     list_ex (\<lambda>reserved. ends_with name reserved \<or> name = drop 1 reserved)
       [str ''.mnode.bdx'', str ''.bdx.bdx'', str ''.mnode.bdx.'', str ''.bdx.bdx.'']"


section \<open>Encoding and decoding are inverse\<close>

definition label_ok :: "bytes \<Rightarrow> bool" where
  "label_ok l \<longleftrightarrow> 0 < length l \<and> length l \<le> 63 \<and> dot \<notin> set l"

definition wire_labels :: "bytes list \<Rightarrow> bytes" where
  "wire_labels ls = concat (map (\<lambda>l. of_nat (length l) # l) ls) @ [0]"

lemma wire_labels_simps [simp]:
  "wire_labels [] = [0]" "wire_labels (l # ls) = of_nat (length l) # l @ wire_labels ls"
  by (simp_all add: wire_labels_def)

lemma EncodeName_loop_ok:
  assumes "list_all label_ok ls" and "length (wire_labels ls) \<le> length post"
  shows "EncodeName_loop ls (buf_at pre post) = Inr (True, buf_at (pre @ wire_labels ls) (drop (length (wire_labels ls)) post))"
  using assms
proof (induction ls arbitrary: pre post)
  case Nil
  then show ?case by (cases post) (simp_all add: EncodeName_end_def)
next
  case (Cons l ls)
  then obtain c rest where post: "post = c # rest" by (cases post) auto
  have l: "0 < length l" "length l \<le> 63" using Cons.prems(1) by (simp_all add: label_ok_def)
  have "length (wire_labels ls) \<le> length (drop (length l) rest)" "length l \<le> length rest"
    using Cons.prems(2) post by auto
  then show ?case
    using Cons.IH [of "drop (length l) rest" "pre @ [of_nat (length l)] @ l"] Cons.prems(1) l
    by (simp add: post write_at add.commute Let_def)
qed

lemma DecodeName_loop_ok:
  assumes "list_all label_ok ls"
  shows "DecodeName_loop name (buf_at pre (wire_labels ls @ post)) =
    Inr (Some (name @ concat (map (\<lambda>l. l @ [dot]) ls)), buf_at (pre @ wire_labels ls) post)"
  using assms
proof (induction ls arbitrary: pre name)
  case Nil
  then show ?case by (simp add: DecodeName_loop.simps)
next
  case (Cons l ls)
  have l: "0 < length l" "length l \<le> 63" using Cons.prems by (simp_all add: label_ok_def)
  then have u: "unat (of_nat (length l) :: byte) = length l" by (intro unat_of_nat_small) simp
  show ?case
    using Cons.IH [of "name @ l @ [dot]" "pre @ [of_nat (length l)] @ l"] Cons.prems l
    by (subst DecodeName_loop.simps) (simp add: u segment_def Let_def at_jump)
qed

lemma join_labels: "ls \<noteq> [] \<Longrightarrow> concat (map (\<lambda>l. l @ [dot]) ls) = join [dot] ls @ [dot]"
  by (induction ls rule: list_nonempty_induct) (simp_all add: join_Cons)

lemma last_join: "ls \<noteq> [] \<Longrightarrow> last ls \<noteq> [] \<Longrightarrow> join d ls \<noteq> [] \<and> last (join d ls) = last (last ls)"
  by (induction ls rule: list_nonempty_induct) (auto simp: join_Cons)

lemma EncodeNameTo_ok:
  assumes "list_all label_ok ls" and "ls \<noteq> []" and "name = join [dot] ls \<or> name = join [dot] ls @ [dot]"
    and "length (wire_labels ls) \<le> length post"
  shows "EncodeNameTo (buf_at pre post) name =
    Inr (True, buf_at (pre @ wire_labels ls) (drop (length (wire_labels ls)) post))"
proof -
  have "label_ok (last ls)" using assms(1,2) by (simp add: list_all_iff)
  then have "last ls \<noteq> []" "last (last ls) \<noteq> dot" by (auto simp: label_ok_def dest: last_in_set)
  then have "(if name \<noteq> [] \<and> last name = dot then butlast name else name) = join [dot] ls"
    using last_join [of ls "[dot]"] assms(2,3) by auto
  moreover have "str_split (join [dot] ls) [dot] False = ls"
    using assms(1,2) by (intro split_join_parts) (auto simp: list_all_iff label_ok_def)
  ultimately show ?thesis
    using EncodeName_loop_ok [OF assms(1,4)] by (simp add: EncodeNameTo_def)
qed

lemma DecodeName_ok:
  assumes "list_all label_ok ls" and "ls \<noteq> []"
  shows "DecodeName False (buf_at pre (wire_labels ls @ post)) =
    Inr (Some (join [dot] ls @ [dot]), buf_at (pre @ wire_labels ls) post)"
proof -
  have "wire_labels ls \<noteq> []" by (simp add: wire_labels_def)
  then show ?thesis
    using DecodeName_loop_ok [OF assms(1), of "[]" pre post] join_labels [OF assms(2)]
    by (simp add: DecodeName_def Suc_le_eq)
qed


text \<open>
  C18. A domain name survives the wire: for any list of labels of one to 63 bytes without
  dots, the dotted name, with or without the final dot, is written into a buffer that has
  room for it, nothing beyond is touched, and decoding at the same place returns the name
  with its final dot and stops right behind it.
\<close>

theorem name_roundtrip:
  assumes "list_all label_ok ls" and "ls \<noteq> []" and "name = join [dot] ls \<or> name = join [dot] ls @ [dot]"
    and "length (join [dot] ls) + 2 \<le> length room"
  shows "\<exists>wire. length wire = length (join [dot] ls) + 2 \<and>
    EncodeNameTo (buf_at pre (room @ post)) name = Inr (True, buf_at (pre @ wire) (drop (length wire) room @ post)) \<and>
    DecodeName False (buf_at pre (wire @ drop (length wire) room @ post)) =
      Inr (Some (join [dot] ls @ [dot]), buf_at (pre @ wire) (drop (length wire) room @ post))"
proof -
  have len: "length (wire_labels ls) = length (join [dot] ls) + 2"
    using assms(2) by (induction ls rule: list_nonempty_induct) (simp_all add: join_Cons)
  then have "length (wire_labels ls) \<le> length (room @ post)" using assms(4) by simp
  from EncodeNameTo_ok [OF assms(1-3) this, of pre] assms(4)
  have "EncodeNameTo (buf_at pre (room @ post)) name =
      Inr (True, buf_at (pre @ wire_labels ls) (drop (length (wire_labels ls)) room @ post))"
    by (simp add: len)
  with DecodeName_ok [OF assms(1,2)] len show ?thesis by blast
qed

theorem name_roundtrip_witness:
  "\<exists>wire. length wire = 7 \<and>
    EncodeNameTo (buf_at [] (replicate 9 0)) (str ''a.bdx'') = Inr (True, buf_at wire [0, 0]) \<and>
    DecodeName False (buf_at [] (wire @ [0, 0])) = Inr (Some (str ''a.bdx.''), buf_at wire [0, 0])"
proof -
  have "list_all label_ok [str ''a'', str ''bdx'']" by (simp add: label_ok_def str_def)
  moreover have "str ''a.bdx'' = join [dot] [str ''a'', str ''bdx'']" "str ''a.bdx.'' = join [dot] [str ''a'', str ''bdx''] @ [dot]"
    by (simp_all add: str_def join_Cons)
  moreover have "length (join [dot] [str ''a'', str ''bdx'']) = 5" by (simp add: str_def join_Cons)
  ultimately show ?thesis
    using name_roundtrip [of "[str ''a'', str ''bdx'']" "str ''a.bdx''" "replicate 9 0" "[]" "[]"]
    by (auto simp: numeral_eq_Suc)
qed

text \<open>
  C19. Decoding trusts the terminator: a name that fills the buffer to its end without the
  closing zero byte makes \<^verbatim>\<open>DecodeName\<close> read the byte behind the buffer.
\<close>

lemma DecodeName_loop_unterminated:
  assumes "list_all label_ok ls"
  shows "DecodeName_loop name (buf_at pre (concat (map (\<lambda>l. of_nat (length l) # l) ls))) = Inl OutOfBounds"
  using assms
proof (induction ls arbitrary: pre name)
  case Nil
  then show ?case by (simp add: DecodeName_loop.simps)
next
  case (Cons l ls)
  have l: "0 < length l" "length l \<le> 63" using Cons.prems by (simp_all add: label_ok_def)
  then have u: "unat (of_nat (length l) :: byte) = length l" by (intro unat_of_nat_small) simp
  show ?case
    using Cons.IH [of "name @ l @ [dot]" "pre @ [of_nat (length l)] @ l"] Cons.prems l
    by (subst DecodeName_loop.simps) (simp add: u segment_def Let_def at_jump)
qed

theorem unterminated_name_reads_past_end:
  assumes "list_all label_ok ls" and "ls \<noteq> []"
  shows "DecodeName trimTrailingDot (buf_at pre (concat (map (\<lambda>l. of_nat (length l) # l) ls))) = Inl OutOfBounds"
  using assms DecodeName_loop_unterminated [OF assms(1)] by (cases ls) (auto simp: DecodeName_def)

theorem unterminated_name_reads_past_end_witness:
  "DecodeName False (buf_at [] [1, 0x61]) = Inl OutOfBounds"
  using unterminated_name_reads_past_end [of "[[0x61]]" False "[]"] by (simp add: label_ok_def)


section \<open>Reverse names\<close>

fun dec :: "nat \<Rightarrow> bytes" where
  "dec n = (if n < 10 then [of_nat (0x30 + n)] else dec (n div 10) @ [of_nat (0x30 + n mod 10)])"

declare dec.simps [simp del]

lemma digit_props:
  assumes "n < 10"
  shows "is_digit (of_nat (0x30 + n))" and "unat (of_nat (0x30 + n) :: byte) = 0x30 + n"
proof -
  have u: "unat (of_nat (0x30 + n) :: byte) = 0x30 + n" using assms by (intro unat_of_nat_small) simp
  then show "unat (of_nat (0x30 + n) :: byte) = 0x30 + n" .
  show "is_digit (of_nat (0x30 + n))"
    using assms u unfolding is_digit_def word_le_nat_alt u by simp
qed

lemma dec_props: "dec n \<noteq> [] \<and> list_all is_digit (dec n) \<and> digits_value (dec n) = n"
proof (induction n rule: dec.induct)
  case (1 n)
  show ?case
  proof (cases "n < 10")
    case True
    then show ?thesis using digit_props [OF True] by (simp add: dec.simps digits_value_def)
  next
    case False
    with 1 digit_props [of "n mod 10"] show ?thesis
      by (subst (1 2 3) dec.simps) (simp add: digits_value_def)
  qed
qed

lemma digits_no_dot: "list_all is_digit s \<Longrightarrow> dot \<notin> set s"
  by (auto simp: list_all_iff is_digit_def)

lemma parse_int_dec: "n \<le> hi \<Longrightarrow> parse_int hi (dec n) = Some n"
  using dec_props [of n] by (simp add: parse_int_def)

lemma DecodePTR_octets_dec:
  assumes "list_all (\<lambda>n. n \<le> 255) ns"
  shows "DecodePTR_octets (length ns) (concat (map (\<lambda>n. dec n @ [dot]) ns) @ rest) q = Some (rev (map of_nat ns) @ q)"
  using assms
proof (induction ns arbitrary: q)
  case (Cons n ns)
  have "find_sub [dot] (dec n @ dot # t) = Some (length (dec n))" for t
    using dec_props [of n] by (intro find_char_first digits_no_dot) simp
  with Cons show ?case by (simp add: parse_int_dec)
qed simp


lemma find_sub_first:
  assumes "y \<notin> set u" and "y \<noteq> x"
  shows "find_sub (x # y # ps) (u @ (x # y # ps) @ v) = Some (length u)"
proof -
  let ?p = "x # y # ps" and ?s = "u @ (x # y # ps) @ v"
  have here: "occurs_at ?p ?s (length u)" by (simp add: occurs_at_def)
  have early: "\<not> occurs_at ?p ?s j" if "j < length u" for j
  proof
    assume "occurs_at ?p ?s j"
    then have "take (length ?p) (drop j ?s) ! 1 = ?p ! 1" by (simp only: occurs_at_def)
    moreover have "take (length ?p) (drop j ?s) ! 1 = ?s ! (j + 1)"
      using that by (subst nth_take, simp, subst nth_drop) simp_all
    ultimately have "?s ! Suc j = y" by simp
    moreover have "?s ! Suc j \<in> set (u @ [x])"
      using that by (cases "Suc j = length u") (auto simp: nth_append)
    ultimately show False using assms by auto
  qed
  obtain i where i: "find_sub ?p ?s = Some i" using here find_sub_None by fastforce
  with here early have "i = length u"
    using find_sub_Some [OF i] by (metis nat_neq_iff)
  with i show ?thesis by simp
qed

text \<open>
  C20. The reverse name of an IPv4 address, its four octets in decimal from the last to the
  first under \<^verbatim>\<open>in-addr.arpa\<close>, is parsed to the mapped form of that address.
\<close>

theorem DecodePTR_v4:
  "DecodePTR hx (concat (map (\<lambda>n. dec (unat n) @ [dot]) [d, c, b, a :: byte]) @ str ''in-addr.arpa'') =
     Some (ExpandV4 (ipaddr_ipv4_bits (ucast a) (ucast b) (ucast c) (ucast d)))"
proof -
  let ?n = "\<lambda>x :: byte. dec (unat x)"
  define u where "u = concat (map (\<lambda>x. ?n x @ [dot]) [d, c, b]) @ ?n a"
  have digits: "list_all is_digit (?n x)" for x using dec_props by blast
  have set_u: "set u \<subseteq> {y. is_digit y} \<union> {dot}" using digits by (auto simp: u_def list_all_iff)
  have i: "(0x69 :: byte) \<notin> set u" using set_u by (auto simp: is_digit_def)
  have name: "concat (map (\<lambda>x. ?n x @ [dot]) [d, c, b, a]) @ str ''in-addr.arpa'' =
      u @ str ''.in-addr.arpa'' @ []"
    by (simp add: u_def str_def)
  obtain ps where p: "str ''.in-addr.arpa'' = dot # 0x69 # ps" by (simp add: str_def)
  have pos: "find_sub (str ''.in-addr.arpa'') (u @ str ''.in-addr.arpa'' @ []) = Some (length u)"
    unfolding p by (rule find_sub_first) (simp_all add: i)
  have front: "take (length u + 1) (u @ str ''.in-addr.arpa'' @ []) = concat (map (\<lambda>x. ?n x @ [dot]) [d, c, b, a]) @ []"
  proof -
    have "take (length u + 1) (u @ str ''.in-addr.arpa'' @ []) = u @ [dot]" by (simp add: p)
    then show ?thesis by (simp add: u_def)
  qed
  have "filter (\<lambda>y. y = dot) (?n x) = []" for x
    using digits_no_dot [OF digits] by (auto simp: filter_empty_conv)
  then have dots: "length (filter (\<lambda>y. y = dot) (concat (map (\<lambda>x. ?n x @ [dot]) [d, c, b, a]) @ [])) = 4" by simp
  have le: "unat (x :: byte) \<le> 255" for x using unsigned_less [of x] by (simp add: less_Suc_eq_le [symmetric])
  have "DecodePTR_octets 4 (concat (map (\<lambda>x. ?n x @ [dot]) [d, c, b, a]) @ []) [] = Some [a, b, c, d]"
    using DecodePTR_octets_dec [of "map unat [d, c, b, a]" "[]" "[]"] le
    by (simp add: numeral_eq_Suc del: DecodePTR_octets.simps)
  then show ?thesis
    unfolding name DecodePTR_def pos Let_def
    by (simp only: option.distinct option.case if_True if_False simp_thms front dots) simp
qed

end
