(* ===== verification/Dns_Message.thy ===== *)
theory Dns_Message
  imports Dns_Name
begin

text \<open>
  DNS messages: questions (\<^verbatim>\<open>llarp/dns/question.cpp\<close>), resource records (\<^verbatim>\<open>llarp/dns/rr.cpp\<close>),
  record data (\<^verbatim>\<open>llarp/dns/serialize.cpp\<close>), service records (\<^verbatim>\<open>llarp/dns/srv_data.cpp\<close>) and whole
  messages with the replies that are built from them (\<^verbatim>\<open>llarp/dns/message.cpp\<close>). Queries are
  shown to survive encoding and parsing; three places where the code does not do what it
  means to are shown as such.
\<close>

section \<open>Constants\<close>

definition qTypeSRV :: u16 where "qTypeSRV = 33"
definition qTypeAAAA :: u16 where "qTypeAAAA = 28"
definition qTypeTXT :: u16 where "qTypeTXT = 16"
definition qTypeMX :: u16 where "qTypeMX = 15"
definition qTypePTR :: u16 where "qTypePTR = 12"
definition qTypeCNAME :: u16 where "qTypeCNAME = 5"
definition qTypeNS :: u16 where "qTypeNS = 2"
definition qTypeA :: u16 where "qTypeA = 1"
definition qClassIN :: u16 where "qClassIN = 1"
definition flags_QR :: u16 where "flags_QR = push_bit 15 1"
definition flags_AA :: u16 where "flags_AA = push_bit 10 1"
definition flags_RD :: u16 where "flags_RD = push_bit 8 1"
definition flags_RA :: u16 where "flags_RA = push_bit 7 1"
definition flags_RCODENameError :: u16 where "flags_RCODENameError = 3"
definition flags_RCODEServFail :: u16 where "flags_RCODEServFail = 2"

text \<open>A step that is taken only after the previous one returned \<^verbatim>\<open>true\<close>.\<close>

definition then_ok :: "exn + bool \<times> 'b \<Rightarrow> ('b \<Rightarrow> exn + bool \<times> 'b) \<Rightarrow> exn + bool \<times> 'b" where
  "then_ok r f = bind_exn r (\<lambda>(ok, b). if ok then f b else Inr (False, b))"

lemma then_ok_simps [simp]:
  "then_ok (Inr (True, b)) f = f b" "then_ok (Inr (False, b)) f = Inr (False, b)" "then_ok (Inl e) f = Inl e"
  by (simp_all add: then_ok_def)


section \<open>Record data\<close>

definition EncodeRData :: "oxenc \<Rightarrow> bytes \<Rightarrow> llarp_buffer_t \<Rightarrow> bool \<times> llarp_buffer_t" where
  "EncodeRData ox v buf =
     (if length v > 65536 then (False, buf)
      else let len = of_nat (length v) :: u16;
               (ok, buf) = put_uint16 ox len buf
           in if \<not> ok then (False, buf)
              else if size_left buf < unat len then (False, buf)
              else (True, write_at_cur (take (unat len) v) buf))"

definition DecodeRData :: "oxenc \<Rightarrow> llarp_buffer_t \<Rightarrow> bytes option \<times> llarp_buffer_t" where
  "DecodeRData ox buf =
     (case read_uint16 ox buf of
        (None, buf) \<Rightarrow> (None, buf)
      | (Some len, buf) \<Rightarrow>
          if size_left buf < unat len then (None, buf)
          else (Some (segment (cur buf) (unat len) (base buf)), buf\<lparr>cur := cur buf + unat len\<rparr>))"


section \<open>Questions\<close>

record Question =
  qname :: bytes
  qtype :: u16
  qclass :: u16

definition new_Question :: "bytes \<Rightarrow> u16 \<Rightarrow> exn + Question" where
  "new_Question name t =
     (if name = [] then Inl InvalidArgument else Inr \<lparr>qname = name, qtype = t, qclass = qClassIN\<rparr>)"

definition Question_Encode :: "oxenc \<Rightarrow> Question \<Rightarrow> llarp_buffer_t \<Rightarrow> exn + bool \<times> llarp_buffer_t" where
  "Question_Encode ox q buf =
     then_ok (EncodeNameTo buf (qname q)) (\<lambda>buf.
     then_ok (Inr (put_uint16 ox (qtype q) buf)) (\<lambda>buf.
       Inr (put_uint16 ox (qclass q) buf)))"

definition Question_Decode ::
  "oxenc \<Rightarrow> Question \<Rightarrow> llarp_buffer_t \<Rightarrow> exn + bool \<times> Question \<times> llarp_buffer_t" where
  "Question_Decode ox q buf =
     bind_exn (DecodeName False buf) (\<lambda>(name, buf).
       case name of
         None \<Rightarrow> Inr (False, q, buf)
       | Some name \<Rightarrow>
           let q = q\<lparr>qname := name\<rparr>
           in case read_uint16 ox buf of
                (None, buf) \<Rightarrow> Inr (False, q, buf)
              | (Some t, buf) \<Rightarrow>
                  let q = q\<lparr>qtype := t\<rparr>
                  in case read_uint16 ox buf of
                       (None, buf) \<Rightarrow> Inr (False, q, buf)
                     | (Some c, buf) \<Rightarrow> Inr (True, q\<lparr>qclass := c\<rparr>, buf))"

text \<open>
  \<^verbatim>\<open>find_last_of\<close> of the empty string is \<^verbatim>\<open>npos\<close>, which equals \<^verbatim>\<open>size() - 1\<close> there, so the recursion
  happens once, on a name that does not end with a dot.
\<close>

definition IsName :: "bytes \<Rightarrow> Question \<Rightarrow> bool" where
  "IsName other q \<longleftrightarrow>
     (if other = [] \<or> last other = dot then other = qname q else other @ [dot] = qname q)"

definition IsLocalhost :: "Question \<Rightarrow> bool" where
  "IsLocalhost q \<longleftrightarrow> qname q = str ''localhost.bdx.'' \<or> ends_with (qname q) (str ''.localhost.bdx.'')"

definition HasSubdomains :: "Question \<Rightarrow> bool" where
  "HasSubdomains q \<longleftrightarrow> length (str_split (qname q) [dot] True) \<ge> 3"

text \<open>\<^verbatim>\<open>rfind\<close> of a character up to a position looks at the prefix that includes it.\<close>

definition Subdomains :: "Question \<Rightarrow> bytes" where
  "Subdomains q =
     (if length (qname q) < 2 then []
      else case rfind_sub [dot] (take (length (qname q) - 1) (qname q)) of
             None \<Rightarrow> []
           | Some pos \<Rightarrow>
               if pos = 0 then []
               else case rfind_sub [dot] (take pos (qname q)) of
                      None \<Rightarrow> []
                    | Some pos \<Rightarrow> if pos = 0 then [] else take pos (qname q))"

definition Question_Name :: "Question \<Rightarrow> bytes" where
  "Question_Name q =
     (case rfind_sub [dot] (qname q) of None \<Rightarrow> qname q | Some pos \<Rightarrow> take pos (qname q))"

definition HasTLD :: "bytes \<Rightarrow> Question \<Rightarrow> bool" where
  "HasTLD tld q \<longleftrightarrow>
     (case rfind_sub tld (qname q) of None \<Rightarrow> False | Some pos \<Rightarrow> pos + length tld + 1 = length (qname q))"


section \<open>Resource records\<close>

record ResourceRecord =
  rr_name :: bytes
  rr_type :: u16
  rr_class :: u16
  ttl :: u32
  rData :: bytes

definition new_ResourceRecord :: "bytes \<Rightarrow> u16 \<Rightarrow> bytes \<Rightarrow> ResourceRecord" where
  "new_ResourceRecord name t data =
     \<lparr>rr_name = name, rr_type = t, rr_class = qClassIN, ttl = 1, rData = data\<rparr>"

definition ResourceRecord_Encode ::
  "oxenc \<Rightarrow> ResourceRecord \<Rightarrow> llarp_buffer_t \<Rightarrow> exn + bool \<times> llarp_buffer_t" where
  "ResourceRecord_Encode ox rr buf =
     then_ok (EncodeNameTo buf (rr_name rr)) (\<lambda>buf.
     then_ok (Inr (put_uint16 ox (rr_type rr) buf)) (\<lambda>buf.
     then_ok (Inr (put_uint16 ox (rr_class rr) buf)) (\<lambda>buf.
     then_ok (Inr (put_uint32 ox (ttl rr) buf)) (\<lambda>buf.
       Inr (EncodeRData ox (rData rr) buf)))))"

definition ResourceRecord_Decode ::
  "oxenc \<Rightarrow> ResourceRecord \<Rightarrow> llarp_buffer_t \<Rightarrow> bool \<times> ResourceRecord \<times> llarp_buffer_t" where
  "ResourceRecord_Decode ox rr buf =
     (case read_uint16 ox buf of
        (None, buf) \<Rightarrow> (False, rr, buf)
      | (Some discard, buf) \<Rightarrow>
          case read_uint16 ox buf of
            (None, buf) \<Rightarrow> (False, rr, buf)
          | (Some t, buf) \<Rightarrow>
              let rr = rr\<lparr>rr_type := t\<rparr>
              in case read_uint16 ox buf of
                   (None, buf) \<Rightarrow> (False, rr, buf)
                 | (Some c, buf) \<Rightarrow>
                     let rr = rr\<lparr>rr_class := c\<rparr>
                     in case read_uint32 ox buf of
                          (None, buf) \<Rightarrow> (False, rr, buf)
                        | (Some t, buf) \<Rightarrow>
                            let rr = rr\<lparr>ttl := t\<rparr>
                            in case DecodeRData ox buf of
                                 (None, buf) \<Rightarrow> (False, rr, buf)
                               | (Some d, buf) \<Rightarrow> (True, rr\<lparr>rData := d\<rparr>, buf))"

definition HasCNameForTLD :: "bytes \<Rightarrow> ResourceRecord \<Rightarrow> exn + bool" where
  "HasCNameForTLD tld rr =
     (if rr_type rr \<noteq> qTypeCNAME then Inr False
      else bind_exn (DecodeName False \<lparr>base = rData rr, cur = 0\<rparr>) (\<lambda>(name, _).
        case name of
          None \<Rightarrow> Inr False
        | Some name \<Rightarrow>
            Inr (case rfind_sub tld name of
                   None \<Rightarrow> length name = length tld
                 | Some pos \<Rightarrow> pos + length tld + 1 = length name)))"


section \<open>Service records\<close>

record SRVData =
  service_proto :: bytes
  priority :: u16
  weight :: u16
  port :: u16
  target :: bytes

definition TARGET_MAX_SIZE :: nat where "TARGET_MAX_SIZE = 200"

definition SRVData_IsValid :: "SRVData \<Rightarrow> bool" where
  "SRVData_IsValid s =
     (if target s = [dot] \<or> target s = [] then True
      else if length (target s) > TARGET_MAX_SIZE then False
      else case find_sub (str ''.bdx'') (target s) of
             Some pos \<Rightarrow>
               if pos + 5 = length (target s) then True
               else (case find_sub (str ''.mnode'') (target s) of
                       Some pos \<Rightarrow> pos + 6 = length (target s) | None \<Rightarrow> False)
           | None \<Rightarrow>
               (case find_sub (str ''.mnode'') (target s) of
                  Some pos \<Rightarrow> pos + 6 = length (target s) | None \<Rightarrow> False))"

definition SRVData_fromString :: "SRVData \<Rightarrow> bytes \<Rightarrow> bool \<times> SRVData" where
  "SRVData_fromString s srvString =
     (let splits = str_split srvString [0x20] False
      in if length splits \<noteq> 5 \<and> length splits \<noteq> 4 then (False, s)
         else
           let s = s\<lparr>service_proto := splits ! 0\<rparr>
           in case parse_int 65535 (splits ! 1) of
                None \<Rightarrow> (False, s)
              | Some p \<Rightarrow>
                  let s = s\<lparr>priority := of_nat p\<rparr>
                  in case parse_int 65535 (splits ! 2) of
                       None \<Rightarrow> (False, s)
                     | Some w \<Rightarrow>
                         let s = s\<lparr>weight := of_nat w\<rparr>
                         in case parse_int 65535 (splits ! 3) of
                              None \<Rightarrow> (False, s)
                            | Some p \<Rightarrow>
                                let s = s\<lparr>port := of_nat p,
                                          target := if length splits = 5 then splits ! 4 else []\<rparr>
                                in (SRVData_IsValid s, s))"



section \<open>Messages\<close>

record MessageHeader =
  hdr_id' :: u16
  hdr_fields' :: u16
  qd_count :: u16
  an_count :: u16
  ns_count :: u16
  ar_count :: u16

record Message =
  hdr_id :: u16
  hdr_fields :: u16
  questions :: "Question list"
  answers :: "ResourceRecord list"
  authorities :: "ResourceRecord list"
  additional :: "ResourceRecord list"

definition MessageHeader_Encode :: "oxenc \<Rightarrow> MessageHeader \<Rightarrow> llarp_buffer_t \<Rightarrow> exn + bool \<times> llarp_buffer_t" where
  "MessageHeader_Encode ox h buf =
     then_ok (Inr (put_uint16 ox (hdr_id' h) buf)) (\<lambda>buf.
     then_ok (Inr (put_uint16 ox (hdr_fields' h) buf)) (\<lambda>buf.
     then_ok (Inr (put_uint16 ox (qd_count h) buf)) (\<lambda>buf.
     then_ok (Inr (put_uint16 ox (an_count h) buf)) (\<lambda>buf.
     then_ok (Inr (put_uint16 ox (ns_count h) buf)) (\<lambda>buf.
       Inr (put_uint16 ox (ar_count h) buf))))))"

definition read_then ::
  "oxenc \<Rightarrow> llarp_buffer_t \<Rightarrow> (u16 \<Rightarrow> llarp_buffer_t \<Rightarrow> 'a option \<times> llarp_buffer_t) \<Rightarrow> 'a option \<times> llarp_buffer_t" where
  "read_then ox buf f =
     (case read_uint16 ox buf of (None, buf) \<Rightarrow> (None, buf) | (Some i, buf) \<Rightarrow> f i buf)"

definition MessageHeader_Decode :: "oxenc \<Rightarrow> llarp_buffer_t \<Rightarrow> MessageHeader option \<times> llarp_buffer_t" where
  "MessageHeader_Decode ox buf =
     read_then ox buf (\<lambda>i buf. read_then ox buf (\<lambda>f buf.
     read_then ox buf (\<lambda>qd buf. read_then ox buf (\<lambda>an buf.
     read_then ox buf (\<lambda>ns buf. read_then ox buf (\<lambda>ar buf.
       (Some \<lparr>hdr_id' = i, hdr_fields' = f, qd_count = qd, an_count = an, ns_count = ns, ar_count = ar\<rparr>,
        buf)))))))"

definition empty_Question :: Question where
  "empty_Question = \<lparr>qname = [], qtype = 0, qclass = 0\<rparr>"

definition empty_ResourceRecord :: ResourceRecord where
  "empty_ResourceRecord = \<lparr>rr_name = [], rr_type = 0, rr_class = 0, ttl = 0, rData = []\<rparr>"

definition new_Message :: "MessageHeader \<Rightarrow> Message" where
  "new_Message h =
     \<lparr>hdr_id = hdr_id' h, hdr_fields = hdr_fields' h,
      questions = replicate (unat (qd_count h)) empty_Question,
      answers = replicate (unat (an_count h)) empty_ResourceRecord,
      authorities = replicate (unat (ns_count h)) empty_ResourceRecord,
      additional = replicate (unat (ar_count h)) empty_ResourceRecord\<rparr>"

definition Message_of_Question :: "Question \<Rightarrow> Message" where
  "Message_of_Question q =
     \<lparr>hdr_id = 0, hdr_fields = 0, questions = [q], answers = [], authorities = [], additional = []\<rparr>"

primrec encode_all ::
  "('a \<Rightarrow> llarp_buffer_t \<Rightarrow> exn + bool \<times> llarp_buffer_t) \<Rightarrow> 'a list \<Rightarrow> llarp_buffer_t \<Rightarrow> exn + bool \<times> llarp_buffer_t" where
  "encode_all f [] buf = Inr (True, buf)"
| "encode_all f (x # xs) buf = then_ok (f x buf) (encode_all f xs)"

definition Message_Encode :: "oxenc \<Rightarrow> Message \<Rightarrow> llarp_buffer_t \<Rightarrow> exn + bool \<times> llarp_buffer_t" where
  "Message_Encode ox m buf =
     (let h = \<lparr>hdr_id' = hdr_id m, hdr_fields' = hdr_fields m, qd_count = of_nat (length (questions m)),
               an_count = of_nat (length (answers m)), ns_count = 0, ar_count = 0\<rparr>
      in then_ok (MessageHeader_Encode ox h buf) (\<lambda>buf.
         then_ok (encode_all (Question_Encode ox) (questions m) buf)
           (encode_all (ResourceRecord_Encode ox) (answers m))))"

primrec decode_all ::
  "('a \<Rightarrow> llarp_buffer_t \<Rightarrow> exn + bool \<times> 'a \<times> llarp_buffer_t) \<Rightarrow> 'a list \<Rightarrow> llarp_buffer_t \<Rightarrow>
   exn + bool \<times> 'a list \<times> llarp_buffer_t" where
  "decode_all f [] buf = Inr (True, [], buf)"
| "decode_all f (x # xs) buf =
     bind_exn (f x buf) (\<lambda>(ok, x, buf).
       if \<not> ok then Inr (False, x # xs, buf)
       else bind_exn (decode_all f xs buf) (\<lambda>(ok, xs, buf). Inr (ok, x # xs, buf)))"

definition Message_Decode :: "oxenc \<Rightarrow> Message \<Rightarrow> llarp_buffer_t \<Rightarrow> exn + bool \<times> Message \<times> llarp_buffer_t" where
  "Message_Decode ox m buf =
     bind_exn (decode_all (Question_Decode ox) (questions m) buf) (\<lambda>(ok, qs, buf).
       let m = m\<lparr>questions := qs\<rparr>
       in if \<not> ok then Inr (False, m, buf)
          else bind_exn (decode_all (\<lambda>rr buf. Inr (ResourceRecord_Decode ox rr buf)) (answers m) buf)
            (\<lambda>(ok, ans, buf). Inr (ok, m\<lparr>answers := ans\<rparr>, buf)))"

definition ToBuffer :: "oxenc \<Rightarrow> Message \<Rightarrow> exn + bytes" where
  "ToBuffer ox m =
     bind_exn (Message_Encode ox m \<lparr>base = replicate 1500 0, cur = 0\<rparr>) (\<lambda>(ok, buf).
       if \<not> ok then Inl RuntimeError else Inr (copy_used buf))"

definition MaybeParseDNSMessage :: "oxenc \<Rightarrow> llarp_buffer_t \<Rightarrow> exn + Message option" where
  "MaybeParseDNSMessage ox buf =
     (case MessageHeader_Decode ox buf of
        (None, _) \<Rightarrow> Inr None
      | (Some h, buf) \<Rightarrow>
          bind_exn (Message_Decode ox (new_Message h) buf) (\<lambda>(ok, m, _). Inr (if ok then Some m else None)))"


section \<open>Replies\<close>

definition reply_flags :: "u16 \<Rightarrow> u16" where
  "reply_flags setbits = setbits OR flags_QR OR flags_AA OR flags_RA"

definition AddServFail :: "Message \<Rightarrow> Message" where
  "AddServFail m =
     (if questions m = [] then m
      else let f = hdr_fields m OR flags_RCODEServFail;
               f = f OR (flags_QR OR flags_AA OR flags_RA)
           in m\<lparr>hdr_fields := f AND NOT flags_RD\<rparr>)"

definition AddNXReply :: "Message \<Rightarrow> Message" where
  "AddNXReply m =
     (if questions m = [] then m
      else let m = m\<lparr>answers := [], authorities := [], additional := []\<rparr>;
               f = reply_flags (hdr_fields m)
           in m\<lparr>hdr_fields := (f AND NOT flags_RD) OR flags_RCODENameError\<rparr>)"

definition AddINReply :: "oxenc \<Rightarrow> (u64 \<Rightarrow> u64) \<Rightarrow> uint128_t \<Rightarrow> bool \<Rightarrow> u32 \<Rightarrow> Message \<Rightarrow> Message" where
  "AddINReply ox big_to_host ip isV6 t m =
     (case questions m of
        [] \<Rightarrow> m
      | q # _ \<Rightarrow>
          let m = m\<lparr>hdr_fields := reply_flags (hdr_fields m)\<rparr>;
              rec = \<lparr>rr_name = qname q, rr_type = (if isV6 then qTypeAAAA else qTypeA), rr_class = qClassIN, ttl = t,
                     rData = (if isV6 then HUIntToIn6 big_to_host ip else write_be32 ox (TruncateV6 ip))\<rparr>
          in m\<lparr>answers := answers m @ [rec]\<rparr>)"

text \<open>
  The replies that carry a name encode it into a scratch array; the record data is what was
  written, or empty when the name does not fit.
\<close>

definition name_rdata :: "llarp_buffer_t \<Rightarrow> bytes \<Rightarrow> exn + bool \<times> bytes" where
  "name_rdata buf name =
     bind_exn (EncodeNameTo buf name) (\<lambda>(ok, buf). Inr (ok, if ok then copy_used buf else []))"

definition add_name_reply :: "u16 \<Rightarrow> llarp_buffer_t \<Rightarrow> bytes \<Rightarrow> u32 \<Rightarrow> Question \<Rightarrow> Message \<Rightarrow> exn + Message" where
  "add_name_reply t buf name lifetime q m =
     bind_exn (name_rdata buf name) (\<lambda>(_, d).
       Inr (m\<lparr>hdr_fields := reply_flags (hdr_fields m),
              answers := answers m @ [\<lparr>rr_name = qname q, rr_type = t, rr_class = qClassIN, ttl = lifetime, rData = d\<rparr>]\<rparr>))"

definition scratch512 :: llarp_buffer_t where
  "scratch512 = \<lparr>base = replicate 512 0, cur = 0\<rparr>"

definition AddAReply :: "bytes \<Rightarrow> u32 \<Rightarrow> Message \<Rightarrow> exn + Message" where
  "AddAReply name t m =
     (case questions m of [] \<Rightarrow> Inr m | q # _ \<Rightarrow> add_name_reply (qtype q) scratch512 name t q m)"

definition AddNSReply :: "bytes \<Rightarrow> u32 \<Rightarrow> Message \<Rightarrow> exn + Message" where
  "AddNSReply name t m =
     (case questions m of [] \<Rightarrow> Inr m | q # _ \<Rightarrow> add_name_reply qTypeNS scratch512 name t q m)"

definition AddCNAMEReply :: "bytes \<Rightarrow> u32 \<Rightarrow> Message \<Rightarrow> exn + Message" where
  "AddCNAMEReply name t m =
     (case questions m of [] \<Rightarrow> Inr m | q # _ \<Rightarrow> add_name_reply qTypeCNAME scratch512 name t q m)"

definition AddMXReply :: "oxenc \<Rightarrow> bytes \<Rightarrow> u16 \<Rightarrow> u32 \<Rightarrow> Message \<Rightarrow> exn + Message" where
  "AddMXReply ox name prio t m =
     (case questions m of
        [] \<Rightarrow> Inr m
      | q # _ \<Rightarrow> add_name_reply qTypeMX (snd (put_uint16 ox prio scratch512)) name t q m)"

text \<open>\<^verbatim>\<open>find\<close> from a position; a failed find gives \<^verbatim>\<open>npos\<close>, whose successor is zero.\<close>

definition find_from :: "nat \<Rightarrow> bytes \<Rightarrow> bytes \<Rightarrow> nat option" where
  "find_from k pat s = map_option (\<lambda>i. i + k) (find_sub pat (drop k s))"

definition after :: "nat option \<Rightarrow> nat" where
  "after pos = (case pos of None \<Rightarrow> 0 | Some p \<Rightarrow> p + 1)"

definition srv_target :: "SRVData \<Rightarrow> Question \<Rightarrow> bytes" where
  "srv_target srv q =
     (if target srv = []
      then let pos = find_sub [dot] (qname q);
               pos = find_from (after pos) [dot] (qname q)
           in drop (after pos) (qname q)
      else target srv)"

primrec AddSRVReply_loop :: "oxenc \<Rightarrow> SRVData list \<Rightarrow> u32 \<Rightarrow> Question \<Rightarrow> Message \<Rightarrow> exn + Message" where
  "AddSRVReply_loop ox [] t q m = Inr m"
| "AddSRVReply_loop ox (srv # records) t q m =
     (if \<not> SRVData_IsValid srv then Inr (AddNXReply m)
      else
        let buf = snd (put_uint16 ox (port srv) (snd (put_uint16 ox (weight srv)
                    (snd (put_uint16 ox (priority srv) scratch512)))))
        in bind_exn (name_rdata buf (srv_target srv q)) (\<lambda>(ok, d).
             let rec = \<lparr>rr_name = qname q, rr_type = qTypeSRV, rr_class = qClassIN, ttl = t, rData = d\<rparr>;
                 m = m\<lparr>answers := answers m @ [rec]\<rparr>
             in if \<not> ok then Inr (AddNXReply m) else AddSRVReply_loop ox records t q m))"

definition AddSRVReply :: "oxenc \<Rightarrow> SRVData list \<Rightarrow> u32 \<Rightarrow> Message \<Rightarrow> exn + Message" where
  "AddSRVReply ox records t m =
     (let m = m\<lparr>hdr_fields := reply_flags (hdr_fields m)\<rparr>
      in case questions m of
           [] \<Rightarrow> Inl OutOfBounds
         | q # _ \<Rightarrow> AddSRVReply_loop ox records t q m)"

function AddTXTReply_loop :: "bytes \<Rightarrow> llarp_buffer_t \<Rightarrow> exn + llarp_buffer_t" where
  "AddTXTReply_loop s buf =
     (if s = [] then Inr buf
      else let left = min (length s) 256
           in bind_exn (put_byte (of_nat left) buf) (\<lambda>buf.
                let (ok, buf) = buf_write (take left s) buf
                in if \<not> ok then Inl LengthError else AddTXTReply_loop (drop left s) buf))"
  by auto

termination
  by (relation "measure (\<lambda>(s, buf). length s)") (auto simp: min_def)

declare AddTXTReply_loop.simps [simp del]

definition AddTXTReply :: "bytes \<Rightarrow> u32 \<Rightarrow> Message \<Rightarrow> exn + Message" where
  "AddTXTReply s t m =
     (case questions m of
        [] \<Rightarrow> Inl OutOfBounds
      | q # _ \<Rightarrow>
          bind_exn (AddTXTReply_loop s \<lparr>base = replicate 1024 0, cur = 0\<rparr>) (\<lambda>buf.
            Inr (m\<lparr>answers := answers m @
              [\<lparr>rr_name = qname q, rr_type = qTypeTXT, rr_class = qClassIN, ttl = t, rData = copy_used buf\<rparr>]\<rparr>)))"



section \<open>Queries survive the wire\<close>

definition labels :: "bytes \<Rightarrow> bytes list" where
  "labels name = str_split (butlast name) [dot] False"

definition qname_ok :: "bytes \<Rightarrow> bool" where
  "qname_ok name \<longleftrightarrow> name \<noteq> [] \<and> last name = dot \<and> list_all label_ok (labels name)"

definition question_wire :: "oxenc \<Rightarrow> Question \<Rightarrow> bytes" where
  "question_wire ox q =
     wire_labels (labels (qname q)) @ write_be16 ox (qtype q) @ write_be16 ox (qclass q)"

lemma str_split_ne: "delim \<noteq> [] \<Longrightarrow> str_split s delim False \<noteq> []"
  by (simp add: str_split_def split_beta)

lemma qname_labels:
  assumes "qname_ok name"
  shows "list_all label_ok (labels name)" and "labels name \<noteq> []" and "name = join [dot] (labels name) @ [dot]"
proof -
  have "join [dot] (labels name) = butlast name"
    using split_loop_join [of "[dot]" "[]" "butlast name"]
    by (simp add: labels_def str_split_def split_beta)
  moreover have "name = butlast name @ [dot]"
    using assms by (metis append_butlast_last_id qname_ok_def)
  ultimately show "name = join [dot] (labels name) @ [dot]" by simp
  show "list_all label_ok (labels name)" using assms by (simp add: qname_ok_def)
  show "labels name \<noteq> []" by (simp add: labels_def str_split_ne)
qed

lemma length_wire_labels: "ls \<noteq> [] \<Longrightarrow> length (wire_labels ls) = length (join [dot] ls) + 2"
  by (induction ls rule: list_nonempty_induct) (simp_all add: join_Cons)

lemma length_question_wire:
  assumes "oxenc_ok ox" and "qname_ok (qname q)"
  shows "length (question_wire ox q) = length (qname q) + 5"
proof -
  note L = qname_labels [OF assms(2)]
  have "length (qname q) = length (join [dot] (labels (qname q))) + 1" by (subst L(3)) simp
  then show ?thesis
    using length_wire_labels [OF L(2)] by (simp add: question_wire_def oxenc_okD [OF assms(1)])
qed

lemma Question_Encode_ok:
  assumes ox: "oxenc_ok ox" and q: "qname_ok (qname q)" and room: "length (question_wire ox q) \<le> length post"
  shows "Question_Encode ox q (buf_at pre post) =
    Inr (True, buf_at (pre @ question_wire ox q) (drop (length (question_wire ox q)) post))"
proof -
  note L = qname_labels [OF q]
  let ?w = "wire_labels (labels (qname q))"
  have r: "length ?w + 4 \<le> length post" using room by (simp add: question_wire_def oxenc_okD [OF ox])
  have "EncodeNameTo (buf_at pre post) (qname q) = Inr (True, buf_at (pre @ ?w) (drop (length ?w) post))"
    using r L(3) by (intro EncodeNameTo_ok [OF L(1,2)]) auto
  with r show ?thesis
    by (simp add: Question_Encode_def put_uint16_at [OF ox] question_wire_def oxenc_okD [OF ox] add.commute
        numeral_eq_Suc)
qed

lemma Question_Decode_ok:
  assumes ox: "oxenc_ok ox" and q: "qname_ok (qname q)"
  shows "Question_Decode ox q0 (buf_at pre (question_wire ox q @ post)) =
    Inr (True, q, buf_at (pre @ question_wire ox q) post)"
proof -
  note L = qname_labels [OF q]
  show ?thesis
    using DecodeName_ok [OF L(1,2), of pre] L(3)
    by (simp add: Question_Decode_def question_wire_def read_uint16_at [OF ox])
qed

lemma encode_questions:
  assumes ox: "oxenc_ok ox" and "list_all (\<lambda>q. qname_ok (qname q)) qs"
    and "length (concat (map (question_wire ox) qs)) \<le> length post"
  shows "encode_all (Question_Encode ox) qs (buf_at pre post) =
    Inr (True, buf_at (pre @ concat (map (question_wire ox) qs)) (drop (length (concat (map (question_wire ox) qs))) post))"
  using assms(2,3)
proof (induction qs arbitrary: pre post)
  case (Cons q qs)
  then show ?case
    using Question_Encode_ok [OF ox, of q post pre]
      Cons.IH [of "drop (length (question_wire ox q)) post" "pre @ question_wire ox q"]
    by (simp add: add.commute)
qed simp

lemma decode_questions:
  assumes ox: "oxenc_ok ox" and "list_all (\<lambda>q. qname_ok (qname q)) qs" and "length q0s = length qs"
  shows "decode_all (Question_Decode ox) q0s (buf_at pre (concat (map (question_wire ox) qs) @ post)) =
    Inr (True, qs, buf_at (pre @ concat (map (question_wire ox) qs)) post)"
  using assms(2,3)
proof (induction qs arbitrary: pre q0s)
  case (Cons q qs)
  then obtain q0 q0s' where "q0s = q0 # q0s'" by (cases q0s) auto
  with Cons show ?case
    using Question_Decode_ok [OF ox, of q q0 pre] by simp
qed simp

definition header_wire :: "oxenc \<Rightarrow> MessageHeader \<Rightarrow> bytes" where
  "header_wire ox h = concat (map (write_be16 ox)
     [hdr_id' h, hdr_fields' h, qd_count h, an_count h, ns_count h, ar_count h])"

lemma MessageHeader_Encode_ok:
  assumes "oxenc_ok ox" and "12 \<le> length post"
  shows "MessageHeader_Encode ox h (buf_at pre post) = Inr (True, buf_at (pre @ header_wire ox h) (drop 12 post))"
  using assms(2) by (simp add: MessageHeader_Encode_def header_wire_def put_uint16_at [OF assms(1)])

lemma MessageHeader_Decode_ok:
  assumes "oxenc_ok ox"
  shows "MessageHeader_Decode ox (buf_at pre (header_wire ox h @ post)) = (Some h, buf_at (pre @ header_wire ox h) post)"
  by (simp add: MessageHeader_Decode_def header_wire_def read_then_def read_uint16_at [OF assms])

text \<open>
  C21. A query survives the wire: any message with up to 65535 questions whose names have
  labels of one to 63 bytes and end with a dot, without answers and not larger than the
  1500 byte buffer, is encoded, and parsing the result gives the same message back.
\<close>

theorem query_roundtrip:
  assumes ox: "oxenc_ok ox" and "list_all (\<lambda>q. qname_ok (qname q)) (questions m)"
    and "answers m = []" and "authorities m = []" and "additional m = []"
    and "sum_list (map (\<lambda>q. length (qname q) + 5) (questions m)) \<le> 1488"
  shows "\<exists>bs. ToBuffer ox m = Inr bs \<and> MaybeParseDNSMessage ox \<lparr>base = bs, cur = 0\<rparr> = Inr (Some m)"
proof -
  let ?qs = "concat (map (question_wire ox) (questions m))"
  define h where "h = \<lparr>hdr_id' = hdr_id m, hdr_fields' = hdr_fields m, qd_count = of_nat (length (questions m)),
    an_count = 0, ns_count = 0, ar_count = 0\<rparr>"
  have "length ?qs = sum_list (map (\<lambda>q. length (qname q) + 5) (questions m))"
    using assms(2) by (auto simp: length_concat list_all_iff length_question_wire [OF ox] cong: map_cong)
  with assms(6) have len: "length ?qs \<le> 1488" by simp
  have "length (questions m) \<le> length ?qs"
    using assms(2) sum_list_mono [of "questions m" "\<lambda>_. 1" "\<lambda>q. length (qname q) + 5"]
    by (simp add: \<open>length ?qs = _\<close> sum_list_triv)
  then have cnt: "unat (of_nat (length (questions m)) :: u16) = length (questions m)"
    using len by (intro unat_of_nat_small) simp
  have buf: "\<lparr>base = bs, cur = 0\<rparr> = buf_at [] bs" for bs by (simp add: buf_at_def)
  have "ToBuffer ox m = Inr (header_wire ox h @ ?qs)"
    using len MessageHeader_Encode_ok [OF ox, of "replicate 1500 0" h "[]"]
      encode_questions [OF ox assms(2), of "replicate 1488 0" "header_wire ox h"]
    by (simp add: ToBuffer_def Message_Encode_def buf assms(3) copy_used_def h_def [symmetric])
  moreover have "MaybeParseDNSMessage ox (buf_at [] (header_wire ox h @ ?qs @ [])) = Inr (Some m)"
    using MessageHeader_Decode_ok [OF ox, of "[]" h "?qs @ []"]
      decode_questions [OF ox assms(2), of "questions (new_Message h)" "header_wire ox h" "[]"] cnt assms(3-5)
    by (simp add: MaybeParseDNSMessage_def Message_Decode_def new_Message_def h_def)
  ultimately show ?thesis unfolding buf by auto
qed


definition example_query :: Message where
  "example_query = \<lparr>hdr_id = 7, hdr_fields = flags_RD,
     questions = [\<lparr>qname = str ''a.bdx.'', qtype = qTypeA, qclass = qClassIN\<rparr>],
     answers = [], authorities = [], additional = []\<rparr>"

lemma example_qname_ok: "qname_ok (str ''a.bdx.'')"
proof -
  have "butlast (str ''a.bdx.'') = join [dot] [str ''a'', str ''bdx'']" by (simp add: str_def join_Cons)
  moreover have "str_split (join [dot] [str ''a'', str ''bdx'']) [dot] False = [str ''a'', str ''bdx'']"
    by (rule split_join_parts) (simp_all add: str_def)
  ultimately show ?thesis by (simp add: qname_ok_def labels_def) (simp add: str_def label_ok_def)
qed

theorem query_roundtrip_witness:
  "\<exists>bs. ToBuffer oxenc_be example_query = Inr bs \<and>
     MaybeParseDNSMessage oxenc_be \<lparr>base = bs, cur = 0\<rparr> = Inr (Some example_query)"
  by (rule query_roundtrip)
    (simp_all add: oxenc_be_ok example_query_def example_qname_ok, simp add: str_def)


section \<open>Where the code does not do what it means to\<close>

lemma find_sub_head:
  assumes "x \<notin> set u"
  shows "find_sub (x # ps) (u @ (x # ps) @ v) = Some (length u)"
proof -
  let ?p = "x # ps" and ?s = "u @ (x # ps) @ v"
  have here: "occurs_at ?p ?s (length u)" by (simp add: occurs_at_def)
  have early: "\<not> occurs_at ?p ?s j" if "j < length u" for j
  proof
    assume "occurs_at ?p ?s j"
    then have "take (length ?p) (drop j ?s) ! 0 = ?p ! 0" by (simp only: occurs_at_def)
    moreover have "take (length ?p) (drop j ?s) ! 0 = ?s ! j"
      using that by (subst nth_take, simp, subst nth_drop) simp_all
    ultimately have "u ! j = x" using that by (simp add: nth_append)
    then show False using assms that by (metis nth_mem)
  qed
  obtain i where i: "find_sub ?p ?s = Some i" using here find_sub_None by fastforce
  with here early have "i = length u" using find_sub_Some [OF i] by (metis nat_neq_iff)
  with i show ?thesis by simp
qed

lemma occurs_at_end: "occurs_at pat s i \<Longrightarrow> i + length pat = length s \<Longrightarrow> pat \<noteq> [] \<Longrightarrow> last s = last pat"
  by (auto simp: occurs_at_def)

text \<open>
  C22. A service record cannot point to a \<^verbatim>\<open>.bdx\<close> name: a target made of one label and \<^verbatim>\<open>.bdx\<close> is
  always rejected, while the same target with a final dot, which the documentation of the
  format forbids, is accepted.
\<close>

theorem srv_bdx_target_rejected:
  assumes "dot \<notin> set host" and "0 < length host" and "length host \<le> 63"
  shows "\<not> SRVData_IsValid (s\<lparr>target := host @ str ''.bdx''\<rparr>) \<and>
    SRVData_IsValid (s\<lparr>target := host @ str ''.bdx.''\<rparr>)"
proof -
  obtain ps where p: "str ''.bdx'' = dot # ps" "length ps = 3" "str ''.bdx.'' = dot # ps @ [dot]"
    by (simp add: str_def)
  have f: "find_sub (str ''.bdx'') (host @ str ''.bdx'') = Some (length host)"
    "find_sub (str ''.bdx'') (host @ str ''.bdx.'') = Some (length host)"
    using find_sub_head [OF assms(1), of ps "[]"] find_sub_head [OF assms(1), of ps "[dot]"] by (simp_all add: p)
  have "\<not> (\<exists>pos. find_sub (str ''.mnode'') (host @ str ''.bdx'') = Some pos \<and> pos + 6 = length (host @ str ''.bdx''))"
  proof (rule notI, elim exE conjE)
    fix pos
    assume "find_sub (str ''.mnode'') (host @ str ''.bdx'') = Some pos" "pos + 6 = length (host @ str ''.bdx'')"
    then have "last (host @ str ''.bdx'') = last (str ''.mnode'')"
      by (intro occurs_at_end [OF find_sub_Some(1)]) (simp_all add: str_def)
    then show False by (simp add: str_def)
  qed
  moreover have "host @ str ''.bdx'' \<noteq> [dot]" "host @ str ''.bdx.'' \<noteq> [dot]" "host \<noteq> []"
    using assms(2) by (auto simp: p append_eq_Cons_conv)
  moreover have "length (str ''.bdx'') = 4" "length (str ''.bdx.'') = 5" by (simp_all add: str_def)
  ultimately show ?thesis
    using assms(3) by (auto simp: SRVData_IsValid_def TARGET_MAX_SIZE_def f split: option.splits)
qed

theorem srv_bdx_target_rejected_witness:
  "\<not> SRVData_IsValid \<lparr>service_proto = [], priority = 0, weight = 0, port = 0, target = str ''a'' @ str ''.bdx''\<rparr>"
  using srv_bdx_target_rejected [of "str ''a''" "\<lparr>service_proto = [], priority = 0, weight = 0, port = 0, target = []\<rparr>"]
  by (simp add: str_def)

text \<open>
  C23. A text record of exactly 256 bytes is announced as empty: the length byte of a chunk
  is the chunk size modulo 256.
\<close>

theorem txt_chunk_length_wraps:
  assumes "length s = 256" and "questions m = q # qs"
  shows "\<exists>m'. AddTXTReply s t m = Inr m' \<and> rData (last (answers m')) = 0 # s"
proof -
  have buf: "\<lparr>base = replicate 1024 0, cur = 0\<rparr> = buf_at [] (0 # replicate 1023 0)"
    by (simp add: buf_at_def flip: replicate_Suc)
  have "s \<noteq> []" using assms(1) by auto
  then have "AddTXTReply_loop s \<lparr>base = replicate 1024 0, cur = 0\<rparr> = Inr (buf_at (0 # s) (replicate 767 0))"
    unfolding buf using assms(1)
    by (subst AddTXTReply_loop.simps) (simp add: buf_write_def write_at AddTXTReply_loop.simps)
  then show ?thesis by (simp add: AddTXTReply_def assms(2) copy_used_def)
qed

theorem txt_chunk_length_wraps_witness:
  "\<exists>m'. AddTXTReply (replicate 256 0x61) 1 example_query = Inr m' \<and> rData (last (answers m')) = 0 # replicate 256 0x61"
  by (rule txt_chunk_length_wraps [where qs = "[]"]) (simp_all add: example_query_def)


text \<open>A record on the wire, after its name.\<close>

definition record_tail :: "oxenc \<Rightarrow> ResourceRecord \<Rightarrow> bytes" where
  "record_tail ox rr = write_be16 ox (rr_type rr) @ write_be16 ox (rr_class rr) @ write_be32 ox (ttl rr) @
     write_be16 ox (of_nat (length (rData rr))) @ rData rr"

lemma EncodeRData_at:
  assumes "oxenc_ok ox" and "length v < 65536" and "length v + 2 \<le> length post"
  shows "EncodeRData ox v (buf_at pre post) =
    (True, buf_at (pre @ write_be16 ox (of_nat (length v)) @ v) (drop (length v + 2) post))"
proof -
  have "unat (of_nat (length v) :: u16) = length v" using assms(2) by (simp add: unat_of_nat)
  with assms show ?thesis by (simp add: EncodeRData_def put_uint16_at write_at Let_def)
qed

lemma DecodeRData_at:
  assumes "oxenc_ok ox" and "length v < 65536"
  shows "DecodeRData ox (buf_at pre (write_be16 ox (of_nat (length v)) @ v @ post)) =
    (Some v, buf_at (pre @ write_be16 ox (of_nat (length v)) @ v) post)"
proof -
  have "unat (of_nat (length v) :: u16) = length v" using assms(2) by (simp add: unat_of_nat)
  with assms show ?thesis by (simp add: DecodeRData_def read_uint16_at segment_def)
qed

lemma ResourceRecord_Encode_at:
  assumes "oxenc_ok ox" and "list_all label_ok ls" and "ls \<noteq> []"
    and "rr_name rr = join [dot] ls \<or> rr_name rr = join [dot] ls @ [dot]"
    and "length (rData rr) < 65536" and "length room = length (wire_labels ls @ record_tail ox rr)"
  shows "ResourceRecord_Encode ox rr (buf_at pre (room @ post)) =
    Inr (True, buf_at (pre @ wire_labels ls @ record_tail ox rr) post)"
proof -
  have len: "length room = length (wire_labels ls) + (10 + length (rData rr))"
    using assms(6) by (simp add: record_tail_def oxenc_okD [OF assms(1)])
  then have "length (wire_labels ls) \<le> length (room @ post)" by simp
  from EncodeNameTo_ok [OF assms(2-4) this, of pre] show ?thesis
    using len assms(5)
    by (simp add: ResourceRecord_Encode_def put_uint16_at put_uint32_at EncodeRData_at assms(1) record_tail_def)
qed

lemma ResourceRecord_Decode_tail:
  assumes "oxenc_ok ox" and "length (rData rr) < 65536"
  shows "ResourceRecord_Decode ox rr0 (buf_at pre ([a, b] @ record_tail ox rr @ post)) =
    (True, rr\<lparr>rr_name := rr_name rr0\<rparr>, buf_at (pre @ [a, b] @ record_tail ox rr) post)"
proof -
  have "read_uint16 ox (buf_at pre ([a, b] @ bs)) = (Some (load_be16 ox [a, b]), buf_at (pre @ [a, b]) bs)" for bs
    unfolding read_uint16_def by (rule buf_read_at) simp
  then show ?thesis
    using assms by (simp add: ResourceRecord_Decode_def record_tail_def read_uint16_at read_uint32_at DecodeRData_at)
qed

lemma ResourceRecord_Decode_type:
  "rr_type (fst (snd (ResourceRecord_Decode ox rr0 (buf_at pre (a # b # c # d # post))))) = load_be16 ox [c, d]"
proof -
  have "read_uint16 ox (buf_at p (x # y # bs)) = (Some (load_be16 ox [x, y]), buf_at (p @ [x, y]) bs)" for p x y bs
    using buf_read_at [of "[x, y]" 2 "load_be16 ox" p bs] by (simp add: read_uint16_def)
  then show ?thesis by (simp add: ResourceRecord_Decode_def Let_def split: prod.split option.split)
qed

lemma be_load_pair: "(be_load [c, d] :: u16) = ucast c * 256 + ucast d"
  by (simp add: be_load_def)

lemma be_load_pair_less: "(be_load [c, d] :: u16) < 256 \<Longrightarrow> c = 0"
proof -
  assume less: "(be_load [c, d] :: u16) < 256"
  have "unat c < 256" "unat d < 256" using unsigned_less [of c] unsigned_less [of d] by simp_all
  then have "unat (be_load [c, d] :: u16) = unat c * 256 + unat d"
    by (simp add: be_load_pair unat_word_ariths unsigned_ucast_eq take_bit_eq_mod)
  with less have "unat c = 0" by (simp add: word_less_nat_alt)
  then show "c = 0" by (simp add: unat_eq_0)
qed

lemma wire_labels_third:
  assumes "list_all label_ok (l # ls)" and "0 \<notin> set l"
  obtains (zero) x where "wire_labels (l # ls) = [1, x, 0]"
  | (nonzero) x y c post where "wire_labels (l # ls) = x # y # c # post" and "c \<noteq> 0"
proof -
  have len: "0 < length k \<Longrightarrow> length k \<le> 63 \<Longrightarrow> (of_nat (length k) :: byte) \<noteq> 0" for k :: bytes
  proof
    assume "0 < length k" "length k \<le> 63" "(of_nat (length k) :: byte) = 0"
    moreover from this(2) have "unat (of_nat (length k) :: byte) = length k" by (simp add: unat_of_nat)
    ultimately show False by simp
  qed
  obtain x k where l: "l = x # k" using assms(1) by (cases l) (auto simp: label_ok_def)
  show thesis
  proof (cases k)
    case (Cons y k')
    with l assms(2) show thesis by (intro nonzero [of "of_nat (length l)" x y]) auto
  next
    case Nil
    show thesis
    proof (cases ls)
      case (Cons l' ls')
      with l Nil assms(1) len [of l'] show thesis
        by (intro nonzero [of 1 x "of_nat (length l')"]) (auto simp: label_ok_def)
    qed (use l Nil zero in simp)
  qed
qed

text \<open>
  C24. The decoder of resource records takes a name of exactly two bytes, as a compressed
  name has: after any two bytes it reads back type, class, time to live and data of any
  record and leaves the name alone. The encoder writes the name in full, and of that the
  decoder never recovers the record: for every name whose labels hold no null byte and every type
  from 1 to 255, which all the types in use are, the bytes that were encoded are decoded,
  if at all, to a record of another type.
\<close>

theorem record_decode_takes_short_name:
  assumes "oxenc_ok ox" and "\<And>c d. load_be16 ox [c, d] = be_load [c, d]"
    and "list_all label_ok ls" and "ls \<noteq> []" and "list_all (\<lambda>l. 0 \<notin> set l) ls"
    and "rr_name rr = join [dot] ls \<or> rr_name rr = join [dot] ls @ [dot]"
    and "0 < rr_type rr" and "rr_type rr < 256" and "length (rData rr) < 65536"
    and "length room = length (wire_labels ls @ record_tail ox rr)"
  shows "ResourceRecord_Encode ox rr (buf_at pre (room @ post)) =
      Inr (True, buf_at (pre @ wire_labels ls @ record_tail ox rr) post) \<and>
    ResourceRecord_Decode ox rr0 (buf_at pre ([a, b] @ record_tail ox rr @ post)) =
      (True, rr\<lparr>rr_name := rr_name rr0\<rparr>, buf_at (pre @ [a, b] @ record_tail ox rr) post) \<and>
    rr_type (fst (snd (ResourceRecord_Decode ox rr0 (buf_at pre (wire_labels ls @ record_tail ox rr @ post))))) \<noteq> rr_type rr"
proof (intro conjI ResourceRecord_Encode_at ResourceRecord_Decode_tail assms)
  obtain c d where t: "write_be16 ox (rr_type rr) = [c, d]"
    using oxenc_okD(1) [OF assms(1), of "rr_type rr"] by (auto simp: length_Suc_conv numeral_2_eq_2)
  then have cd: "be_load [c, d] = rr_type rr" using oxenc_okD(2) [OF assms(1), of "rr_type rr"] assms(2) by simp
  then have c: "c = 0" using be_load_pair_less assms(8) by metis
  obtain e f bs where tail: "record_tail ox rr = c # d # e # f # bs"
    using oxenc_okD(1) [OF assms(1), of "rr_class rr"] by (auto simp: record_tail_def t length_Suc_conv numeral_2_eq_2)
  obtain l ls' where ls: "ls = l # ls'" using assms(4) by (cases ls) auto
  have ok: "list_all label_ok (l # ls')" "0 \<notin> set l" using assms(3,5) by (simp_all add: ls)
  show "rr_type (fst (snd (ResourceRecord_Decode ox rr0 (buf_at pre (wire_labels ls @ record_tail ox rr @ post))))) \<noteq> rr_type rr"
    using ok
  proof (cases rule: wire_labels_third)
    case (zero x)
    then have w: "wire_labels ls @ record_tail ox rr @ post = 1 # x # 0 # 0 # d # e # f # bs @ post"
      by (simp only: ls tail c append.simps)
    show ?thesis unfolding w ResourceRecord_Decode_type assms(2) using assms(7) by (simp add: be_load_def)
  next
    case (nonzero x y z more)
    obtain v rest where "more @ record_tail ox rr @ post = v # rest" by (cases more) (simp_all add: tail)
    then have w: "wire_labels ls @ record_tail ox rr @ post = x # y # z # v # rest"
      using nonzero(1) by (simp add: ls del: wire_labels_simps)
    show ?thesis
      unfolding w ResourceRecord_Decode_type assms(2) using be_load_pair_less [of z v] nonzero(2) assms(8) by auto
  qed
qed

theorem record_decode_takes_short_name_witness:
  "\<exists>wire. ResourceRecord_Encode oxenc_be (new_ResourceRecord (str ''a.bdx'') qTypeA [10, 0, 0, 1]) (buf_at [] (replicate 21 0)) =
      Inr (True, buf_at wire []) \<and>
    rr_type (fst (snd (ResourceRecord_Decode oxenc_be empty_ResourceRecord (buf_at [] wire)))) \<noteq> qTypeA"
proof -
  let ?rr = "new_ResourceRecord (str ''a.bdx'') qTypeA [10, 0, 0, 1]" and ?ls = "[str ''a'', str ''bdx'']"
  have "list_all label_ok ?ls" "list_all (\<lambda>l. 0 \<notin> set l) ?ls" "rr_name ?rr = join [dot] ?ls \<or> rr_name ?rr = join [dot] ?ls @ [dot]"
    by (simp_all add: label_ok_def str_def new_ResourceRecord_def join_Cons)
  moreover have "length (replicate 21 (0 :: byte)) = length (wire_labels ?ls @ record_tail oxenc_be ?rr)"
    by (simp add: record_tail_def oxenc_okD [OF oxenc_be_ok] new_ResourceRecord_def str_def)
  moreover have "load_be16 oxenc_be [c, d] = be_load [c, d]" for c d by (simp add: oxenc_be_def)
  moreover have "rr_type ?rr = qTypeA" "0 < rr_type ?rr" "rr_type ?rr < 256" "length (rData ?rr) < 65536"
    by (simp_all add: new_ResourceRecord_def qTypeA_def)
  ultimately show ?thesis
    using record_decode_takes_short_name [where ox = oxenc_be and ls = ?ls and rr = ?rr and room = "replicate 21 0"
        and pre = "[]" and post = "[]" and rr0 = empty_ResourceRecord] oxenc_be_ok
    by (metis append_Nil append_Nil2 list.distinct(1))
qed

end
