(* ===== verification/Ip_Packet.thy ===== *)
theory Ip_Packet
  imports Net_Int
begin

text \<open>
  IP packets (\<^verbatim>\<open>llarp/net/ip_packet.hpp\<close>, \<^verbatim>\<open>ip_packet.cpp\<close>): the headers laid over the
  bytes of a packet, the internet checksum, its incremental update when the addresses of a
  packet are rewritten, and the packets the program makes itself. The header structures are
  those of a little-endian host. A packet is the vector \<^verbatim>\<open>_buf\<close>; a read or write outside
  it is the error \<^term>\<open>OutOfBounds\<close>.
\<close>


section \<open>Host integers in memory\<close>

definition le_load :: "bytes \<Rightarrow> 'a::len word" where
  "le_load bs = foldr (\<lambda>b acc. push_bit 8 acc OR ucast b) bs 0"

definition htons :: "u16 \<Rightarrow> u16" where
  "htons w = le_load (be_write 2 w)"

definition htonl :: "u32 \<Rightarrow> u32" where
  "htonl w = le_load (be_write 4 w)"


section \<open>Headers\<close>

record ip_header =
  ihl :: "4 word"
  version :: "4 word"
  tos :: byte
  tot_len :: u16
  ip_id :: u16
  frag_off :: u16
  ttl :: byte
  protocol :: byte
  check :: u16
  saddr :: u32
  daddr :: u32

text \<open>\<^verbatim>\<open>reinterpret_cast<ip_header*>(data())\<close>, with the offsets of the fields.\<close>

definition Header :: "bytes \<Rightarrow> ip_header" where
  "Header buf = \<lparr>ihl = ucast (buf ! 0), version = ucast (drop_bit 4 (buf ! 0)), tos = buf ! 1,
     tot_len = le_load (segment 2 2 buf), ip_id = le_load (segment 4 2 buf),
     frag_off = le_load (segment 6 2 buf), ttl = buf ! 8, protocol = buf ! 9,
     check = le_load (segment 10 2 buf), saddr = le_load (segment 12 4 buf),
     daddr = le_load (segment 16 4 buf)\<rparr>"

text \<open>The first byte holds two bit fields: the low half \<^verbatim>\<open>ihl\<close>, the high half \<^verbatim>\<open>version\<close>.\<close>

definition version_ihl :: "4 word \<Rightarrow> 4 word \<Rightarrow> byte" where
  "version_ihl v i = push_bit 4 (ucast v) OR ucast i"

abbreviation hdr_size :: "bytes \<Rightarrow> nat" where
  "hdr_size buf \<equiv> unat (ihl (Header buf)) * 4"

record ipv6_header =
  flowlabel :: u32
  payload_len :: u16
  v6_protocol :: byte
  hoplimit :: byte
  srcaddr :: bytes
  dstaddr :: bytes

definition HeaderV6 :: "bytes \<Rightarrow> ipv6_header" where
  "HeaderV6 buf = \<lparr>flowlabel = le_load (segment 0 4 buf), payload_len = le_load (segment 4 2 buf),
     v6_protocol = buf ! 6, hoplimit = buf ! 7, srcaddr = segment 8 16 buf, dstaddr = segment 24 16 buf\<rparr>"

definition ipv6_flowlabel_mask :: u32 where
  "ipv6_flowlabel_mask = 0x000fffff"

definition FlowLabel :: "ipv6_header \<Rightarrow> u32" where
  "FlowLabel hdr = flowlabel hdr AND htonl ipv6_flowlabel_mask"

definition put_FlowLabel :: "u32 \<Rightarrow> ipv6_header \<Rightarrow> ipv6_header" where
  "put_FlowLabel label hdr =
     hdr\<lparr>flowlabel := (htonl ipv6_flowlabel_mask AND label) OR (flowlabel hdr AND htonl (NOT ipv6_flowlabel_mask))\<rparr>"

definition MinSize :: nat where
  "MinSize = 20"

text \<open>The three constructors and \<^verbatim>\<open>Load\<close>.\<close>

definition IPPacket_sized :: "nat \<Rightarrow> exn + bytes" where
  "IPPacket_sized sz = (if sz \<noteq> 0 \<and> sz < MinSize then Inl InvalidArgument else Inr (replicate sz 0))"

definition IPPacket_view :: "bytes \<Rightarrow> bytes" where
  "IPPacket_view v = (if length v < MinSize then [] else v)"

definition IPPacket_stolen :: "bytes \<Rightarrow> bytes" where
  "IPPacket_stolen v = (if length v < MinSize then [] else v)"

definition IPPacket_Load :: "bytes \<Rightarrow> bool \<times> bytes" where
  "IPPacket_Load v = (if length v \<ge> MinSize then (True, v) else (False, []))"

text \<open>Everything that dereferences \<^verbatim>\<open>Header()\<close> needs the 20 bytes of the structure.\<close>

definition with_Header :: "bytes \<Rightarrow> (ip_header \<Rightarrow> exn + 'a) \<Rightarrow> exn + 'a" where
  "with_Header buf f = (if length buf < 20 then Inl OutOfBounds else f (Header buf))"

definition with_HeaderV6 :: "bytes \<Rightarrow> (ipv6_header \<Rightarrow> exn + 'a) \<Rightarrow> exn + 'a" where
  "with_HeaderV6 buf f = (if length buf < 40 then Inl OutOfBounds else f (HeaderV6 buf))"

definition pkt_IsV4 :: "bytes \<Rightarrow> exn + bool" where
  "pkt_IsV4 buf = with_Header buf (\<lambda>h. Inr (version h = 4))"

definition pkt_IsV6 :: "bytes \<Rightarrow> exn + bool" where
  "pkt_IsV6 buf = with_Header buf (\<lambda>h. Inr (version h = 6))"

definition pkt_protocol :: "bytes \<Rightarrow> exn + byte" where
  "pkt_protocol buf = bind_exn (pkt_IsV4 buf) (\<lambda>v4.
     if v4 then with_Header buf (\<lambda>h. Inr (protocol h)) else with_HeaderV6 buf (\<lambda>h. Inr (v6_protocol h)))"

datatype ProtocolType = Control | TrafficV4 | TrafficV6 | Exit | Auth | QUIC

definition ServiceProtocol :: "bytes \<Rightarrow> exn + ProtocolType" where
  "ServiceProtocol buf = bind_exn (pkt_IsV4 buf) (\<lambda>v4. if v4 then Inr TrafficV4
     else bind_exn (pkt_IsV6 buf) (\<lambda>v6. if v6 then Inr TrafficV6 else Inr Control))"

definition srcv4 :: "bytes \<Rightarrow> exn + u32" where
  "srcv4 buf = with_Header buf (\<lambda>h. Inr (htonl (saddr h)))"

definition dstv4 :: "bytes \<Rightarrow> exn + u32" where
  "dstv4 buf = with_Header buf (\<lambda>h. Inr (htonl (daddr h)))"

definition srcv6 :: "bytes \<Rightarrow> exn + uint128_t" where
  "srcv6 buf = bind_exn (pkt_IsV6 buf) (\<lambda>v6. if v6 then with_HeaderV6 buf (\<lambda>h. Inr (In6ToHUInt (srcaddr h)))
     else bind_exn (srcv4 buf) (\<lambda>a. Inr (ExpandV4 a)))"

definition dstv6 :: "bytes \<Rightarrow> exn + uint128_t" where
  "dstv6 buf = bind_exn (pkt_IsV6 buf) (\<lambda>v6. if v6 then with_HeaderV6 buf (\<lambda>h. Inr (In6ToHUInt (dstaddr h)))
     else bind_exn (dstv4 buf) (\<lambda>a. Inr (ExpandV4 a)))"

definition src4to6 :: "bytes \<Rightarrow> exn + uint128_t" where
  "src4to6 buf = bind_exn (srcv4 buf) (\<lambda>a. Inr (ExpandV4 a))"

definition dst4to6 :: "bytes \<Rightarrow> exn + uint128_t" where
  "dst4to6 buf = bind_exn (dstv4 buf) (\<lambda>a. Inr (ExpandV4 a))"

definition src4to6Lan :: "bytes \<Rightarrow> exn + uint128_t" where
  "src4to6Lan buf = bind_exn (srcv4 buf) (\<lambda>a. Inr (ExpandV4Lan a))"

definition dst4to6Lan :: "bytes \<Rightarrow> exn + uint128_t" where
  "dst4to6Lan buf = bind_exn (dstv4 buf) (\<lambda>a. Inr (ExpandV4Lan a))"

text \<open>
  The ports, in network order. Nothing compares the header length or the size of the packet
  with the two bytes that are read.
\<close>

definition port_at :: "nat \<Rightarrow> bytes \<Rightarrow> exn + u16 option" where
  "port_at off buf = with_Header buf (\<lambda>h.
     if protocol h = 0x06 \<or> protocol h = 0x11
     then (let p = unat (ihl h) * 4 + off in
       if length buf < p + 2 then Inl OutOfBounds else Inr (Some (le_load (segment p 2 buf))))
     else Inr None)"

definition DstPort :: "bytes \<Rightarrow> exn + u16 option" where
  "DstPort buf = port_at 2 buf"

definition SrcPort :: "bytes \<Rightarrow> exn + u16 option" where
  "SrcPort buf = port_at 0 buf"

definition L4Data :: "bytes \<Rightarrow> exn + bytes option" where
  "L4Data buf = with_Header buf (\<lambda>h.
     if protocol h = 0x11
     then (if length buf < unat (ihl h) * 4 + 8 then Inr None
           else Inr (Some (drop (unat (ihl h) * 4 + 8) buf)))
     else Inr None)"


section \<open>Checksums\<close>

fun chksum_loop :: "bytes \<Rightarrow> u32 \<Rightarrow> u32" where
  "chksum_loop [] s = s"
| "chksum_loop [b] s = s + ucast b"
| "chksum_loop (a # b # buf) s = chksum_loop buf (s + ucast (le_load [a, b] :: u16))"

text \<open>The two folding steps that end every checksum computation of the file.\<close>

definition fold_chksum :: "u32 \<Rightarrow> u32" where
  "fold_chksum s = (let s = (s AND 0xFFFF) + drop_bit 16 s in s + drop_bit 16 s)"

definition ipchksum :: "bytes \<Rightarrow> u32 \<Rightarrow> u16" where
  "ipchksum buf s = ucast (NOT (fold_chksum (chksum_loop buf s)) AND 0xFFFF)"

definition ADD32CS :: "u32 \<Rightarrow> u32" where
  "ADD32CS x = (x AND 0xFFFF) + drop_bit 16 x"

definition SUB32CS :: "u32 \<Rightarrow> u32" where
  "SUB32CS x = (NOT x AND 0xFFFF) + drop_bit 16 (NOT x)"

definition deltaIPv4Checksum :: "u16 \<Rightarrow> u32 \<Rightarrow> u32 \<Rightarrow> u32 \<Rightarrow> u32 \<Rightarrow> u16" where
  "deltaIPv4Checksum old_sum old_src_ip old_dst_ip new_src_ip new_dst_ip =
     (let s = ucast old_sum + ADD32CS old_src_ip + ADD32CS old_dst_ip
              + SUB32CS new_src_ip + SUB32CS new_dst_ip
      in ucast (fold_chksum s AND 0xFFFF))"

text \<open>An IPv6 address is read as four 32 bit integers, \<^verbatim>\<open>in6_uint32_ptr\<close>.\<close>

definition in6_uint32 :: "bytes \<Rightarrow> u32 list" where
  "in6_uint32 a = map (\<lambda>i. le_load (segment (4 * i) 4 a)) [0..<4]"

definition ADDN128CS :: "u32 list \<Rightarrow> u32" where
  "ADDN128CS x = ADD32CS (x ! 0) + ADD32CS (x ! 1) + ADD32CS (x ! 2) + ADD32CS (x ! 3)"

definition SUBN128CS :: "u32 list \<Rightarrow> u32" where
  "SUBN128CS x = SUB32CS (x ! 0) + SUB32CS (x ! 1) + SUB32CS (x ! 2) + SUB32CS (x ! 3)"

definition deltaIPv6Checksum :: "u16 \<Rightarrow> u32 list \<Rightarrow> u32 list \<Rightarrow> u32 list \<Rightarrow> u32 list \<Rightarrow> u16" where
  "deltaIPv6Checksum old_sum old_src_ip old_dst_ip new_src_ip new_dst_ip =
     (let s = ucast old_sum + ADDN128CS old_src_ip + ADDN128CS old_dst_ip
              + SUBN128CS new_src_ip + SUBN128CS new_dst_ip
      in ucast (fold_chksum s AND 0xFFFF))"

text \<open>
  The payload \<^verbatim>\<open>pld\<close> has \<^verbatim>\<open>psz\<close> bytes. \<open>delta\<close> stands for the computation of the new
  checksum from the old one, which is all the IPv4 and the IPv6 routine differ in.
\<close>

definition deltaChecksumTCP :: "(u16 \<Rightarrow> u16) \<Rightarrow> bytes \<Rightarrow> nat \<Rightarrow> nat \<Rightarrow> bytes" where
  "deltaChecksumTCP delta pld fragoff chksumoff =
     (if fragoff > chksumoff \<or> length pld < chksumoff - fragoff + 2 then pld
      else (let off = chksumoff - fragoff;
                check = delta (le_load (segment off 2 pld));
                check = (if check = 0xFFFF then 0x0000 else check)
            in poke off (le_write 2 check) pld))"

definition deltaChecksumUDP :: "(u16 \<Rightarrow> u16) \<Rightarrow> bytes \<Rightarrow> nat \<Rightarrow> bytes" where
  "deltaChecksumUDP delta pld fragoff =
     (if fragoff > 6 \<or> length pld < 6 + 2 then pld
      else (let check = le_load (segment 6 2 pld)
            in if check = 0x0000 then pld else poke 6 (le_write 2 (delta check)) pld))"

definition deltaChecksumIPv4TCP :: "bytes \<Rightarrow> nat \<Rightarrow> nat \<Rightarrow> u32 \<Rightarrow> u32 \<Rightarrow> u32 \<Rightarrow> u32 \<Rightarrow> bytes" where
  "deltaChecksumIPv4TCP pld fragoff chksumoff oSrcIP oDstIP nSrcIP nDstIP =
     deltaChecksumTCP (\<lambda>c. deltaIPv4Checksum c oSrcIP oDstIP nSrcIP nDstIP) pld fragoff chksumoff"

definition deltaChecksumIPv6TCP :: "bytes \<Rightarrow> nat \<Rightarrow> nat \<Rightarrow> u32 list \<Rightarrow> u32 list \<Rightarrow> u32 list \<Rightarrow> u32 list \<Rightarrow> bytes" where
  "deltaChecksumIPv6TCP pld fragoff chksumoff oSrcIP oDstIP nSrcIP nDstIP =
     deltaChecksumTCP (\<lambda>c. deltaIPv6Checksum c oSrcIP oDstIP nSrcIP nDstIP) pld fragoff chksumoff"

definition deltaChecksumIPv4UDP :: "bytes \<Rightarrow> nat \<Rightarrow> u32 \<Rightarrow> u32 \<Rightarrow> u32 \<Rightarrow> u32 \<Rightarrow> bytes" where
  "deltaChecksumIPv4UDP pld fragoff oSrcIP oDstIP nSrcIP nDstIP =
     deltaChecksumUDP (\<lambda>c. deltaIPv4Checksum c oSrcIP oDstIP nSrcIP nDstIP) pld fragoff"

definition deltaChecksumIPv6UDP :: "bytes \<Rightarrow> nat \<Rightarrow> u32 list \<Rightarrow> u32 list \<Rightarrow> u32 list \<Rightarrow> u32 list \<Rightarrow> bytes" where
  "deltaChecksumIPv6UDP pld fragoff oSrcIP oDstIP nSrcIP nDstIP =
     deltaChecksumUDP (\<lambda>c. deltaIPv6Checksum c oSrcIP oDstIP nSrcIP nDstIP) pld fragoff"


section \<open>Rewriting the addresses\<close>

definition v4_l4_update :: "byte \<Rightarrow> bytes \<Rightarrow> nat \<Rightarrow> u32 \<Rightarrow> u32 \<Rightarrow> u32 \<Rightarrow> u32 \<Rightarrow> bytes" where
  "v4_l4_update proto pld fragoff oSrcIP oDstIP nSrcIP nDstIP =
     (if proto = 6 then deltaChecksumIPv4TCP pld fragoff 16 oSrcIP oDstIP nSrcIP nDstIP
      else if proto = 17 \<or> proto = 136 then deltaChecksumIPv4UDP pld fragoff oSrcIP oDstIP nSrcIP nDstIP
      else if proto = 33 then deltaChecksumIPv4TCP pld fragoff 6 oSrcIP oDstIP nSrcIP nDstIP
      else pld)"

definition v4_fragoff :: "ip_header \<Rightarrow> nat" where
  "v4_fragoff h = unat (htons (frag_off h) AND 0x1FFF) * 8"

definition UpdateIPv4Address :: "u32 \<Rightarrow> u32 \<Rightarrow> bytes \<Rightarrow> exn + bytes" where
  "UpdateIPv4Address nSrcIP nDstIP buf = with_Header buf (\<lambda>hdr.
     let oSrcIP = saddr hdr; oDstIP = daddr hdr; ihs = unat (ihl hdr) * 4;
         buf = (if ihs \<le> length buf
                then take ihs buf @ v4_l4_update (protocol hdr) (drop ihs buf) (v4_fragoff hdr) oSrcIP oDstIP nSrcIP nDstIP
                else buf);
         buf = poke 10 (le_write 2 (deltaIPv4Checksum (check (Header buf)) oSrcIP oDstIP nSrcIP nDstIP)) buf
     in Inr (poke 16 (le_write 4 nDstIP) (poke 12 (le_write 4 nSrcIP) buf)))"

text \<open>
  The walk over the extension headers of an IPv6 packet. It gives the protocol, the rest of
  the packet and the fragment offset with which the walk ends, or \<^term>\<open>None\<close> where the
  method returns. The bytes of an extension header are read before the room is checked.
\<close>

function v6_skip :: "byte \<Rightarrow> bytes \<Rightarrow> exn + (byte \<times> bytes \<times> nat) option" where
  "v6_skip nextproto pld =
     (if nextproto = 0 \<or> nextproto = 43 \<or> nextproto = 60
      then (if length pld < 2 then Inl OutOfBounds
            else (let addlen = (unat (pld ! 1) + 1) * 8
                  in if length pld < addlen then Inr None else v6_skip (pld ! 0) (drop addlen pld)))
      else if nextproto = 44
      then (if length pld < 4 then Inl OutOfBounds
            else (let fragoff = unat (push_bit 8 (ucast (pld ! 2)) OR (ucast (pld ! 3) AND 0xFC) :: u32)
                  in if length pld < 8 then Inr None
                     else if fragoff \<noteq> 0 then Inr (Some (pld ! 0, drop 8 pld, fragoff))
                     else v6_skip (pld ! 0) (drop 8 pld)))
      else Inr (Some (nextproto, pld, 0)))"
  by pat_completeness auto
termination by (relation "measure (\<lambda>(_, pld). length pld)") auto

declare v6_skip.simps [simp del]

definition v6_l4_update :: "byte \<Rightarrow> bytes \<Rightarrow> nat \<Rightarrow> u32 list \<Rightarrow> u32 list \<Rightarrow> u32 list \<Rightarrow> u32 list \<Rightarrow> bytes" where
  "v6_l4_update proto pld fragoff oSrcIP oDstIP nSrcIP nDstIP =
     (if proto = 6 then deltaChecksumIPv6TCP pld fragoff 16 oSrcIP oDstIP nSrcIP nDstIP
      else if proto = 17 \<or> proto = 136 then deltaChecksumIPv6UDP pld fragoff oSrcIP oDstIP nSrcIP nDstIP
      else if proto = 33 then deltaChecksumIPv6TCP pld fragoff 6 oSrcIP oDstIP nSrcIP nDstIP
      else pld)"

definition UpdateIPv6Address :: "(u64 \<Rightarrow> u64) \<Rightarrow> uint128_t \<Rightarrow> uint128_t \<Rightarrow> u32 option \<Rightarrow> bytes \<Rightarrow> exn + bytes" where
  "UpdateIPv6Address big_to_host src dst label buf =
     (let ihs = 4 + 4 + 16 + 16 in
      if length buf \<le> ihs then Inr buf
      else (let buf = (case label of None \<Rightarrow> buf
                       | Some l \<Rightarrow> poke 0 (le_write 4 (flowlabel (put_FlowLabel l (HeaderV6 buf)))) buf);
                oSrcIP = in6_uint32 (srcaddr (HeaderV6 buf)); oDstIP = in6_uint32 (dstaddr (HeaderV6 buf));
                buf = poke 24 (HUIntToIn6 big_to_host dst) (poke 8 (HUIntToIn6 big_to_host src) buf);
                nSrcIP = in6_uint32 (srcaddr (HeaderV6 buf)); nDstIP = in6_uint32 (dstaddr (HeaderV6 buf))
            in bind_exn (v6_skip (v6_protocol (HeaderV6 buf)) (drop ihs buf)) (\<lambda>r.
                 case r of None \<Rightarrow> Inr buf
                 | Some (nextproto, pld, fragoff) \<Rightarrow>
                     Inr (take (length buf - length pld) buf @
                          v6_l4_update nextproto pld fragoff oSrcIP oDstIP nSrcIP nDstIP))))"

definition ZeroAddresses :: "(u64 \<Rightarrow> u64) \<Rightarrow> u32 option \<Rightarrow> bytes \<Rightarrow> exn + bytes" where
  "ZeroAddresses big_to_host label buf = bind_exn (pkt_IsV4 buf) (\<lambda>v4.
     if v4 then UpdateIPv4Address 0 0 buf
     else bind_exn (pkt_IsV6 buf) (\<lambda>v6.
       if v6 then UpdateIPv6Address big_to_host (uint128 0 0) (uint128 0 0) label buf else Inr buf))"

definition ZeroSourceAddress :: "(u64 \<Rightarrow> u64) \<Rightarrow> u32 option \<Rightarrow> bytes \<Rightarrow> exn + bytes" where
  "ZeroSourceAddress big_to_host label buf = bind_exn (pkt_IsV4 buf) (\<lambda>v4.
     if v4 then bind_exn (dstv4 buf) (\<lambda>d. UpdateIPv4Address 0 (htonl d) buf)
     else bind_exn (pkt_IsV6 buf) (\<lambda>v6.
       if v6 then bind_exn (dstv6 buf) (\<lambda>d. UpdateIPv6Address big_to_host (uint128 0 0) d label buf) else Inr buf))"


section \<open>Packets the program makes\<close>

text \<open>
  The reply to an IPv4 packet whose destination cannot be reached. The reply is a zeroed
  buffer of \<open>pkt_size\<close> bytes; the copy of the packet's start reads \<open>ip_Header_size + 8\<close> bytes
  of it.
\<close>

definition MakeICMPUnreachable :: "oxenc \<Rightarrow> bytes \<Rightarrow> exn + bytes option" where
  "MakeICMPUnreachable ox buf = bind_exn (pkt_IsV4 buf) (\<lambda>v4.
     if \<not> v4 then Inr None
     else (let hdr = Header buf; ip_Header_size = unat (ihl hdr) * 4;
               pkt_size = (8 + ip_Header_size) * 2
           in bind_exn (IPPacket_sized pkt_size) (\<lambda>pkt.
     let pkt = poke 0 [version_ihl 4 5] pkt;
         pkt = poke 1 [0] pkt;
         pkt = poke 10 [0, 0] pkt;
         pkt = poke 2 (le_write 2 (htons (of_nat pkt_size))) pkt;
         pkt = poke 12 (le_write 4 (daddr hdr)) pkt;
         pkt = poke 16 (le_write 4 (saddr hdr)) pkt;
         pkt = poke 9 [1] pkt;
         pkt = poke 8 [ttl hdr] pkt;
         pkt = poke 6 (le_write 2 (htons 0x4000)) pkt;
         icmp_begin = ip_Header_size;
         pkt = poke icmp_begin [3, 7] pkt;
         pkt = poke (icmp_begin + 2) (write_be32 ox 0) pkt;
         pkt = poke (icmp_begin + 6) (write_be16 ox 1500) pkt
     in if length buf < ip_Header_size + 8 then Inl OutOfBounds
        else (let pkt = poke (icmp_begin + 8) (take (ip_Header_size + 8) buf) pkt;
                  pkt = poke 10 (le_write 2 (ipchksum (take ip_Header_size pkt) 0)) pkt;
                  pkt = poke (icmp_begin + 2) (le_write 2 (ipchksum (drop icmp_begin pkt) 0)) pkt
              in Inr (Some pkt)))))"

definition make_ip4_udp :: "oxenc \<Rightarrow> u32 \<Rightarrow> u16 \<Rightarrow> u32 \<Rightarrow> u16 \<Rightarrow> bytes \<Rightarrow> exn + bytes" where
  "make_ip4_udp ox src srcport dst dstport udp_data =
     (let pkt_overhead = 8 + 20 in
      bind_exn (IPPacket_sized (length udp_data + pkt_overhead)) (\<lambda>pkt.
     let pkt = poke 1 [0] pkt;
         pkt = poke 0 [version_ihl 4 5] pkt;
         pkt = poke 2 (le_write 2 (htons (of_nat (pkt_overhead + length udp_data)))) pkt;
         pkt = poke 9 [0x11] pkt;
         pkt = poke 8 [64] pkt;
         pkt = poke 6 (le_write 2 (htons 0x4000)) pkt;
         pkt = poke 12 (le_write 4 src) pkt;
         pkt = poke 16 (le_write 4 dst) pkt;
         pkt = poke 20 (le_write 2 srcport) pkt;
         pkt = poke 22 (le_write 2 dstport) pkt;
         pkt = poke 24 (write_be16 ox (of_nat (length udp_data + 8))) pkt;
         pkt = poke 26 (write_be16 ox 0) pkt;
         pkt = poke 28 udp_data pkt;
         pkt = poke 10 [0, 0] pkt;
         pkt = poke 10 (le_write 2 (ipchksum (take 20 pkt) 0)) pkt
     in Inr pkt))"

datatype ipaddr_t = ipv4addr u32 | ipv6addr uint128_t

fun make_udp :: "oxenc \<Rightarrow> ipaddr_t \<Rightarrow> u16 \<Rightarrow> ipaddr_t \<Rightarrow> u16 \<Rightarrow> bytes \<Rightarrow> exn + bytes" where
  "make_udp ox (ipv4addr src) srcport (ipv4addr dst) dstport udp_data =
     make_ip4_udp ox src srcport dst dstport udp_data"
| "make_udp ox _ _ _ _ _ = IPPacket_sized 0"

end
