(* ===== verification/Ip_Checksum.thy ===== *)
theory Ip_Checksum
  imports Ip_Packet
begin

text \<open>
  Correctness of the checksum arithmetic of \<^verbatim>\<open>llarp/net/ip_packet.cpp\<close>: the two folds of a
  32 bit sum compute the one's complement sum, an incremental update is as good as computing
  a checksum anew (stated once as the contract \<open>checksum_delta\<close> and instantiated for IPv4
  and IPv6), and the packets the program makes verify.
\<close>

section \<open>The one's complement sum\<close>

text \<open>
  The 16 bit words of a byte string added up without any wrap-around, and the value to which
  a sum folds: the representative of its residue modulo 65535 in \<open>1..65535\<close>, except that
  only 0 folds to 0.
\<close>

fun wsum :: "bytes \<Rightarrow> nat" where
  "wsum [] = 0"
| "wsum [b] = unat b"
| "wsum (a # b # bs) = unat a + 256 * unat b + wsum bs"

definition ones_fold :: "nat \<Rightarrow> nat" where
  "ones_fold n = (if n = 0 then 0 else Suc ((n - 1) mod 65535))"

lemma unat_byte_lt: "unat (b :: byte) < 256"
  using unsigned_less [of b] by simp

lemma unat_u16_lt: "unat (w :: u16) < 65536"
  using unsigned_less [of w] by simp

lemma unat_u32_lt: "unat (w :: u32) < 4294967296"
  using unsigned_less [of w] by simp

lemma unat_ucast_byte: "unat (ucast (b :: byte) :: u32) = unat b"
  using unat_byte_lt [of b] by (simp add: unsigned_ucast_eq take_bit_nat_eq_self)

lemma unat_ucast_u16: "unat (ucast (w :: u16) :: u32) = unat w"
  using unat_u16_lt [of w] by (simp add: unsigned_ucast_eq take_bit_nat_eq_self)

lemma unat_add_small: "unat (v :: u32) + unat w < 4294967296 \<Longrightarrow> unat (v + w) = unat v + unat w"
  using unat_add_lem [of v w] by simp

lemma wsum_append: "even (length xs) \<Longrightarrow> wsum (xs @ ys) = wsum xs + wsum ys"
  by (induction xs rule: wsum.induct) simp_all

lemma wsum_le: "2 * wsum bs \<le> 65535 * Suc (length bs)"
proof (induction bs rule: wsum.induct)
  case (2 b)
  then show ?case using unat_byte_lt [of b] by simp
next
  case (3 a b bs)
  have "unat a \<le> 255" "unat b \<le> 255" using unat_byte_lt [of a] unat_byte_lt [of b] by simp_all
  with 3 show ?case by simp
qed simp

lemma le_load_Nil [simp]: "le_load [] = 0"
  by (simp add: le_load_def)

lemma le_load_Cons: "le_load (b # bs) = push_bit 8 (le_load bs) OR ucast b"
  by (simp add: le_load_def)

lemma push_or_add:
  assumes "8 \<le> LENGTH('a)"
  shows "push_bit 8 w OR ucast (b :: byte) = push_bit 8 w + (ucast b :: 'a::len word)"
  by (rule disjunctive_add [symmetric]) (auto simp: bit_simps dest: bit_imp_le_length)

lemma unat_load16: "unat (le_load [a, b] :: u16) = unat a + 256 * unat b"
proof -
  have "(le_load [a, b] :: u16) = push_bit 8 (ucast b) + ucast a"
    using push_or_add [of "ucast b :: u16" a] by (simp add: le_load_Cons)
  also have "\<dots> = of_nat (unat a + 256 * unat b)"
    by (simp add: push_bit_eq_mult)
  finally have "(le_load [a, b] :: u16) = of_nat (unat a + 256 * unat b)" .
  moreover have "unat a + 256 * unat b < 2 ^ LENGTH(16)"
    using unat_byte_lt [of a] unat_byte_lt [of b] by simp
  ultimately show ?thesis by (simp only: unat_of_nat_small)
qed

lemma chksum_loop_unat:
  "unat s + wsum bs < 2 ^ 32 \<Longrightarrow> unat (chksum_loop bs s) = unat s + wsum bs"
proof (induction bs s rule: chksum_loop.induct)
  case (2 b s)
  then show ?case by (simp add: unat_add_small unat_ucast_byte)
next
  case (3 a b bs s)
  let ?w = "le_load [a, b] :: u16"
  have u: "unat (ucast ?w :: u32) = unat a + 256 * unat b"
    by (simp add: unat_ucast_u16 unat_load16)
  have "unat (s + ucast ?w) = unat s + (unat a + 256 * unat b)"
    using 3(2) u by (simp add: unat_add_small)
  with 3 show ?case by simp
qed simp

lemma u32_low: "unat (s AND 0xFFFF :: u32) = unat s mod 65536"
proof -
  have "s AND 0xFFFF = take_bit 16 s" by (simp add: take_bit_eq_mask mask_eq_exp_minus_1)
  then show ?thesis by (simp add: take_bit_eq_mod unat_mod_distrib)
qed

lemma u32_high: "unat (drop_bit 16 s :: u32) = unat s div 65536"
  by (simp add: drop_bit_eq_div unat_div_distrib)

lemma nat_fold:
  assumes "n < 4294967296" and "m = n mod 65536 + n div 65536"
  shows "(m + m div 65536) mod 65536 = ones_fold n"
proof -
  have m: "m \<le> 131070" using assms by (simp add: less_mult_imp_div_less)
  have n: "n = 65535 * (n div 65536) + m" using assms(2) by simp
  show ?thesis
  proof (cases "m < 65536")
    case True
    have "n = 0 \<longleftrightarrow> m = 0" using assms(2) by auto
    moreover have "(n - 1) mod 65535 = m - 1" if "m \<noteq> 0"
    proof -
      have "n - 1 = 65535 * (n div 65536) + (m - 1)" using n that by linarith
      moreover have "m - 1 < 65535" using True that by linarith
      ultimately show ?thesis by simp
    qed
    ultimately show ?thesis using True by (auto simp: ones_fold_def)
  next
    case False
    have "m div 65536 = 1" using m False by simp
    moreover have "(m + 1) mod 65536 = m + 1 - 65536"
      using m False by (simp add: mod_if)
    moreover have "(n - 1) mod 65535 = m - 65536"
    proof -
      have "n - 1 = 65535 * (n div 65536 + 1) + (m - 65536)" using n False by simp
      moreover have "m - 65536 < 65535" using m by linarith
      ultimately show ?thesis by (metis mod_less mod_mult_self4)
    qed
    moreover have "n \<noteq> 0" using n False by linarith
    ultimately show ?thesis using False by (simp add: ones_fold_def)
  qed
qed

lemma fold_chksum_unat: "unat (fold_chksum s AND 0xFFFF) = ones_fold (unat s)"
proof -
  let ?m = "unat s mod 65536 + unat s div 65536"
  let ?t = "(s AND 0xFFFF) + drop_bit 16 s"
  have "unat s div 65536 < 65536" using unat_u32_lt [of s] by (simp add: less_mult_imp_div_less)
  then have m: "?m \<le> 131070" by (simp add: less_Suc_eq_le [symmetric])
  then have t: "unat ?t = ?m"
    by (simp add: unat_add_small u32_low u32_high)
  have "unat (?t + drop_bit 16 ?t) = ?m + ?m div 65536"
  proof (subst unat_add_small)
    show "unat ?t + unat (drop_bit 16 ?t) < 4294967296"
      unfolding u32_high t using m by simp
  qed (simp only: t u32_high)
  then show ?thesis
    using nat_fold [OF unat_u32_lt refl] by (simp add: fold_chksum_def Let_def u32_low)
qed

lemma ones_fold_le: "ones_fold n \<le> 65535"
proof -
  have "(n - 1) mod 65535 < 65535" by simp
  then show ?thesis unfolding ones_fold_def by (simp add: Suc_le_eq)
qed

lemma ones_fold_mod: "ones_fold n mod 65535 = n mod 65535"
proof (cases n)
  case (Suc m)
  then show ?thesis by (simp add: ones_fold_def mod_Suc_eq)
qed (simp add: ones_fold_def)

lemma ones_fold_full: "ones_fold n = 65535 \<longleftrightarrow> n \<noteq> 0 \<and> n mod 65535 = 0"
proof -
  have "ones_fold n = 65535 \<Longrightarrow> n mod 65535 = 0" using ones_fold_mod [of n] by simp
  moreover have "ones_fold n = 65535" if "n \<noteq> 0" "n mod 65535 = 0"
  proof -
    have "ones_fold n \<noteq> 0" using that(1) by (simp add: ones_fold_def)
    moreover have "ones_fold n mod 65535 = 0" using ones_fold_mod that(2) by simp
    ultimately show ?thesis using ones_fold_le [of n] by (metis dvd_imp_le le_antisym mod_0_imp_dvd neq0_conv)
  qed
  ultimately show ?thesis by (auto simp: ones_fold_def)
qed

lemma u16_trunc: "unat (ucast (s AND 0xFFFF :: u32) :: u16) = unat (s AND 0xFFFF)"
proof -
  have "unat (s AND 0xFFFF) < 65536" by (simp add: u32_low)
  then show ?thesis by (simp add: unsigned_ucast_eq take_bit_nat_eq_self)
qed

lemma unat_not_u32: "unat (NOT x :: u32) = 4294967295 - unat x"
proof -
  have "NOT x = (4294967295 :: u32) - x" by (simp add: not_eq_complement)
  moreover have "x \<le> 4294967295" using unat_u32_lt [of x] by (simp add: word_le_nat_alt)
  ultimately show ?thesis by (simp add: unat_sub)
qed

lemma not_halves:
  "unat (NOT x :: u32) div 65536 = 65535 - unat x div 65536"
  "unat (NOT x) mod 65536 = 65535 - unat x mod 65536"
proof -
  define h where "h = unat x div 65536"
  define l where "l = unat x mod 65536"
  have x: "unat x = 65536 * h + l" by (simp add: h_def l_def)
  have "h < 65536" using unat_u32_lt [of x] by (simp add: h_def less_mult_imp_div_less)
  moreover have l: "l < 65536" by (simp add: l_def)
  ultimately have n: "unat (NOT x) = 65536 * (65535 - h) + (65535 - l)"
    unfolding unat_not_u32 x by simp
  have "65535 - l < 65536" by simp
  then show "unat (NOT x) mod 65536 = 65535 - l" unfolding n by (simp only: mod_mult_self4 mod_less)
  show "unat (NOT x) div 65536 = 65535 - h" using l by (simp add: n)
qed

lemma u32_not_low: "unat (NOT s AND 0xFFFF :: u32) = 65535 - unat (s AND 0xFFFF)"
  by (simp add: u32_low not_halves)

lemma wsum_u32: "length bs \<le> 131071 \<Longrightarrow> unat (chksum_loop bs 0) = wsum bs"
  using wsum_le [of bs] by (subst chksum_loop_unat) simp_all

lemma ipchksum_unat:
  "length bs \<le> 131071 \<Longrightarrow> unat (ipchksum bs 0) = 65535 - ones_fold (wsum bs)"
  by (simp add: ipchksum_def u16_trunc u32_not_low fold_chksum_unat wsum_u32)

text \<open>A byte string whose checksum is 0 is one that verifies.\<close>

lemma ipchksum_zero_iff:
  assumes "length bs \<le> 131071"
  shows "ipchksum bs 0 = 0 \<longleftrightarrow> wsum bs \<noteq> 0 \<and> wsum bs mod 65535 = 0"
proof -
  have "ipchksum bs 0 = 0 \<longleftrightarrow> unat (ipchksum bs 0) = 0" by (simp add: unat_eq_zero)
  also have "\<dots> \<longleftrightarrow> ones_fold (wsum bs) = 65535"
    using ones_fold_le [of "wsum bs"] by (simp add: ipchksum_unat [OF assms])
  finally show ?thesis by (simp add: ones_fold_full)
qed

lemma unat_ADD32CS: "unat (ADD32CS x) = unat x mod 65536 + unat x div 65536"
proof -
  have "unat x div 65536 < 65536" using unat_u32_lt [of x] by (simp add: less_mult_imp_div_less)
  moreover have "unat x mod 65536 < 65536" by simp
  ultimately have "unat x mod 65536 + unat x div 65536 < 4294967296" by linarith
  then show ?thesis by (simp add: ADD32CS_def unat_add_small u32_low u32_high)
qed

lemma ADD32CS_le: "unat (ADD32CS x) \<le> 131070"
proof -
  have "unat x div 65536 < 65536" using unat_u32_lt [of x] by (simp add: less_mult_imp_div_less)
  moreover have "unat x mod 65536 < 65536" by simp
  ultimately show ?thesis unfolding unat_ADD32CS by linarith
qed

lemma unat_SUB32CS: "unat (SUB32CS x) + unat (ADD32CS x) = 131070"
proof -
  have "SUB32CS x = ADD32CS (NOT x)" by (simp add: SUB32CS_def ADD32CS_def)
  moreover have "unat x div 65536 < 65536" using unat_u32_lt [of x] by (simp add: less_mult_imp_div_less)
  moreover have "unat x mod 65536 < 65536" by simp
  ultimately show ?thesis by (simp add: unat_ADD32CS not_halves)
qed

lemma unat_deltaIPv4:
  "unat (deltaIPv4Checksum c os od ns nd) =
     ones_fold (unat c + unat (ADD32CS os) + unat (ADD32CS od) + unat (SUB32CS ns) + unat (SUB32CS nd))"
proof -
  have b: "unat (SUB32CS ns) \<le> 131070" "unat (SUB32CS nd) \<le> 131070"
    using unat_SUB32CS [of ns] unat_SUB32CS [of nd] by linarith+
  note bounds = b ADD32CS_le [of os] ADD32CS_le [of od] unat_u16_lt [of c]
  show ?thesis
    unfolding deltaIPv4Checksum_def Let_def u16_trunc fold_chksum_unat
    using bounds by (simp add: unat_add_small unat_ucast_u16)
qed

definition addsum :: "u32 list \<Rightarrow> nat" where
  "addsum x = unat (ADD32CS (x ! 0)) + unat (ADD32CS (x ! 1)) + unat (ADD32CS (x ! 2)) + unat (ADD32CS (x ! 3))"

lemma addsum_le: "addsum x \<le> 524280"
  using ADD32CS_le [of "x ! 0"] ADD32CS_le [of "x ! 1"] ADD32CS_le [of "x ! 2"] ADD32CS_le [of "x ! 3"]
  unfolding addsum_def by linarith

lemma unat_ADDN128CS: "unat (ADDN128CS x) = addsum x"
  using addsum_le [of x] unfolding ADDN128CS_def addsum_def by (simp add: unat_add_small)

lemma unat_SUBN128CS: "unat (SUBN128CS x) + addsum x = 524280"
proof -
  note s = unat_SUB32CS [of "x ! 0"] unat_SUB32CS [of "x ! 1"] unat_SUB32CS [of "x ! 2"] unat_SUB32CS [of "x ! 3"]
  have "unat (SUBN128CS x) = unat (SUB32CS (x ! 0)) + unat (SUB32CS (x ! 1)) + unat (SUB32CS (x ! 2)) + unat (SUB32CS (x ! 3))"
    using s unfolding SUBN128CS_def by (simp add: unat_add_small)
  with s show ?thesis unfolding addsum_def by linarith
qed

lemma unat_deltaIPv6:
  "unat (deltaIPv6Checksum c os od ns nd) =
     ones_fold (unat c + addsum os + addsum od + unat (SUBN128CS ns) + unat (SUBN128CS nd))"
proof -
  have b: "unat (SUBN128CS ns) \<le> 524280" "unat (SUBN128CS nd) \<le> 524280"
    using unat_SUBN128CS [of ns] unat_SUBN128CS [of nd] by linarith+
  note bounds = b addsum_le [of os] addsum_le [of od] unat_u16_lt [of c]
  show ?thesis
    unfolding deltaIPv6Checksum_def Let_def u16_trunc fold_chksum_unat
    using bounds by (simp add: unat_add_small unat_ucast_u16 unat_ADDN128CS)
qed


section \<open>What an incremental update promises\<close>

text \<open>
  The contract between the computation of a new checksum and the routines that store it: in
  one's complement arithmetic, what is taken away with the old addresses (\<open>A\<close>) and added
  with the new ones (\<open>B\<close>) is compensated by the change of the checksum.
\<close>

lemma wsum_poke:
  assumes "even off" and "even (length bs)" and "off + length bs \<le> length x"
  obtains R where "wsum x = R + wsum (segment off (length bs) x)" "wsum (poke off bs x) = R + wsum bs"
proof
  define n where "n = length bs"
  have "x = take off x @ segment off n x @ drop (off + n) x"
    by (metis append_take_drop_id drop_drop segment_def add.commute)
  moreover have "even (length (take off x))" "even (length (segment off n x))"
    using assms by (simp_all add: segment_def n_def min_absorb2)
  ultimately have "wsum x = wsum (take off x) + (wsum (segment off n x) + wsum (drop (off + n) x))"
    by (metis wsum_append)
  moreover have "wsum (poke off bs x) = wsum (take off x) + (wsum bs + wsum (drop (off + n) x))"
    using assms by (simp add: poke_def n_def wsum_append min_absorb2)
  ultimately show "wsum x = wsum (take off x) + wsum (drop (off + n) x) + wsum (segment off (length bs) x)"
    "wsum (poke off bs x) = wsum (take off x) + wsum (drop (off + n) x) + wsum bs"
    by (simp_all add: n_def)
qed

lemma length_le_write [simp]: "length (le_write n w) = n"
  by (induction n arbitrary: w) simp_all

lemma le_load_write: "le_load (le_write n w) = (take_bit (8 * n) w :: 'a::len word)"
proof (induction n arbitrary: w)
  case (Suc n)
  have "push_bit 8 (take_bit (8 * n) (drop_bit 8 w)) OR ucast (ucast w :: byte) = take_bit (8 * Suc n) w"
    by (rule bit_word_eqI) (auto simp: bit_simps not_less)
  with Suc show ?case by (simp add: le_load_Cons)
qed simp

lemma le_write2: "le_write 2 w = [ucast w, ucast (drop_bit 8 w)]"
  by (simp add: numeral_2_eq_2)

lemma le_write4: "le_write 4 w = [ucast w, ucast (drop_bit 8 w), ucast (drop_bit 16 w), ucast (drop_bit 24 w)]"
  by (simp add: numeral_eq_Suc)

lemma le_write_load2 [simp]: "le_write 2 (le_load [a, b] :: u16) = [a, b]"
proof -
  have "ucast (le_load [a, b] :: u16) = a" "ucast (drop_bit 8 (le_load [a, b] :: u16)) = b"
    by (rule bit_word_eqI, use bit_imp_le_length in \<open>fastforce simp: le_load_Cons bit_simps\<close>)+
  then show ?thesis by (simp add: le_write2)
qed

lemma le_load_write2 [simp]: "le_load (le_write 2 w) = (w :: u16)"
  using le_load_write [of 2 w] by (simp add: take_bit_word_eq_self)

lemma le_write_load4 [simp]: "le_write 4 (le_load [a, b, c, d] :: u32) = [a, b, c, d]"
proof -
  let ?w = "le_load [a, b, c, d] :: u32"
  have "ucast ?w = a" "ucast (drop_bit 8 ?w) = b" "ucast (drop_bit 16 ?w) = c" "ucast (drop_bit 24 ?w) = d"
    by (rule bit_word_eqI, use bit_imp_le_length in \<open>fastforce simp: le_load_Cons bit_simps\<close>)+
  then show ?thesis by (simp add: le_write4)
qed

lemma le_load_write4 [simp]: "le_load (le_write 4 w) = (w :: u32)"
  using le_load_write [of 4 w] by (simp add: take_bit_word_eq_self)

lemma wsum_write2: "wsum (le_write 2 (w :: u16)) = unat w"
proof -
  have "w = le_load [ucast w, ucast (drop_bit 8 w)]"
    using le_load_write2 [of w] by (simp add: le_write2)
  then have "unat w = unat (ucast w :: byte) + 256 * unat (ucast (drop_bit 8 w) :: byte)"
    by (metis unat_load16)
  then show ?thesis by (simp add: le_write2)
qed

lemma wsum_write4: "wsum (le_write 4 (w :: u32)) = unat (ADD32CS w)"
proof -
  define x where "x = unat w"
  have x: "x < 4294967296" by (simp add: x_def unat_u32_lt)
  have b: "unat (ucast v :: byte) = unat v mod 256" for v :: u32
    by (simp add: unsigned_ucast_eq take_bit_eq_mod)
  have d: "unat (drop_bit 8 w) = x div 256" "unat (drop_bit 16 w) = x div 65536" "unat (drop_bit 24 w) = x div 16777216"
    by (simp_all add: x_def drop_bit_eq_div unat_div_distrib)
  have "x mod 65536 = 256 * (x div 256 mod 256) + x mod 256"
    using mod_mult2_eq [of x 256 256] by simp
  moreover have "x div 65536 = 256 * (x div 16777216 mod 256) + x div 65536 mod 256"
  proof -
    have "x div 65536 < 65536" using x by (simp add: less_mult_imp_div_less)
    then have "x div 65536 = x div 65536 mod (256 * 256)" by simp
    also have "\<dots> = 256 * (x div 65536 div 256 mod 256) + x div 65536 mod 256"
      by (rule mod_mult2_eq)
    also have "x div 65536 div 256 = x div 16777216" by (simp flip: div_mult2_eq)
    finally show ?thesis .
  qed
  ultimately show ?thesis
    unfolding le_write4 unat_ADD32CS x_def [symmetric] by (simp add: b d flip: x_def)
qed

lemma wsum_load2: "length bs = 2 \<Longrightarrow> unat (le_load bs :: u16) = wsum bs"
  by (auto simp: length_Suc_conv numeral_2_eq_2 unat_load16)

lemma wsum_load4:
  assumes "length bs = 4"
  shows "unat (ADD32CS (le_load bs)) = wsum bs"
proof -
  have "length bs = Suc (Suc (Suc (Suc 0)))" using assms by simp
  then obtain a b c d where "bs = [a, b, c, d]" by (auto simp: length_Suc_conv)
  then show ?thesis by (simp flip: wsum_write4)
qed

locale checksum_delta =
  fixes delta :: "u16 \<Rightarrow> u16" and A B :: nat
  assumes delta: "(unat (delta c) + B) mod 65535 = (unat c + A) mod 65535"
begin

lemma update_word:
  fixes c' :: u16
  assumes "even off" and "off + 2 \<le> length pld"
    and "unat c' mod 65535 = unat (delta (le_load (segment off 2 pld))) mod 65535"
  shows "(wsum (poke off (le_write 2 c') pld) + B) mod 65535 = (wsum pld + A) mod 65535"
proof -
  let ?c = "le_load (segment off 2 pld) :: u16"
  have "unat ?c = wsum (segment off 2 pld)"
    using assms(2) by (intro wsum_load2) (simp add: byte_simps)
  then obtain R where R: "wsum pld = R + unat ?c" "wsum (poke off (le_write 2 c') pld) = R + unat c'"
    using wsum_poke [of off "le_write 2 c'" pld] assms(1,2) by (auto simp: wsum_write2)
  have "(unat c' + B) mod 65535 = (unat (delta ?c) + B) mod 65535"
    by (rule mod_add_cong [OF assms(3) refl])
  also note delta [of ?c]
  finally have "(R + (unat c' + B)) mod 65535 = (R + (unat ?c + A)) mod 65535"
    by (rule mod_add_cong [OF refl])
  then show ?thesis unfolding R by (simp only: add.assoc)
qed

lemma tcp_update:
  assumes "even off" and "off + 2 \<le> length pld"
  shows "(wsum (deltaChecksumTCP delta pld 0 off) + B) mod 65535 = (wsum pld + A) mod 65535"
  using assms by (auto simp: deltaChecksumTCP_def Let_def intro!: update_word)

lemma udp_update:
  assumes "8 \<le> length pld" and "(le_load (segment 6 2 pld) :: u16) \<noteq> 0"
  shows "(wsum (deltaChecksumUDP delta pld 0) + B) mod 65535 = (wsum pld + A) mod 65535"
  using assms by (auto simp: deltaChecksumUDP_def Let_def intro!: update_word)

end

lemma ones_fold_compensates:
  assumes "n + B = m + 65535 * k"
  shows "(ones_fold n + B) mod 65535 = m mod 65535"
proof -
  have "(ones_fold n + B) mod 65535 = (n + B) mod 65535"
    by (rule mod_add_cong [OF ones_fold_mod refl])
  then show ?thesis unfolding assms by simp
qed

interpretation v4_delta: checksum_delta "\<lambda>c. deltaIPv4Checksum c os od ns nd"
  "unat (ADD32CS os) + unat (ADD32CS od)" "unat (ADD32CS ns) + unat (ADD32CS nd)" for os od ns nd
proof
  fix c :: u16
  have "unat (SUB32CS ns) + unat (SUB32CS nd) + (unat (ADD32CS ns) + unat (ADD32CS nd)) = 65535 * 4"
    using unat_SUB32CS [of ns] unat_SUB32CS [of nd] by simp
  then have "unat c + unat (ADD32CS os) + unat (ADD32CS od) + unat (SUB32CS ns) + unat (SUB32CS nd)
      + (unat (ADD32CS ns) + unat (ADD32CS nd)) = unat c + (unat (ADD32CS os) + unat (ADD32CS od)) + 65535 * 4"
    by linarith
  then show "(unat (deltaIPv4Checksum c os od ns nd) + (unat (ADD32CS ns) + unat (ADD32CS nd))) mod 65535
      = (unat c + (unat (ADD32CS os) + unat (ADD32CS od))) mod 65535"
    unfolding unat_deltaIPv4 by (intro ones_fold_compensates)
qed

interpretation v6_delta: checksum_delta "\<lambda>c. deltaIPv6Checksum c os od ns nd"
  "addsum os + addsum od" "addsum ns + addsum nd" for os od ns nd
proof
  fix c :: u16
  have "unat c + addsum os + addsum od + unat (SUBN128CS ns) + unat (SUBN128CS nd)
      + (addsum ns + addsum nd) = unat c + (addsum os + addsum od) + 65535 * 16"
    using unat_SUBN128CS [of ns] unat_SUBN128CS [of nd] by linarith
  then show "(unat (deltaIPv6Checksum c os od ns nd) + (addsum ns + addsum nd)) mod 65535
      = (unat c + (addsum os + addsum od)) mod 65535"
    unfolding unat_deltaIPv6 by (intro ones_fold_compensates)
qed


section \<open>What verifies\<close>

text \<open>
  The checks a receiver makes: the checksum over the IPv4 header is 0, and so is the one over
  pseudo header and transport payload. \<open>has_chksum\<close> holds of a payload that carries a
  transport checksum at the place where its protocol has it; for UDP, 0 means none.
\<close>

definition hdr_ok :: "bytes \<Rightarrow> bool" where
  "hdr_ok buf \<longleftrightarrow> ipchksum (take (hdr_size buf) buf) 0 = 0"

definition l4_ok :: "bytes \<Rightarrow> bytes \<Rightarrow> bool" where
  "l4_ok pseudo pld \<longleftrightarrow> ipchksum (pseudo @ pld) 0 = 0"

definition v4_pseudo :: "bytes \<Rightarrow> byte \<Rightarrow> nat \<Rightarrow> bytes" where
  "v4_pseudo addrs proto n = addrs @ [0, proto] @ be_write 2 (of_nat n :: u16)"

definition v6_pseudo :: "bytes \<Rightarrow> byte \<Rightarrow> nat \<Rightarrow> bytes" where
  "v6_pseudo addrs proto n = addrs @ be_write 4 (of_nat n :: u32) @ [0, 0, 0, proto]"

definition has_chksum :: "byte \<Rightarrow> bytes \<Rightarrow> bool" where
  "has_chksum proto pld \<longleftrightarrow> (proto = 6 \<and> 18 \<le> length pld) \<or> (proto = 33 \<and> 8 \<le> length pld) \<or>
     ((proto = 17 \<or> proto = 136) \<and> 8 \<le> length pld \<and> (le_load (segment 6 2 pld) :: u16) \<noteq> 0)"

lemma poke_append: "off + length bs \<le> length xs \<Longrightarrow> poke off bs (xs @ ys) = poke off bs xs @ ys"
  by (simp add: poke_def)

lemma length_delta [simp]:
  "length (deltaChecksumTCP delta pld fragoff off) = length pld"
  "length (deltaChecksumUDP delta pld fragoff) = length pld"
  by (auto simp: deltaChecksumTCP_def deltaChecksumUDP_def Let_def length_poke)

lemma length_l4_update [simp]:
  "length (v4_l4_update proto pld fragoff os od ns nd) = length pld"
  "length (v6_l4_update proto pld fragoff xs xd ys yd) = length pld"
  by (simp_all add: v4_l4_update_def v6_l4_update_def deltaChecksumIPv4TCP_def deltaChecksumIPv6TCP_def
      deltaChecksumIPv4UDP_def deltaChecksumIPv6UDP_def)

lemma v4_l4_update_sum:
  assumes "has_chksum proto pld"
  shows "(wsum (v4_l4_update proto pld 0 os od ns nd) + (unat (ADD32CS ns) + unat (ADD32CS nd))) mod 65535
    = (wsum pld + (unat (ADD32CS os) + unat (ADD32CS od))) mod 65535"
  using assms v4_delta.tcp_update [of 16 pld os od ns nd] v4_delta.tcp_update [of 6 pld os od ns nd]
    v4_delta.udp_update [of pld os od ns nd]
  by (auto simp: has_chksum_def v4_l4_update_def deltaChecksumIPv4TCP_def deltaChecksumIPv4UDP_def)

lemma v6_l4_update_sum:
  assumes "has_chksum proto pld"
  shows "(wsum (v6_l4_update proto pld 0 os od ns nd) + (addsum ns + addsum nd)) mod 65535
    = (wsum pld + (addsum os + addsum od)) mod 65535"
  using assms v6_delta.tcp_update [of 16 pld os od ns nd] v6_delta.tcp_update [of 6 pld os od ns nd]
    v6_delta.udp_update [of pld os od ns nd]
  by (auto simp: has_chksum_def v6_l4_update_def deltaChecksumIPv6TCP_def deltaChecksumIPv6UDP_def)

lemma l4_ok_cong:
  assumes "(wsum pld' + wsum addrs') mod 65535 = (wsum pld + wsum addrs) mod 65535"
    and T: "wsum T \<noteq> 0" "length T \<le> 8" and len: "length pld' = length pld" "length pld \<le> 65535"
    and ev: "even (length addrs)" "even (length addrs')" "length addrs \<le> 32" "length addrs' \<le> 32" "even (length T)"
  shows "l4_ok (addrs' @ T) pld' = l4_ok (addrs @ T) pld"
proof -
  have *: "l4_ok (addr @ T) p \<longleftrightarrow> (wsum T + (wsum p + wsum addr)) mod 65535 = 0"
    if "even (length addr)" "length addr \<le> 32" "length p = length pld" for addr p
  proof -
    have "length ((addr @ T) @ p) \<le> 131071" using that T len(2) by simp
    moreover have "wsum ((addr @ T) @ p) = wsum T + (wsum p + wsum addr)"
      using that ev(5) by (simp add: wsum_append)
    ultimately show ?thesis using T(1) unfolding l4_ok_def by (subst ipchksum_zero_iff) auto
  qed
  have "(wsum T + (wsum pld' + wsum addrs')) mod 65535 = (wsum T + (wsum pld + wsum addrs)) mod 65535"
    using assms(1) by (rule mod_add_cong [OF refl])
  then show ?thesis using * ev len by simp
qed

lemma pseudo_tail_nonzero:
  assumes "proto \<noteq> 0"
  shows "wsum ([0, proto] @ L) \<noteq> 0" "even (length L) \<Longrightarrow> wsum (L @ [0, 0, 0, proto]) \<noteq> 0"
  using assms by (auto simp: wsum_append unat_eq_zero)

text \<open>The header of an IPv4 packet, cut at the fields that an update of the addresses changes.\<close>

lemma v4_fields:
  assumes "20 \<le> length P"
  shows "P = take 10 P @ segment 10 2 P @ segment 12 4 P @ segment 16 4 P @ drop 20 P"
proof -
  have split: "drop a P = segment a n P @ drop (a + n) P" for a n
    by (simp add: segment_def flip: drop_drop) (metis append_take_drop_id drop_drop add.commute)
  have "drop 10 P = segment 10 2 P @ drop 12 P" "drop 12 P = segment 12 4 P @ drop 16 P"
    "drop 16 P = segment 16 4 P @ drop 20 P"
    using split [of 10 2] split [of 12 4] split [of 16 4] by simp_all
  then show ?thesis by (metis append_take_drop_id)
qed

lemma v4_pokes:
  assumes "20 \<le> length P" "length c = 2" "length s = 4" "length d = 4"
  shows "poke 16 d (poke 12 s (poke 10 c P)) = take 10 P @ c @ s @ d @ drop 20 P"
  using assms by (simp add: poke_def)

lemma wsum_hd: "unat b \<le> wsum (b # bs)"
  by (cases bs) simp_all

lemma hdr_size_nonzero:
  assumes "hdr_size buf \<noteq> 0" and "buf \<noteq> []" and "take 10 buf = take 10 P"
  shows "wsum (take 10 P @ xs) \<noteq> 0"
proof -
  obtain b bs where buf: "buf = b # bs" using assms(2) by (cases buf) auto
  then obtain ys where "take 10 P @ xs = b # ys" using assms(3) by (metis append_Cons take_Suc_Cons numeral_eq_Suc)
  moreover have "b \<noteq> 0" using assms(1) buf by (auto simp: Header_def)
  then have "unat b \<noteq> 0" by (simp add: unat_eq_zero)
  ultimately show ?thesis using wsum_hd [of b ys] by simp
qed

lemma ihl_lt: "unat (ihl h) < 16"
  using unsigned_less [of "ihl h", where ?'a = nat] by simp

lemma segment_take: "a + n \<le> m \<Longrightarrow> segment a n (take m xs) = segment a n xs"
  by (simp add: segment_def drop_take min_absorb1)

lemma Header_take20: "20 \<le> length buf \<Longrightarrow> take 20 buf = take 20 buf' \<Longrightarrow> Header buf = Header buf'"
proof -
  assume "20 \<le> length buf" and t: "take 20 buf = take 20 buf'"
  have "segment a n buf = segment a n buf'" if "a + n \<le> 20" for a n
    using segment_take [OF that, of buf] segment_take [OF that, of buf'] t by simp
  moreover have "buf ! i = buf' ! i" if "i < 20" for i
    using t that by (metis nth_take)
  ultimately show ?thesis by (simp add: Header_def)
qed

definition v4_updated :: "u32 \<Rightarrow> u32 \<Rightarrow> bytes \<Rightarrow> bytes" where
  "v4_updated s d buf = (let h = Header buf; n = hdr_size buf in
     (take 10 buf @ le_write 2 (deltaIPv4Checksum (check h) (saddr h) (daddr h) s d) @
      le_write 4 s @ le_write 4 d @ segment 20 (n - 20) buf) @
     v4_l4_update (protocol h) (drop n buf) (v4_fragoff h) (saddr h) (daddr h) s d)"

lemma UpdateIPv4Address_updated:
  assumes "20 \<le> hdr_size buf" and "hdr_size buf \<le> length buf"
  shows "UpdateIPv4Address s d buf = Inr (v4_updated s d buf)"
proof -
  let ?n = "hdr_size buf" and ?h = "Header buf"
  let ?P = "take ?n buf" and ?l = "v4_l4_update (protocol ?h) (drop ?n buf) (v4_fragoff ?h) (saddr ?h) (daddr ?h) s d"
  have "Header (?P @ ?l) = Header buf"
    using assms by (intro Header_take20) simp_all
  moreover have "poke 16 (le_write 4 d) (poke 12 (le_write 4 s) (poke 10 (le_write 2 c) (?P @ ?l))) =
      (take 10 ?P @ le_write 2 c @ le_write 4 s @ le_write 4 d @ drop 20 ?P) @ ?l" for c :: u16
    using assms by (simp add: poke_append length_poke v4_pokes)
  ultimately show ?thesis
    using assms by (simp add: UpdateIPv4Address_def with_Header_def v4_updated_def Let_def segment_def
        drop_take min_absorb1 min_absorb2)
qed

lemma v4_updated_header:
  assumes "20 \<le> hdr_size buf" and "hdr_size buf \<le> length buf"
  shows "length (v4_updated s d buf) = length buf" "ihl (Header (v4_updated s d buf)) = ihl (Header buf)"
    "protocol (Header (v4_updated s d buf)) = protocol (Header buf)"
    "segment 12 8 (v4_updated s d buf) = le_write 4 s @ le_write 4 d"
    "saddr (Header (v4_updated s d buf)) = s" "daddr (Header (v4_updated s d buf)) = d"
    "take 10 (v4_updated s d buf) = take 10 buf"
  using assms by (simp_all add: v4_updated_def Let_def segment_def Header_def nth_append)

lemma v4_updated_parts:
  assumes "20 \<le> hdr_size buf" and "hdr_size buf \<le> length buf"
  shows "take (hdr_size buf) (v4_updated s d buf) =
      take 10 buf @ le_write 2 (deltaIPv4Checksum (check (Header buf)) (saddr (Header buf)) (daddr (Header buf)) s d) @
      le_write 4 s @ le_write 4 d @ segment 20 (hdr_size buf - 20) buf"
    "drop (hdr_size buf) (v4_updated s d buf) =
      v4_l4_update (protocol (Header buf)) (drop (hdr_size buf) buf) (v4_fragoff (Header buf))
        (saddr (Header buf)) (daddr (Header buf)) s d"
proof -
  have "length (take 10 buf @ le_write 2 c @ le_write 4 s @ le_write 4 d @ segment 20 (hdr_size buf - 20) buf) = hdr_size buf" for c :: u16
    using assms by (simp add: segment_def)
  then show "take (hdr_size buf) (v4_updated s d buf) =
      take 10 buf @ le_write 2 (deltaIPv4Checksum (check (Header buf)) (saddr (Header buf)) (daddr (Header buf)) s d) @
      le_write 4 s @ le_write 4 d @ segment 20 (hdr_size buf - 20) buf"
    "drop (hdr_size buf) (v4_updated s d buf) =
      v4_l4_update (protocol (Header buf)) (drop (hdr_size buf) buf) (v4_fragoff (Header buf))
        (saddr (Header buf)) (daddr (Header buf)) s d"
    unfolding v4_updated_def Let_def by (metis append_eq_conv_conj)+
qed

lemma v4_updated_hdr_ok:
  assumes n: "20 \<le> hdr_size buf" "hdr_size buf \<le> length buf"
  shows "hdr_ok (v4_updated s d buf) = hdr_ok buf"
proof -
  let ?n = "hdr_size buf" and ?h = "Header buf" and ?o = "segment 20 (hdr_size buf - 20) buf"
  let ?c = "deltaIPv4Checksum (check ?h) (saddr ?h) (daddr ?h) s d"
  let ?new = "take 10 buf @ le_write 2 ?c @ le_write 4 s @ le_write 4 d @ ?o"
  let ?old = "take 10 buf @ segment 10 2 buf @ segment 12 4 buf @ segment 16 4 buf @ ?o"
  have old: "take ?n buf = ?old"
    using v4_fields [of "take ?n buf"] n by (simp add: segment_def drop_take min_absorb1 min_absorb2)
  have b: "length ?old \<le> 131071" "length ?new \<le> 131071"
    using ihl_lt [of ?h] n by (simp_all add: byte_simps segment_def)
  have nz: "wsum ?old \<noteq> 0" "wsum ?new \<noteq> 0"
    by (rule hdr_size_nonzero [of buf]; use n in force)+
  have flds: "wsum (segment 10 2 buf) = unat (check ?h)" "wsum (segment 12 4 buf) = unat (ADD32CS (saddr ?h))"
    "wsum (segment 16 4 buf) = unat (ADD32CS (daddr ?h))"
    using n by (simp_all add: Header_def wsum_load2 wsum_load4 byte_simps)
  have ev: "even (length (take 10 buf))" using n by (simp add: min_absorb2)
  have evs: "even (length (segment 10 2 buf))" "even (length (segment 12 4 buf))" "even (length (segment 16 4 buf))"
    using n by (simp_all add: byte_simps)
  define R where "R = wsum (take 10 buf) + wsum ?o"
  have "wsum ?old = R + (unat (check ?h) + (unat (ADD32CS (saddr ?h)) + unat (ADD32CS (daddr ?h))))"
    using ev evs flds by (simp add: wsum_append R_def)
  moreover have "wsum ?new = R + (unat ?c + (unat (ADD32CS s) + unat (ADD32CS d)))"
    using ev by (simp add: wsum_append R_def wsum_write2 wsum_write4)
  moreover note mod_add_cong [OF refl [of "R mod 65535"] v4_delta.delta [of "check ?h" "saddr ?h" "daddr ?h" s d]]
  ultimately have "wsum ?new mod 65535 = wsum ?old mod 65535" by simp
  moreover have "take (hdr_size (v4_updated s d buf)) (v4_updated s d buf) = ?new"
    using v4_updated_parts(1) [OF n] v4_updated_header(2) [OF n] by simp
  ultimately show ?thesis
    unfolding hdr_ok_def old using b nz by (simp only: ipchksum_zero_iff)
qed

lemma v4_updated_l4_ok:
  assumes n: "20 \<le> hdr_size buf" "hdr_size buf \<le> length buf" "length buf \<le> 65535"
    and l4: "v4_fragoff (Header buf) = 0" "has_chksum (protocol (Header buf)) (drop (hdr_size buf) buf)"
  shows "l4_ok (v4_pseudo (segment 12 8 (v4_updated s d buf)) (protocol (Header buf)) (length buf - hdr_size buf))
      (drop (hdr_size buf) (v4_updated s d buf)) =
    l4_ok (v4_pseudo (segment 12 8 buf) (protocol (Header buf)) (length buf - hdr_size buf)) (drop (hdr_size buf) buf)"
proof -
  let ?h = "Header buf" and ?pld = "drop (hdr_size buf) buf"
  have seg: "segment 12 8 buf = segment 12 4 buf @ segment 16 4 buf"
    using take_add [of 4 4 "drop 12 buf"] by (simp add: segment_def add.commute)
  have "wsum (segment 12 8 buf) = unat (ADD32CS (saddr ?h)) + unat (ADD32CS (daddr ?h))"
    using n unfolding seg by (simp add: wsum_append byte_simps Header_def wsum_load4)
  moreover have "wsum (segment 12 8 (v4_updated s d buf)) = unat (ADD32CS s) + unat (ADD32CS d)"
    unfolding v4_updated_header(4) [OF n(1,2)] by (simp add: wsum_append wsum_write4)
  moreover have "drop (hdr_size buf) (v4_updated s d buf) = v4_l4_update (protocol ?h) ?pld 0 (saddr ?h) (daddr ?h) s d"
    using v4_updated_parts(2) [OF n(1,2)] l4(1) by simp
  moreover have "0 < unat (protocol ?h)" using l4(2) by (auto simp: has_chksum_def)
  ultimately show ?thesis
    unfolding v4_pseudo_def using v4_l4_update_sum [OF l4(2)] n
    by (intro l4_ok_cong) (simp_all add: byte_simps v4_updated_header(4))
qed

lemma wsum_in6:
  assumes "length a = 16"
  shows "wsum a = addsum (in6_uint32 a)"
proof -
  have split: "drop i a = segment i n a @ drop (i + n) a" for i n
    by (metis append_take_drop_id drop_drop segment_def add.commute)
  have a: "a = segment 0 4 a @ segment 4 4 a @ segment 8 4 a @ segment 12 4 a"
    using split [of 0 4] split [of 4 4] split [of 8 4] split [of 12 4] assms by simp
  have "length (segment i 4 a) = 4" if "i \<le> 12" for i
    using that assms by (simp add: byte_simps)
  then have "wsum (segment 0 4 a @ segment 4 4 a @ segment 8 4 a @ segment 12 4 a) = addsum (in6_uint32 a)"
    by (simp add: wsum_append addsum_def in6_uint32_def wsum_load4 upt_rec [of _ 4])
  then show ?thesis by (simp only: flip: a)
qed

lemma length_HUIntToIn6 [simp]: "length (HUIntToIn6 big_to_host x) = 16"
  by (simp add: HUIntToIn6_def Let_def)

text \<open>
  The walk over a chain of extension headers, each with its kind and the bytes after its first
  one: hop-by-hop options, routing and destination options with their length in units of eight
  bytes, and fragment headers of a first fragment. It ends at the payload behind the chain.
\<close>

fun ext_ok :: "byte \<times> bytes \<Rightarrow> bool" where
  "ext_ok (kind, body) \<longleftrightarrow>
     (kind = 0 \<or> kind = 43 \<or> kind = 60) \<and> body \<noteq> [] \<and> Suc (length body) = (unat (hd body) + 1) * 8 \<or>
     kind = 44 \<and> length body = 7 \<and> body ! 1 = 0 \<and> body ! 2 AND 0xFC = 0"

primrec ext_chain :: "(byte \<times> bytes) list \<Rightarrow> byte \<Rightarrow> bytes \<Rightarrow> byte \<times> bytes" where
  "ext_chain [] proto pld = (proto, pld)"
| "ext_chain (h # hs) proto pld = (let (np, rest) = ext_chain hs proto pld in (fst h, np # snd h @ rest))"

lemma v6_skip_chain:
  assumes "list_all ext_ok hs" and "proto \<notin> {0, 43, 44, 60}" and "ext_chain hs proto pld = (np, bs)"
  shows "v6_skip np bs = Inr (Some (proto, pld, 0))"
  using assms(1,3)
proof (induction hs arbitrary: np bs)
  case Nil
  then show ?case using assms(2) by (subst v6_skip.simps) auto
next
  case (Cons h hs)
  obtain np' rest where c: "ext_chain hs proto pld = (np', rest)" by fastforce
  then have IH: "v6_skip np' rest = Inr (Some (proto, pld, 0))" using Cons by simp
  obtain kind body where h: "h = (kind, body)" by (cases h)
  have np: "np = kind" and bs: "bs = np' # body @ rest" using Cons.prems(2) c h by simp_all
  from Cons.prems(1) h consider
      (ext) "kind = 0 \<or> kind = 43 \<or> kind = 60" "body \<noteq> []" "Suc (length body) = (unat (hd body) + 1) * 8"
    | (frag) "kind = 44" "length body = 7" "body ! 1 = 0" "body ! 2 AND 0xFC = 0" by auto
  then show ?case
  proof cases
    case ext
    have "bs ! 1 = hd body" "drop (Suc (length body)) bs = rest" "Suc (length body) \<le> length bs" "2 \<le> length bs"
      using ext(2) by (simp_all add: bs nth_append hd_conv_nth Suc_le_eq)
    then show ?thesis using ext(1) IH np unfolding ext(3) by (subst v6_skip.simps) (auto simp: Let_def bs)
  next
    case frag
    have "ucast (body ! 2) AND 0xFC = (ucast (body ! 2 AND 0xFC) :: u32)" by (simp add: unsigned_and_eq)
    then have "drop 8 bs = rest" "bs ! 2 = 0" "ucast (bs ! 3) AND 0xFC = (0 :: u32)" "8 \<le> length bs"
      using frag(2-4) by (simp_all add: bs nth_append nth_Cons')
    then show ?thesis using frag(1) IH np by (subst v6_skip.simps) (auto simp: Let_def bs)
  qed
qed

lemma v6_skip_suffix: "v6_skip p pld = Inr (Some (q, r, f)) \<Longrightarrow> \<exists>k. r = drop k pld \<and> k \<le> length pld"
proof (induction p pld rule: v6_skip.induct)
  case (1 p pld)
  show ?case
  proof (cases "p = 0 \<or> p = 43 \<or> p = 60")
    case True
    let ?k = "(unat (pld ! 1) + 1) * 8"
    have e: "v6_skip p pld = (if length pld < 2 then Inl OutOfBounds else if length pld < ?k then Inr None
        else v6_skip (pld ! 0) (drop ?k pld))"
      using True by (subst v6_skip.simps) (simp add: Let_def)
    then have k: "\<not> length pld < 2" "\<not> length pld < ?k" using 1(3) by (auto split: if_splits)
    then have "v6_skip (pld ! 0) (drop ?k pld) = Inr (Some (q, r, f))" using 1(3) e by simp
    with 1(1) [OF True k(1) refl k(2)] obtain j where "r = drop j (drop ?k pld)" "j \<le> length (drop ?k pld)" by blast
    then show ?thesis using k(2) by (intro exI [of _ "j + ?k"]) auto
  next
    case False
    note nt = this
    show ?thesis
    proof (cases "p = 44")
      case True
      let ?f = "unat (push_bit 8 (ucast (pld ! 2)) OR (ucast (pld ! 3) AND 0xFC) :: u32)"
      have e: "v6_skip p pld = (if length pld < 4 then Inl OutOfBounds else if length pld < 8 then Inr None
          else if ?f \<noteq> 0 then Inr (Some (pld ! 0, drop 8 pld, ?f)) else v6_skip (pld ! 0) (drop 8 pld))"
        using True by (subst v6_skip.simps) (simp add: Let_def)
      have l: "\<not> length pld < 4" "\<not> length pld < 8" using 1(3) unfolding e by (auto split: if_splits)
      show ?thesis
      proof (cases "?f = 0")
        case f0: True
        then have "v6_skip (pld ! 0) (drop 8 pld) = Inr (Some (q, r, f))" using 1(3) l unfolding e by simp
        with 1(2) [OF nt True l(1) refl l(2)] f0 obtain j where "r = drop j (drop 8 pld)" "j \<le> length (drop 8 pld)" by blast
        then show ?thesis using l by (intro exI [of _ "j + 8"]) auto
      next
        case False
        then show ?thesis using 1(3) l unfolding e by auto
      qed
    next
      case False
      then show ?thesis using nt 1(3) by (subst (asm) v6_skip.simps) (auto intro: exI [of _ 0])
    qed
  qed
qed

definition v6_readdressed :: "(u64 \<Rightarrow> u64) \<Rightarrow> uint128_t \<Rightarrow> uint128_t \<Rightarrow> u32 option \<Rightarrow> bytes \<Rightarrow> bytes" where
  "v6_readdressed big_to_host src dst label buf =
     (case label of None \<Rightarrow> take 8 buf
      | Some l \<Rightarrow> le_write 4 (flowlabel (put_FlowLabel l (HeaderV6 buf))) @ segment 4 4 buf) @
     HUIntToIn6 big_to_host src @ HUIntToIn6 big_to_host dst @ drop 40 buf"

lemma v6_readdressed_fields:
  assumes "40 \<le> length buf"
  shows "length (v6_readdressed bth src dst label buf) = length buf"
    "drop 40 (v6_readdressed bth src dst label buf) = drop 40 buf"
    "segment 8 32 (v6_readdressed bth src dst label buf) = HUIntToIn6 bth src @ HUIntToIn6 bth dst"
    "segment 8 16 (v6_readdressed bth src dst label buf) = HUIntToIn6 bth src"
    "segment 24 16 (v6_readdressed bth src dst label buf) = HUIntToIn6 bth dst"
    "v6_readdressed bth src dst label buf ! 6 = buf ! 6"
  using assms by (auto simp: v6_readdressed_def segment_def nth_append split: option.split)

lemma HeaderV6_sel:
  "srcaddr (HeaderV6 b) = segment 8 16 b" "dstaddr (HeaderV6 b) = segment 24 16 b" "v6_protocol (HeaderV6 b) = b ! 6"
  by (simp_all add: HeaderV6_def)

lemma UpdateIPv6Address_skip:
  assumes "40 < length buf"
  shows "UpdateIPv6Address bth src dst label buf =
    (let new = v6_readdressed bth src dst label buf;
         os = in6_uint32 (segment 8 16 buf); od = in6_uint32 (segment 24 16 buf);
         ns = in6_uint32 (HUIntToIn6 bth src); nd = in6_uint32 (HUIntToIn6 bth dst)
     in case v6_skip (buf ! 6) (drop 40 buf) of
          Inl e \<Rightarrow> Inl e
        | Inr None \<Rightarrow> Inr new
        | Inr (Some (q, pld, f)) \<Rightarrow>
            Inr (take (length buf - length pld) new @ v6_l4_update q pld f os od ns nd))"
proof -
  let ?b = "case label of None \<Rightarrow> buf | Some l \<Rightarrow> poke 0 (le_write 4 (flowlabel (put_FlowLabel l (HeaderV6 buf)))) buf"
  let ?new = "v6_readdressed bth src dst label buf"
  have new: "poke 24 (HUIntToIn6 bth dst) (poke 8 (HUIntToIn6 bth src) ?b) = ?new"
    using assms by (auto simp: poke_def v6_readdressed_def segment_def take_drop split: option.split)
  have old: "segment 8 16 ?b = segment 8 16 buf" "segment 24 16 ?b = segment 24 16 buf"
    using assms by (simp_all add: segment_poke_after split: option.split)
  have len: "40 \<le> length buf" using assms by simp
  have ihs: "4 + 4 + 16 + 16 = (40 :: nat)" by simp
  have "\<not> length buf \<le> 40" using assms by simp
  then show ?thesis
    unfolding UpdateIPv6Address_def Let_def ihs HeaderV6_sel new old bind_exn_def
    by (simp add: v6_readdressed_fields [OF len] split: sum.split option.split)
qed

text \<open>A checksum computed over a string that holds zeros in its place makes the string verify.\<close>

lemma fill_checksum:
  assumes "even off" and "off + 2 \<le> length xs" and "length xs \<le> 131071" and "segment off 2 xs = [0, 0]"
  shows "ipchksum (poke off (le_write 2 (ipchksum xs 0)) xs) 0 = 0"
proof -
  let ?c = "ipchksum xs 0"
  obtain R where R: "wsum xs = R" "wsum (poke off (le_write 2 ?c) xs) = R + unat ?c"
    using wsum_poke [of off "le_write 2 ?c" xs] assms by (auto simp: wsum_write2)
  define f where "f = ones_fold R"
  have c: "unat ?c = 65535 - f" using assms(3) R(1) by (simp add: ipchksum_unat f_def)
  have f: "f \<le> 65535" "f mod 65535 = R mod 65535" by (simp_all add: f_def ones_fold_le ones_fold_mod)
  have "R + unat ?c \<noteq> 0"
    using c by (auto simp: f_def ones_fold_def)
  moreover have "(R + unat ?c) mod 65535 = (f + unat ?c) mod 65535"
    using f(2) by (intro mod_add_cong) simp_all
  then have "(R + unat ?c) mod 65535 = 0" using c f(1) by simp
  ultimately show ?thesis
    using assms(2,3) R(2) by (subst ipchksum_zero_iff) (simp_all add: length_poke)
qed

text \<open>Writes into a list given by its elements, evaluated element by element.\<close>

lemma poke_eval:
  "poke 0 [] xs = xs" "poke 0 (b # bs) (x # xs) = b # poke 0 bs xs"
  "poke (Suc n) bs (x # xs) = x # poke n bs xs"
  "poke (numeral k) bs (x # xs) = x # poke (pred_numeral k) bs xs"
  by (simp_all add: poke_def numeral_eq_Suc)

lemma poke_0_app: "length bs = length ys \<Longrightarrow> poke 0 bs ys = bs"
  by (simp add: poke_def)

lemma replicate_split: "replicate (n + k) x = replicate k x @ replicate n x"
  by (simp add: replicate_add [symmetric] add.commute)

definition udp4 :: "oxenc \<Rightarrow> u32 \<Rightarrow> u16 \<Rightarrow> u32 \<Rightarrow> u16 \<Rightarrow> bytes \<Rightarrow> u16 \<Rightarrow> bytes" where
  "udp4 ox src srcport dst dstport udp_data c =
     ([0x45, 0] @ le_write 2 (htons (of_nat (28 + length udp_data))) @ [0, 0] @ le_write 2 (htons 0x4000) @ [64, 0x11]
      @ le_write 2 c @ le_write 4 src @ le_write 4 dst) @
     le_write 2 srcport @ le_write 2 dstport @ write_be16 ox (of_nat (length udp_data + 8)) @ write_be16 ox 0 @ udp_data"

lemma make_ip4_udp_eq:
  assumes "oxenc_ok ox"
  shows "make_ip4_udp ox src srcport dst dstport udp_data =
    Inr (udp4 ox src srcport dst dstport udp_data (ipchksum (take 20 (udp4 ox src srcport dst dstport udp_data 0)) 0))"
proof -
  have "\<exists>a b. write_be16 ox x = [a, b]" for x
    using oxenc_okD(1) [OF assms, of x] by (auto simp: length_Suc_conv numeral_2_eq_2)
  then obtain l1 l2 z1 z2 where ox: "write_be16 ox (of_nat (length udp_data) + 8) = [l1, l2]" "write_be16 ox 0 = [z1, z2]"
    by meson
  have "le_write 2 (0 :: u16) = [0, 0]" by (simp add: le_write2)
  moreover have "version_ihl 4 5 = 0x45" by (simp add: version_ihl_def)
  moreover have "replicate (length udp_data + 28) (0 :: byte) =
      [0, 0, 0, 0, 0, 0, 0, 0, 0, 0, 0, 0, 0, 0, 0, 0, 0, 0, 0, 0, 0, 0, 0, 0, 0, 0, 0, 0] @
      replicate (length udp_data) 0"
    by (simp add: replicate_split numeral_eq_Suc)
  ultimately show ?thesis
    unfolding make_ip4_udp_def IPPacket_sized_def MinSize_def udp4_def
    by (simp add: Let_def ox poke_eval poke_0_app le_write2 le_write4)
qed

lemma make_ip4_udp_ok:
  assumes "oxenc_ok ox" and "pkt = udp4 ox src srcport dst dstport udp_data (ipchksum (take 20 (udp4 ox src srcport dst dstport udp_data 0)) 0)"
  shows "length pkt = 28 + length udp_data" "ihl (Header pkt) = 5" "version (Header pkt) = 4" "hdr_ok pkt"
    "L4Data pkt = Inr (Some udp_data)" "SrcPort pkt = Inr (Some srcport)" "DstPort pkt = Inr (Some dstport)"
    "srcv4 pkt = Inr (htonl src)" "dstv4 pkt = Inr (htonl dst)"
proof -
  note len = oxenc_okD(1) [OF assms(1)]
  let ?H = "take 20 (udp4 ox src srcport dst dstport udp_data 0)"
  let ?c = "ipchksum ?H 0"
  show l: "length pkt = 28 + length udp_data" by (simp add: assms(2) udp4_def len)
  show i: "ihl (Header pkt) = 5" and "version (Header pkt) = 4"
    by (simp_all add: assms(2) udp4_def Header_def drop_bit_eq_div)
  have p: "protocol (Header pkt) = 0x11" by (simp add: assms(2) udp4_def Header_def le_write2)
  show "L4Data pkt = Inr (Some udp_data)"
    using l i p by (simp add: L4Data_def with_Header_def) (simp add: assms(2) udp4_def len)
  show "SrcPort pkt = Inr (Some srcport)" "DstPort pkt = Inr (Some dstport)"
    using l i p by (simp_all add: SrcPort_def DstPort_def port_at_def with_Header_def Let_def)
      (simp_all add: assms(2) udp4_def segment_def len)
  show "srcv4 pkt = Inr (htonl src)" "dstv4 pkt = Inr (htonl dst)"
    using l by (simp_all add: srcv4_def dstv4_def with_Header_def) (simp_all add: assms(2) udp4_def segment_def Header_def)
  have "ipchksum (poke 10 (le_write 2 ?c) ?H) 0 = 0"
    by (rule fill_checksum) (simp_all add: udp4_def segment_def len le_write2)
  moreover have "poke 10 (le_write 2 ?c) ?H = take 20 pkt"
    unfolding assms(2) by (simp add: udp4_def poke_def)
  ultimately show "hdr_ok pkt" using i by (simp add: hdr_ok_def)
qed

definition icmp_header :: "ip_header \<Rightarrow> u16 \<Rightarrow> bytes" where
  "icmp_header h c = [0x45, 0] @ le_write 2 (htons 56) @ [0, 0] @ le_write 2 (htons 0x4000) @ [ttl h, 1]
      @ le_write 2 c @ le_write 4 (daddr h) @ le_write 4 (saddr h)"

definition icmp_body :: "oxenc \<Rightarrow> bytes \<Rightarrow> u16 \<Rightarrow> bytes" where
  "icmp_body ox buf c = [3, 7] @ le_write 2 c @ [0, 0] @ write_be16 ox 1500 @ take 28 buf"

lemma MakeICMPUnreachable_eq:
  assumes "oxenc_ok ox" and "write_be32 ox 0 = [0, 0, 0, 0]"
    and "version (Header buf) = 4" and "ihl (Header buf) = 5" and "28 \<le> length buf"
  shows "MakeICMPUnreachable ox buf = Inr (Some
    (icmp_header (Header buf) (ipchksum (icmp_header (Header buf) 0) 0) @
     icmp_body ox buf (ipchksum (icmp_body ox buf 0) 0)))"
proof -
  obtain x y where ox: "write_be16 ox 1500 = [x, y]"
    using oxenc_okD(1) [OF assms(1), of 1500] by (auto simp: length_Suc_conv numeral_2_eq_2)
  define q where "q = take 28 buf"
  have q: "length q = 28" using assms(5) by (simp add: q_def)
  have "replicate 56 (0 :: byte) = replicate 28 0 @ replicate 28 0"
    by (simp flip: replicate_add)
  moreover have "replicate 28 (0 :: byte) = [0, 0, 0, 0, 0, 0, 0, 0, 0, 0, 0, 0, 0, 0, 0, 0, 0, 0, 0, 0, 0, 0, 0, 0, 0, 0, 0, 0]"
    by (simp add: numeral_eq_Suc)
  ultimately have z: "replicate 56 (0 :: byte) =
      [0, 0, 0, 0, 0, 0, 0, 0, 0, 0, 0, 0, 0, 0, 0, 0, 0, 0, 0, 0, 0, 0, 0, 0, 0, 0, 0, 0] @ replicate 28 0" by simp
  have v: "pkt_IsV4 buf = Inr True" using assms(3,5) by (simp add: pkt_IsV4_def with_Header_def)
  have m: "version_ihl 4 5 = 0x45" by (simp add: version_ihl_def)
  have zero: "le_write 2 (0 :: u16) = [0, 0]" by (simp add: le_write2)
  show ?thesis
    unfolding MakeICMPUnreachable_def v
    using assms(4,5) q
    by (simp add: Let_def IPPacket_sized_def MinSize_def z m ox assms(2) zero poke_eval poke_0_app le_write2 le_write4
        icmp_header_def icmp_body_def flip: q_def)
qed

lemma icmp_reply_ok:
  assumes "oxenc_ok ox" and "28 \<le> length buf"
    and pkt: "pkt = icmp_header h (ipchksum (icmp_header h 0) 0) @ icmp_body ox buf (ipchksum (icmp_body ox buf 0) 0)"
  shows "length pkt = 56" "pkt_IsV4 pkt = Inr True" "protocol (Header pkt) = 1" "ttl (Header pkt) = ttl h"
    "saddr (Header pkt) = daddr h" "daddr (Header pkt) = saddr h" "hdr_ok pkt" "ipchksum (drop 20 pkt) 0 = 0"
    "drop 28 pkt = take 28 buf"
proof -
  note len = oxenc_okD(1) [OF assms(1)]
  show l: "length pkt = 56" using assms(2) by (simp add: pkt icmp_header_def icmp_body_def len)
  show "protocol (Header pkt) = 1" "ttl (Header pkt) = ttl h" "saddr (Header pkt) = daddr h" "daddr (Header pkt) = saddr h"
    by (simp_all add: pkt icmp_header_def Header_def segment_def le_write2)
  have hd: "hdr_size pkt = 20" "version (Header pkt) = 4"
    by (simp_all add: pkt icmp_header_def Header_def drop_bit_eq_div)
  then show "pkt_IsV4 pkt = Inr True" using l by (simp add: pkt_IsV4_def with_Header_def)
  have "ipchksum (poke 10 (le_write 2 (ipchksum (icmp_header h 0) 0)) (icmp_header h 0)) 0 = 0"
    by (rule fill_checksum) (simp_all add: icmp_header_def segment_def le_write2)
  moreover have "poke 10 (le_write 2 c) (icmp_header h 0) = icmp_header h c" for c :: u16
    by (simp add: icmp_header_def poke_def)
  moreover have "take 20 pkt = icmp_header h (ipchksum (icmp_header h 0) 0)" by (simp add: pkt icmp_header_def)
  ultimately show "hdr_ok pkt" using hd by (simp add: hdr_ok_def)
  have "ipchksum (poke 2 (le_write 2 (ipchksum (icmp_body ox buf 0) 0)) (icmp_body ox buf 0)) 0 = 0"
    by (rule fill_checksum) (simp_all add: icmp_body_def segment_def le_write2 len)
  moreover have "poke 2 (le_write 2 c) (icmp_body ox buf 0) = icmp_body ox buf c" for c :: u16
    by (simp add: icmp_body_def poke_def)
  moreover have "drop 20 pkt = icmp_body ox buf (ipchksum (icmp_body ox buf 0) 0)" by (simp add: pkt icmp_header_def)
  ultimately show "ipchksum (drop 20 pkt) 0 = 0" by simp
  show "drop 28 pkt = take 28 buf" by (simp add: pkt icmp_header_def icmp_body_def len)
qed

definition sample4 :: bytes where
  "sample4 = [69, 0, 0, 30, 0, 0, 64, 0, 64, 17, 38, 205, 10, 0, 0, 1, 10, 0, 0, 2, 0, 53, 0, 99, 0, 10, 228, 54, 7, 9]"

definition sample6 :: bytes where
  "sample6 = [96, 0, 0, 0, 0, 10, 17, 64, 0, 0, 0, 0, 0, 0, 0, 0, 0, 0, 0, 0, 0, 0, 0, 1, 0, 0, 0, 0, 0, 0, 0, 0, 0, 0, 0, 0, 0, 0, 0, 2, 0, 53, 0, 99, 0, 10, 248, 54, 7, 9]"

lemma sample4_ok:
  "hdr_size sample4 = 20" "length sample4 = 30" "hdr_ok sample4" "v4_fragoff (Header sample4) = 0"
  "protocol (Header sample4) = 17" "has_chksum 17 (drop 20 sample4)"
  "l4_ok (v4_pseudo (segment 12 8 sample4) 17 10) (drop 20 sample4)"
  by code_simp+

lemma bit_le_load: "bit (le_load bs :: 'a::len word) n \<Longrightarrow> n < 8 * length bs"
proof (induction bs arbitrary: n)
  case (Cons b bs)
  then show ?case
    by (cases "n < 8") (auto simp: le_load_Cons bit_simps dest: bit_imp_le_length Cons.IH)
qed simp

lemma le_write_load: "8 * length bs \<le> LENGTH('a) \<Longrightarrow> le_write (length bs) (le_load bs :: 'a::len word) = bs"
proof (induction bs)
  case (Cons b bs)
  let ?w = "le_load bs :: 'a word"
  have "ucast (push_bit 8 ?w OR ucast b) = b"
    using Cons.prems by (intro bit_word_eqI) (auto simp: bit_simps)
  moreover have "drop_bit 8 (push_bit 8 ?w OR ucast b) = take_bit (LENGTH('a) - 8) ?w"
    using Cons.prems by (intro bit_word_eqI) (auto simp: bit_simps dest: bit_imp_le_length)
  moreover have "take_bit (LENGTH('a) - 8) ?w = ?w"
    using bit_le_load [of bs] Cons.prems by (intro bit_word_eqI) (fastforce simp: bit_simps)
  ultimately show ?case using Cons by (simp add: le_load_Cons)
qed simp

text \<open>The byte swap of a little-endian host, for the conversion to network order.\<close>

definition swap64 :: "u64 \<Rightarrow> u64" where
  "swap64 x = le_load (be_write 8 x)"

lemma le_write_swap64: "le_write 8 (swap64 x) = be_write 8 x"
  using le_write_load [of "be_write 8 x", where ?'a = 64] by (simp add: swap64_def)

lemma sample6_ok:
  "length sample6 = 50" "v6_skip (sample6 ! 6) (drop 40 sample6) = Inr (Some (17, drop 40 sample6, 0))"
  "has_chksum 17 (drop 40 sample6)"
  "l4_ok (v6_pseudo (segment 8 32 sample6) 17 10) (drop 40 sample6)"
  by (code_simp, subst v6_skip.simps, code_simp+)


section \<open>Properties\<close>

text \<open>
  C25. Rewriting the addresses of an IPv4 packet is a faithful replacement for computing its
  checksums anew: for a packet that holds its whole header, the new addresses are stored, the
  length and the first ten bytes are kept, the header verifies afterwards exactly if it
  verified before, and so does the transport payload of an unfragmented packet that carries
  a TCP, DCCP, UDP or UDP-Lite checksum, over its pseudo header with the new addresses. The
  two folds of a 32 bit sum suffice for every value of it.
\<close>

theorem UpdateIPv4Address_checksums:
  assumes "20 \<le> hdr_size buf" and "hdr_size buf \<le> length buf" and "length buf \<le> 65535"
  shows "\<exists>buf'. UpdateIPv4Address nSrcIP nDstIP buf = Inr buf' \<and> length buf' = length buf \<and>
    take 10 buf' = take 10 buf \<and> saddr (Header buf') = nSrcIP \<and> daddr (Header buf') = nDstIP \<and>
    hdr_ok buf' = hdr_ok buf \<and>
    (v4_fragoff (Header buf) = 0 \<and> has_chksum (protocol (Header buf)) (drop (hdr_size buf) buf) \<longrightarrow>
      l4_ok (v4_pseudo (segment 12 8 buf') (protocol (Header buf)) (length buf - hdr_size buf)) (drop (hdr_size buf) buf') =
      l4_ok (v4_pseudo (segment 12 8 buf) (protocol (Header buf)) (length buf - hdr_size buf)) (drop (hdr_size buf) buf))"
  using UpdateIPv4Address_updated [OF assms(1,2)] v4_updated_header [OF assms(1,2)]
    v4_updated_hdr_ok [OF assms(1,2)] v4_updated_l4_ok [OF assms]
  by (intro exI [of _ "v4_updated nSrcIP nDstIP buf"]) blast

theorem UpdateIPv4Address_checksums_witness:
  "\<exists>buf'. UpdateIPv4Address 0 0 sample4 = Inr buf' \<and> hdr_ok buf' \<and> saddr (Header buf') = 0 \<and>
     l4_ok (v4_pseudo (segment 12 8 buf') 17 10) (drop 20 buf')"
  using UpdateIPv4Address_checksums [of sample4 0 0] by (auto simp: sample4_ok)

text \<open>
  C26. The same for IPv6, whose addresses are part of no header checksum: when the walk over
  the extension headers ends at a TCP, DCCP, UDP or UDP-Lite payload that carries a checksum
  and is not a later fragment, that checksum verifies with the new addresses exactly if it
  verified with the old ones. The new addresses are read back, whatever the flow label. Where the
  walk ends is what \<open>v6_skip_chain\<close> shows: behind any chain of options, routing and first
  fragment headers.
\<close>

theorem UpdateIPv6Address_checksums:
  assumes "40 < length buf" and "length buf \<le> 65535"
    and "\<And>x. le_write 8 (big_to_host x) = be_write 8 x"
    and "v6_skip (buf ! 6) (drop 40 buf) = Inr (Some (proto, pld, 0))" and "has_chksum proto pld"
  shows "\<exists>buf'. UpdateIPv6Address big_to_host src dst label buf = Inr buf' \<and> length buf' = length buf \<and>
    In6ToHUInt (srcaddr (HeaderV6 buf')) = src \<and> In6ToHUInt (dstaddr (HeaderV6 buf')) = dst \<and>
    l4_ok (v6_pseudo (segment 8 32 buf') proto (length pld)) (drop (length buf - length pld) buf') =
    l4_ok (v6_pseudo (segment 8 32 buf) proto (length pld)) pld"
proof -
  have len: "40 \<le> length buf" using assms(1) by simp
  let ?new = "v6_readdressed big_to_host src dst label buf"
  let ?s = "in6_uint32 (segment 8 16 buf)" and ?d = "in6_uint32 (segment 24 16 buf)"
  let ?ns = "in6_uint32 (HUIntToIn6 big_to_host src)" and ?nd = "in6_uint32 (HUIntToIn6 big_to_host dst)"
  let ?p = "v6_l4_update proto pld 0 ?s ?d ?ns ?nd" and ?k = "length buf - length pld"
  note f = v6_readdressed_fields [OF len, of big_to_host src dst label]
  obtain k where "pld = drop k (drop 40 buf)" using v6_skip_suffix [OF assms(4)] by blast
  then have k: "40 \<le> ?k" "length pld \<le> 65535" "?k \<le> length buf" "length pld \<le> length buf"
    using assms(1,2) by auto
  define buf' where "buf' = take ?k ?new @ ?p"
  have upd: "UpdateIPv6Address big_to_host src dst label buf = Inr buf'"
    using UpdateIPv6Address_skip [OF assms(1), of big_to_host src dst label] assms(4) by (simp add: buf'_def Let_def)
  have lk: "length (take ?k ?new) = ?k" using f(1) by simp
  have seg: "segment a n buf' = segment a n ?new" if "a + n \<le> 40" for a n
    using that k(1) lk unfolding buf'_def segment_def by (simp add: drop_take)
  have drop: "drop ?k buf' = ?p" unfolding buf'_def using lk by (metis append_eq_conv_conj)
  have old: "segment 8 32 buf = segment 8 16 buf @ segment 24 16 buf"
    using take_add [of 16 16 "drop 8 buf"] by (simp add: segment_def add.commute)
  have "wsum (segment 8 32 buf) = addsum ?s + addsum ?d"
    unfolding old using len by (simp add: wsum_append byte_simps wsum_in6)
  moreover have "wsum (segment 8 32 buf') = addsum ?ns + addsum ?nd"
    using seg [of 8 32] by (simp add: f(3) wsum_append wsum_in6)
  moreover have "0 < unat proto" using assms(5) by (auto simp: has_chksum_def)
  ultimately have "l4_ok (v6_pseudo (segment 8 32 buf') proto (length pld)) ?p =
      l4_ok (v6_pseudo (segment 8 32 buf) proto (length pld)) pld"
    unfolding v6_pseudo_def using v6_l4_update_sum [OF assms(5)] k len seg [of 8 32] f(3)
    by (intro l4_ok_cong) (simp_all add: wsum_append byte_simps)
  moreover have "In6ToHUInt (srcaddr (HeaderV6 buf')) = src" "In6ToHUInt (dstaddr (HeaderV6 buf')) = dst"
    using In6ToHUInt_HUIntToIn6 [OF assms(3)] seg [of 8 16] seg [of 24 16] by (simp_all add: HeaderV6_sel f(4,5))
  moreover have "length buf' = length buf" using lk k(4) by (simp add: buf'_def)
  ultimately show ?thesis using upd drop by auto
qed

theorem UpdateIPv6Address_checksums_witness:
  "\<exists>buf'. UpdateIPv6Address swap64 (uint128 0 7) (uint128 1 0) None sample6 = Inr buf' \<and>
     In6ToHUInt (srcaddr (HeaderV6 buf')) = uint128 0 7 \<and>
     l4_ok (v6_pseudo (segment 8 32 buf') 17 10) (drop 40 buf')"
  using UpdateIPv6Address_checksums [of sample6 swap64 17 "drop 40 sample6" "uint128 0 7" "uint128 1 0" None]
  by (auto simp: sample6_ok le_write_swap64)

text \<open>
  C27. A UDP packet the program makes is read back by its own accessors: for IPv4 addresses
  and any payload, the header is version 4 without options and its checksum verifies, and
  ports, addresses and payload are those given. (The length fields are 16 bits wide and hold
  the size modulo \<open>2 ^ 16\<close>.)
\<close>

theorem make_udp_roundtrip:
  assumes "oxenc_ok ox"
  shows "\<exists>pkt. make_udp ox (ipv4addr src) srcport (ipv4addr dst) dstport udp_data = Inr pkt \<and>
    length pkt = 28 + length udp_data \<and> pkt_IsV4 pkt = Inr True \<and> hdr_ok pkt \<and>
    SrcPort pkt = Inr (Some srcport) \<and> DstPort pkt = Inr (Some dstport) \<and>
    srcv4 pkt = Inr (htonl src) \<and> dstv4 pkt = Inr (htonl dst) \<and> L4Data pkt = Inr (Some udp_data)"
  using make_ip4_udp_eq [OF assms, of src srcport dst dstport udp_data]
    make_ip4_udp_ok [OF assms refl, of src srcport dst dstport udp_data]
  by (simp add: pkt_IsV4_def with_Header_def)

theorem make_udp_roundtrip_witness:
  "oxenc_ok oxenc_be \<and> (\<exists>pkt. make_udp oxenc_be (ipv4addr 1) 53 (ipv4addr 2) 99 [7, 9] = Inr pkt \<and>
     length pkt = 30 \<and> hdr_ok pkt \<and> L4Data pkt = Inr (Some [7, 9]))"
  using make_udp_roundtrip [OF oxenc_be_ok, of 1 53 2 99 "[7, 9]"] oxenc_be_ok by auto

text \<open>
  C28. The reply for an unreachable destination quotes the header and the first eight bytes
  of an IPv4 packet without options, swaps the addresses, and both its checksums verify. A
  packet shorter than what is quoted, which every constructor of a packet admits, is read
  past its end.
\<close>

theorem MakeICMPUnreachable_reply:
  assumes "oxenc_ok ox" and "write_be32 ox 0 = [0, 0, 0, 0]"
    and "version (Header buf) = 4" and "ihl (Header buf) = 5" and "20 \<le> length buf"
  shows "if length buf < 28 then MakeICMPUnreachable ox buf = Inl OutOfBounds
    else \<exists>pkt. MakeICMPUnreachable ox buf = Inr (Some pkt) \<and> length pkt = 56 \<and>
      pkt_IsV4 pkt = Inr True \<and> protocol (Header pkt) = 1 \<and> ttl (Header pkt) = ttl (Header buf) \<and>
      saddr (Header pkt) = daddr (Header buf) \<and> daddr (Header pkt) = saddr (Header buf) \<and>
      hdr_ok pkt \<and> ipchksum (drop 20 pkt) 0 = 0 \<and> drop 28 pkt = take 28 buf"
proof (cases "length buf < 28")
  case True
  then show ?thesis
    using assms(3-5) by (simp add: MakeICMPUnreachable_def pkt_IsV4_def with_Header_def Let_def IPPacket_sized_def MinSize_def)
next
  case False
  then show ?thesis
    using MakeICMPUnreachable_eq [OF assms(1-4)] icmp_reply_ok [OF assms(1) _ refl, of buf "Header buf"] by simp
qed

theorem MakeICMPUnreachable_reply_witness:
  "MakeICMPUnreachable oxenc_be (take 20 sample4) = Inl OutOfBounds \<and>
   (\<exists>pkt. MakeICMPUnreachable oxenc_be sample4 = Inr (Some pkt) \<and> hdr_ok pkt \<and> drop 28 pkt = take 28 sample4)"
proof -
  have z: "write_be32 oxenc_be 0 = [0, 0, 0, 0]" by (simp add: oxenc_be_def numeral_eq_Suc)
  have h: "version (Header sample4) = 4" "ihl (Header sample4) = 5" "version (Header (take 20 sample4)) = 4"
    "ihl (Header (take 20 sample4)) = 5" by code_simp+
  show ?thesis
    using MakeICMPUnreachable_reply [OF oxenc_be_ok z h(1,2)] MakeICMPUnreachable_reply [OF oxenc_be_ok z h(3,4)]
    by (auto simp: sample4_ok)
qed

end
