(* ===== verification/Bencode.thy ===== *)
theory Bencode
  imports Util_Str Wire_Buffer
begin

text \<open>
  The bencoding of every message on the wire, from \<^verbatim>\<open>llarp/util/bencode.cpp\<close> and
  \<^verbatim>\<open>llarp/util/bencode.hpp\<close>, over the stream buffer. A reader that finds no value gives
  \<open>None\<close> or \<open>False\<close> and leaves the position where it gave up; a read past the end of the
  buffer that the code does not guard is \<open>OutOfBounds\<close>. The two loops over a list and a
  dictionary call a sink that may leave the buffer alone, so they may run forever: they are
  partial functions, and not returning is the value \<^term>\<open>None\<close>.
\<close>


section \<open>Numbers\<close>

definition is_space :: "byte \<Rightarrow> bool" where
  "is_space c \<longleftrightarrow> c = 0x20 \<or> 0x09 \<le> c \<and> c \<le> 0x0D"

text \<open>\<^verbatim>\<open>strtoull\<close> and \<^verbatim>\<open>atoi\<close>, base 10: spaces, a sign, and the digits up to the first other byte.\<close>

definition scan_number :: "bytes \<Rightarrow> bool \<times> nat" where
  "scan_number s =
     (case dropWhile is_space s of
        [] \<Rightarrow> (False, 0)
      | c # r \<Rightarrow>
          if c = 0x2D then (True, digits_value (takeWhile is_digit r))
          else if c = 0x2B then (False, digits_value (takeWhile is_digit r))
          else (False, digits_value (takeWhile is_digit (c # r))))"

definition strtoull :: "bytes \<Rightarrow> u64" where
  "strtoull s =
     (let (neg, v) = scan_number s
      in if v \<ge> 2 ^ 64 then - 1 else if neg then - of_nat v else of_nat v)"

text \<open>The argument of \<^verbatim>\<open>atoi\<close> has nine characters at most, so the value fits an \<^verbatim>\<open>int\<close>.\<close>

definition atoi :: "bytes \<Rightarrow> int" where
  "atoi s = (let (neg, v) = scan_number s in if neg then - int v else int v)"

text \<open>\<^verbatim>\<open>%zu\<close> and \<^verbatim>\<open>PRIu64\<close>.\<close>

fun decimal :: "nat \<Rightarrow> bytes" where
  "decimal n = (if n < 10 then [of_nat (0x30 + n)] else decimal (n div 10) @ [of_nat (0x30 + n mod 10)])"

declare decimal.simps [simp del]


section \<open>Readers\<close>

definition bencode_read_integer :: "llarp_buffer_t \<Rightarrow> exn + u64 option \<times> llarp_buffer_t" where
  "bencode_read_integer buffer =
     (if size_left buffer = 0 then Inl OutOfBounds
      else if base buffer ! cur buffer \<noteq> 0x69 then Inr (None, buffer)
      else (let (numbuf, len, buffer) = read_until 0x65 31 (buffer\<lparr>cur := cur buffer + 1\<rparr>)
            in if len = 0 then Inr (None, buffer)
               else Inr (Some (strtoull numbuf), buffer\<lparr>cur := cur buffer + 1\<rparr>)))"

definition bencode_read_string :: "llarp_buffer_t \<Rightarrow> bytes option \<times> llarp_buffer_t" where
  "bencode_read_string buffer =
     (let (numbuf, len, buffer) = read_until 0x3A 9 buffer
      in if len = 0 then (None, buffer)
         else (let num = atoi numbuf
               in if num < 0 then (None, buffer)
                  else (let slen = nat num; buffer = buffer\<lparr>cur := cur buffer + 1\<rparr>
                        in if size_left buffer < slen then (None, buffer)
                           else (Some (segment (cur buffer) slen (base buffer)),
                                 buffer\<lparr>cur := cur buffer + slen\<rparr>))))"

text \<open>The result of a reader that works on a state: whether it has succeeded, the state and the buffer.\<close>

type_synonym 's res = "(exn + bool \<times> 's \<times> llarp_buffer_t) option"

abbreviation ret :: "bool \<Rightarrow> 's \<Rightarrow> llarp_buffer_t \<Rightarrow> 's res" where
  "ret ok s buf \<equiv> Some (Inr (ok, s, buf))"

text \<open>Go on after a success, give up after a failure.\<close>

definition and_then :: "'s res \<Rightarrow> ('s \<Rightarrow> llarp_buffer_t \<Rightarrow> 's res) \<Rightarrow> 's res" where
  "and_then r f =
     (case r of None \<Rightarrow> None
      | Some (Inl x) \<Rightarrow> Some (Inl x)
      | Some (Inr (ok, s, buf)) \<Rightarrow> if ok then f s buf else ret False s buf)"

partial_function (option) read_list_loop ::
    "('s \<Rightarrow> llarp_buffer_t \<Rightarrow> bool \<Rightarrow> 's res) \<Rightarrow> 's \<Rightarrow> llarp_buffer_t \<Rightarrow> 's res" where
  "read_list_loop sink s buffer =
     (if size_left buffer \<noteq> 0 \<and> base buffer ! cur buffer \<noteq> 0x65
      then (case sink s buffer True of
              None \<Rightarrow> None
            | Some (Inl x) \<Rightarrow> Some (Inl x)
            | Some (Inr (ok, s, buffer)) \<Rightarrow>
                if ok then read_list_loop sink s buffer else ret False s buffer)
      else ret True s buffer)"

text \<open>The end of a list or a dictionary: the byte is read without a test that there is one.\<close>

definition read_end :: "('s \<Rightarrow> llarp_buffer_t \<Rightarrow> 's res) \<Rightarrow> 's \<Rightarrow> llarp_buffer_t \<Rightarrow> 's res" where
  "read_end fin s buffer =
     (if size_left buffer = 0 then Some (Inl OutOfBounds)
      else if base buffer ! cur buffer \<noteq> 0x65 then ret False s buffer
      else fin s (buffer\<lparr>cur := cur buffer + 1\<rparr>))"

definition bencode_read_list ::
    "('s \<Rightarrow> llarp_buffer_t \<Rightarrow> bool \<Rightarrow> 's res) \<Rightarrow> 's \<Rightarrow> llarp_buffer_t \<Rightarrow> 's res" where
  "bencode_read_list sink s buffer =
     (if size_left buffer < 2 then ret False s buffer
      else if base buffer ! cur buffer \<noteq> 0x6C then ret False s buffer
      else and_then (read_list_loop sink s (buffer\<lparr>cur := cur buffer + 1\<rparr>))
             (read_end (\<lambda>s buffer. sink s buffer False)))"

partial_function (option) read_dict_loop ::
    "('s \<Rightarrow> llarp_buffer_t \<Rightarrow> bytes option \<Rightarrow> 's res) \<Rightarrow> 's \<Rightarrow> llarp_buffer_t \<Rightarrow> 's res" where
  "read_dict_loop sink s buffer =
     (if size_left buffer \<noteq> 0 \<and> base buffer ! cur buffer \<noteq> 0x65
      then (case bencode_read_string buffer of
              (None, buffer) \<Rightarrow> ret False s buffer
            | (Some strbuf, buffer) \<Rightarrow>
                (case sink s buffer (Some strbuf) of
                   None \<Rightarrow> None
                 | Some (Inl x) \<Rightarrow> Some (Inl x)
                 | Some (Inr (ok, s, buffer)) \<Rightarrow>
                     if ok then read_dict_loop sink s buffer else ret False s buffer))
      else ret True s buffer)"

definition bencode_read_dict ::
    "('s \<Rightarrow> llarp_buffer_t \<Rightarrow> bytes option \<Rightarrow> 's res) \<Rightarrow> 's \<Rightarrow> llarp_buffer_t \<Rightarrow> 's res" where
  "bencode_read_dict sink s buffer =
     (if size_left buffer < 2 then ret False s buffer
      else if base buffer ! cur buffer \<noteq> 0x64 then ret False s buffer
      else and_then (read_dict_loop sink s (buffer\<lparr>cur := cur buffer + 1\<rparr>))
             (read_end (\<lambda>s buffer. sink s buffer None)))"

text \<open>\<open>DecodeKey\<close> is the method of the decoded object, which is the state.\<close>

definition bencode_decode_dict ::
    "(bytes \<Rightarrow> 's \<Rightarrow> llarp_buffer_t \<Rightarrow> 's res) \<Rightarrow> 's \<Rightarrow> llarp_buffer_t \<Rightarrow> 's res" where
  "bencode_decode_dict DecodeKey s buff =
     bencode_read_dict (\<lambda>s buffer key. case key of None \<Rightarrow> ret True s buffer | Some key \<Rightarrow> DecodeKey key s buffer) s buff"

text \<open>A sink that returns more often makes the loops return more often.\<close>

lemma read_list_loop_le:
  assumes "read_list_loop sink s buf = Some r" and le: "\<And>s b m r. sink s b m = Some r \<Longrightarrow> sink' s b m = Some r"
  shows "read_list_loop sink' s buf = Some r"
proof -
  let ?P = "\<lambda>sink s buf r. (\<forall>s b m r. sink s b m = Some r \<longrightarrow> sink' s b m = Some r) \<longrightarrow>
      read_list_loop sink' s buf = Some r"
  have "?P sink s buf r"
  proof (rule read_list_loop.raw_induct [where P = ?P, OF _ assms(1)], intro impI, goal_cases)
    case (1 f k t b y)
    then show ?case
      by (subst read_list_loop.simps, cases "k t b True")
        (fastforce split: if_splits option.splits sum.splits prod.splits)+
  qed
  then show ?thesis using le by blast
qed

lemma read_dict_loop_le:
  assumes "read_dict_loop sink s buf = Some r" and le: "\<And>s b m r. sink s b m = Some r \<Longrightarrow> sink' s b m = Some r"
  shows "read_dict_loop sink' s buf = Some r"
proof -
  let ?P = "\<lambda>sink s buf r. (\<forall>s b m r. sink s b m = Some r \<longrightarrow> sink' s b m = Some r) \<longrightarrow>
      read_dict_loop sink' s buf = Some r"
  have "?P sink s buf r"
  proof (rule read_dict_loop.raw_induct [where P = ?P, OF _ assms(1)], intro impI, goal_cases)
    case (1 f k t b y)
    then show ?case
      by (subst read_dict_loop.simps, cases "k t (snd (bencode_read_string b)) (fst (bencode_read_string b))")
        (fastforce split: if_splits option.splits sum.splits prod.splits)+
  qed
  then show ?thesis using le by blast
qed

lemma and_then_le:
  assumes "and_then p f = Some r" and "\<And>r. p = Some r \<Longrightarrow> p' = Some r" and "\<And>s b r. f s b = Some r \<Longrightarrow> f' s b = Some r"
  shows "and_then p' f' = Some r"
  using assms by (auto simp: and_then_def split: option.splits sum.splits prod.splits if_splits)

lemma bencode_read_list_le:
  assumes "bencode_read_list sink s buf = Some r" and "\<And>s b m r. sink s b m = Some r \<Longrightarrow> sink' s b m = Some r"
  shows "bencode_read_list sink' s buf = Some r"
  using assms(1) unfolding bencode_read_list_def
  by (auto split: if_splits elim!: and_then_le intro: read_list_loop_le [OF _ assms(2)] simp: read_end_def assms(2))

lemma bencode_read_dict_le:
  assumes "bencode_read_dict sink s buf = Some r" and "\<And>s b m r. sink s b m = Some r \<Longrightarrow> sink' s b m = Some r"
  shows "bencode_read_dict sink' s buf = Some r"
  using assms(1) unfolding bencode_read_dict_def
  by (auto split: if_splits elim!: and_then_le intro: read_dict_loop_le [OF _ assms(2)] simp: read_end_def assms(2))

lemma mono_option_iff: "option.mono_body F \<longleftrightarrow>
    (\<forall>f g. (\<forall>x r. f x = Some r \<longrightarrow> g x = Some r) \<longrightarrow> (\<forall>r. F f = Some r \<longrightarrow> F g = Some r))"
proof -
  have le: "option_ord a b \<longleftrightarrow> (\<forall>r. a = Some r \<longrightarrow> b = Some r)" for a b :: "'c option"
    by (cases a) (auto simp: flat_ord_def)
  show ?thesis by (auto simp: monotone_def fun_ord_def le)
qed

lemma bencode_read_list_mono [partial_function_mono]:
  assumes "\<And>s b m. option.mono_body (\<lambda>f. sink f s b m)"
  shows "option.mono_body (\<lambda>f. bencode_read_list (sink f) s buf)"
  unfolding mono_option_iff
proof (intro allI impI)
  fix f g r
  assume "\<forall>x r. f x = Some r \<longrightarrow> g x = Some r" and r: "bencode_read_list (sink f) s buf = Some r"
  then have "sink g s b m = Some r" if "sink f s b m = Some r" for s b m r
    using assms [of s b m] that unfolding mono_option_iff by blast
  then show "bencode_read_list (sink g) s buf = Some r" by (rule bencode_read_list_le [OF r])
qed

lemma bencode_read_dict_mono [partial_function_mono]:
  assumes "\<And>s b m. option.mono_body (\<lambda>f. sink f s b m)"
  shows "option.mono_body (\<lambda>f. bencode_read_dict (sink f) s buf)"
  unfolding mono_option_iff
proof (intro allI impI)
  fix f g r
  assume "\<forall>x r. f x = Some r \<longrightarrow> g x = Some r" and r: "bencode_read_dict (sink f) s buf = Some r"
  then have "sink g s b m = Some r" if "sink f s b m = Some r" for s b m r
    using assms [of s b m] that unfolding mono_option_iff by blast
  then show "bencode_read_dict (sink g) s buf = Some r" by (rule bencode_read_dict_le [OF r])
qed

partial_function (option) bencode_discard :: "llarp_buffer_t \<Rightarrow> unit res" where
  "bencode_discard buf =
     (if size_left buf = 0 then ret True () buf
      else (let c = base buf ! cur buf in
        if c = 0x6C then
          bencode_read_list (\<lambda>_ buffer more. if more then bencode_discard buffer else ret True () buffer) () buf
        else if c = 0x69 then
          (case bencode_read_integer buf of
             Inl x \<Rightarrow> Some (Inl x)
           | Inr (result, buf) \<Rightarrow> ret (result \<noteq> None) () buf)
        else if c = 0x64 then
          bencode_read_dict (\<lambda>_ buffer key. if key \<noteq> None then bencode_discard buffer else ret True () buffer) () buf
        else if is_digit c then
          (case bencode_read_string buf of (result, buf) \<Rightarrow> ret (result \<noteq> None) () buf)
        else ret False () buf))"

declare read_list_loop.simps [code] read_dict_loop.simps [code] bencode_discard.simps [code]

text \<open>
  The readers of a dictionary entry, over an object \<open>s\<close> and the flag \<^verbatim>\<open>read\<close>. \<open>upd\<close> stores what
  was read in the object, \<open>BDecode\<close> decodes into a part of it.
\<close>

definition BEncodeMaybeReadDictInt ::
    "bytes \<Rightarrow> (u64 \<Rightarrow> 's \<Rightarrow> 's) \<Rightarrow> bytes \<Rightarrow> bool \<times> 's \<Rightarrow> llarp_buffer_t \<Rightarrow> (bool \<times> 's) res" where
  "BEncodeMaybeReadDictInt k upd key rs buf =
     (if starts_with key k
      then (case bencode_read_integer buf of
              Inl x \<Rightarrow> Some (Inl x)
            | Inr (None, buf) \<Rightarrow> ret False rs buf
            | Inr (Some read_i, buf) \<Rightarrow> ret True (True, upd read_i (snd rs)) buf)
      else ret True rs buf)"

definition BEncodeMaybeReadDictEntry ::
    "bytes \<Rightarrow> ('s \<Rightarrow> llarp_buffer_t \<Rightarrow> 's res) \<Rightarrow> bytes \<Rightarrow> bool \<times> 's \<Rightarrow> llarp_buffer_t \<Rightarrow> (bool \<times> 's) res" where
  "BEncodeMaybeReadDictEntry k BDecode key rs buf =
     (if starts_with key k
      then (case BDecode (snd rs) buf of
              None \<Rightarrow> None
            | Some (Inl x) \<Rightarrow> Some (Inl x)
            | Some (Inr (ok, s, buf)) \<Rightarrow> ret ok (if ok then (True, s) else (fst rs, s)) buf)
      else ret True rs buf)"

text \<open>\<open>item\<close> is set even if the version is not the expected one, and then nothing counts as read.\<close>

definition BEncodeMaybeVerifyVersion ::
    "bytes \<Rightarrow> (u64 \<Rightarrow> 's \<Rightarrow> 's) \<Rightarrow> u64 \<Rightarrow> bytes \<Rightarrow> bool \<times> 's \<Rightarrow> llarp_buffer_t \<Rightarrow> (bool \<times> 's) res" where
  "BEncodeMaybeVerifyVersion k upd expect key rs buf =
     (if starts_with key k
      then (case bencode_read_integer buf of
              Inl x \<Rightarrow> Some (Inl x)
            | Inr (None, buf) \<Rightarrow> ret False rs buf
            | Inr (Some item, buf) \<Rightarrow> ret True (item = expect, upd item (snd rs)) buf)
      else ret True rs buf)"

text \<open>\<open>fresh\<close> is the default value of an item.\<close>

definition BEncodeReadList ::
    "'a \<Rightarrow> ('a \<Rightarrow> llarp_buffer_t \<Rightarrow> 'a res) \<Rightarrow> 'a list \<Rightarrow> llarp_buffer_t \<Rightarrow> 'a list res" where
  "BEncodeReadList fresh BDecode result buf =
     bencode_read_list (\<lambda>result buffer has.
       if has
       then (case BDecode fresh buffer of
               None \<Rightarrow> None
             | Some (Inl x) \<Rightarrow> Some (Inl x)
             | Some (Inr (ok, item, buffer)) \<Rightarrow> ret ok (result @ [item]) buffer)
       else ret True result buffer) result buf"

definition BEncodeReadArray ::
    "('a \<Rightarrow> llarp_buffer_t \<Rightarrow> 'a res) \<Rightarrow> 'a list \<Rightarrow> llarp_buffer_t \<Rightarrow> ('a list \<times> nat) res" where
  "BEncodeReadArray BDecode array buf =
     bencode_read_list (\<lambda>(array, idx) buffer has.
       if has
       then (if idx \<ge> length array then ret False (array, idx) buffer
             else (case BDecode (array ! idx) buffer of
                     None \<Rightarrow> None
                   | Some (Inl x) \<Rightarrow> Some (Inl x)
                   | Some (Inr (ok, item, buffer)) \<Rightarrow> ret ok (array[idx := item], idx + 1) buffer))
       else ret True (array, idx) buffer) (array, 0) buf"

definition BEncodeReadSet ::
    "'a \<Rightarrow> ('a \<Rightarrow> llarp_buffer_t \<Rightarrow> 'a res) \<Rightarrow> 'a set \<Rightarrow> llarp_buffer_t \<Rightarrow> 'a set res" where
  "BEncodeReadSet fresh BDecode set0 buffer =
     bencode_read_list (\<lambda>set0 buf more.
       if more
       then (case BDecode fresh buf of
               None \<Rightarrow> None
             | Some (Inl x) \<Rightarrow> Some (Inl x)
             | Some (Inr (ok, item, buf)) \<Rightarrow>
                 if \<not> ok then ret False set0 buf else ret (item \<notin> set0) (insert item set0) buf)
       else ret True set0 buf) set0 buffer"

definition BEncodeMaybeReadDictList ::
    "bytes \<Rightarrow> ('s \<Rightarrow> llarp_buffer_t \<Rightarrow> 's res) \<Rightarrow> bytes \<Rightarrow> bool \<times> 's \<Rightarrow> llarp_buffer_t \<Rightarrow> (bool \<times> 's) res" where
  "BEncodeMaybeReadDictList k ReadList key rs buf = BEncodeMaybeReadDictEntry k ReadList key rs buf"

definition BEncodeSeekDictVersion :: "u64 \<Rightarrow> llarp_buffer_t \<Rightarrow> byte \<Rightarrow> u64 res" where
  "BEncodeSeekDictVersion v buf k =
     (case bencode_read_dict (\<lambda>v buffer key.
        case key of
          None \<Rightarrow> ret True v buffer
        | Some key \<Rightarrow>
            if key = [k]
            then (case bencode_read_integer buffer of
                    Inl x \<Rightarrow> Some (Inl x)
                  | Inr (None, buffer) \<Rightarrow> ret False v buffer
                  | Inr (Some v, buffer) \<Rightarrow> ret True v buffer)
            else (case bencode_discard buffer of
                    None \<Rightarrow> None
                  | Some (Inl x) \<Rightarrow> Some (Inl x)
                  | Some (Inr (ok, _, buffer)) \<Rightarrow> ret ok v buffer)) v buf of
        None \<Rightarrow> None
      | Some (Inl x) \<Rightarrow> Some (Inl x)
      | Some (Inr (ok, v, buf)) \<Rightarrow> ret ok v (buf\<lparr>cur := 0\<rparr>))"


section \<open>Writers\<close>

text \<open>
  \<^verbatim>\<open>writef\<close>, with what was formatted: \<^verbatim>\<open>vsnprintf\<close> ends what it writes with a zero and cuts it to
  make room for it, but reports the full length.
\<close>

definition writef :: "bytes \<Rightarrow> llarp_buffer_t \<Rightarrow> bool \<times> llarp_buffer_t" where
  "writef out buf =
     (let toWrite = size_left buf;
          written = length out;
          buf = (if toWrite = 0 then buf
                 else buf\<lparr>base := poke (cur buf) (take (toWrite - 1) out @ [0]) (base buf)\<rparr>)
      in if written = 0 then (False, buf)
         else if toWrite < written then (False, buf)
         else (True, buf\<lparr>cur := cur buf + written\<rparr>))"

definition write_then :: "(llarp_buffer_t \<Rightarrow> bool \<times> llarp_buffer_t) \<Rightarrow> (llarp_buffer_t \<Rightarrow> bool \<times> llarp_buffer_t) \<Rightarrow>
    llarp_buffer_t \<Rightarrow> bool \<times> llarp_buffer_t" where
  "write_then w w' buf = (let (ok, buf) = w buf in if ok then w' buf else (False, buf))"

definition bencode_write_bytestring :: "bytes \<Rightarrow> llarp_buffer_t \<Rightarrow> bool \<times> llarp_buffer_t" where
  "bencode_write_bytestring data = write_then (writef (decimal (length data) @ [0x3A])) (buf_write data)"

definition bencode_write_uint64 :: "u64 \<Rightarrow> llarp_buffer_t \<Rightarrow> bool \<times> llarp_buffer_t" where
  "bencode_write_uint64 i = write_then (writef (0x69 # decimal (unat i))) (buf_write [0x65])"

definition bencode_write_uint64_entry :: "bytes \<Rightarrow> u64 \<Rightarrow> llarp_buffer_t \<Rightarrow> bool \<times> llarp_buffer_t" where
  "bencode_write_uint64_entry name i = write_then (bencode_write_bytestring name) (bencode_write_uint64 i)"

definition bencode_start_list :: "llarp_buffer_t \<Rightarrow> bool \<times> llarp_buffer_t" where
  "bencode_start_list = buf_write [0x6C]"

definition bencode_start_dict :: "llarp_buffer_t \<Rightarrow> bool \<times> llarp_buffer_t" where
  "bencode_start_dict = buf_write [0x64]"

definition bencode_end :: "llarp_buffer_t \<Rightarrow> bool \<times> llarp_buffer_t" where
  "bencode_end = buf_write [0x65]"

definition BEncodeWriteDictMsgType :: "bytes \<Rightarrow> bytes \<Rightarrow> llarp_buffer_t \<Rightarrow> bool \<times> llarp_buffer_t" where
  "BEncodeWriteDictMsgType k t = write_then (bencode_write_bytestring k) (bencode_write_bytestring t)"

definition BEncodeWriteDictString :: "bytes \<Rightarrow> bytes \<Rightarrow> llarp_buffer_t \<Rightarrow> bool \<times> llarp_buffer_t" where
  "BEncodeWriteDictString k s = write_then (bencode_write_bytestring k) (bencode_write_bytestring s)"

definition BEncodeWriteDictEntry ::
    "bytes \<Rightarrow> (llarp_buffer_t \<Rightarrow> bool \<times> llarp_buffer_t) \<Rightarrow> llarp_buffer_t \<Rightarrow> bool \<times> llarp_buffer_t" where
  "BEncodeWriteDictEntry k BEncode = write_then (bencode_write_bytestring k) BEncode"

definition BEncodeWriteDictInt :: "bytes \<Rightarrow> u64 \<Rightarrow> llarp_buffer_t \<Rightarrow> bool \<times> llarp_buffer_t" where
  "BEncodeWriteDictInt k i = write_then (bencode_write_bytestring k) (bencode_write_uint64 i)"

text \<open>The items of a list, each given by its \<^verbatim>\<open>BEncode\<close>.\<close>

primrec write_items :: "(llarp_buffer_t \<Rightarrow> bool \<times> llarp_buffer_t) list \<Rightarrow> llarp_buffer_t \<Rightarrow> bool \<times> llarp_buffer_t" where
  "write_items [] buf = bencode_end buf"
| "write_items (w # ws) buf = write_then w (write_items ws) buf"

definition BEncodeWriteList :: "(llarp_buffer_t \<Rightarrow> bool \<times> llarp_buffer_t) list \<Rightarrow> llarp_buffer_t \<Rightarrow> bool \<times> llarp_buffer_t" where
  "BEncodeWriteList items = write_then bencode_start_list (write_items items)"

definition BEncodeWriteDictList ::
    "bytes \<Rightarrow> (llarp_buffer_t \<Rightarrow> bool \<times> llarp_buffer_t) list \<Rightarrow> llarp_buffer_t \<Rightarrow> bool \<times> llarp_buffer_t" where
  "BEncodeWriteDictList k items = write_then (bencode_write_bytestring k) (BEncodeWriteList items)"

text \<open>The other writers of a container differ in how they walk over it only.\<close>

definition BEncodeWriteDictBEncodeList ::
    "bytes \<Rightarrow> (llarp_buffer_t \<Rightarrow> bool \<times> llarp_buffer_t) list \<Rightarrow> llarp_buffer_t \<Rightarrow> bool \<times> llarp_buffer_t" where
  "BEncodeWriteDictBEncodeList k l =
     write_then (bencode_write_bytestring k) (write_then bencode_start_list (write_items l))"

definition BEncodeWriteDictArray ::
    "bytes \<Rightarrow> (llarp_buffer_t \<Rightarrow> bool \<times> llarp_buffer_t) list \<Rightarrow> llarp_buffer_t \<Rightarrow> bool \<times> llarp_buffer_t" where
  "BEncodeWriteDictArray k array =
     write_then (bencode_write_bytestring k) (write_then bencode_start_list (write_items array))"

definition BEncodeWriteSet ::
    "(llarp_buffer_t \<Rightarrow> bool \<times> llarp_buffer_t) list \<Rightarrow> llarp_buffer_t \<Rightarrow> bool \<times> llarp_buffer_t" where
  "BEncodeWriteSet set0 = write_then bencode_start_list (write_items set0)"

end
