(* ===== verification/Bencode_Value.thy ===== *)
theory Bencode_Value
  imports Bencode
begin

text \<open>
  What the bencode readers accept and what the writers produce, against the values of the
  format: numbers, strings, lists and dictionaries. The readers are run on a buffer that is
  split at its position.
\<close>


section \<open>Numbers and strings\<close>

lemma byte_digit: "n < 10 \<Longrightarrow> unat (of_nat (0x30 + n) :: byte) = 0x30 + n"
  by (rule unat_of_nat_small) simp

lemma is_digit_of_nat: "n < 10 \<Longrightarrow> is_digit (of_nat (0x30 + n))"
  using byte_digit [of n] by (simp add: is_digit_def word_le_nat_alt)

lemma digits_value_snoc: "digits_value (s @ [c]) = 10 * digits_value s + (unat c - 0x30)"
  by (simp add: digits_value_def)

lemma decimal_digits: "list_all is_digit (decimal n)"
proof (induction n rule: decimal.induct)
  case (1 n)
  then show ?case by (subst decimal.simps) (auto simp del: of_nat_add intro!: is_digit_of_nat)
qed

lemma decimal_nonempty [simp]: "decimal n \<noteq> []"
  by (subst decimal.simps) simp

lemma digits_value_decimal [simp]: "digits_value (decimal n) = n"
proof (induction n rule: decimal.induct)
  case (1 n)
  show ?case
  proof (cases "n < 10")
    case True
    then show ?thesis using byte_digit [of n] by (subst decimal.simps) (simp add: digits_value_def del: of_nat_add)
  next
    case False
    then show ?thesis using 1 byte_digit [of "n mod 10"]
      by (subst decimal.simps) (simp add: digits_value_snoc del: of_nat_add)
  qed
qed

lemma length_decimal: "n < 10 ^ d \<Longrightarrow> 0 < d \<Longrightarrow> length (decimal n) \<le> d"
proof (induction d arbitrary: n)
  case (Suc d)
  show ?case
  proof (cases "n < 10")
    case True
    then show ?thesis by (subst decimal.simps) simp
  next
    case False
    then have "0 < d" using Suc.prems by (cases d) auto
    then show ?thesis using Suc False by (subst decimal.simps) auto
  qed
qed simp

lemma decimal_bytes: "c \<in> set (decimal n) \<Longrightarrow> is_digit c"
  using decimal_digits [of n] by (simp add: list_all_iff)

lemma is_digit_not [simp]: "is_digit c \<Longrightarrow> c \<noteq> 0x3A" "is_digit c \<Longrightarrow> c \<noteq> 0x65" "is_digit c \<Longrightarrow> c \<noteq> 0x2D"
  "is_digit c \<Longrightarrow> c \<noteq> 0x2B" "is_digit c \<Longrightarrow> \<not> is_space c" "is_digit c \<Longrightarrow> c \<noteq> 0x6C"
  "is_digit c \<Longrightarrow> c \<noteq> 0x69" "is_digit c \<Longrightarrow> c \<noteq> 0x64"
  by (auto simp: is_digit_def is_space_def word_le_nat_alt)

lemma scan_decimal [simp]: "scan_number (decimal n) = (False, n)"
proof -
  obtain c r where c: "decimal n = c # r" using decimal_nonempty [of n] by (cases "decimal n") auto
  have d: "is_digit c" "\<forall>x\<in>set r. is_digit x" using decimal_bytes [of _ n] by (auto simp: c)
  have tw: "takeWhile is_digit r = r" using d(2) by (simp add: takeWhile_eq_all_conv)
  show ?thesis using d(1) digits_value_decimal [of n] unfolding scan_number_def
    by (simp add: c tw del: digits_value_decimal)
qed

lemma unat_u64_less: "unat (i :: u64) < 2 ^ 64"
  using unsigned_less [of i, where 'a = nat] by simp

lemma strtoull_decimal [simp]: "strtoull (decimal (unat i)) = i"
  using unat_u64_less [of i] by (simp add: strtoull_def)

lemma atoi_decimal [simp]: "atoi (decimal n) = int n"
  by (simp add: atoi_def)

lemma at_next: "k = Suc (length p) \<Longrightarrow> (buf_at p (c # q))\<lparr>cur := k\<rparr> = buf_at (p @ [c]) q"
  by (simp add: buf_at_def)

lemma at_skip: "k = length p + length s \<Longrightarrow> (buf_at p (s @ q))\<lparr>cur := k\<rparr> = buf_at (p @ s) q"
  by (simp add: buf_at_def)

text \<open>The run up to a delimiter that is not in it.\<close>

lemma read_until_at:
  assumes "delim \<notin> set ds" and "length ds \<le> n"
  shows "read_until delim n (buf_at pre (ds @ delim # post)) = (ds, length ds, buf_at (pre @ ds) (delim # post))"
proof -
  have "takeWhile (\<lambda>b. b \<noteq> delim) (ds @ delim # post) = ds"
    using assms(1) by (induction ds) auto
  then show ?thesis using assms(2) by (simp add: read_until_def)
qed

definition enc_string :: "bytes \<Rightarrow> bytes" where
  "enc_string s = decimal (length s) @ 0x3A # s"

definition enc_integer :: "u64 \<Rightarrow> bytes" where
  "enc_integer i = 0x69 # decimal (unat i) @ [0x65]"

lemma read_string_at:
  assumes "length s < 10 ^ 9"
  shows "bencode_read_string (buf_at pre (enc_string s @ post)) = (Some s, buf_at (pre @ enc_string s) post)"
proof -
  have "0x3A \<notin> set (decimal (length s))" using decimal_bytes is_digit_not(1) by blast
  then have "read_until 0x3A 9 (buf_at pre (decimal (length s) @ 0x3A # s @ post)) =
      (decimal (length s), length (decimal (length s)), buf_at (pre @ decimal (length s)) (0x3A # s @ post))"
    using length_decimal [OF assms] by (intro read_until_at) auto
  then show ?thesis by (simp add: bencode_read_string_def enc_string_def segment_def Let_def at_next at_skip)
qed

lemma read_integer_at:
  "bencode_read_integer (buf_at pre (enc_integer i @ post)) = Inr (Some i, buf_at (pre @ enc_integer i) post)"
proof -
  have "0x65 \<notin> set (decimal (unat i))" using decimal_bytes is_digit_not(2) by blast
  moreover have "length (decimal (unat i)) \<le> 20"
    using unat_u64_less [of i] by (intro length_decimal) simp_all
  ultimately have "read_until 0x65 31 (buf_at (pre @ [0x69]) (decimal (unat i) @ 0x65 # post)) =
      (decimal (unat i), length (decimal (unat i)), buf_at (pre @ [0x69] @ decimal (unat i)) (0x65 # post))"
    using read_until_at [of "0x65" "decimal (unat i)" 31 "pre @ [0x69]" post] by simp
  then show ?thesis by (simp add: bencode_read_integer_def enc_integer_def nth_append at_next)
qed

section \<open>Lists and dictionaries\<close>

text \<open>
  An item that the sink consumes in full, whatever comes after it, and that does not look like
  the end of the list.
\<close>

definition item_bytes :: "bytes \<Rightarrow> bool" where
  "item_bytes e \<longleftrightarrow> e \<noteq> [] \<and> hd e \<noteq> 0x65"

lemma item_at:
  "item_bytes e \<Longrightarrow> size_left (buf_at pre (e @ post)) \<noteq> 0 \<and>
     base (buf_at pre (e @ post)) ! cur (buf_at pre (e @ post)) \<noteq> 0x65"
  by (cases e) (simp_all add: item_bytes_def nth_append)

lemma end_at: "\<not> (size_left (buf_at pre (0x65 # post)) \<noteq> 0 \<and>
    base (buf_at pre (0x65 # post)) ! cur (buf_at pre (0x65 # post)) \<noteq> 0x65)"
  by (simp add: nth_append)

lemma item_string: "item_bytes (enc_string s @ post)"
proof -
  obtain c r where "decimal (length s) = c # r" using decimal_nonempty by (cases "decimal (length s)") auto
  then show ?thesis using decimal_bytes [of c "length s"] by (auto simp: item_bytes_def enc_string_def)
qed

lemma item_string' [simp]: "item_bytes (enc_string s)"
  using item_string [of s "[]"] by simp

lemma item_integer [simp]: "item_bytes (enc_integer i)"
  by (simp add: item_bytes_def enc_integer_def)

lemma read_list_loop_at:
  assumes "\<forall>x\<in>set xs. item_bytes (enc x) \<and> (\<forall>s pre post. sink s (buf_at pre (enc x @ post)) True = ret True (f s x) (buf_at (pre @ enc x) post))"
  shows "read_list_loop sink s (buf_at pre (concat (map enc xs) @ 0x65 # post)) =
    ret True (foldl f s xs) (buf_at (pre @ concat (map enc xs)) (0x65 # post))"
  using assms
proof (induction xs arbitrary: s pre)
  case Nil
  then show ?case by (subst read_list_loop.simps) (simp add: end_at)
next
  case (Cons x xs)
  let ?rest = "concat (map enc xs) @ 0x65 # post"
  have "read_list_loop sink s (buf_at pre (enc x @ ?rest)) = read_list_loop sink (f s x) (buf_at (pre @ enc x) ?rest)"
    using item_at [of "enc x" pre ?rest] Cons.prems by (subst read_list_loop.simps) simp
  then show ?case using Cons.IH [of "f s x" "pre @ enc x"] Cons.prems by simp
qed

lemma read_list_at:
  assumes "\<forall>x\<in>set xs. item_bytes (enc x) \<and> (\<forall>s pre post. sink s (buf_at pre (enc x @ post)) True = ret True (f s x) (buf_at (pre @ enc x) post))"
  shows "bencode_read_list sink s (buf_at pre (0x6C # concat (map enc xs) @ 0x65 # post)) =
    sink (foldl f s xs) (buf_at (pre @ 0x6C # concat (map enc xs) @ [0x65]) post) False"
  using read_list_loop_at [where enc = enc and sink = sink and f = f, OF assms, of s "pre @ [0x6C]" post]
  by (simp add: bencode_read_list_def nth_append at_next and_then_def read_end_def)

lemma read_dict_loop_at:
  assumes "\<forall>x\<in>set xs. length (fst x) < 10 ^ 9 \<and>
      (\<forall>s pre post. sink s (buf_at pre (enc (snd x) @ post)) (Some (fst x)) = ret True (f s x) (buf_at (pre @ enc (snd x)) post))"
  shows "read_dict_loop sink s (buf_at pre (concat (map (\<lambda>x. enc_string (fst x) @ enc (snd x)) xs) @ 0x65 # post)) =
    ret True (foldl f s xs) (buf_at (pre @ concat (map (\<lambda>x. enc_string (fst x) @ enc (snd x)) xs)) (0x65 # post))"
  using assms
proof (induction xs arbitrary: s pre)
  case Nil
  then show ?case by (subst read_dict_loop.simps) (simp add: end_at)
next
  case (Cons x xs)
  let ?rest = "concat (map (\<lambda>x. enc_string (fst x) @ enc (snd x)) xs) @ 0x65 # post"
  have "read_dict_loop sink s (buf_at pre (enc_string (fst x) @ enc (snd x) @ ?rest)) =
      read_dict_loop sink (f s x) (buf_at (pre @ enc_string (fst x) @ enc (snd x)) ?rest)"
    using item_at [of "enc_string (fst x)" pre "enc (snd x) @ ?rest"] Cons.prems
    by (subst read_dict_loop.simps) (simp add: read_string_at)
  then show ?case using Cons.IH [of "f s x" "pre @ enc_string (fst x) @ enc (snd x)"] Cons.prems by simp
qed

lemma read_dict_at:
  assumes "\<forall>x\<in>set xs. length (fst x) < 10 ^ 9 \<and>
      (\<forall>s pre post. sink s (buf_at pre (enc (snd x) @ post)) (Some (fst x)) = ret True (f s x) (buf_at (pre @ enc (snd x)) post))"
  shows "bencode_read_dict sink s (buf_at pre (0x64 # concat (map (\<lambda>x. enc_string (fst x) @ enc (snd x)) xs) @ 0x65 # post)) =
    sink (foldl f s xs) (buf_at (pre @ 0x64 # concat (map (\<lambda>x. enc_string (fst x) @ enc (snd x)) xs) @ [0x65]) post) None"
  using read_dict_loop_at [where enc = enc and sink = sink and f = f, OF assms, of s "pre @ [0x64]" post]
  by (simp add: bencode_read_dict_def nth_append at_next and_then_def read_end_def)


section \<open>Values\<close>

datatype bvalue =
    BInt u64
  | BStr bytes
  | BList "bvalue list"
  | BDict "(bytes \<times> bvalue) list"

fun encode :: "bvalue \<Rightarrow> bytes" where
  "encode (BInt i) = enc_integer i"
| "encode (BStr s) = enc_string s"
| "encode (BList vs) = 0x6C # concat (map encode vs) @ [0x65]"
| "encode (BDict kvs) = 0x64 # concat (map (\<lambda>x. enc_string (fst x) @ encode (snd x)) kvs) @ [0x65]"

text \<open>The length of a string is written with nine digits at most.\<close>

fun short_strings :: "bvalue \<Rightarrow> bool" where
  "short_strings (BInt i) = True"
| "short_strings (BStr s) = (length s < 10 ^ 9)"
| "short_strings (BList vs) = (\<forall>v\<in>set vs. short_strings v)"
| "short_strings (BDict kvs) = (\<forall>x\<in>set kvs. length (fst x) < 10 ^ 9 \<and> short_strings (snd x))"

lemma item_encode [simp]: "item_bytes (encode v)"
  by (cases v) (simp_all add: item_bytes_def enc_integer_def, metis item_string' item_bytes_def)

lemma discard_at:
  "short_strings v \<Longrightarrow> bencode_discard (buf_at pre (encode v @ post)) = ret True () (buf_at (pre @ encode v) post)"
proof (induction v arbitrary: pre post rule: encode.induct)
  case (1 i)
  have "bencode_read_integer (buf_at pre (0x69 # decimal (unat i) @ 0x65 # post)) =
      Inr (Some i, buf_at (pre @ enc_integer i) post)"
    using read_integer_at [of pre i post] by (simp add: enc_integer_def)
  then show ?case by (subst bencode_discard.simps) (simp add: enc_integer_def nth_append)
next
  case (2 s)
  obtain c r where c: "decimal (length s) = c # r" using decimal_nonempty by (cases "decimal (length s)") auto
  have d: "is_digit c" using decimal_bytes [of c "length s"] by (simp add: c)
  have "bencode_read_string (buf_at pre (c # r @ 0x3A # s @ post)) = (Some s, buf_at (pre @ enc_string s) post)"
    using read_string_at [of s pre post] 2 by (simp add: enc_string_def c)
  then show ?case using d by (subst bencode_discard.simps) (simp add: enc_string_def c nth_append Let_def)
next
  case (3 vs)
  then have "\<forall>v\<in>set vs. item_bytes (encode v) \<and> (\<forall>s pre post. bencode_discard (buf_at pre (encode v @ post)) =
      ret True () (buf_at (pre @ encode v) post))"
    by simp
  then show ?case
    using read_list_at [of vs encode "\<lambda>_ buffer more. if more then bencode_discard buffer else ret True () buffer" "\<lambda>_ _. ()" "()" pre post]
    by (subst bencode_discard.simps) (simp add: nth_append)
next
  case (4 kvs)
  then have "\<forall>x\<in>set kvs. length (fst x) < 10 ^ 9 \<and> (\<forall>s pre post. bencode_discard (buf_at pre (encode (snd x) @ post)) =
      ret True () (buf_at (pre @ encode (snd x)) post))"
    by (auto simp: snds.simps)
  then show ?case
    using read_dict_at [of kvs "\<lambda>_ buffer key. if key \<noteq> None then bencode_discard buffer else ret True () buffer" encode "\<lambda>_ _. ()" "()" pre post]
    by (subst bencode_discard.simps) (simp add: nth_append)
qed


section \<open>Every reader returns inside the buffer\<close>

text \<open>
  A result whose position is not behind the old one and not past the end, in the same bytes;
  the only error is a read of the byte at the end.
\<close>

definition moves :: "llarp_buffer_t \<Rightarrow> 's res \<Rightarrow> bool" where
  "moves buf r \<longleftrightarrow> (case r of
       None \<Rightarrow> False
     | Some (Inl x) \<Rightarrow> x = OutOfBounds
     | Some (Inr (ok, _, buf')) \<Rightarrow> base buf' = base buf \<and> cur buf \<le> cur buf' \<and> cur buf' \<le> length (base buf))"

definition moves_on :: "llarp_buffer_t \<Rightarrow> 's res \<Rightarrow> bool" where
  "moves_on buf r \<longleftrightarrow> moves buf r \<and> (\<forall>s buf'. r = ret True s buf' \<longrightarrow> cur buf < cur buf')"

lemma read_until_moves:
  assumes "read_until d n buf = (r, len, buf')" and "cur buf \<le> length (base buf)"
  shows "base buf' = base buf" "cur buf' = cur buf + length r" "cur buf' \<le> length (base buf)"
    "len \<noteq> 0 \<Longrightarrow> len = length r \<and> cur buf' < length (base buf)"
proof -
  let ?w = "takeWhile (\<lambda>b. b \<noteq> d) (drop (cur buf) (base buf))"
  have "length ?w \<le> length (base buf) - cur buf" using length_takeWhile_le [of _ "drop (cur buf) (base buf)"] by simp
  then show "base buf' = base buf" "cur buf' = cur buf + length r" "cur buf' \<le> length (base buf)"
    "len \<noteq> 0 \<Longrightarrow> len = length r \<and> cur buf' < length (base buf)"
    using assms by (auto simp: read_until_def size_left_def Let_def split: if_splits)
qed

lemma read_string_moves:
  assumes "bencode_read_string buf = (r, buf')" and "cur buf \<le> length (base buf)"
  shows "base buf' = base buf \<and> cur buf \<le> cur buf' \<and> cur buf' \<le> length (base buf) \<and> (r \<noteq> None \<longrightarrow> cur buf < cur buf')"
proof -
  obtain ds len b where ds: "read_until 0x3A 9 buf = (ds, len, b)" by (metis prod_cases3)
  note m = read_until_moves [OF this assms(2)]
  show ?thesis
    using assms(1) m by (auto simp: bencode_read_string_def ds Let_def size_left_def split: if_splits)
qed

lemma read_integer_moves:
  assumes "bencode_read_integer buf = q" and "cur buf \<le> length (base buf)"
  shows "moves_on buf (case q of Inl x \<Rightarrow> Some (Inl x) | Inr (r, b) \<Rightarrow> ret (r \<noteq> None) () b)"
proof (cases "size_left buf = 0 \<or> base buf ! cur buf \<noteq> 0x69")
  case True
  then show ?thesis using assms
    by (cases "size_left buf = 0") (auto simp: bencode_read_integer_def moves_on_def moves_def)
next
  case False
  obtain ds len b where ds: "read_until 0x65 31 (buf\<lparr>cur := cur buf + 1\<rparr>) = (ds, len, b)" by (metis prod_cases3)
  have "cur (buf\<lparr>cur := cur buf + 1\<rparr>) \<le> length (base (buf\<lparr>cur := cur buf + 1\<rparr>))"
    using False assms(2) by (auto simp: size_left_def)
  note m = read_until_moves [OF ds this]
  show ?thesis
    using assms(1) m False ds by (auto simp: bencode_read_integer_def moves_on_def moves_def split: if_splits)
qed

lemma read_list_loop_moves:
  assumes "\<And>s b. base b = base buf \<Longrightarrow> cur buf \<le> cur b \<Longrightarrow> size_left b \<noteq> 0 \<Longrightarrow> moves_on b (sink s b True)"
    and "cur buf \<le> length (base buf)"
  shows "moves buf (read_list_loop sink s buf)"
  using assms
proof (induction "size_left buf" arbitrary: s buf rule: less_induct)
  case less
  show ?case
  proof (cases "size_left buf \<noteq> 0 \<and> base buf ! cur buf \<noteq> 0x65")
    case True
    have sink: "moves_on buf (sink s buf True)" using less.prems(1) True by simp
    show ?thesis
    proof (cases "\<exists>t b. sink s buf True = ret True t b")
      case True
      then obtain t b where b: "sink s buf True = ret True t b" by blast
      then have b': "base b = base buf" "cur buf < cur b" "cur b \<le> length (base buf)"
        using sink by (auto simp: moves_on_def moves_def)
      then have "size_left b < size_left buf" by (simp add: size_left_def)
      then have "moves b (read_list_loop sink t b)"
        by (rule less.hyps) (use less.prems b' in auto)
      then show ?thesis
        using b b' \<open>size_left buf \<noteq> 0 \<and> base buf ! cur buf \<noteq> 0x65\<close>
        by (subst read_list_loop.simps) (auto simp: moves_def split: option.splits sum.splits)
    next
      case False
      then show ?thesis
        using sink \<open>size_left buf \<noteq> 0 \<and> base buf ! cur buf \<noteq> 0x65\<close>
        by (subst read_list_loop.simps) (auto simp: moves_on_def moves_def split: option.splits sum.splits if_splits)
    qed
  next
    case False
    then show ?thesis using less.prems(2) by (subst read_list_loop.simps) (auto simp: moves_def)
  qed
qed

lemma read_dict_loop_moves:
  assumes "\<And>s b k. base b = base buf \<Longrightarrow> cur buf < cur b \<Longrightarrow> cur b \<le> length (base buf) \<Longrightarrow> moves b (sink s b (Some k))"
    and "cur buf \<le> length (base buf)"
  shows "moves buf (read_dict_loop sink s buf)"
  using assms
proof (induction "size_left buf" arbitrary: s buf rule: less_induct)
  case less
  obtain r b where b: "bencode_read_string buf = (r, b)" by fastforce
  have b': "base b = base buf" "cur buf \<le> cur b" "cur b \<le> length (base buf)" "r \<noteq> None \<Longrightarrow> cur buf < cur b"
    using read_string_moves [OF b less.prems(2)] by simp_all
  show ?case
  proof (cases "size_left buf \<noteq> 0 \<and> base buf ! cur buf \<noteq> 0x65 \<and> r \<noteq> None")
    case True
    then obtain k where k: "r = Some k" by blast
    have sink: "moves b (sink s b (Some k))" using less.prems(1) b' k by simp
    show ?thesis
    proof (cases "\<exists>t d. sink s b (Some k) = ret True t d")
      case True
      then obtain t d where d: "sink s b (Some k) = ret True t d" by blast
      then have d': "base d = base buf" "cur buf < cur d" "cur d \<le> length (base buf)"
        using sink b' k by (auto simp: moves_def)
      then have "size_left d < size_left buf" by (simp add: size_left_def)
      then have "moves d (read_dict_loop sink t d)"
        by (rule less.hyps) (use less.prems d' in auto)
      then show ?thesis
        using b k d d' by (subst read_dict_loop.simps) (auto simp: moves_def less.prems(2) split: option.splits sum.splits)
    next
      case False
      then show ?thesis
        using sink b k b' by (subst read_dict_loop.simps)
          (auto simp: moves_def less.prems(2) split: option.splits sum.splits if_splits)
    qed
  next
    case False
    then show ?thesis using less.prems(2) b b' by (subst read_dict_loop.simps) (auto simp: moves_def)
  qed
qed

lemma moves_and_end:
  assumes "moves b r" and "base b = base buf" and "cur buf < cur b"
    and "\<And>s b. base b = base buf \<Longrightarrow> cur b \<le> length (base buf) \<Longrightarrow> fin s b = ret True s b"
  shows "moves_on buf (and_then r (read_end fin))"
proof -
  consider "r = Some (Inl OutOfBounds)"
    | ok s d where "r = Some (Inr (ok, s, d))" "base d = base buf" "cur b \<le> cur d" "cur d \<le> length (base buf)"
    using assms(1,2) by (auto simp: moves_def split: option.splits sum.splits)
  then show ?thesis
  proof cases
    case 1
    then show ?thesis by (simp add: moves_on_def moves_def and_then_def)
  next
    case (2 ok s d)
    show ?thesis
    proof (cases "ok \<and> size_left d \<noteq> 0")
      case True
      then have "cur (d\<lparr>cur := cur d + 1\<rparr>) \<le> length (base buf)" using 2(2) by (simp add: size_left_def)
      then show ?thesis
        using True 2 assms(3) assms(4) [of "d\<lparr>cur := cur d + 1\<rparr>" s]
        by (auto simp: moves_on_def moves_def and_then_def read_end_def)
    qed (use 2 assms(3) in \<open>auto simp: moves_on_def moves_def and_then_def read_end_def\<close>)
  qed
qed

lemma discard_moves:
  assumes "cur buf \<le> length (base buf)"
  shows "moves buf (bencode_discard buf) \<and> (size_left buf \<noteq> 0 \<longrightarrow> moves_on buf (bencode_discard buf))"
  using assms
proof (induction "size_left buf" arbitrary: buf rule: less_induct)
  case less
  let ?next = "buf\<lparr>cur := cur buf + 1\<rparr>" and ?c = "base buf ! cur buf"
  have IH: "moves b (bencode_discard b)" "size_left b \<noteq> 0 \<Longrightarrow> moves_on b (bencode_discard b)"
    if "base b = base buf" "cur buf < cur b" "cur b \<le> length (base buf)" for b
    using less.hyps [of b] that by (auto simp: size_left_def)
  have leave: "moves_on buf (ret False () buf)" using less.prems by (simp add: moves_on_def moves_def)
  show ?case
  proof (cases "size_left buf = 0")
    case True
    then show ?thesis using less.prems by (subst (1 2) bencode_discard.simps) (simp add: moves_def)
  next
    case False
    then have next': "base ?next = base buf" "cur buf < cur ?next" "cur ?next \<le> length (base ?next)"
      by (auto simp: size_left_def)
    have "moves ?next (read_list_loop (\<lambda>_ b more. if more then bencode_discard b else ret True () b) () ?next)"
      by (rule read_list_loop_moves) (use next' IH(2) in \<open>auto simp: size_left_def\<close>)
    from moves_and_end [OF this next'(1,2)]
    have l: "moves_on buf (bencode_read_list (\<lambda>_ b more. if more then bencode_discard b else ret True () b) () buf)"
      using leave by (simp add: bencode_read_list_def)
    have "moves ?next (read_dict_loop (\<lambda>_ b key. if key \<noteq> None then bencode_discard b else ret True () b) () ?next)"
      by (rule read_dict_loop_moves) (use next' IH(1) in auto)
    from moves_and_end [OF this next'(1,2)]
    have d: "moves_on buf (bencode_read_dict (\<lambda>_ b key. if key \<noteq> None then bencode_discard b else ret True () b) () buf)"
      using leave by (simp add: bencode_read_dict_def)
    obtain r b where b: "bencode_read_string buf = (r, b)" by fastforce
    have s: "moves_on buf (case bencode_read_string buf of (r, b) \<Rightarrow> ret (r \<noteq> None) () b)"
      using read_string_moves [OF b less.prems] by (simp add: b moves_on_def moves_def)
    note i = read_integer_moves [OF refl less.prems]
    have "moves_on buf (bencode_discard buf)"
      using False l d s i leave by (subst bencode_discard.simps) (simp add: Let_def)
    then show ?thesis by (simp add: moves_on_def)
  qed
qed

text \<open>A list of one value without its end: the byte after the buffer is read.\<close>

lemma unterminated_list_overread:
  assumes "short_strings v"
  shows "bencode_discard (buf_at pre (0x6C # encode v)) = Some (Inl OutOfBounds)"
proof -
  let ?sink = "\<lambda>_ b more. if more then bencode_discard b else ret True () b"
  have "read_list_loop ?sink () (buf_at (pre @ [0x6C]) (encode v @ [])) = ret True () (buf_at ((pre @ [0x6C]) @ encode v) [])"
    using discard_at [OF assms, of "pre @ [0x6C]" "[]"] item_at [OF item_encode, of "pre @ [0x6C]" v "[]"]
    by (subst read_list_loop.simps, simp, subst read_list_loop.simps, simp)
  moreover have "encode v \<noteq> []" using item_encode [of v] by (simp add: item_bytes_def)
  ultimately show ?thesis
    by (subst bencode_discard.simps)
      (simp add: nth_append bencode_read_list_def at_next and_then_def read_end_def Suc_le_eq)
qed


section \<open>Properties of the readers\<close>

text \<open>
  C32. \<^verbatim>\<open>bencode_discard\<close> returns on every input, however it is nested: from any position in any
  bytes it either reads the byte after the last one, which the code does not rule out, or ends
  with a position that is not behind the start and not past the end, in unchanged bytes; and if
  there was something to read and it reports success it has moved forward.
\<close>

theorem bencode_discard_returns:
  assumes "cur buf \<le> length (base buf)"
  shows "\<exists>r. bencode_discard buf = Some r \<and>
    (r = Inl OutOfBounds \<or>
     (\<exists>ok buf'. r = Inr (ok, (), buf') \<and> base buf' = base buf \<and> cur buf \<le> cur buf' \<and> cur buf' \<le> length (base buf) \<and>
        (ok \<and> cur buf < length (base buf) \<longrightarrow> cur buf < cur buf')))"
proof -
  note m = discard_moves [OF assms]
  then obtain r where r: "bencode_discard buf = Some r" by (cases "bencode_discard buf") (simp_all add: moves_def)
  show ?thesis
  proof (cases r)
    case (Inl x)
    then show ?thesis using m r by (simp add: moves_def)
  next
    case (Inr y)
    obtain ok u b where "y = (ok, u, b)" by (rule prod_cases3)
    then show ?thesis using m r Inr by (simp add: moves_on_def moves_def size_left_def)
  qed
qed

theorem bencode_discard_returns_witness:
  "\<exists>buf. cur buf \<le> length (base buf) \<and> base buf = str ''li7e'' \<and> bencode_discard buf = Some (Inl OutOfBounds)"
proof -
  have v: "0x6C # encode (BInt 7) = str ''li7e''" by (simp add: enc_integer_def str_def decimal.simps)
  have "bencode_discard (buf_at [] (0x6C # encode (BInt 7))) = Some (Inl OutOfBounds)"
    by (rule unterminated_list_overread) simp
  then show ?thesis using bencode_discard_returns [of "buf_at [] (str ''li7e'')"] v
    by (intro exI [of _ "buf_at [] (str ''li7e'')"]) simp
qed

text \<open>
  C33. \<^verbatim>\<open>bencode_discard\<close> skips exactly one value: in front of the encoding of any value, of any
  depth, whose strings are shorter than a thousand million bytes, and whatever follows, it
  succeeds and stands right after that encoding.
\<close>

theorem bencode_discard_skips_value:
  assumes "short_strings v"
  shows "bencode_discard (buf_at pre (encode v @ post)) = ret True () (buf_at (pre @ encode v) post)"
  by (rule discard_at [OF assms])

theorem bencode_discard_skips_value_witness:
  "\<exists>v pre post. short_strings v \<and> encode v = str ''d1:ali7e2:xyee'' \<and>
     bencode_discard (buf_at pre (encode v @ post)) = ret True () (buf_at (pre @ encode v) post)"
proof -
  let ?v = "BDict [(str ''a'', BList [BInt 7, BStr (str ''xy'')])]"
  have "encode ?v = str ''d1:ali7e2:xyee''"
    by (simp add: enc_string_def enc_integer_def str_def decimal.simps)
  moreover have "short_strings ?v" by (simp add: str_def)
  ultimately show ?thesis using bencode_discard_skips_value [of ?v "[]" "[]"] by blast
qed

end
