(* ===== verification/Wire_Types.thy ===== *)
theory Wire_Types
  imports Bencode_Value
begin

text \<open>
  The values that bencoded messages are made of: byte strings of fixed length
  (\<^verbatim>\<open>llarp/util/aligned.hpp\<close>), encrypted byte strings of bounded length
  (\<^verbatim>\<open>llarp/crypto/encrypted.hpp\<close>), exit policies (\<^verbatim>\<open>llarp/exit/policy.cpp\<close>), introductions
  (\<^verbatim>\<open>llarp/service/intro.cpp\<close>) and the addresses of routers (\<^verbatim>\<open>llarp/net/address_info.cpp\<close>).
  For each there is the value of the format that its writer produces and a proof that its
  reader, in front of that value, gives it back.
\<close>


section \<open>Sequences of writers and readers\<close>

text \<open>A chain of \<^verbatim>\<open>if (!...) return false;\<close> over writers, and one writer that is skipped unless \<open>c\<close>.\<close>

type_synonym writer = "llarp_buffer_t \<Rightarrow> bool \<times> llarp_buffer_t"

primrec write_all :: "writer list \<Rightarrow> writer" where
  "write_all [] buf = (True, buf)"
| "write_all (w # ws) buf = write_then w (write_all ws) buf"

definition write_if :: "bool \<Rightarrow> writer \<Rightarrow> writer" where
  "write_if c w buf = (if c then w buf else (True, buf))"

text \<open>A dictionary: its start, the entries, its end.\<close>

definition write_dict :: "writer list \<Rightarrow> writer" where
  "write_dict ws = write_all (bencode_start_dict # ws @ [bencode_end])"

text \<open>
  The same over the readers of one key, with the flag \<^verbatim>\<open>read\<close> as the result; and a reader of a
  part of an object.
\<close>

primrec read_chain :: "((bool \<times> 's) \<Rightarrow> llarp_buffer_t \<Rightarrow> (bool \<times> 's) res) list \<Rightarrow> (bool \<times> 's) \<Rightarrow> llarp_buffer_t \<Rightarrow> (bool \<times> 's) res" where
  "read_chain [] rs buf = ret True rs buf"
| "read_chain (m # ms) rs buf = and_then (m rs buf) (read_chain ms)"

definition read_keys :: "((bool \<times> 's) \<Rightarrow> llarp_buffer_t \<Rightarrow> (bool \<times> 's) res) list \<Rightarrow> 's \<Rightarrow> llarp_buffer_t \<Rightarrow> 's res" where
  "read_keys ms s buf =
     (case read_chain ms (False, s) buf of
        None \<Rightarrow> None
      | Some (Inl x) \<Rightarrow> Some (Inl x)
      | Some (Inr (ok, rs, buf)) \<Rightarrow> ret (ok \<and> fst rs) (snd rs) buf)"

definition in_field :: "('s \<Rightarrow> 'a) \<Rightarrow> ('a \<Rightarrow> 's \<Rightarrow> 's) \<Rightarrow> ('a \<Rightarrow> llarp_buffer_t \<Rightarrow> 'a res) \<Rightarrow> 's \<Rightarrow> llarp_buffer_t \<Rightarrow> 's res" where
  "in_field get put BDecode s buf =
     (case BDecode (get s) buf of
        None \<Rightarrow> None
      | Some (Inl x) \<Rightarrow> Some (Inl x)
      | Some (Inr (ok, x, buf)) \<Rightarrow> ret ok (put x s) buf)"


section \<open>Byte strings of fixed and of bounded length\<close>

definition AlignedBuffer_BEncode :: "bytes \<Rightarrow> writer" where
  "AlignedBuffer_BEncode x = bencode_write_bytestring x"

definition AlignedBuffer_FromBytestring :: "nat \<Rightarrow> bytes \<Rightarrow> bytes \<Rightarrow> bool \<times> bytes" where
  "AlignedBuffer_FromBytestring sz strbuf x = (if length strbuf \<noteq> sz then (False, x) else (True, strbuf))"

definition AlignedBuffer_BDecode :: "nat \<Rightarrow> bytes \<Rightarrow> llarp_buffer_t \<Rightarrow> bytes res" where
  "AlignedBuffer_BDecode sz x buf =
     (case bencode_read_string buf of
        (None, buf) \<Rightarrow> ret False x buf
      | (Some strbuf, buf) \<Rightarrow> (let (ok, x) = AlignedBuffer_FromBytestring sz strbuf x in ret ok x buf))"

text \<open>\<^verbatim>\<open>IsZero\<close> looks at whole 64 bit words.\<close>

definition AlignedBuffer_IsZero :: "bytes \<Rightarrow> bool" where
  "AlignedBuffer_IsZero x \<longleftrightarrow> list_all (\<lambda>b. b = 0) (take (length x div 8 * 8) x)"

definition AlignedBuffer_Zero :: "nat \<Rightarrow> bytes" where
  "AlignedBuffer_Zero sz = replicate sz 0"

text \<open>
  \<^verbatim>\<open>sizeof(AlignedBuffer<n>)\<close> where pointers have eight bytes and \<^verbatim>\<open>max_align_t\<close> sixteen: the array
  comes after the pointer to the virtual methods. On Windows the type is aligned to eight bytes
  only, and the object is eight bytes longer than its array.
\<close>

definition sizeof_AlignedBuffer :: "nat \<Rightarrow> nat" where
  "sizeof_AlignedBuffer n = (8 + n + 15) div 16 * 16"

definition Encrypted_BEncode :: "bytes \<Rightarrow> writer" where
  "Encrypted_BEncode x = bencode_write_bytestring x"

text \<open>
  The guard compares with the size of the object, not with the size of the array the string is
  copied to; a copy past the array is \<open>OutOfBounds\<close>.
\<close>

definition Encrypted_BDecode :: "nat \<Rightarrow> bytes \<Rightarrow> llarp_buffer_t \<Rightarrow> bytes res" where
  "Encrypted_BDecode bufsz x buf =
     (case bencode_read_string buf of
        (None, buf) \<Rightarrow> ret False x buf
      | (Some strbuf, buf) \<Rightarrow>
          if length strbuf > sizeof_AlignedBuffer bufsz then ret False x buf
          else if length strbuf > bufsz then Some (Inl OutOfBounds)
          else ret True strbuf buf)"

definition Encrypted_assign :: "nat \<Rightarrow> bytes \<Rightarrow> bytes \<Rightarrow> bytes" where
  "Encrypted_assign bufsz buf x = (if length buf \<le> bufsz then buf else x)"


section \<open>Exit policies\<close>

record Policy =
  po_proto :: u64
  po_port :: u64
  po_drop :: u64
  po_version :: u64

definition new_Policy :: Policy where
  "new_Policy = \<lparr>po_proto = 0, po_port = 0, po_drop = 0, po_version = 0\<rparr>"

definition Policy_BEncode :: "Policy \<Rightarrow> writer" where
  "Policy_BEncode p = write_dict
     [BEncodeWriteDictInt (str ''a'') (po_proto p),
      BEncodeWriteDictInt (str ''b'') (po_port p),
      BEncodeWriteDictInt (str ''d'') (po_drop p),
      BEncodeWriteDictInt (str ''v'') (po_version p)]"

definition Policy_DecodeKey :: "bytes \<Rightarrow> Policy \<Rightarrow> llarp_buffer_t \<Rightarrow> Policy res" where
  "Policy_DecodeKey k = read_keys
     [BEncodeMaybeReadDictInt (str ''a'') (\<lambda>v s. s\<lparr>po_proto := v\<rparr>) k,
      BEncodeMaybeReadDictInt (str ''b'') (\<lambda>v s. s\<lparr>po_port := v\<rparr>) k,
      BEncodeMaybeReadDictInt (str ''d'') (\<lambda>v s. s\<lparr>po_drop := v\<rparr>) k,
      BEncodeMaybeReadDictInt (str ''v'') (\<lambda>v s. s\<lparr>po_version := v\<rparr>) k]"

definition Policy_BDecode :: "Policy \<Rightarrow> llarp_buffer_t \<Rightarrow> Policy res" where
  "Policy_BDecode = bencode_decode_dict Policy_DecodeKey"


section \<open>Introductions\<close>

text \<open>Times are counts of milliseconds in a signed word of 64 bits.\<close>

record Introduction =
  in_router :: bytes
  in_pathID :: bytes
  in_latency :: u64
  in_expiresAt :: u64
  in_version :: u64

definition new_Introduction :: Introduction where
  "new_Introduction = \<lparr>in_router = AlignedBuffer_Zero 32, in_pathID = AlignedBuffer_Zero 16, in_latency = 0,
     in_expiresAt = 0, in_version = 0\<rparr>"

definition Introduction_DecodeKey :: "bytes \<Rightarrow> Introduction \<Rightarrow> llarp_buffer_t \<Rightarrow> Introduction res" where
  "Introduction_DecodeKey key = read_keys
     [BEncodeMaybeReadDictEntry (str ''k'') (in_field in_router (\<lambda>v s. s\<lparr>in_router := v\<rparr>) (AlignedBuffer_BDecode 32)) key,
      BEncodeMaybeReadDictInt (str ''l'') (\<lambda>v s. s\<lparr>in_latency := v\<rparr>) key,
      BEncodeMaybeReadDictEntry (str ''p'') (in_field in_pathID (\<lambda>v s. s\<lparr>in_pathID := v\<rparr>) (AlignedBuffer_BDecode 16)) key,
      BEncodeMaybeReadDictInt (str ''v'') (\<lambda>v s. s\<lparr>in_version := v\<rparr>) key,
      BEncodeMaybeReadDictInt (str ''x'') (\<lambda>v s. s\<lparr>in_expiresAt := v\<rparr>) key]"

definition Introduction_BEncode :: "Introduction \<Rightarrow> writer" where
  "Introduction_BEncode i = write_dict
     [BEncodeWriteDictEntry (str ''k'') (AlignedBuffer_BEncode (in_router i)),
      write_if (sint (in_latency i) > 0) (BEncodeWriteDictInt (str ''l'') (in_latency i)),
      BEncodeWriteDictEntry (str ''p'') (AlignedBuffer_BEncode (in_pathID i)),
      BEncodeWriteDictInt (str ''v'') (in_version i),
      BEncodeWriteDictInt (str ''x'') (in_expiresAt i)]"

definition Introduction_BDecode :: "Introduction \<Rightarrow> llarp_buffer_t \<Rightarrow> Introduction res" where
  "Introduction_BDecode = bencode_decode_dict Introduction_DecodeKey"

definition Introduction_Clear :: "Introduction \<Rightarrow> Introduction" where
  "Introduction_Clear i = i\<lparr>in_router := AlignedBuffer_Zero 32, in_pathID := AlignedBuffer_Zero 16, in_latency := 0, in_expiresAt := 0\<rparr>"

definition Introduction_IsExpired :: "Introduction \<Rightarrow> u64 \<Rightarrow> bool" where
  "Introduction_IsExpired i now \<longleftrightarrow> sint now \<ge> sint (in_expiresAt i)"

definition Introduction_ExpiresSoon :: "Introduction \<Rightarrow> u64 \<Rightarrow> u64 \<Rightarrow> bool" where
  "Introduction_ExpiresSoon i now dlt \<longleftrightarrow> Introduction_IsExpired i (now + dlt)"

section \<open>Addresses of routers\<close>

definition with_integer :: "'s \<Rightarrow> llarp_buffer_t \<Rightarrow> (u64 \<Rightarrow> llarp_buffer_t \<Rightarrow> 's res) \<Rightarrow> 's res" where
  "with_integer s buf f =
     (case bencode_read_integer buf of
        Inl x \<Rightarrow> Some (Inl x)
      | Inr (None, buf) \<Rightarrow> ret False s buf
      | Inr (Some i, buf) \<Rightarrow> f i buf)"

definition with_string :: "'s \<Rightarrow> llarp_buffer_t \<Rightarrow> (bytes \<Rightarrow> llarp_buffer_t \<Rightarrow> 's res) \<Rightarrow> 's res" where
  "with_string s buf f =
     (case bencode_read_string buf of
        (None, buf) \<Rightarrow> ret False s buf
      | (Some strbuf, buf) \<Rightarrow> f strbuf buf)"

text \<open>
  The text form of an IPv6 address is made and read by the system: \<open>ntop\<close> and \<open>pton\<close> are
  parameters. A zero byte ends a string that is taken from a character array.
\<close>

record inet =
  ntop :: "bytes \<Rightarrow> bytes option"
  pton :: "bytes \<Rightarrow> bytes option"

record address_info =
  ai_rank :: u16
  ai_dialect_str :: bytes
  ai_pubkey :: bytes
  ai_ip :: bytes
  ai_port :: u16
  ai_version :: u64

definition c_string :: "bytes \<Rightarrow> bytes" where
  "c_string s = takeWhile (\<lambda>b. b \<noteq> 0) s"

definition AddressInfo_DecodeKey :: "inet \<Rightarrow> bytes \<Rightarrow> address_info \<Rightarrow> llarp_buffer_t \<Rightarrow> address_info res" where
  "AddressInfo_DecodeKey net key s buf =
     (if starts_with key (str ''c'') then
        with_integer s buf (\<lambda>i buf.
          if i > 65536 \<or> i \<le> 0 then ret False s buf else ret True (s\<lparr>ai_rank := ucast i\<rparr>) buf)
      else if starts_with key (str ''d'') then
        with_string s buf (\<lambda>strbuf buf.
          if length strbuf > 128 then ret False s buf
          else if length strbuf = 128 then Some (Inl OutOfBounds)
          else ret True (s\<lparr>ai_dialect_str := c_string strbuf\<rparr>) buf)
      else if starts_with key (str ''e'') then
        in_field ai_pubkey (\<lambda>v s. s\<lparr>ai_pubkey := v\<rparr>) (AlignedBuffer_BDecode 32) s buf
      else if starts_with key (str ''i'') then
        with_string s buf (\<lambda>strbuf buf.
          if length strbuf \<ge> 128 then ret False s buf
          else (case pton net (c_string strbuf) of
                  None \<Rightarrow> ret False s buf
                | Some ip \<Rightarrow> ret True (s\<lparr>ai_ip := ip\<rparr>) buf))
      else if starts_with key (str ''p'') then
        with_integer s buf (\<lambda>i buf.
          if i > 65536 \<or> i \<le> 0 then ret False s buf else ret True (s\<lparr>ai_port := ucast i\<rparr>) buf)
      else if starts_with key (str ''v'') then
        with_integer s buf (\<lambda>i buf. ret (i = 0) s buf)
      else ret False s buf)"

definition AddressInfo_BDecode :: "inet \<Rightarrow> address_info \<Rightarrow> llarp_buffer_t \<Rightarrow> address_info res" where
  "AddressInfo_BDecode net = bencode_decode_dict (AddressInfo_DecodeKey net)"

definition AddressInfo_BEncode :: "inet \<Rightarrow> address_info \<Rightarrow> writer" where
  "AddressInfo_BEncode net a = write_dict
     [bencode_write_bytestring (str ''c''), bencode_write_uint64 (ucast (ai_rank a)),
      bencode_write_bytestring (str ''d''), bencode_write_bytestring (ai_dialect_str a),
      bencode_write_bytestring (str ''e''), bencode_write_bytestring (ai_pubkey a),
      (\<lambda>buf. case ntop net (ai_ip a) of
         None \<Rightarrow> (False, buf)
       | Some ipstr \<Rightarrow> write_all
           [bencode_write_bytestring (str ''i''), bencode_write_bytestring (take 128 ipstr)] buf),
      bencode_write_bytestring (str ''p''), bencode_write_uint64 (ucast (ai_port a)),
      bencode_write_uint64_entry (str ''v'') 0]"

definition AddressInfo_eq :: "address_info \<Rightarrow> address_info \<Rightarrow> bool" where
  "AddressInfo_eq lhs rhs \<longleftrightarrow> ai_pubkey lhs = ai_pubkey rhs \<and> ai_port lhs = ai_port rhs \<and>
     ai_dialect_str lhs = ai_dialect_str rhs \<and> ai_ip lhs = ai_ip rhs"


section \<open>What a writer produces\<close>

text \<open>
  With room for one byte more than it needs a writer succeeds and puts these bytes at the
  position; what was behind them may change.
\<close>

definition writes :: "writer \<Rightarrow> bytes \<Rightarrow> bool" where
  "writes w bs \<longleftrightarrow> (\<forall>pre post. length bs < length post \<longrightarrow>
     (\<exists>post'. w (buf_at pre post) = (True, buf_at (pre @ bs) post') \<and> length post' = length post - length bs))"

named_theorems writes_rules \<open>what writers produce\<close>

lemma writesI:
  assumes "\<And>pre post. length bs < length post \<Longrightarrow> \<exists>post'. w (buf_at pre post) = (True, buf_at (pre @ bs) post') \<and> length post' = length post - length bs"
  shows "writes w bs"
  using assms by (simp add: writes_def)

lemma writes_then [writes_rules]:
  assumes "writes w bs" and "writes w' bs'"
  shows "writes (write_then w w') (bs @ bs')"
proof (rule writesI)
  fix pre post :: bytes
  assume len: "length (bs @ bs') < length post"
  then have "length bs < length post" by simp
  then obtain p where p: "w (buf_at pre post) = (True, buf_at (pre @ bs) p)" "length p = length post - length bs"
    using assms(1) unfolding writes_def by blast
  then have "length bs' < length p" using len by simp
  then obtain q where "w' (buf_at (pre @ bs) p) = (True, buf_at ((pre @ bs) @ bs') q)" "length q = length p - length bs'"
    using assms(2) unfolding writes_def by blast
  then show "\<exists>post'. write_then w w' (buf_at pre post) = (True, buf_at (pre @ bs @ bs') post') \<and>
      length post' = length post - length (bs @ bs')"
    using p by (auto simp: write_then_def)
qed

lemma writes_buf_write [writes_rules]: "writes (buf_write bs) bs"
  by (rule writesI) (auto simp: buf_write_def write_at intro!: exI [of _ "drop (length bs) _"])

lemma writes_writef [writes_rules]:
  assumes "bs \<noteq> []"
  shows "writes (writef bs) bs"
proof (rule writesI)
  fix pre post :: bytes
  assume less: "length bs < length post"
  have "(poke (length pre) (bs @ [0]) (pre @ post)) = (pre @ bs) @ 0 # drop (length bs + 1) post"
    using less by (simp add: poke_def)
  then have "writef bs (buf_at pre post) = (True, buf_at (pre @ bs) (0 # drop (length bs + 1) post))"
    using less assms by (auto simp: writef_def Let_def buf_at_def size_left_def)
  then show "\<exists>post'. writef bs (buf_at pre post) = (True, buf_at (pre @ bs) post') \<and> length post' = length post - length bs"
    using less by auto
qed

lemma writes_bytestring [writes_rules]: "writes (bencode_write_bytestring s) (enc_string s)"
  using writes_then [OF writes_writef writes_buf_write, of "decimal (length s) @ [0x3A]" s]
  by (simp add: bencode_write_bytestring_def enc_string_def)

lemma writes_uint64 [writes_rules]: "writes (bencode_write_uint64 i) (enc_integer i)"
  using writes_then [OF writes_writef writes_buf_write, of "0x69 # decimal (unat i)" "[0x65]"]
  by (simp add: bencode_write_uint64_def enc_integer_def)

lemma writes_marks [writes_rules]: "writes bencode_start_list [0x6C]" "writes bencode_start_dict [0x64]" "writes bencode_end [0x65]"
  by (simp_all add: bencode_start_list_def bencode_start_dict_def bencode_end_def writes_buf_write)

lemma writes_entries [writes_rules]:
  "writes (bencode_write_uint64_entry k i) (enc_string k @ encode (BInt i))"
  "writes (BEncodeWriteDictMsgType k t) (enc_string k @ encode (BStr t))"
  "writes (BEncodeWriteDictString k t) (enc_string k @ encode (BStr t))"
  "writes (BEncodeWriteDictInt k i) (enc_string k @ encode (BInt i))"
  "writes w bs \<Longrightarrow> writes (BEncodeWriteDictEntry k w) (enc_string k @ bs)"
  by (simp_all add: bencode_write_uint64_entry_def BEncodeWriteDictMsgType_def BEncodeWriteDictString_def
      BEncodeWriteDictInt_def BEncodeWriteDictEntry_def writes_then writes_bytestring writes_uint64)

lemma writesD: "writes w bs \<Longrightarrow> length bs < length post \<Longrightarrow> \<exists>post'. w (buf_at pre post) = (True, buf_at (pre @ bs) post')"
  by (auto simp: writes_def)

lemma writes_skip: "writes (\<lambda>buf. (True, buf)) []"
  by (auto simp: writes_def)

lemma writes_all:
  "list_all2 writes ws bss \<Longrightarrow> writes (write_all ws) (concat bss)"
proof (induction ws bss rule: list_all2_induct)
  case Nil
  then show ?case using writes_skip by (simp add: writes_def)
next
  case (Cons w ws bs bss)
  then show ?case using writes_then [of w bs "write_all ws" "concat bss"] by (simp add: writes_def)
qed

lemma writes_if [writes_rules]: "writes w bs \<Longrightarrow> writes (write_if c w) (if c then bs else [])"
  using writes_skip by (auto simp: write_if_def writes_def)

lemma writes_items: "list_all2 writes ws bss \<Longrightarrow> writes (write_items ws) (concat bss @ [0x65])"
proof (induction ws bss rule: list_all2_induct)
  case Nil
  then show ?case using writes_marks(3) by (simp add: writes_def)
next
  case (Cons w ws bs bss)
  then show ?case using writes_then [of w bs "write_items ws" "concat bss @ [0x65]"] by (simp add: writes_def)
qed

lemma writes_list:
  "list_all2 writes ws (map encode vs) \<Longrightarrow> writes (BEncodeWriteList ws) (encode (BList vs))"
  using writes_then [OF writes_marks(1) writes_items, of ws "map encode vs"] by (simp add: BEncodeWriteList_def)

lemma writes_dict_list:
  "list_all2 writes ws (map encode vs) \<Longrightarrow> writes (BEncodeWriteDictList k ws) (enc_string k @ encode (BList vs))"
  using writes_then [OF writes_bytestring writes_list] by (simp add: BEncodeWriteDictList_def)

section \<open>What a reader does in front of a value\<close>

definition reads :: "('s \<Rightarrow> llarp_buffer_t \<Rightarrow> 's res) \<Rightarrow> bytes \<Rightarrow> 's \<Rightarrow> 's \<Rightarrow> bool" where
  "reads get bs s s' \<longleftrightarrow> (\<forall>pre post. get s (buf_at pre (bs @ post)) = ret True s' (buf_at (pre @ bs) post))"

named_theorems reads_rules \<open>what readers do in front of a value\<close>

lemma readsI: "(\<And>pre post. get s (buf_at pre (bs @ post)) = ret True s' (buf_at (pre @ bs) post)) \<Longrightarrow> reads get bs s s'"
  by (simp add: reads_def)

lemma readsD: "reads get bs s s' \<Longrightarrow> get s (buf_at pre (bs @ post)) = ret True s' (buf_at (pre @ bs) post)"
  by (simp add: reads_def)

lemma starts_with_char [simp]: "starts_with (str [c]) (str [d]) \<longleftrightarrow> c = d"
proof -
  have "(of_nat (of_char c) :: byte) = of_nat (of_char d) \<longleftrightarrow> (of_char c :: nat) = of_char d"
    by (rule word_of_nat_eq_iff [THEN trans]) (simp add: take_bit_eq_mod)
  then show ?thesis by (auto simp: starts_with_def str_def)
qed

lemma maybe_int:
  "starts_with key k \<Longrightarrow> BEncodeMaybeReadDictInt k upd key rs (buf_at pre (enc_integer i @ post)) =
     ret True (True, upd i (snd rs)) (buf_at (pre @ enc_integer i) post)"
  "\<not> starts_with key k \<Longrightarrow> BEncodeMaybeReadDictInt k upd key rs buf = ret True rs buf"
  by (simp_all add: BEncodeMaybeReadDictInt_def read_integer_at)

lemma maybe_version:
  "starts_with key k \<Longrightarrow> BEncodeMaybeVerifyVersion k upd expect key rs (buf_at pre (enc_integer i @ post)) =
     ret True (i = expect, upd i (snd rs)) (buf_at (pre @ enc_integer i) post)"
  "\<not> starts_with key k \<Longrightarrow> BEncodeMaybeVerifyVersion k upd expect key rs buf = ret True rs buf"
  by (simp_all add: BEncodeMaybeVerifyVersion_def read_integer_at)

lemma maybe_entry:
  "starts_with key k \<Longrightarrow> reads BDecode bs (snd rs) s' \<Longrightarrow> BEncodeMaybeReadDictEntry k BDecode key rs (buf_at pre (bs @ post)) =
     ret True (True, s') (buf_at (pre @ bs) post)"
  "\<not> starts_with key k \<Longrightarrow> BEncodeMaybeReadDictEntry k BDecode key rs buf = ret True rs buf"
  by (simp_all add: BEncodeMaybeReadDictEntry_def readsD)

text \<open>A chain in which one reader takes the key and the others leave it alone.\<close>

definition takes :: "((bool \<times> 's) \<Rightarrow> llarp_buffer_t \<Rightarrow> (bool \<times> 's) res) \<Rightarrow> bytes \<Rightarrow> 's \<Rightarrow> 's \<Rightarrow> bool" where
  "takes m bs s s' \<longleftrightarrow> (\<forall>r pre post. m (r, s) (buf_at pre (bs @ post)) = ret True (True, s') (buf_at (pre @ bs) post))"

definition leaves :: "((bool \<times> 's) \<Rightarrow> llarp_buffer_t \<Rightarrow> (bool \<times> 's) res) \<Rightarrow> bool" where
  "leaves m \<longleftrightarrow> (\<forall>rs buf. m rs buf = ret True rs buf)"

lemma leavesD: "leaves m \<Longrightarrow> m rs buf = ret True rs buf"
  by (simp add: leaves_def del: split_paired_All)

lemma leaves_chain: "list_all leaves ms \<Longrightarrow> read_chain ms rs buf = ret True rs buf"
  by (induction ms arbitrary: rs buf) (simp_all add: leavesD and_then_def)

lemma reads_keys:
  assumes "takes m bs s s'" and "list_all leaves ms" and "list_all leaves ns"
  shows "reads (read_keys (ms @ m # ns)) bs s s'"
proof (rule readsI)
  fix pre post
  have "read_chain (ms @ ns') rs buf = read_chain ns' rs buf" if "list_all leaves ms" for ns' rs buf
    using that by (induction ms) (simp_all add: leavesD and_then_def)
  then have "read_chain (ms @ m # ns) (False, s) (buf_at pre (bs @ post)) = ret True (True, s') (buf_at (pre @ bs) post)"
    using assms by (simp add: takes_def leaves_chain and_then_def)
  then show "read_keys (ms @ m # ns) s (buf_at pre (bs @ post)) = ret True s' (buf_at (pre @ bs) post)"
    by (simp add: read_keys_def)
qed

lemma takes_int [reads_rules]:
  "starts_with key k \<Longrightarrow> takes (BEncodeMaybeReadDictInt k upd key) (encode (BInt i)) s (upd i s)"
  by (simp add: takes_def maybe_int)

lemma takes_version [reads_rules]:
  "starts_with key k \<Longrightarrow> takes (BEncodeMaybeVerifyVersion k upd i key) (encode (BInt i)) s (upd i s)"
  by (simp add: takes_def maybe_version)

lemma takes_entry [reads_rules]:
  "starts_with key k \<Longrightarrow> reads BDecode bs s s' \<Longrightarrow> takes (BEncodeMaybeReadDictEntry k BDecode key) bs s s'"
  "starts_with key k \<Longrightarrow> reads BDecode bs s s' \<Longrightarrow> takes (BEncodeMaybeReadDictList k BDecode key) bs s s'"
  by (simp_all add: takes_def maybe_entry BEncodeMaybeReadDictList_def)

lemma leaves_maybe [simp]:
  "\<not> starts_with key k \<Longrightarrow> leaves (BEncodeMaybeReadDictInt k upd key)"
  "\<not> starts_with key k \<Longrightarrow> leaves (BEncodeMaybeVerifyVersion k upd expect key)"
  "\<not> starts_with key k \<Longrightarrow> leaves (BEncodeMaybeReadDictEntry k BDecode key)"
  "\<not> starts_with key k \<Longrightarrow> leaves (BEncodeMaybeReadDictList k BDecode key)"
  by (simp_all add: leaves_def maybe_int maybe_version maybe_entry BEncodeMaybeReadDictList_def)

lemma reads_in_field [reads_rules]: "reads BDecode bs (get s) x \<Longrightarrow> reads (in_field get put BDecode) bs s (put x s)"
  by (simp add: reads_def in_field_def)

lemma reads_aligned [reads_rules]:
  "length x = sz \<Longrightarrow> sz < 10 ^ 9 \<Longrightarrow> reads (AlignedBuffer_BDecode sz) (encode (BStr x)) y x"
  by (rule readsI) (simp add: AlignedBuffer_BDecode_def AlignedBuffer_FromBytestring_def read_string_at)

lemma reads_encrypted [reads_rules]:
  "length x \<le> sz \<Longrightarrow> sz < 10 ^ 9 \<Longrightarrow> reads (Encrypted_BDecode sz) (encode (BStr x)) y x"
  by (rule readsI) (auto simp: Encrypted_BDecode_def read_string_at sizeof_AlignedBuffer_def)

lemma aligned_at:
  "length x = sz \<Longrightarrow> sz < 10 ^ 9 \<Longrightarrow> AlignedBuffer_BDecode sz y (buf_at pre (enc_string x @ post)) = ret True x (buf_at (pre @ enc_string x) post)"
  using readsD [OF reads_aligned, of x sz y] by simp

lemma encrypted_at:
  "length x \<le> sz \<Longrightarrow> sz < 10 ^ 9 \<Longrightarrow> Encrypted_BDecode sz y (buf_at pre (enc_string x @ post)) = ret True x (buf_at (pre @ enc_string x) post)"
  using readsD [OF reads_encrypted, of x sz y] by simp

lemma maybe_entry_at:
  "starts_with key k \<Longrightarrow> BEncodeMaybeReadDictEntry k (in_field get put BDecode) key rs buf =
     (case BDecode (get (snd rs)) buf of
        None \<Rightarrow> None
      | Some (Inl x) \<Rightarrow> Some (Inl x)
      | Some (Inr (ok, x, buf)) \<Rightarrow> ret ok (if ok then (True, put x (snd rs)) else (fst rs, put x (snd rs))) buf)"
  by (simp add: BEncodeMaybeReadDictEntry_def in_field_def split: option.splits sum.splits prod.splits)

lemmas reads_key_simps = reads_def read_keys_def and_then_def maybe_int maybe_version maybe_entry(2)
  maybe_entry_at BEncodeMaybeReadDictList_def aligned_at encrypted_at

text \<open>A dictionary whose keys are read one after the other.\<close>

primrec key_steps :: "(bytes \<Rightarrow> 's \<Rightarrow> llarp_buffer_t \<Rightarrow> 's res) \<Rightarrow> 's \<Rightarrow> (bytes \<times> bvalue) list \<Rightarrow> 's \<Rightarrow> bool" where
  "key_steps D s [] s' \<longleftrightarrow> s' = s"
| "key_steps D s (x # xs) s' \<longleftrightarrow>
     (\<exists>t. length (fst x) < 10 ^ 9 \<and> reads (D (fst x)) (encode (snd x)) s t \<and> key_steps D t xs s')"

lemma key_steps_Cons:
  "reads (D (str [c])) (encode v) s t \<Longrightarrow> key_steps D t xs s' \<Longrightarrow> key_steps D s ((str [c], v) # xs) s'"
  by (auto simp: str_def)

lemma key_steps_Nil: "s' = s \<Longrightarrow> key_steps D s [] s'"
  by simp

lemma key_steps_append: "key_steps D s xs t \<Longrightarrow> key_steps D t ys s' \<Longrightarrow> key_steps D s (xs @ ys) s'"
  by (induction xs arbitrary: s) auto

lemma key_steps_if:
  "(c \<Longrightarrow> reads (D (str [k])) (encode v) s t) \<Longrightarrow> (\<not> c \<Longrightarrow> t = s) \<Longrightarrow> key_steps D s (if c then [(str [k], v)] else []) t"
  by (auto simp: str_def)

lemma read_dict_steps:
  assumes "key_steps D s xs s'" and "\<And>s buf k. sink s buf (Some k) = D k s buf"
  shows "read_dict_loop sink s (buf_at pre (concat (map (\<lambda>x. enc_string (fst x) @ encode (snd x)) xs) @ 0x65 # post)) =
    ret True s' (buf_at (pre @ concat (map (\<lambda>x. enc_string (fst x) @ encode (snd x)) xs)) (0x65 # post))"
  using assms(1)
proof (induction xs arbitrary: s pre)
  case Nil
  then show ?case by (subst read_dict_loop.simps) (simp add: end_at)
next
  case (Cons x xs)
  obtain t where t: "length (fst x) < 10 ^ 9" "reads (D (fst x)) (encode (snd x)) s t" "key_steps D t xs s'"
    using Cons.prems by auto
  let ?rest = "concat (map (\<lambda>x. enc_string (fst x) @ encode (snd x)) xs) @ 0x65 # post"
  have "read_dict_loop sink s (buf_at pre (enc_string (fst x) @ encode (snd x) @ ?rest)) =
      read_dict_loop sink t (buf_at (pre @ enc_string (fst x) @ encode (snd x)) ?rest)"
    using item_at [of "enc_string (fst x)" pre "encode (snd x) @ ?rest"] t
    by (subst read_dict_loop.simps) (simp add: read_string_at assms(2) readsD [OF t(2)])
  then show ?case using Cons.IH [OF t(3), of "pre @ enc_string (fst x) @ encode (snd x)"] by simp
qed

lemma read_dict_steps':
  assumes "key_steps D s xs s'" and "\<And>s buf k. sink s buf (Some k) = D k s buf"
  shows "bencode_read_dict sink s (buf_at pre (encode (BDict xs) @ post)) =
    sink s' (buf_at (pre @ encode (BDict xs)) post) None"
  using read_dict_steps [where sink = sink and D = D, OF assms, of "pre @ [0x64]" post]
  by (simp add: bencode_read_dict_def nth_append at_next and_then_def read_end_def)

lemma reads_dict:
  "key_steps D s xs s' \<Longrightarrow> reads (bencode_decode_dict D) (encode (BDict xs)) s s'"
  unfolding bencode_decode_dict_def
  by (rule readsI, subst read_dict_steps' [where D = D]) (simp_all del: encode.simps)

section \<open>Types with a writer and a reader\<close>

lemma writes_reads:
  assumes "writes w bs" and "reads get bs s s'" and "length bs < n"
  shows "\<exists>buf. w (buf_at [] (replicate n b)) = (True, buf) \<and> get s (buf\<lparr>cur := 0\<rparr>) = ret True s' buf"
proof -
  obtain post where w: "w (buf_at [] (replicate n b)) = (True, buf_at bs post)"
    using writesD [OF assms(1), of "replicate n b" "[]"] assms(3) by auto
  have eq: "(buf_at bs post)\<lparr>cur := 0\<rparr> = buf_at [] (bs @ post)" by (simp add: buf_at_def)
  have "get s ((buf_at bs post)\<lparr>cur := 0\<rparr>) = ret True s' (buf_at bs post)"
    unfolding eq using readsD [OF assms(2), of "[]" post] by simp
  with w show ?thesis by blast
qed

locale bcodec =
  fixes BEncode :: "'a \<Rightarrow> writer" and BDecode :: "'a \<Rightarrow> llarp_buffer_t \<Rightarrow> 'a res" and fresh :: 'a
    and wire :: "'a \<Rightarrow> bvalue" and valid :: "'a \<Rightarrow> bool"
  assumes writes_wire: "valid x \<Longrightarrow> writes (BEncode x) (encode (wire x))"
    and reads_wire: "valid x \<Longrightarrow> reads BDecode (encode (wire x)) fresh x"
    and short_wire: "valid x \<Longrightarrow> short_strings (wire x)"
begin

lemma roundtrip:
  "valid x \<Longrightarrow> length (encode (wire x)) < n \<Longrightarrow>
     \<exists>buf. BEncode x (buf_at [] (replicate n b)) = (True, buf) \<and> BDecode fresh (buf\<lparr>cur := 0\<rparr>) = ret True x buf"
  by (rule writes_reads [OF writes_wire reads_wire])

lemma list_writes:
  "list_all valid xs \<Longrightarrow> writes (BEncodeWriteDictList k (map BEncode xs)) (enc_string k @ encode (BList (map wire xs)))"
  by (rule writes_dict_list) (auto simp: list_all_iff list_all2_conv_all_nth writes_wire)

lemma list_reads:
  assumes "list_all valid xs"
  shows "reads (BEncodeReadList fresh BDecode) (encode (BList (map wire xs))) ys (ys @ xs)"
proof (rule readsI)
  fix pre post
  let ?sink = "\<lambda>result buffer has. if has then (case BDecode fresh buffer of None \<Rightarrow> None | Some (Inl x) \<Rightarrow> Some (Inl x)
      | Some (Inr (ok, item, buffer)) \<Rightarrow> ret ok (result @ [item]) buffer) else ret True result buffer"
  have "\<forall>x\<in>set xs. item_bytes (encode (wire x)) \<and> (\<forall>s pre post.
      ?sink s (buf_at pre (encode (wire x) @ post)) True = ret True (s @ [x]) (buf_at (pre @ encode (wire x)) post))"
    using assms by (simp add: list_all_iff readsD [OF reads_wire])
  from read_list_at [where enc = "\<lambda>x. encode (wire x)" and sink = ?sink and f = "\<lambda>s x. s @ [x]", OF this, of ys pre post]
  have "bencode_read_list ?sink ys (buf_at pre (encode (BList (map wire xs)) @ post)) =
      ret True (foldl (\<lambda>s x. s @ [x]) ys xs) (buf_at (pre @ encode (BList (map wire xs))) post)"
    by (simp add: comp_def)
  moreover have "foldl (\<lambda>s x. s @ [x]) ys xs = ys @ xs" by (induction xs arbitrary: ys) simp_all
  ultimately show "BEncodeReadList fresh BDecode ys (buf_at pre (encode (BList (map wire xs)) @ post)) =
      ret True (ys @ xs) (buf_at (pre @ encode (BList (map wire xs))) post)"
    by (simp add: BEncodeReadList_def)
qed

lemma list_short: "list_all valid xs \<Longrightarrow> short_strings (BList (map wire xs))"
  by (simp add: list_all_iff short_wire)

end

interpretation aligned: bcodec AlignedBuffer_BEncode "AlignedBuffer_BDecode sz" y BStr "\<lambda>x. length x = sz \<and> sz < 10 ^ 9" for sz y
  by unfold_locales (simp_all add: AlignedBuffer_BEncode_def writes_bytestring reads_aligned del: encode.simps, simp_all add: writes_bytestring)

interpretation encrypted: bcodec Encrypted_BEncode "Encrypted_BDecode sz" y BStr "\<lambda>x. length x \<le> sz \<and> sz < 10 ^ 9" for sz y
  by unfold_locales (simp_all add: Encrypted_BEncode_def writes_bytestring reads_encrypted del: encode.simps, simp_all add: writes_bytestring)

text \<open>The entries of a dictionary, as what its writer produces.\<close>

definition entries :: "(bytes \<times> bvalue) list \<Rightarrow> bytes" where
  "entries xs = concat (map (\<lambda>x. enc_string (fst x) @ encode (snd x)) xs)"

lemma writes_dict:
  assumes "list_all2 writes ws (map entries xss)" and "xs = concat xss"
  shows "writes (write_dict ws) (encode (BDict xs))"
proof -
  have "writes (write_all (bencode_start_dict # ws @ [bencode_end])) (concat ([0x64] # map entries xss @ [[0x65]]))"
    by (rule writes_all) (simp add: assms(1) writes_marks list_all2_appendI)
  moreover have "concat (map entries xss) = entries (concat xss)"
    by (induction xss) (simp_all add: entries_def)
  ultimately show ?thesis by (simp add: assms(2) write_dict_def entries_def)
qed

named_theorems entry_rules \<open>the entries that writers produce\<close>

lemma writes_entry [entry_rules]:
  "writes (BEncodeWriteDictMsgType k t) (entries [(k, BStr t)])"
  "writes (BEncodeWriteDictString k t) (entries [(k, BStr t)])"
  "writes (BEncodeWriteDictInt k i) (entries [(k, BInt i)])"
  "writes (bencode_write_uint64_entry k i) (entries [(k, BInt i)])"
  "writes w (encode v) \<Longrightarrow> writes (BEncodeWriteDictEntry k w) (entries [(k, v)])"
  using writes_entries by (simp_all add: entries_def)

lemma writes_entry_if [entry_rules]:
  "writes w (entries xs) \<Longrightarrow> writes (write_if c w) (entries (if c then xs else []))"
  using writes_if [of w "entries xs" c] by (cases c) (simp_all add: entries_def)

lemma writes_aligned [entry_rules]: "writes (AlignedBuffer_BEncode x) (encode (BStr x))"
  by (simp add: AlignedBuffer_BEncode_def writes_bytestring)

lemma writes_encrypted [entry_rules]: "writes (Encrypted_BEncode x) (encode (BStr x))"
  by (simp add: Encrypted_BEncode_def writes_bytestring)


subsection \<open>Exit policies\<close>

definition Policy_wire :: "Policy \<Rightarrow> bvalue" where
  "Policy_wire p = BDict (concat
     [[(str ''a'', BInt (po_proto p))], [(str ''b'', BInt (po_port p))], [(str ''d'', BInt (po_drop p))],
      [(str ''v'', BInt (po_version p))]])"

lemma Policy_writes: "writes (Policy_BEncode p) (encode (Policy_wire p))"
  unfolding Policy_BEncode_def Policy_wire_def by (rule writes_dict [OF _ refl]) (simp add: entry_rules)

lemma Policy_keys:
  "reads (Policy_DecodeKey (str ''a'')) (encode (BInt i)) s (s\<lparr>po_proto := i\<rparr>)"
  "reads (Policy_DecodeKey (str ''b'')) (encode (BInt i)) s (s\<lparr>po_port := i\<rparr>)"
  "reads (Policy_DecodeKey (str ''d'')) (encode (BInt i)) s (s\<lparr>po_drop := i\<rparr>)"
  "reads (Policy_DecodeKey (str ''v'')) (encode (BInt i)) s (s\<lparr>po_version := i\<rparr>)"
  by (simp_all add: reads_def Policy_DecodeKey_def read_keys_def maybe_int and_then_def)

lemma Policy_reads: "reads Policy_BDecode (encode (Policy_wire p)) s p"
  unfolding Policy_BDecode_def Policy_wire_def concat.simps append.simps
  by (rule reads_dict, (rule key_steps_Cons Policy_keys key_steps_Nil)+) simp

interpretation policy: bcodec Policy_BEncode Policy_BDecode new_Policy Policy_wire "\<lambda>_. True"
  by unfold_locales (simp_all add: Policy_writes Policy_reads, simp add: Policy_wire_def str_def)

subsection \<open>Introductions\<close>

definition Introduction_valid :: "Introduction \<Rightarrow> bool" where
  "Introduction_valid i \<longleftrightarrow> length (in_router i) = 32 \<and> length (in_pathID i) = 16 \<and>
     (in_latency i = 0 \<or> sint (in_latency i) > 0)"

definition Introduction_wire :: "Introduction \<Rightarrow> bvalue" where
  "Introduction_wire i = BDict (concat
     [[(str ''k'', BStr (in_router i))],
      if sint (in_latency i) > 0 then [(str ''l'', BInt (in_latency i))] else [],
      [(str ''p'', BStr (in_pathID i))], [(str ''v'', BInt (in_version i))], [(str ''x'', BInt (in_expiresAt i))]])"

lemma Introduction_writes: "writes (Introduction_BEncode i) (encode (Introduction_wire i))"
  unfolding Introduction_BEncode_def Introduction_wire_def
  by (rule writes_dict [OF _ refl], unfold list.map, (rule list.rel_intros entry_rules)+)

lemma Introduction_keys:
  "length x = 32 \<Longrightarrow> reads (Introduction_DecodeKey (str ''k'')) (encode (BStr x)) s (s\<lparr>in_router := x\<rparr>)"
  "reads (Introduction_DecodeKey (str ''l'')) (encode (BInt i)) s (s\<lparr>in_latency := i\<rparr>)"
  "length x = 16 \<Longrightarrow> reads (Introduction_DecodeKey (str ''p'')) (encode (BStr x)) s (s\<lparr>in_pathID := x\<rparr>)"
  "reads (Introduction_DecodeKey (str ''v'')) (encode (BInt i)) s (s\<lparr>in_version := i\<rparr>)"
  "reads (Introduction_DecodeKey (str ''x'')) (encode (BInt i)) s (s\<lparr>in_expiresAt := i\<rparr>)"
  by (simp_all add: Introduction_DecodeKey_def reads_key_simps)

lemma Introduction_reads:
  assumes "Introduction_valid i" and "in_latency s = 0"
  shows "reads Introduction_BDecode (encode (Introduction_wire i)) s i"
proof -
  have len: "length (in_router i) = 32" "length (in_pathID i) = 16" using assms(1) by (simp_all add: Introduction_valid_def)
  show ?thesis
  proof (cases "sint (in_latency i) > 0")
    case True
    show ?thesis
      unfolding Introduction_BDecode_def Introduction_wire_def concat.simps append.simps if_P [OF True]
      by (rule reads_dict, (rule key_steps_Cons Introduction_keys len key_steps_Nil)+) simp
  next
    case False
    then have "in_latency i = 0" using assms(1) by (simp add: Introduction_valid_def)
    then show ?thesis
      unfolding Introduction_BDecode_def Introduction_wire_def concat.simps append.simps if_not_P [OF False]
      by - (rule reads_dict, (rule key_steps_Cons Introduction_keys len key_steps_Nil)+, simp add: assms(2))
  qed
qed

interpretation introduction: bcodec Introduction_BEncode Introduction_BDecode new_Introduction Introduction_wire Introduction_valid
proof unfold_locales
  show "reads Introduction_BDecode (encode (Introduction_wire i)) new_Introduction i" if "Introduction_valid i" for i
    using that by (rule Introduction_reads) (simp add: new_Introduction_def)
  show "short_strings (Introduction_wire i)" if "Introduction_valid i" for i
    using that by (auto simp: Introduction_wire_def Introduction_valid_def str_def)
qed (rule Introduction_writes)


subsection \<open>Addresses of routers\<close>

text \<open>
  What the system calls must do on the address: give a text without a zero byte that fits the
  buffer of 128 characters, and read it back.
\<close>

definition inet_ok :: "inet \<Rightarrow> bytes \<Rightarrow> bool" where
  "inet_ok net ip \<longleftrightarrow> (\<exists>t. ntop net ip = Some t \<and> length t < 128 \<and> 0 \<notin> set t \<and> pton net t = Some ip)"

definition AddressInfo_valid :: "address_info \<Rightarrow> bool" where
  "AddressInfo_valid a \<longleftrightarrow> ai_rank a \<noteq> 0 \<and> ai_port a \<noteq> 0 \<and> length (ai_pubkey a) = 32 \<and>
     length (ai_dialect_str a) < 128 \<and> 0 \<notin> set (ai_dialect_str a)"

definition AddressInfo_wire :: "inet \<Rightarrow> address_info \<Rightarrow> bvalue" where
  "AddressInfo_wire net a = BDict
     [(str ''c'', BInt (ucast (ai_rank a))), (str ''d'', BStr (ai_dialect_str a)), (str ''e'', BStr (ai_pubkey a)),
      (str ''i'', BStr (the (ntop net (ai_ip a)))), (str ''p'', BInt (ucast (ai_port a))), (str ''v'', BInt 0)]"

lemma c_string_id: "0 \<notin> set s \<Longrightarrow> c_string s = s"
  unfolding c_string_def by (induction s) auto

lemma ucast_u16:
  fixes w :: u16
  assumes "w \<noteq> 0"
  shows "\<not> (ucast w :: u64) > 65536" "(ucast w :: u64) \<noteq> 0" "(ucast (ucast w :: u64) :: u16) = w"
proof -
  have "unat w < 65536" using unsigned_less [of w, where 'a = nat] by simp
  moreover have "unat (ucast w :: u64) = unat w" using calculation by (simp add: unsigned_ucast_eq take_bit_nat_eq_self)
  moreover have "unat w \<noteq> 0" using assms by (simp add: unat_eq_0)
  ultimately show "\<not> (ucast w :: u64) > 65536" "(ucast w :: u64) \<noteq> 0"
    by (auto simp: word_less_nat_alt)
  show "(ucast (ucast w :: u64) :: u16) = w"
    by (rule bit_word_eqI) (simp add: bit_simps)
qed

lemma AddressInfo_writes:
  assumes "inet_ok net (ai_ip a)"
  shows "writes (AddressInfo_BEncode net a) (encode (AddressInfo_wire net a))"
proof -
  obtain t where t: "ntop net (ai_ip a) = Some t" "length t < 128" using assms by (auto simp: inet_ok_def)
  have ip: "writes (\<lambda>buf. case ntop net (ai_ip a) of None \<Rightarrow> (False, buf)
       | Some ipstr \<Rightarrow> write_all [bencode_write_bytestring (str ''i''), bencode_write_bytestring (take 128 ipstr)] buf)
      (concat [enc_string (str ''i''), enc_string t])"
    using writes_all [of "[bencode_write_bytestring (str ''i''), bencode_write_bytestring t]" "[enc_string (str ''i''), enc_string t]"] t(2)
    by (simp add: t(1) writes_bytestring del: write_all.simps)
  have "writes (AddressInfo_BEncode net a) (concat
     [[0x64], enc_string (str ''c''), enc_integer (ucast (ai_rank a)), enc_string (str ''d''), enc_string (ai_dialect_str a),
      enc_string (str ''e''), enc_string (ai_pubkey a), concat [enc_string (str ''i''), enc_string t],
      enc_string (str ''p''), enc_integer (ucast (ai_port a)), enc_string (str ''v'') @ encode (BInt 0), [0x65]])"
    unfolding AddressInfo_BEncode_def write_dict_def append.simps
    by (rule writes_all, (rule list.rel_intros ip writes_marks writes_bytestring writes_uint64 writes_entries)+)
  then show ?thesis by (simp add: AddressInfo_wire_def t(1))
qed

lemma AddressInfo_keys:
  "i \<noteq> 0 \<Longrightarrow> reads (AddressInfo_DecodeKey net (str ''c'')) (encode (BInt (ucast i))) s (s\<lparr>ai_rank := i\<rparr>)"
  "length d < 128 \<Longrightarrow> 0 \<notin> set d \<Longrightarrow> reads (AddressInfo_DecodeKey net (str ''d'')) (encode (BStr d)) s (s\<lparr>ai_dialect_str := d\<rparr>)"
  "length x = 32 \<Longrightarrow> reads (AddressInfo_DecodeKey net (str ''e'')) (encode (BStr x)) s (s\<lparr>ai_pubkey := x\<rparr>)"
  "inet_ok net ip \<Longrightarrow> reads (AddressInfo_DecodeKey net (str ''i'')) (encode (BStr (the (ntop net ip)))) s (s\<lparr>ai_ip := ip\<rparr>)"
  "i \<noteq> 0 \<Longrightarrow> reads (AddressInfo_DecodeKey net (str ''p'')) (encode (BInt (ucast i))) s (s\<lparr>ai_port := i\<rparr>)"
  "reads (AddressInfo_DecodeKey net (str ''v'')) (encode (BInt 0)) s s"
  by (auto simp: AddressInfo_DecodeKey_def reads_def with_integer_def with_string_def read_integer_at read_string_at
      ucast_u16 c_string_id in_field_def aligned_at inet_ok_def)

lemma AddressInfo_reads:
  assumes "AddressInfo_valid a" and "inet_ok net (ai_ip a)"
  shows "reads (AddressInfo_BDecode net) (encode (AddressInfo_wire net a)) s (a\<lparr>ai_version := ai_version s\<rparr>)"
proof -
  have v: "ai_rank a \<noteq> 0" "ai_port a \<noteq> 0" "length (ai_pubkey a) = 32" "length (ai_dialect_str a) < 128" "0 \<notin> set (ai_dialect_str a)"
    using assms(1) by (simp_all add: AddressInfo_valid_def)
  show ?thesis
    unfolding AddressInfo_BDecode_def AddressInfo_wire_def
    by (rule reads_dict, (rule key_steps_Cons AddressInfo_keys v assms(2) key_steps_Nil)+) simp
qed

text \<open>A dialect of exactly 128 bytes: the terminating zero is written after the array.\<close>

lemma AddressInfo_dialect_overflow:
  "length d = 128 \<Longrightarrow> AddressInfo_DecodeKey net (str ''d'') s (buf_at pre (enc_string d @ post)) = Some (Inl OutOfBounds)"
  by (simp add: AddressInfo_DecodeKey_def with_string_def read_string_at)

text \<open>
  A string that is longer than the array but not longer than the object passes the guard of
  \<^verbatim>\<open>Encrypted::BDecode\<close>: the copy runs past the array.
\<close>

lemma Encrypted_BDecode_overflow:
  assumes "bufsz < length x" and "length x \<le> sizeof_AlignedBuffer bufsz" and "length x < 10 ^ 9"
  shows "Encrypted_BDecode bufsz y (buf_at pre (enc_string x @ post)) = Some (Inl OutOfBounds)"
  using assms by (simp add: Encrypted_BDecode_def read_string_at)

section \<open>Properties\<close>

lemma length_enc_string: "length s < 10 ^ d \<Longrightarrow> 0 < d \<Longrightarrow> length (enc_string s) \<le> d + 1 + length s"
  using length_decimal [of "length s" d] by (simp add: enc_string_def)

lemma length_enc_integer: "length (enc_integer i) \<le> 22"
  using length_decimal [of "unat i" 20] unat_u64_less [of i] by (simp add: enc_integer_def)

lemma length_AddressInfo_wire:
  assumes "AddressInfo_valid a" and "inet_ok net (ai_ip a)"
  shows "length (encode (AddressInfo_wire net a)) < 512"
proof -
  obtain t where t: "ntop net (ai_ip a) = Some t" "length t < 128" using assms(2) by (auto simp: inet_ok_def)
  have key: "length (enc_string (str [c])) = 3" for c by (simp add: enc_string_def str_def decimal.simps)
  have "length (enc_string (ai_dialect_str a)) \<le> 131" "length (enc_string (ai_pubkey a)) \<le> 35" "length (enc_string t) \<le> 131"
    using length_enc_string [of "ai_dialect_str a" 3] length_enc_string [of "ai_pubkey a" 2] length_enc_string [of t 3]
      assms(1) t(2) by (simp_all add: AddressInfo_valid_def)
  then show ?thesis
    using length_enc_integer [of "ucast (ai_rank a)"] length_enc_integer [of "ucast (ai_port a)"] length_enc_integer [of 0]
    by (simp add: AddressInfo_wire_def t(1) key)
qed

text \<open>
  C34. Addresses of routers survive the wire: an address with a rank and a port that are not
  zero, a key of 32 bytes and a dialect of less than 128 characters is written to any buffer
  of 512 bytes, and what was written is read back as that address, whatever the object held
  before; only the version is not taken from the wire.
\<close>

theorem AddressInfo_roundtrip:
  assumes "AddressInfo_valid a" and "inet_ok net (ai_ip a)" and "512 \<le> n"
  shows "\<exists>buf. AddressInfo_BEncode net a (buf_at [] (replicate n b)) = (True, buf) \<and>
    AddressInfo_BDecode net s (buf\<lparr>cur := 0\<rparr>) = ret True (a\<lparr>ai_version := ai_version s\<rparr>) buf"
  using length_AddressInfo_wire [OF assms(1,2)] assms(3)
  by (intro writes_reads [OF AddressInfo_writes [OF assms(2)] AddressInfo_reads [OF assms(1,2)]]) simp

definition example_inet :: inet where
  "example_inet = \<lparr>ntop = (\<lambda>ip. if ip = replicate 16 0 then Some (str ''::'') else None),
     pton = (\<lambda>t. if t = str ''::'' then Some (replicate 16 0) else None)\<rparr>"

definition example_address :: address_info where
  "example_address = \<lparr>ai_rank = 1, ai_dialect_str = str ''iwp'', ai_pubkey = replicate 32 7, ai_ip = replicate 16 0,
     ai_port = 1090, ai_version = 0\<rparr>"

theorem AddressInfo_roundtrip_witness:
  "\<exists>buf. AddressInfo_BEncode example_inet example_address (buf_at [] (replicate 512 0)) = (True, buf) \<and>
     AddressInfo_BDecode example_inet example_address (buf\<lparr>cur := 0\<rparr>) = ret True example_address buf"
proof -
  have "AddressInfo_valid example_address" "inet_ok example_inet (ai_ip example_address)"
    by (simp_all add: AddressInfo_valid_def inet_ok_def example_inet_def example_address_def str_def)
  from AddressInfo_roundtrip [OF this, of 512 0 example_address] show ?thesis by simp
qed

end
