(* ===== verification/Routing_Message.thy ===== *)
theory Routing_Message
  imports Wire_Types
begin

text \<open>
  The messages that travel inside a path, from \<^verbatim>\<open>llarp/routing\<close>, \<^verbatim>\<open>llarp/exit/exit_messages.cpp\<close>,
  \<^verbatim>\<open>llarp/messages/discard.hpp\<close> and the frames of hidden services of \<^verbatim>\<open>llarp/service/protocol.cpp\<close>:
  for each its fields, what resets it, its writer and the reader of one of its keys.
\<close>


section \<open>The messages\<close>

record IMessage =
  im_from :: bytes
  im_S :: u64
  im_version :: u64


subsection \<open>\<^verbatim>\<open>DataDiscardMessage\<close>\<close>

record DataDiscardMessage = IMessage +
  dd_P :: bytes

definition DataDiscardMessage_Clear :: "DataDiscardMessage \<Rightarrow> DataDiscardMessage" where
  "DataDiscardMessage_Clear m = m\<lparr>im_version := 0\<rparr>"

definition DataDiscardMessage_BEncode :: "DataDiscardMessage \<Rightarrow> writer" where
  "DataDiscardMessage_BEncode m = write_dict
     [BEncodeWriteDictMsgType (str ''A'') (str ''D''),
      BEncodeWriteDictEntry (str ''P'') (AlignedBuffer_BEncode (dd_P m)),
      BEncodeWriteDictInt (str ''S'') (im_S m),
      BEncodeWriteDictInt (str ''V'') (im_version m)]"

definition DataDiscardMessage_DecodeKey :: "bytes \<Rightarrow> DataDiscardMessage \<Rightarrow> llarp_buffer_t \<Rightarrow> DataDiscardMessage res" where
  "DataDiscardMessage_DecodeKey key = read_keys
     [BEncodeMaybeReadDictEntry (str ''P'') (in_field dd_P (\<lambda>v s. s\<lparr>dd_P := v\<rparr>) (AlignedBuffer_BDecode 16)) key,
      BEncodeMaybeReadDictInt (str ''S'') (\<lambda>v s. s\<lparr>im_S := v\<rparr>) key,
      BEncodeMaybeReadDictInt (str ''V'') (\<lambda>v s. s\<lparr>im_version := v\<rparr>) key]"



subsection \<open>\<^verbatim>\<open>PathLatencyMessage\<close>\<close>

record PathLatencyMessage = IMessage +
  pl_T :: u64
  pl_L :: u64

definition PathLatencyMessage_Clear :: "PathLatencyMessage \<Rightarrow> PathLatencyMessage" where
  "PathLatencyMessage_Clear m = m\<lparr>pl_T := 0, pl_L := 0, im_version := 0\<rparr>"

definition PathLatencyMessage_BEncode :: "PathLatencyMessage \<Rightarrow> writer" where
  "PathLatencyMessage_BEncode m = write_dict
     [BEncodeWriteDictMsgType (str ''A'') (str ''L''),
      write_if (pl_L m \<noteq> 0) (BEncodeWriteDictInt (str ''L'') (pl_L m)),
      write_if (pl_T m \<noteq> 0) (BEncodeWriteDictInt (str ''T'') (pl_T m)),
      BEncodeWriteDictInt (str ''S'') (im_S m)]"

definition PathLatencyMessage_DecodeKey :: "bytes \<Rightarrow> PathLatencyMessage \<Rightarrow> llarp_buffer_t \<Rightarrow> PathLatencyMessage res" where
  "PathLatencyMessage_DecodeKey key = read_keys
     [BEncodeMaybeReadDictInt (str ''L'') (\<lambda>v s. s\<lparr>pl_L := v\<rparr>) key,
      BEncodeMaybeReadDictInt (str ''S'') (\<lambda>v s. s\<lparr>im_S := v\<rparr>) key,
      BEncodeMaybeReadDictInt (str ''T'') (\<lambda>v s. s\<lparr>pl_T := v\<rparr>) key]"



subsection \<open>\<^verbatim>\<open>PathConfirmMessage\<close>\<close>

record PathConfirmMessage = IMessage +
  pc_pathLifetime :: u64
  pc_pathCreated :: u64

definition PathConfirmMessage_Clear :: "PathConfirmMessage \<Rightarrow> PathConfirmMessage" where
  "PathConfirmMessage_Clear m = m\<lparr>pc_pathLifetime := 0, pc_pathCreated := 0, im_version := 0\<rparr>"

definition PathConfirmMessage_BEncode :: "PathConfirmMessage \<Rightarrow> writer" where
  "PathConfirmMessage_BEncode m = write_dict
     [BEncodeWriteDictMsgType (str ''A'') (str ''P''),
      BEncodeWriteDictInt (str ''L'') (pc_pathLifetime m),
      BEncodeWriteDictInt (str ''S'') (im_S m),
      BEncodeWriteDictInt (str ''T'') (pc_pathCreated m),
      BEncodeWriteDictInt (str ''V'') (im_version m)]"

definition PathConfirmMessage_DecodeKey :: "bytes \<Rightarrow> PathConfirmMessage \<Rightarrow> llarp_buffer_t \<Rightarrow> PathConfirmMessage res" where
  "PathConfirmMessage_DecodeKey key = read_keys
     [BEncodeMaybeReadDictInt (str ''L'') (\<lambda>v s. s\<lparr>pc_pathLifetime := v\<rparr>) key,
      BEncodeMaybeReadDictInt (str ''S'') (\<lambda>v s. s\<lparr>im_S := v\<rparr>) key,
      BEncodeMaybeReadDictInt (str ''T'') (\<lambda>v s. s\<lparr>pc_pathCreated := v\<rparr>) key,
      BEncodeMaybeReadDictInt (str ''V'') (\<lambda>v s. s\<lparr>im_version := v\<rparr>) key]"



subsection \<open>\<^verbatim>\<open>ProtocolFrame\<close>\<close>

record ProtocolFrame = IMessage +
  pf_C :: bytes
  pf_D :: bytes
  pf_R :: u64
  pf_N :: bytes
  pf_Z :: bytes
  pf_F :: bytes
  pf_T :: bytes

definition ProtocolFrame_Clear :: "ProtocolFrame \<Rightarrow> ProtocolFrame" where
  "ProtocolFrame_Clear m = m\<lparr>pf_C := AlignedBuffer_Zero 1048, pf_D := [], pf_F := AlignedBuffer_Zero 16, pf_T := AlignedBuffer_Zero 16, pf_N := AlignedBuffer_Zero 32, pf_Z := AlignedBuffer_Zero 64, pf_R := 0, im_version := 0\<rparr>"

definition ProtocolFrame_BEncode :: "ProtocolFrame \<Rightarrow> writer" where
  "ProtocolFrame_BEncode m = write_dict
     [BEncodeWriteDictMsgType (str ''A'') (str ''H''),
      write_if (\<not> AlignedBuffer_IsZero (pf_C m)) (BEncodeWriteDictEntry (str ''C'') (AlignedBuffer_BEncode (pf_C m))),
      write_if (length (pf_D m) > 0) (BEncodeWriteDictEntry (str ''D'') (Encrypted_BEncode (pf_D m))),
      BEncodeWriteDictEntry (str ''F'') (AlignedBuffer_BEncode (pf_F m)),
      write_if (\<not> AlignedBuffer_IsZero (pf_N m)) (BEncodeWriteDictEntry (str ''N'') (AlignedBuffer_BEncode (pf_N m))),
      write_if (pf_R m \<noteq> 0) (BEncodeWriteDictInt (str ''R'') (pf_R m)),
      write_if (\<not> AlignedBuffer_IsZero (pf_T m)) (BEncodeWriteDictEntry (str ''T'') (AlignedBuffer_BEncode (pf_T m))),
      BEncodeWriteDictInt (str ''V'') (im_version m),
      BEncodeWriteDictEntry (str ''Z'') (AlignedBuffer_BEncode (pf_Z m))]"

definition ProtocolFrame_DecodeKey :: "bytes \<Rightarrow> ProtocolFrame \<Rightarrow> llarp_buffer_t \<Rightarrow> ProtocolFrame res" where
  "ProtocolFrame_DecodeKey key s buf =
     (if starts_with key (str ''A'')
      then with_string s buf (\<lambda>strbuf buf. ret (strbuf = str ''H'') s buf)
      else read_keys
     [BEncodeMaybeReadDictEntry (str ''D'') (in_field pf_D (\<lambda>v s. s\<lparr>pf_D := v\<rparr>) (Encrypted_BDecode 2048)) key,
      BEncodeMaybeReadDictEntry (str ''F'') (in_field pf_F (\<lambda>v s. s\<lparr>pf_F := v\<rparr>) (AlignedBuffer_BDecode 16)) key,
      BEncodeMaybeReadDictEntry (str ''C'') (in_field pf_C (\<lambda>v s. s\<lparr>pf_C := v\<rparr>) (AlignedBuffer_BDecode 1048)) key,
      BEncodeMaybeReadDictEntry (str ''N'') (in_field pf_N (\<lambda>v s. s\<lparr>pf_N := v\<rparr>) (AlignedBuffer_BDecode 32)) key,
      BEncodeMaybeReadDictInt (str ''S'') (\<lambda>v s. s\<lparr>im_S := v\<rparr>) key,
      BEncodeMaybeReadDictInt (str ''R'') (\<lambda>v s. s\<lparr>pf_R := v\<rparr>) key,
      BEncodeMaybeReadDictEntry (str ''T'') (in_field pf_T (\<lambda>v s. s\<lparr>pf_T := v\<rparr>) (AlignedBuffer_BDecode 16)) key,
      BEncodeMaybeVerifyVersion (str ''V'') (\<lambda>v s. s\<lparr>im_version := v\<rparr>) 0 key,
      BEncodeMaybeReadDictEntry (str ''Z'') (in_field pf_Z (\<lambda>v s. s\<lparr>pf_Z := v\<rparr>) (AlignedBuffer_BDecode 64)) key] s buf)"

definition ProtocolFrame_BDecode :: "ProtocolFrame \<Rightarrow> llarp_buffer_t \<Rightarrow> ProtocolFrame res" where
  "ProtocolFrame_BDecode = bencode_decode_dict ProtocolFrame_DecodeKey"



subsection \<open>\<^verbatim>\<open>PathTransferMessage\<close>\<close>

record PathTransferMessage = IMessage +
  pt_P :: bytes
  pt_T :: ProtocolFrame
  pt_Y :: bytes

definition PathTransferMessage_Clear :: "PathTransferMessage \<Rightarrow> PathTransferMessage" where
  "PathTransferMessage_Clear m = m\<lparr>pt_P := AlignedBuffer_Zero 16, pt_T := ProtocolFrame_Clear (pt_T m), pt_Y := AlignedBuffer_Zero 32, im_version := 0\<rparr>"

definition PathTransferMessage_BEncode :: "PathTransferMessage \<Rightarrow> writer" where
  "PathTransferMessage_BEncode m = write_dict
     [BEncodeWriteDictMsgType (str ''A'') (str ''T''),
      BEncodeWriteDictEntry (str ''P'') (AlignedBuffer_BEncode (pt_P m)),
      BEncodeWriteDictInt (str ''S'') (im_S m),
      BEncodeWriteDictEntry (str ''T'') (ProtocolFrame_BEncode (pt_T m)),
      BEncodeWriteDictInt (str ''V'') 0,
      BEncodeWriteDictEntry (str ''Y'') (AlignedBuffer_BEncode (pt_Y m))]"

definition PathTransferMessage_DecodeKey :: "bytes \<Rightarrow> PathTransferMessage \<Rightarrow> llarp_buffer_t \<Rightarrow> PathTransferMessage res" where
  "PathTransferMessage_DecodeKey key = read_keys
     [BEncodeMaybeReadDictEntry (str ''P'') (in_field pt_P (\<lambda>v s. s\<lparr>pt_P := v\<rparr>) (AlignedBuffer_BDecode 16)) key,
      BEncodeMaybeReadDictInt (str ''S'') (\<lambda>v s. s\<lparr>im_S := v\<rparr>) key,
      BEncodeMaybeReadDictEntry (str ''T'') (in_field pt_T (\<lambda>v s. s\<lparr>pt_T := v\<rparr>) (ProtocolFrame_BDecode)) key,
      BEncodeMaybeReadDictInt (str ''V'') (\<lambda>v s. s\<lparr>im_version := v\<rparr>) key,
      BEncodeMaybeReadDictEntry (str ''Y'') (in_field pt_Y (\<lambda>v s. s\<lparr>pt_Y := v\<rparr>) (AlignedBuffer_BDecode 32)) key]"



subsection \<open>\<^verbatim>\<open>TransferTrafficMessage\<close>\<close>

record TransferTrafficMessage = IMessage +
  tt_X :: "bytes list"
  tt_protocol :: u64
  tt_size :: nat

definition TransferTrafficMessage_Clear :: "TransferTrafficMessage \<Rightarrow> TransferTrafficMessage" where
  "TransferTrafficMessage_Clear m = m\<lparr>tt_X := [], tt_size := 0, im_version := 0, tt_protocol := 1\<rparr>"

definition TransferTrafficMessage_BEncode :: "TransferTrafficMessage \<Rightarrow> writer" where
  "TransferTrafficMessage_BEncode m = write_dict
     [BEncodeWriteDictMsgType (str ''A'') (str ''I''),
      BEncodeWriteDictInt (str ''P'') (tt_protocol m),
      BEncodeWriteDictInt (str ''S'') (im_S m),
      BEncodeWriteDictInt (str ''V'') (im_version m),
      BEncodeWriteDictList (str ''X'') (map Encrypted_BEncode (tt_X m))]"

definition TransferTrafficMessage_DecodeKey :: "bytes \<Rightarrow> TransferTrafficMessage \<Rightarrow> llarp_buffer_t \<Rightarrow> TransferTrafficMessage res" where
  "TransferTrafficMessage_DecodeKey key s buf =
     (case read_chain
     [BEncodeMaybeReadDictInt (str ''S'') (\<lambda>v s. s\<lparr>im_S := v\<rparr>) key,
      BEncodeMaybeReadDictInt (str ''P'') (\<lambda>v s. s\<lparr>tt_protocol := v\<rparr>) key,
      BEncodeMaybeReadDictInt (str ''V'') (\<lambda>v s. s\<lparr>im_version := v\<rparr>) key,
      BEncodeMaybeReadDictList (str ''X'') (in_field tt_X (\<lambda>v s. s\<lparr>tt_X := v\<rparr>) (BEncodeReadList [] (Encrypted_BDecode 1508))) key] (False, s) buf of
        None \<Rightarrow> None
      | Some (Inl x) \<Rightarrow> Some (Inl x)
      | Some (Inr (ok, rs, buf)) \<Rightarrow>
          if \<not> ok then ret False (snd rs) buf
          else if fst rs then ret True (snd rs) buf
          else (case bencode_discard buf of
                  None \<Rightarrow> None
                | Some (Inl x) \<Rightarrow> Some (Inl x)
                | Some (Inr (ok, _, buf)) \<Rightarrow> ret ok (snd rs) buf))"



subsection \<open>\<^verbatim>\<open>ObtainExitMessage\<close>\<close>

record ObtainExitMessage = IMessage +
  oe_B :: "Policy list"
  oe_E :: u64
  oe_I :: bytes
  oe_T :: u64
  oe_W :: "Policy list"
  oe_X :: u64
  oe_Z :: bytes

definition ObtainExitMessage_Clear :: "ObtainExitMessage \<Rightarrow> ObtainExitMessage" where
  "ObtainExitMessage_Clear m = m\<lparr>oe_B := [], oe_E := 0, oe_I := AlignedBuffer_Zero 32, oe_T := 0, oe_W := [], oe_X := 0, oe_Z := AlignedBuffer_Zero 64\<rparr>"

definition ObtainExitMessage_BEncode :: "ObtainExitMessage \<Rightarrow> writer" where
  "ObtainExitMessage_BEncode m = write_dict
     [BEncodeWriteDictMsgType (str ''A'') (str ''O''),
      BEncodeWriteDictArray (str ''B'') (map Policy_BEncode (oe_B m)),
      BEncodeWriteDictInt (str ''E'') (oe_E m),
      BEncodeWriteDictEntry (str ''I'') (AlignedBuffer_BEncode (oe_I m)),
      BEncodeWriteDictInt (str ''S'') (im_S m),
      BEncodeWriteDictInt (str ''T'') (oe_T m),
      BEncodeWriteDictInt (str ''V'') (im_version m),
      BEncodeWriteDictArray (str ''W'') (map Policy_BEncode (oe_W m)),
      BEncodeWriteDictInt (str ''X'') (oe_X m),
      BEncodeWriteDictEntry (str ''Z'') (AlignedBuffer_BEncode (oe_Z m))]"

definition ObtainExitMessage_DecodeKey :: "bytes \<Rightarrow> ObtainExitMessage \<Rightarrow> llarp_buffer_t \<Rightarrow> ObtainExitMessage res" where
  "ObtainExitMessage_DecodeKey key = read_keys
     [BEncodeMaybeReadDictList (str ''B'') (in_field oe_B (\<lambda>v s. s\<lparr>oe_B := v\<rparr>) (BEncodeReadList new_Policy Policy_BDecode)) key,
      BEncodeMaybeReadDictInt (str ''E'') (\<lambda>v s. s\<lparr>oe_E := v\<rparr>) key,
      BEncodeMaybeReadDictEntry (str ''I'') (in_field oe_I (\<lambda>v s. s\<lparr>oe_I := v\<rparr>) (AlignedBuffer_BDecode 32)) key,
      BEncodeMaybeReadDictInt (str ''S'') (\<lambda>v s. s\<lparr>im_S := v\<rparr>) key,
      BEncodeMaybeReadDictInt (str ''T'') (\<lambda>v s. s\<lparr>oe_T := v\<rparr>) key,
      BEncodeMaybeReadDictInt (str ''V'') (\<lambda>v s. s\<lparr>im_version := v\<rparr>) key,
      BEncodeMaybeReadDictList (str ''W'') (in_field oe_W (\<lambda>v s. s\<lparr>oe_W := v\<rparr>) (BEncodeReadList new_Policy Policy_BDecode)) key,
      BEncodeMaybeReadDictInt (str ''X'') (\<lambda>v s. s\<lparr>oe_X := v\<rparr>) key,
      BEncodeMaybeReadDictEntry (str ''Z'') (in_field oe_Z (\<lambda>v s. s\<lparr>oe_Z := v\<rparr>) (AlignedBuffer_BDecode 64)) key]"



subsection \<open>\<^verbatim>\<open>GrantExitMessage\<close>\<close>

record GrantExitMessage = IMessage +
  ge_T :: u64
  ge_Y :: bytes
  ge_Z :: bytes

definition GrantExitMessage_Clear :: "GrantExitMessage \<Rightarrow> GrantExitMessage" where
  "GrantExitMessage_Clear m = m\<lparr>ge_T := 0, ge_Y := AlignedBuffer_Zero 16, ge_Z := AlignedBuffer_Zero 64\<rparr>"

definition GrantExitMessage_BEncode :: "GrantExitMessage \<Rightarrow> writer" where
  "GrantExitMessage_BEncode m = write_dict
     [BEncodeWriteDictMsgType (str ''A'') (str ''G''),
      BEncodeWriteDictInt (str ''S'') (im_S m),
      BEncodeWriteDictInt (str ''T'') (ge_T m),
      BEncodeWriteDictInt (str ''V'') (im_version m),
      BEncodeWriteDictEntry (str ''Y'') (AlignedBuffer_BEncode (ge_Y m)),
      BEncodeWriteDictEntry (str ''Z'') (AlignedBuffer_BEncode (ge_Z m))]"

definition GrantExitMessage_DecodeKey :: "bytes \<Rightarrow> GrantExitMessage \<Rightarrow> llarp_buffer_t \<Rightarrow> GrantExitMessage res" where
  "GrantExitMessage_DecodeKey key = read_keys
     [BEncodeMaybeReadDictInt (str ''S'') (\<lambda>v s. s\<lparr>im_S := v\<rparr>) key,
      BEncodeMaybeReadDictInt (str ''T'') (\<lambda>v s. s\<lparr>ge_T := v\<rparr>) key,
      BEncodeMaybeReadDictInt (str ''V'') (\<lambda>v s. s\<lparr>im_version := v\<rparr>) key,
      BEncodeMaybeReadDictEntry (str ''Y'') (in_field ge_Y (\<lambda>v s. s\<lparr>ge_Y := v\<rparr>) (AlignedBuffer_BDecode 16)) key,
      BEncodeMaybeReadDictEntry (str ''Z'') (in_field ge_Z (\<lambda>v s. s\<lparr>ge_Z := v\<rparr>) (AlignedBuffer_BDecode 64)) key]"



subsection \<open>\<^verbatim>\<open>RejectExitMessage\<close>\<close>

record RejectExitMessage = IMessage +
  re_B :: u64
  re_R :: "Policy list"
  re_T :: u64
  re_Y :: bytes
  re_Z :: bytes

definition RejectExitMessage_Clear :: "RejectExitMessage \<Rightarrow> RejectExitMessage" where
  "RejectExitMessage_Clear m = m\<lparr>re_B := 0, re_R := [], re_T := 0, re_Y := AlignedBuffer_Zero 16, re_Z := AlignedBuffer_Zero 64\<rparr>"

definition RejectExitMessage_BEncode :: "RejectExitMessage \<Rightarrow> writer" where
  "RejectExitMessage_BEncode m = write_dict
     [BEncodeWriteDictMsgType (str ''A'') (str ''J''),
      BEncodeWriteDictInt (str ''B'') (re_B m),
      BEncodeWriteDictList (str ''R'') (map Policy_BEncode (re_R m)),
      BEncodeWriteDictInt (str ''S'') (im_S m),
      BEncodeWriteDictInt (str ''T'') (re_T m),
      BEncodeWriteDictInt (str ''V'') (im_version m),
      BEncodeWriteDictEntry (str ''Y'') (AlignedBuffer_BEncode (re_Y m)),
      BEncodeWriteDictEntry (str ''Z'') (AlignedBuffer_BEncode (re_Z m))]"

definition RejectExitMessage_DecodeKey :: "bytes \<Rightarrow> RejectExitMessage \<Rightarrow> llarp_buffer_t \<Rightarrow> RejectExitMessage res" where
  "RejectExitMessage_DecodeKey key = read_keys
     [BEncodeMaybeReadDictInt (str ''B'') (\<lambda>v s. s\<lparr>re_B := v\<rparr>) key,
      BEncodeMaybeReadDictList (str ''R'') (in_field re_R (\<lambda>v s. s\<lparr>re_R := v\<rparr>) (BEncodeReadList new_Policy Policy_BDecode)) key,
      BEncodeMaybeReadDictInt (str ''S'') (\<lambda>v s. s\<lparr>im_S := v\<rparr>) key,
      BEncodeMaybeReadDictInt (str ''T'') (\<lambda>v s. s\<lparr>re_T := v\<rparr>) key,
      BEncodeMaybeReadDictInt (str ''V'') (\<lambda>v s. s\<lparr>im_version := v\<rparr>) key,
      BEncodeMaybeReadDictEntry (str ''Y'') (in_field re_Y (\<lambda>v s. s\<lparr>re_Y := v\<rparr>) (AlignedBuffer_BDecode 16)) key,
      BEncodeMaybeReadDictEntry (str ''Z'') (in_field re_Z (\<lambda>v s. s\<lparr>re_Z := v\<rparr>) (AlignedBuffer_BDecode 64)) key]"



subsection \<open>\<^verbatim>\<open>UpdateExitMessage\<close>\<close>

record UpdateExitMessage = IMessage +
  ue_P :: bytes
  ue_T :: u64
  ue_Y :: bytes
  ue_Z :: bytes

definition UpdateExitMessage_Clear :: "UpdateExitMessage \<Rightarrow> UpdateExitMessage" where
  "UpdateExitMessage_Clear m = m\<lparr>ue_P := AlignedBuffer_Zero 16, ue_T := 0, ue_Y := AlignedBuffer_Zero 16, ue_Z := AlignedBuffer_Zero 64\<rparr>"

definition UpdateExitMessage_BEncode :: "UpdateExitMessage \<Rightarrow> writer" where
  "UpdateExitMessage_BEncode m = write_dict
     [BEncodeWriteDictMsgType (str ''A'') (str ''V''),
      BEncodeWriteDictEntry (str ''P'') (AlignedBuffer_BEncode (ue_P m)),
      BEncodeWriteDictInt (str ''S'') (im_S m),
      BEncodeWriteDictInt (str ''T'') (ue_T m),
      BEncodeWriteDictInt (str ''V'') (im_version m),
      BEncodeWriteDictEntry (str ''Z'') (AlignedBuffer_BEncode (ue_Z m))]"

definition UpdateExitMessage_DecodeKey :: "bytes \<Rightarrow> UpdateExitMessage \<Rightarrow> llarp_buffer_t \<Rightarrow> UpdateExitMessage res" where
  "UpdateExitMessage_DecodeKey key = read_keys
     [BEncodeMaybeReadDictInt (str ''S'') (\<lambda>v s. s\<lparr>im_S := v\<rparr>) key,
      BEncodeMaybeReadDictInt (str ''T'') (\<lambda>v s. s\<lparr>ue_T := v\<rparr>) key,
      BEncodeMaybeReadDictInt (str ''V'') (\<lambda>v s. s\<lparr>im_version := v\<rparr>) key,
      BEncodeMaybeReadDictEntry (str ''P'') (in_field ue_P (\<lambda>v s. s\<lparr>ue_P := v\<rparr>) (AlignedBuffer_BDecode 16)) key,
      BEncodeMaybeReadDictEntry (str ''Z'') (in_field ue_Z (\<lambda>v s. s\<lparr>ue_Z := v\<rparr>) (AlignedBuffer_BDecode 64)) key]"



subsection \<open>\<^verbatim>\<open>UpdateExitVerifyMessage\<close>\<close>

record UpdateExitVerifyMessage = IMessage +
  uv_T :: u64
  uv_Y :: bytes
  uv_Z :: bytes

definition UpdateExitVerifyMessage_Clear :: "UpdateExitVerifyMessage \<Rightarrow> UpdateExitVerifyMessage" where
  "UpdateExitVerifyMessage_Clear m = m\<lparr>uv_T := 0, uv_Y := AlignedBuffer_Zero 16, uv_Z := AlignedBuffer_Zero 64\<rparr>"

definition UpdateExitVerifyMessage_BEncode :: "UpdateExitVerifyMessage \<Rightarrow> writer" where
  "UpdateExitVerifyMessage_BEncode m = write_dict
     [BEncodeWriteDictMsgType (str ''A'') (str ''V''),
      BEncodeWriteDictInt (str ''S'') (im_S m),
      BEncodeWriteDictInt (str ''T'') (uv_T m),
      BEncodeWriteDictInt (str ''V'') (im_version m)]"

definition UpdateExitVerifyMessage_DecodeKey :: "bytes \<Rightarrow> UpdateExitVerifyMessage \<Rightarrow> llarp_buffer_t \<Rightarrow> UpdateExitVerifyMessage res" where
  "UpdateExitVerifyMessage_DecodeKey key = read_keys
     [BEncodeMaybeReadDictInt (str ''S'') (\<lambda>v s. s\<lparr>im_S := v\<rparr>) key,
      BEncodeMaybeReadDictInt (str ''T'') (\<lambda>v s. s\<lparr>uv_T := v\<rparr>) key,
      BEncodeMaybeReadDictInt (str ''V'') (\<lambda>v s. s\<lparr>im_version := v\<rparr>) key]"



subsection \<open>\<^verbatim>\<open>CloseExitMessage\<close>\<close>

record CloseExitMessage = IMessage +
  ce_Y :: bytes
  ce_Z :: bytes

definition CloseExitMessage_Clear :: "CloseExitMessage \<Rightarrow> CloseExitMessage" where
  "CloseExitMessage_Clear m = m\<lparr>ce_Y := AlignedBuffer_Zero 16, ce_Z := AlignedBuffer_Zero 64\<rparr>"

definition CloseExitMessage_BEncode :: "CloseExitMessage \<Rightarrow> writer" where
  "CloseExitMessage_BEncode m = write_dict
     [BEncodeWriteDictMsgType (str ''A'') (str ''C''),
      BEncodeWriteDictInt (str ''S'') (im_S m),
      BEncodeWriteDictInt (str ''V'') (im_version m),
      BEncodeWriteDictEntry (str ''Y'') (AlignedBuffer_BEncode (ce_Y m)),
      BEncodeWriteDictEntry (str ''Z'') (AlignedBuffer_BEncode (ce_Z m))]"

definition CloseExitMessage_DecodeKey :: "bytes \<Rightarrow> CloseExitMessage \<Rightarrow> llarp_buffer_t \<Rightarrow> CloseExitMessage res" where
  "CloseExitMessage_DecodeKey key = read_keys
     [BEncodeMaybeReadDictInt (str ''S'') (\<lambda>v s. s\<lparr>im_S := v\<rparr>) key,
      BEncodeMaybeReadDictInt (str ''V'') (\<lambda>v s. s\<lparr>im_version := v\<rparr>) key,
      BEncodeMaybeReadDictEntry (str ''Y'') (in_field ce_Y (\<lambda>v s. s\<lparr>ce_Y := v\<rparr>) (AlignedBuffer_BDecode 16)) key,
      BEncodeMaybeReadDictEntry (str ''Z'') (in_field ce_Z (\<lambda>v s. s\<lparr>ce_Z := v\<rparr>) (AlignedBuffer_BDecode 64)) key]"

section \<open>Signatures\<close>

text \<open>
  The signature scheme is a parameter: signing may fail, and \<open>sg_topublic\<close> is the public key of
  a secret key.
\<close>

record signer =
  sg_sign :: "bytes \<Rightarrow> bytes \<Rightarrow> bytes option"
  sg_verify :: "bytes \<Rightarrow> bytes \<Rightarrow> bytes \<Rightarrow> bool"
  sg_topublic :: "bytes \<Rightarrow> bytes"

text \<open>What a writer puts in an array of \<open>n\<close> bytes, from its start to the position.\<close>

definition encode_to :: "nat \<Rightarrow> writer \<Rightarrow> bytes option" where
  "encode_to n w = (let (ok, buf) = w (buf_at [] (replicate n 0)) in if ok then Some (copy_used buf) else None)"

text \<open>Sign the encoding of \<open>m\<close> and store the signature with \<open>put\<close>; verify against the encoding of a copy.\<close>

definition sign_encoded :: "signer \<Rightarrow> nat \<Rightarrow> ('m \<Rightarrow> writer) \<Rightarrow> (bytes \<Rightarrow> 'm \<Rightarrow> 'm) \<Rightarrow> bytes \<Rightarrow> 'm \<Rightarrow> bool \<times> 'm" where
  "sign_encoded sg n BEncode put sk m =
     (case encode_to n (BEncode m) of
        None \<Rightarrow> (False, m)
      | Some b \<Rightarrow> (case sg_sign sg sk b of None \<Rightarrow> (False, m) | Some Z \<Rightarrow> (True, put Z m)))"

definition verify_encoded :: "signer \<Rightarrow> nat \<Rightarrow> ('m \<Rightarrow> writer) \<Rightarrow> bytes \<Rightarrow> 'm \<Rightarrow> bytes \<Rightarrow> bool" where
  "verify_encoded sg n BEncode pk copy Z =
     (case encode_to n (BEncode copy) of None \<Rightarrow> False | Some b \<Rightarrow> sg_verify sg pk b Z)"

definition ObtainExitMessage_Sign :: "signer \<Rightarrow> bytes \<Rightarrow> ObtainExitMessage \<Rightarrow> bool \<times> ObtainExitMessage" where
  "ObtainExitMessage_Sign sg sk m =
     sign_encoded sg 1024 ObtainExitMessage_BEncode (\<lambda>Z m. m\<lparr>oe_Z := Z\<rparr>) sk
       (m\<lparr>oe_I := sg_topublic sg sk, oe_Z := AlignedBuffer_Zero 64\<rparr>)"

definition ObtainExitMessage_Verify :: "signer \<Rightarrow> ObtainExitMessage \<Rightarrow> bool" where
  "ObtainExitMessage_Verify sg m =
     verify_encoded sg 1024 ObtainExitMessage_BEncode (oe_I m) (m\<lparr>oe_Z := AlignedBuffer_Zero 64\<rparr>) (oe_Z m)"

text \<open>\<open>rnd\<close> are the random bytes of \<^verbatim>\<open>Y.Randomize()\<close>.\<close>

definition GrantExitMessage_Sign :: "signer \<Rightarrow> bytes \<Rightarrow> bytes \<Rightarrow> GrantExitMessage \<Rightarrow> bool \<times> GrantExitMessage" where
  "GrantExitMessage_Sign sg rnd sk m =
     sign_encoded sg 512 GrantExitMessage_BEncode (\<lambda>Z m. m\<lparr>ge_Z := Z\<rparr>) sk
       (m\<lparr>ge_Z := AlignedBuffer_Zero 64, ge_Y := rnd\<rparr>)"

definition GrantExitMessage_Verify :: "signer \<Rightarrow> bytes \<Rightarrow> GrantExitMessage \<Rightarrow> bool" where
  "GrantExitMessage_Verify sg pk m =
     verify_encoded sg 512 GrantExitMessage_BEncode pk (m\<lparr>ge_Z := AlignedBuffer_Zero 64\<rparr>) (ge_Z m)"

definition RejectExitMessage_Sign :: "signer \<Rightarrow> bytes \<Rightarrow> bytes \<Rightarrow> RejectExitMessage \<Rightarrow> bool \<times> RejectExitMessage" where
  "RejectExitMessage_Sign sg rnd sk m =
     sign_encoded sg 512 RejectExitMessage_BEncode (\<lambda>Z m. m\<lparr>re_Z := Z\<rparr>) sk
       (m\<lparr>re_Z := AlignedBuffer_Zero 64, re_Y := rnd\<rparr>)"

definition RejectExitMessage_Verify :: "signer \<Rightarrow> bytes \<Rightarrow> RejectExitMessage \<Rightarrow> bool" where
  "RejectExitMessage_Verify sg pk m =
     verify_encoded sg 512 RejectExitMessage_BEncode pk (m\<lparr>re_Z := AlignedBuffer_Zero 64\<rparr>) (re_Z m)"

text \<open>Unlike the others, this one does not clear \<^verbatim>\<open>Z\<close> before it encodes what is signed.\<close>

definition UpdateExitMessage_Sign :: "signer \<Rightarrow> bytes \<Rightarrow> bytes \<Rightarrow> UpdateExitMessage \<Rightarrow> bool \<times> UpdateExitMessage" where
  "UpdateExitMessage_Sign sg rnd sk m =
     sign_encoded sg 512 UpdateExitMessage_BEncode (\<lambda>Z m. m\<lparr>ue_Z := Z\<rparr>) sk (m\<lparr>ue_Y := rnd\<rparr>)"

definition UpdateExitMessage_Verify :: "signer \<Rightarrow> bytes \<Rightarrow> UpdateExitMessage \<Rightarrow> bool" where
  "UpdateExitMessage_Verify sg pk m =
     verify_encoded sg 512 UpdateExitMessage_BEncode pk (m\<lparr>ue_Z := AlignedBuffer_Zero 64\<rparr>) (ue_Z m)"

definition CloseExitMessage_Sign :: "signer \<Rightarrow> bytes \<Rightarrow> bytes \<Rightarrow> CloseExitMessage \<Rightarrow> bool \<times> CloseExitMessage" where
  "CloseExitMessage_Sign sg rnd sk m =
     sign_encoded sg 512 CloseExitMessage_BEncode (\<lambda>Z m. m\<lparr>ce_Z := Z\<rparr>) sk
       (m\<lparr>ce_Z := AlignedBuffer_Zero 64, ce_Y := rnd\<rparr>)"

definition CloseExitMessage_Verify :: "signer \<Rightarrow> bytes \<Rightarrow> CloseExitMessage \<Rightarrow> bool" where
  "CloseExitMessage_Verify sg pk m =
     verify_encoded sg 512 CloseExitMessage_BEncode pk (m\<lparr>ce_Z := AlignedBuffer_Zero 64\<rparr>) (ce_Z m)"

definition ProtocolFrame_Sign :: "signer \<Rightarrow> bytes \<Rightarrow> ProtocolFrame \<Rightarrow> bool \<times> ProtocolFrame" where
  "ProtocolFrame_Sign sg sk m =
     sign_encoded sg 4096 ProtocolFrame_BEncode (\<lambda>Z m. m\<lparr>pf_Z := Z\<rparr>) sk (m\<lparr>pf_Z := AlignedBuffer_Zero 64\<rparr>)"

definition ProtocolFrame_Verify :: "signer \<Rightarrow> bytes \<Rightarrow> ProtocolFrame \<Rightarrow> bool" where
  "ProtocolFrame_Verify sg pk m =
     verify_encoded sg 4096 ProtocolFrame_BEncode pk (m\<lparr>pf_Z := AlignedBuffer_Zero 64\<rparr>) (pf_Z m)"

text \<open>Traffic is added to a message with its counter, if it is not longer than the MTU.\<close>

definition TransferTrafficMessage_PutBuffer ::
    "oxenc \<Rightarrow> bytes \<Rightarrow> u64 \<Rightarrow> TransferTrafficMessage \<Rightarrow> bool \<times> TransferTrafficMessage" where
  "TransferTrafficMessage_PutBuffer ox buf counter m =
     (if length buf > 1500 then (False, m)
      else (True, m\<lparr>tt_X := tt_X m @ [write_be64 ox counter @ buf], tt_size := tt_size m + length buf + 16\<rparr>))"

end
