(* ===== verification/Routing_Codec.thy ===== *)
theory Routing_Codec
  imports Routing_Message
begin

text \<open>
  What the writers of the routing messages produce, as values of the format, and what the
  readers of their keys do in front of them.
\<close>


section \<open>Rules\<close>

lemma writes_policies [entry_rules]:
  "writes (BEncodeWriteDictList k (map Policy_BEncode ps)) (entries [(k, BList (map Policy_wire ps))])"
  "writes (BEncodeWriteDictArray k (map Policy_BEncode ps)) (entries [(k, BList (map Policy_wire ps))])"
  using policy.list_writes [of ps k]
  by (simp_all add: entries_def list_all_iff BEncodeWriteDictList_def BEncodeWriteDictArray_def BEncodeWriteList_def)

lemma writes_encrypted_list [entry_rules]:
  "writes (BEncodeWriteDictList k (map Encrypted_BEncode xs)) (entries [(k, BList (map BStr xs))])"
  using writes_dict_list [of "map Encrypted_BEncode xs" "map BStr xs" k] writes_encrypted
  by (simp add: entries_def list_all2_conv_all_nth)

lemma short_str [simp]: "length (str [c]) < 1000000000" "length (str [c]) < 10 ^ 9"
  by (simp_all add: str_def)

lemma aligned_reads:
  "length x = 16 \<Longrightarrow> reads (AlignedBuffer_BDecode 16) (encode (BStr x)) y x"
  "length x = 32 \<Longrightarrow> reads (AlignedBuffer_BDecode 32) (encode (BStr x)) y x"
  "length x = 64 \<Longrightarrow> reads (AlignedBuffer_BDecode 64) (encode (BStr x)) y x"
  "length x = 1048 \<Longrightarrow> reads (AlignedBuffer_BDecode 1048) (encode (BStr x)) y x"
  "length x \<le> 2048 \<Longrightarrow> reads (Encrypted_BDecode 2048) (encode (BStr x)) y x"
  by (auto intro!: reads_aligned reads_encrypted simp del: encode.simps)

lemma lists_read:
  "y = [] \<Longrightarrow> reads (BEncodeReadList new_Policy Policy_BDecode) (encode (BList (map Policy_wire ps))) y ps"
  "z = [] \<Longrightarrow> list_all (\<lambda>x. length x \<le> 1508) xs \<Longrightarrow>
     reads (BEncodeReadList [] (Encrypted_BDecode 1508)) (encode (BList (map BStr xs))) z xs"
  using policy.list_reads [of ps "[]"] encrypted.list_reads [of 1508 xs "[]" "[]"] by (simp_all add: list_all_iff)

lemma key_steps_single:
  "reads (D (str [c])) (encode v) s t \<Longrightarrow> key_steps D s [(str [c], v)] t"
  by (rule key_steps_Cons [OF _ key_steps_Nil [OF refl]])


section \<open>The messages on the wire\<close>

definition DataDiscardMessage_fields :: "DataDiscardMessage \<Rightarrow> (bytes \<times> bvalue) list list" where
  "DataDiscardMessage_fields m =
     [[(str ''P'', BStr (dd_P m))],
      [(str ''S'', BInt (im_S m))],
      [(str ''V'', BInt (im_version m))]]"

definition DataDiscardMessage_wire :: "DataDiscardMessage \<Rightarrow> bvalue" where
  "DataDiscardMessage_wire m = BDict (concat ([(str ''A'', BStr (str ''D''))] # DataDiscardMessage_fields m))"

lemma writes_DataDiscardMessage [entry_rules]: "writes (DataDiscardMessage_BEncode m) (encode (DataDiscardMessage_wire m))"
  unfolding DataDiscardMessage_BEncode_def DataDiscardMessage_wire_def
  by (rule writes_dict [OF _ refl], unfold DataDiscardMessage_fields_def list.map, (rule list.rel_intros entry_rules)+)

lemma DataDiscardMessage_keys:
  "reads (AlignedBuffer_BDecode 16) bs (dd_P s) x \<Longrightarrow> reads (DataDiscardMessage_DecodeKey (str ''P'')) bs s (s\<lparr>dd_P := x\<rparr>)"
  "reads (DataDiscardMessage_DecodeKey (str ''S'')) (encode (BInt i)) s (s\<lparr>im_S := i\<rparr>)"
  "reads (DataDiscardMessage_DecodeKey (str ''V'')) (encode (BInt i)) s (s\<lparr>im_version := i\<rparr>)"
  by (simp_all add: DataDiscardMessage_DecodeKey_def reads_key_simps)

definition PathLatencyMessage_fields :: "PathLatencyMessage \<Rightarrow> (bytes \<times> bvalue) list list" where
  "PathLatencyMessage_fields m =
     [if pl_L m \<noteq> 0 then [(str ''L'', BInt (pl_L m))] else [],
      if pl_T m \<noteq> 0 then [(str ''T'', BInt (pl_T m))] else [],
      [(str ''S'', BInt (im_S m))]]"

definition PathLatencyMessage_wire :: "PathLatencyMessage \<Rightarrow> bvalue" where
  "PathLatencyMessage_wire m = BDict (concat ([(str ''A'', BStr (str ''L''))] # PathLatencyMessage_fields m))"

lemma writes_PathLatencyMessage [entry_rules]: "writes (PathLatencyMessage_BEncode m) (encode (PathLatencyMessage_wire m))"
  unfolding PathLatencyMessage_BEncode_def PathLatencyMessage_wire_def
  by (rule writes_dict [OF _ refl], unfold PathLatencyMessage_fields_def list.map, (rule list.rel_intros entry_rules)+)

lemma PathLatencyMessage_keys:
  "reads (PathLatencyMessage_DecodeKey (str ''L'')) (encode (BInt i)) s (s\<lparr>pl_L := i\<rparr>)"
  "reads (PathLatencyMessage_DecodeKey (str ''S'')) (encode (BInt i)) s (s\<lparr>im_S := i\<rparr>)"
  "reads (PathLatencyMessage_DecodeKey (str ''T'')) (encode (BInt i)) s (s\<lparr>pl_T := i\<rparr>)"
  by (simp_all add: PathLatencyMessage_DecodeKey_def reads_key_simps)

definition PathConfirmMessage_fields :: "PathConfirmMessage \<Rightarrow> (bytes \<times> bvalue) list list" where
  "PathConfirmMessage_fields m =
     [[(str ''L'', BInt (pc_pathLifetime m))],
      [(str ''S'', BInt (im_S m))],
      [(str ''T'', BInt (pc_pathCreated m))],
      [(str ''V'', BInt (im_version m))]]"

definition PathConfirmMessage_wire :: "PathConfirmMessage \<Rightarrow> bvalue" where
  "PathConfirmMessage_wire m = BDict (concat ([(str ''A'', BStr (str ''P''))] # PathConfirmMessage_fields m))"

lemma writes_PathConfirmMessage [entry_rules]: "writes (PathConfirmMessage_BEncode m) (encode (PathConfirmMessage_wire m))"
  unfolding PathConfirmMessage_BEncode_def PathConfirmMessage_wire_def
  by (rule writes_dict [OF _ refl], unfold PathConfirmMessage_fields_def list.map, (rule list.rel_intros entry_rules)+)

lemma PathConfirmMessage_keys:
  "reads (PathConfirmMessage_DecodeKey (str ''L'')) (encode (BInt i)) s (s\<lparr>pc_pathLifetime := i\<rparr>)"
  "reads (PathConfirmMessage_DecodeKey (str ''S'')) (encode (BInt i)) s (s\<lparr>im_S := i\<rparr>)"
  "reads (PathConfirmMessage_DecodeKey (str ''T'')) (encode (BInt i)) s (s\<lparr>pc_pathCreated := i\<rparr>)"
  "reads (PathConfirmMessage_DecodeKey (str ''V'')) (encode (BInt i)) s (s\<lparr>im_version := i\<rparr>)"
  by (simp_all add: PathConfirmMessage_DecodeKey_def reads_key_simps)

definition ProtocolFrame_fields :: "ProtocolFrame \<Rightarrow> (bytes \<times> bvalue) list list" where
  "ProtocolFrame_fields m =
     [if \<not> AlignedBuffer_IsZero (pf_C m) then [(str ''C'', BStr (pf_C m))] else [],
      if length (pf_D m) > 0 then [(str ''D'', BStr (pf_D m))] else [],
      [(str ''F'', BStr (pf_F m))],
      if \<not> AlignedBuffer_IsZero (pf_N m) then [(str ''N'', BStr (pf_N m))] else [],
      if pf_R m \<noteq> 0 then [(str ''R'', BInt (pf_R m))] else [],
      if \<not> AlignedBuffer_IsZero (pf_T m) then [(str ''T'', BStr (pf_T m))] else [],
      [(str ''V'', BInt (im_version m))],
      [(str ''Z'', BStr (pf_Z m))]]"

definition ProtocolFrame_wire :: "ProtocolFrame \<Rightarrow> bvalue" where
  "ProtocolFrame_wire m = BDict (concat ([(str ''A'', BStr (str ''H''))] # ProtocolFrame_fields m))"

lemma writes_ProtocolFrame [entry_rules]: "writes (ProtocolFrame_BEncode m) (encode (ProtocolFrame_wire m))"
  unfolding ProtocolFrame_BEncode_def ProtocolFrame_wire_def
  by (rule writes_dict [OF _ refl], unfold ProtocolFrame_fields_def list.map, (rule list.rel_intros entry_rules)+)

lemma ProtocolFrame_keys:
  "reads (ProtocolFrame_DecodeKey (str ''A'')) (encode (BStr (str ''H''))) s s"
  "reads (Encrypted_BDecode 2048) bs (pf_D s) x \<Longrightarrow> reads (ProtocolFrame_DecodeKey (str ''D'')) bs s (s\<lparr>pf_D := x\<rparr>)"
  "reads (AlignedBuffer_BDecode 16) bs (pf_F s) x \<Longrightarrow> reads (ProtocolFrame_DecodeKey (str ''F'')) bs s (s\<lparr>pf_F := x\<rparr>)"
  "reads (AlignedBuffer_BDecode 1048) bs (pf_C s) x \<Longrightarrow> reads (ProtocolFrame_DecodeKey (str ''C'')) bs s (s\<lparr>pf_C := x\<rparr>)"
  "reads (AlignedBuffer_BDecode 32) bs (pf_N s) x \<Longrightarrow> reads (ProtocolFrame_DecodeKey (str ''N'')) bs s (s\<lparr>pf_N := x\<rparr>)"
  "reads (ProtocolFrame_DecodeKey (str ''S'')) (encode (BInt i)) s (s\<lparr>im_S := i\<rparr>)"
  "reads (ProtocolFrame_DecodeKey (str ''R'')) (encode (BInt i)) s (s\<lparr>pf_R := i\<rparr>)"
  "reads (AlignedBuffer_BDecode 16) bs (pf_T s) x \<Longrightarrow> reads (ProtocolFrame_DecodeKey (str ''T'')) bs s (s\<lparr>pf_T := x\<rparr>)"
  "i = 0 \<Longrightarrow> reads (ProtocolFrame_DecodeKey (str ''V'')) (encode (BInt i)) s (s\<lparr>im_version := i\<rparr>)"
  "reads (AlignedBuffer_BDecode 64) bs (pf_Z s) x \<Longrightarrow> reads (ProtocolFrame_DecodeKey (str ''Z'')) bs s (s\<lparr>pf_Z := x\<rparr>)"
  by (simp_all add: ProtocolFrame_DecodeKey_def reads_key_simps with_string_def read_string_at short_str)

definition PathTransferMessage_fields :: "PathTransferMessage \<Rightarrow> (bytes \<times> bvalue) list list" where
  "PathTransferMessage_fields m =
     [[(str ''P'', BStr (pt_P m))],
      [(str ''S'', BInt (im_S m))],
      [(str ''T'', ProtocolFrame_wire (pt_T m))],
      [(str ''V'', BInt 0)],
      [(str ''Y'', BStr (pt_Y m))]]"

definition PathTransferMessage_wire :: "PathTransferMessage \<Rightarrow> bvalue" where
  "PathTransferMessage_wire m = BDict (concat ([(str ''A'', BStr (str ''T''))] # PathTransferMessage_fields m))"

lemma writes_PathTransferMessage [entry_rules]: "writes (PathTransferMessage_BEncode m) (encode (PathTransferMessage_wire m))"
  unfolding PathTransferMessage_BEncode_def PathTransferMessage_wire_def
  by (rule writes_dict [OF _ refl], unfold PathTransferMessage_fields_def list.map, (rule list.rel_intros entry_rules)+)

lemma PathTransferMessage_keys:
  "reads (AlignedBuffer_BDecode 16) bs (pt_P s) x \<Longrightarrow> reads (PathTransferMessage_DecodeKey (str ''P'')) bs s (s\<lparr>pt_P := x\<rparr>)"
  "reads (PathTransferMessage_DecodeKey (str ''S'')) (encode (BInt i)) s (s\<lparr>im_S := i\<rparr>)"
  "reads (ProtocolFrame_BDecode) bs (pt_T s) f \<Longrightarrow> reads (PathTransferMessage_DecodeKey (str ''T'')) bs s (s\<lparr>pt_T := f\<rparr>)"
  "reads (PathTransferMessage_DecodeKey (str ''V'')) (encode (BInt i)) s (s\<lparr>im_version := i\<rparr>)"
  "reads (AlignedBuffer_BDecode 32) bs (pt_Y s) x \<Longrightarrow> reads (PathTransferMessage_DecodeKey (str ''Y'')) bs s (s\<lparr>pt_Y := x\<rparr>)"
  by (simp_all add: PathTransferMessage_DecodeKey_def reads_key_simps)

definition TransferTrafficMessage_fields :: "TransferTrafficMessage \<Rightarrow> (bytes \<times> bvalue) list list" where
  "TransferTrafficMessage_fields m =
     [[(str ''P'', BInt (tt_protocol m))],
      [(str ''S'', BInt (im_S m))],
      [(str ''V'', BInt (im_version m))],
      [(str ''X'', BList (map BStr (tt_X m)))]]"

definition TransferTrafficMessage_wire :: "TransferTrafficMessage \<Rightarrow> bvalue" where
  "TransferTrafficMessage_wire m = BDict (concat ([(str ''A'', BStr (str ''I''))] # TransferTrafficMessage_fields m))"

lemma writes_TransferTrafficMessage [entry_rules]: "writes (TransferTrafficMessage_BEncode m) (encode (TransferTrafficMessage_wire m))"
  unfolding TransferTrafficMessage_BEncode_def TransferTrafficMessage_wire_def
  by (rule writes_dict [OF _ refl], unfold TransferTrafficMessage_fields_def list.map, (rule list.rel_intros entry_rules)+)

lemma TransferTrafficMessage_keys:
  "reads (TransferTrafficMessage_DecodeKey (str ''S'')) (encode (BInt i)) s (s\<lparr>im_S := i\<rparr>)"
  "reads (TransferTrafficMessage_DecodeKey (str ''P'')) (encode (BInt i)) s (s\<lparr>tt_protocol := i\<rparr>)"
  "reads (TransferTrafficMessage_DecodeKey (str ''V'')) (encode (BInt i)) s (s\<lparr>im_version := i\<rparr>)"
  "reads (BEncodeReadList [] (Encrypted_BDecode 1508)) bs (tt_X s) xs \<Longrightarrow> reads (TransferTrafficMessage_DecodeKey (str ''X'')) bs s (s\<lparr>tt_X := xs\<rparr>)"
  by (simp_all add: TransferTrafficMessage_DecodeKey_def reads_key_simps)

definition ObtainExitMessage_fields :: "ObtainExitMessage \<Rightarrow> (bytes \<times> bvalue) list list" where
  "ObtainExitMessage_fields m =
     [[(str ''B'', BList (map Policy_wire (oe_B m)))],
      [(str ''E'', BInt (oe_E m))],
      [(str ''I'', BStr (oe_I m))],
      [(str ''S'', BInt (im_S m))],
      [(str ''T'', BInt (oe_T m))],
      [(str ''V'', BInt (im_version m))],
      [(str ''W'', BList (map Policy_wire (oe_W m)))],
      [(str ''X'', BInt (oe_X m))],
      [(str ''Z'', BStr (oe_Z m))]]"

definition ObtainExitMessage_wire :: "ObtainExitMessage \<Rightarrow> bvalue" where
  "ObtainExitMessage_wire m = BDict (concat ([(str ''A'', BStr (str ''O''))] # ObtainExitMessage_fields m))"

lemma writes_ObtainExitMessage [entry_rules]: "writes (ObtainExitMessage_BEncode m) (encode (ObtainExitMessage_wire m))"
  unfolding ObtainExitMessage_BEncode_def ObtainExitMessage_wire_def
  by (rule writes_dict [OF _ refl], unfold ObtainExitMessage_fields_def list.map, (rule list.rel_intros entry_rules)+)

lemma ObtainExitMessage_keys:
  "reads (BEncodeReadList new_Policy Policy_BDecode) bs (oe_B s) ps \<Longrightarrow> reads (ObtainExitMessage_DecodeKey (str ''B'')) bs s (s\<lparr>oe_B := ps\<rparr>)"
  "reads (ObtainExitMessage_DecodeKey (str ''E'')) (encode (BInt i)) s (s\<lparr>oe_E := i\<rparr>)"
  "reads (AlignedBuffer_BDecode 32) bs (oe_I s) x \<Longrightarrow> reads (ObtainExitMessage_DecodeKey (str ''I'')) bs s (s\<lparr>oe_I := x\<rparr>)"
  "reads (ObtainExitMessage_DecodeKey (str ''S'')) (encode (BInt i)) s (s\<lparr>im_S := i\<rparr>)"
  "reads (ObtainExitMessage_DecodeKey (str ''T'')) (encode (BInt i)) s (s\<lparr>oe_T := i\<rparr>)"
  "reads (ObtainExitMessage_DecodeKey (str ''V'')) (encode (BInt i)) s (s\<lparr>im_version := i\<rparr>)"
  "reads (BEncodeReadList new_Policy Policy_BDecode) bs (oe_W s) ps \<Longrightarrow> reads (ObtainExitMessage_DecodeKey (str ''W'')) bs s (s\<lparr>oe_W := ps\<rparr>)"
  "reads (ObtainExitMessage_DecodeKey (str ''X'')) (encode (BInt i)) s (s\<lparr>oe_X := i\<rparr>)"
  "reads (AlignedBuffer_BDecode 64) bs (oe_Z s) x \<Longrightarrow> reads (ObtainExitMessage_DecodeKey (str ''Z'')) bs s (s\<lparr>oe_Z := x\<rparr>)"
  by (simp_all add: ObtainExitMessage_DecodeKey_def reads_key_simps)

definition GrantExitMessage_fields :: "GrantExitMessage \<Rightarrow> (bytes \<times> bvalue) list list" where
  "GrantExitMessage_fields m =
     [[(str ''S'', BInt (im_S m))],
      [(str ''T'', BInt (ge_T m))],
      [(str ''V'', BInt (im_version m))],
      [(str ''Y'', BStr (ge_Y m))],
      [(str ''Z'', BStr (ge_Z m))]]"

definition GrantExitMessage_wire :: "GrantExitMessage \<Rightarrow> bvalue" where
  "GrantExitMessage_wire m = BDict (concat ([(str ''A'', BStr (str ''G''))] # GrantExitMessage_fields m))"

lemma writes_GrantExitMessage [entry_rules]: "writes (GrantExitMessage_BEncode m) (encode (GrantExitMessage_wire m))"
  unfolding GrantExitMessage_BEncode_def GrantExitMessage_wire_def
  by (rule writes_dict [OF _ refl], unfold GrantExitMessage_fields_def list.map, (rule list.rel_intros entry_rules)+)

lemma GrantExitMessage_keys:
  "reads (GrantExitMessage_DecodeKey (str ''S'')) (encode (BInt i)) s (s\<lparr>im_S := i\<rparr>)"
  "reads (GrantExitMessage_DecodeKey (str ''T'')) (encode (BInt i)) s (s\<lparr>ge_T := i\<rparr>)"
  "reads (GrantExitMessage_DecodeKey (str ''V'')) (encode (BInt i)) s (s\<lparr>im_version := i\<rparr>)"
  "reads (AlignedBuffer_BDecode 16) bs (ge_Y s) x \<Longrightarrow> reads (GrantExitMessage_DecodeKey (str ''Y'')) bs s (s\<lparr>ge_Y := x\<rparr>)"
  "reads (AlignedBuffer_BDecode 64) bs (ge_Z s) x \<Longrightarrow> reads (GrantExitMessage_DecodeKey (str ''Z'')) bs s (s\<lparr>ge_Z := x\<rparr>)"
  by (simp_all add: GrantExitMessage_DecodeKey_def reads_key_simps)

definition RejectExitMessage_fields :: "RejectExitMessage \<Rightarrow> (bytes \<times> bvalue) list list" where
  "RejectExitMessage_fields m =
     [[(str ''B'', BInt (re_B m))],
      [(str ''R'', BList (map Policy_wire (re_R m)))],
      [(str ''S'', BInt (im_S m))],
      [(str ''T'', BInt (re_T m))],
      [(str ''V'', BInt (im_version m))],
      [(str ''Y'', BStr (re_Y m))],
      [(str ''Z'', BStr (re_Z m))]]"

definition RejectExitMessage_wire :: "RejectExitMessage \<Rightarrow> bvalue" where
  "RejectExitMessage_wire m = BDict (concat ([(str ''A'', BStr (str ''J''))] # RejectExitMessage_fields m))"

lemma writes_RejectExitMessage [entry_rules]: "writes (RejectExitMessage_BEncode m) (encode (RejectExitMessage_wire m))"
  unfolding RejectExitMessage_BEncode_def RejectExitMessage_wire_def
  by (rule writes_dict [OF _ refl], unfold RejectExitMessage_fields_def list.map, (rule list.rel_intros entry_rules)+)

lemma RejectExitMessage_keys:
  "reads (RejectExitMessage_DecodeKey (str ''B'')) (encode (BInt i)) s (s\<lparr>re_B := i\<rparr>)"
  "reads (BEncodeReadList new_Policy Policy_BDecode) bs (re_R s) ps \<Longrightarrow> reads (RejectExitMessage_DecodeKey (str ''R'')) bs s (s\<lparr>re_R := ps\<rparr>)"
  "reads (RejectExitMessage_DecodeKey (str ''S'')) (encode (BInt i)) s (s\<lparr>im_S := i\<rparr>)"
  "reads (RejectExitMessage_DecodeKey (str ''T'')) (encode (BInt i)) s (s\<lparr>re_T := i\<rparr>)"
  "reads (RejectExitMessage_DecodeKey (str ''V'')) (encode (BInt i)) s (s\<lparr>im_version := i\<rparr>)"
  "reads (AlignedBuffer_BDecode 16) bs (re_Y s) x \<Longrightarrow> reads (RejectExitMessage_DecodeKey (str ''Y'')) bs s (s\<lparr>re_Y := x\<rparr>)"
  "reads (AlignedBuffer_BDecode 64) bs (re_Z s) x \<Longrightarrow> reads (RejectExitMessage_DecodeKey (str ''Z'')) bs s (s\<lparr>re_Z := x\<rparr>)"
  by (simp_all add: RejectExitMessage_DecodeKey_def reads_key_simps)

definition UpdateExitMessage_fields :: "UpdateExitMessage \<Rightarrow> (bytes \<times> bvalue) list list" where
  "UpdateExitMessage_fields m =
     [[(str ''P'', BStr (ue_P m))],
      [(str ''S'', BInt (im_S m))],
      [(str ''T'', BInt (ue_T m))],
      [(str ''V'', BInt (im_version m))],
      [(str ''Z'', BStr (ue_Z m))]]"

definition UpdateExitMessage_wire :: "UpdateExitMessage \<Rightarrow> bvalue" where
  "UpdateExitMessage_wire m = BDict (concat ([(str ''A'', BStr (str ''V''))] # UpdateExitMessage_fields m))"

lemma writes_UpdateExitMessage [entry_rules]: "writes (UpdateExitMessage_BEncode m) (encode (UpdateExitMessage_wire m))"
  unfolding UpdateExitMessage_BEncode_def UpdateExitMessage_wire_def
  by (rule writes_dict [OF _ refl], unfold UpdateExitMessage_fields_def list.map, (rule list.rel_intros entry_rules)+)

lemma UpdateExitMessage_keys:
  "reads (UpdateExitMessage_DecodeKey (str ''S'')) (encode (BInt i)) s (s\<lparr>im_S := i\<rparr>)"
  "reads (UpdateExitMessage_DecodeKey (str ''T'')) (encode (BInt i)) s (s\<lparr>ue_T := i\<rparr>)"
  "reads (UpdateExitMessage_DecodeKey (str ''V'')) (encode (BInt i)) s (s\<lparr>im_version := i\<rparr>)"
  "reads (AlignedBuffer_BDecode 16) bs (ue_P s) x \<Longrightarrow> reads (UpdateExitMessage_DecodeKey (str ''P'')) bs s (s\<lparr>ue_P := x\<rparr>)"
  "reads (AlignedBuffer_BDecode 64) bs (ue_Z s) x \<Longrightarrow> reads (UpdateExitMessage_DecodeKey (str ''Z'')) bs s (s\<lparr>ue_Z := x\<rparr>)"
  by (simp_all add: UpdateExitMessage_DecodeKey_def reads_key_simps)

definition UpdateExitVerifyMessage_fields :: "UpdateExitVerifyMessage \<Rightarrow> (bytes \<times> bvalue) list list" where
  "UpdateExitVerifyMessage_fields m =
     [[(str ''S'', BInt (im_S m))],
      [(str ''T'', BInt (uv_T m))],
      [(str ''V'', BInt (im_version m))]]"

definition UpdateExitVerifyMessage_wire :: "UpdateExitVerifyMessage \<Rightarrow> bvalue" where
  "UpdateExitVerifyMessage_wire m = BDict (concat ([(str ''A'', BStr (str ''V''))] # UpdateExitVerifyMessage_fields m))"

lemma writes_UpdateExitVerifyMessage [entry_rules]: "writes (UpdateExitVerifyMessage_BEncode m) (encode (UpdateExitVerifyMessage_wire m))"
  unfolding UpdateExitVerifyMessage_BEncode_def UpdateExitVerifyMessage_wire_def
  by (rule writes_dict [OF _ refl], unfold UpdateExitVerifyMessage_fields_def list.map, (rule list.rel_intros entry_rules)+)

lemma UpdateExitVerifyMessage_keys:
  "reads (UpdateExitVerifyMessage_DecodeKey (str ''S'')) (encode (BInt i)) s (s\<lparr>im_S := i\<rparr>)"
  "reads (UpdateExitVerifyMessage_DecodeKey (str ''T'')) (encode (BInt i)) s (s\<lparr>uv_T := i\<rparr>)"
  "reads (UpdateExitVerifyMessage_DecodeKey (str ''V'')) (encode (BInt i)) s (s\<lparr>im_version := i\<rparr>)"
  by (simp_all add: UpdateExitVerifyMessage_DecodeKey_def reads_key_simps)

definition CloseExitMessage_fields :: "CloseExitMessage \<Rightarrow> (bytes \<times> bvalue) list list" where
  "CloseExitMessage_fields m =
     [[(str ''S'', BInt (im_S m))],
      [(str ''V'', BInt (im_version m))],
      [(str ''Y'', BStr (ce_Y m))],
      [(str ''Z'', BStr (ce_Z m))]]"

definition CloseExitMessage_wire :: "CloseExitMessage \<Rightarrow> bvalue" where
  "CloseExitMessage_wire m = BDict (concat ([(str ''A'', BStr (str ''C''))] # CloseExitMessage_fields m))"

lemma writes_CloseExitMessage [entry_rules]: "writes (CloseExitMessage_BEncode m) (encode (CloseExitMessage_wire m))"
  unfolding CloseExitMessage_BEncode_def CloseExitMessage_wire_def
  by (rule writes_dict [OF _ refl], unfold CloseExitMessage_fields_def list.map, (rule list.rel_intros entry_rules)+)

lemma CloseExitMessage_keys:
  "reads (CloseExitMessage_DecodeKey (str ''S'')) (encode (BInt i)) s (s\<lparr>im_S := i\<rparr>)"
  "reads (CloseExitMessage_DecodeKey (str ''V'')) (encode (BInt i)) s (s\<lparr>im_version := i\<rparr>)"
  "reads (AlignedBuffer_BDecode 16) bs (ce_Y s) x \<Longrightarrow> reads (CloseExitMessage_DecodeKey (str ''Y'')) bs s (s\<lparr>ce_Y := x\<rparr>)"
  "reads (AlignedBuffer_BDecode 64) bs (ce_Z s) x \<Longrightarrow> reads (CloseExitMessage_DecodeKey (str ''Z'')) bs s (s\<lparr>ce_Z := x\<rparr>)"
  by (simp_all add: CloseExitMessage_DecodeKey_def reads_key_simps)

section \<open>Reading a message back\<close>

text \<open>
  The sizes that the types of the fields impose, and what the reader needs of the object it
  decodes into: the fields that may be left out on the wire hold their default.
\<close>

definition ProtocolFrame_valid :: "ProtocolFrame \<Rightarrow> bool" where
  "ProtocolFrame_valid m \<longleftrightarrow> length (pf_C m) = 1048 \<and> length (pf_D m) \<le> 2048 \<and> length (pf_F m) = 16 \<and>
     length (pf_N m) = 32 \<and> length (pf_T m) = 16 \<and> length (pf_Z m) = 64 \<and> im_version m = 0"

definition ProtocolFrame_cleared :: "ProtocolFrame \<Rightarrow> bool" where
  "ProtocolFrame_cleared m \<longleftrightarrow> pf_C m = AlignedBuffer_Zero 1048 \<and> pf_D m = [] \<and> pf_N m = AlignedBuffer_Zero 32 \<and>
     pf_R m = 0 \<and> pf_T m = AlignedBuffer_Zero 16"

lemma IsZero_eq:
  "length x = n \<Longrightarrow> n mod 8 = 0 \<Longrightarrow> AlignedBuffer_IsZero x \<Longrightarrow> x = AlignedBuffer_Zero n"
proof -
  assume l: "length x = n" "n mod 8 = 0" and z: "AlignedBuffer_IsZero x"
  have "n div 8 * 8 = n" using l(2) by presburger
  then have "\<forall>b\<in>set x. b = 0" using z l(1) by (simp add: AlignedBuffer_IsZero_def list_all_iff)
  then show "x = AlignedBuffer_Zero n" using l(1) by (auto simp: AlignedBuffer_Zero_def intro: replicate_eqI)
qed

lemma DataDiscardMessage_steps:
  "length (dd_P m) = 16 \<Longrightarrow>
     key_steps DataDiscardMessage_DecodeKey s (concat (DataDiscardMessage_fields m)) (m\<lparr>im_from := im_from s\<rparr>)"
  unfolding DataDiscardMessage_fields_def concat.simps
  by (rule key_steps_append key_steps_single key_steps_Nil DataDiscardMessage_keys aligned_reads | simp)+

lemma PathLatencyMessage_steps:
  "pl_T s = 0 \<Longrightarrow> pl_L s = 0 \<Longrightarrow>
     key_steps PathLatencyMessage_DecodeKey s (concat (PathLatencyMessage_fields m))
       (m\<lparr>im_from := im_from s, im_version := im_version s\<rparr>)"
  unfolding PathLatencyMessage_fields_def concat.simps
  by (rule key_steps_append key_steps_single key_steps_Nil key_steps_if PathLatencyMessage_keys | simp)+

lemma PathConfirmMessage_steps:
  "key_steps PathConfirmMessage_DecodeKey s (concat (PathConfirmMessage_fields m)) (m\<lparr>im_from := im_from s\<rparr>)"
  unfolding PathConfirmMessage_fields_def concat.simps
  by (rule key_steps_append key_steps_single key_steps_Nil PathConfirmMessage_keys | simp)+

lemma ProtocolFrame_steps:
  assumes "ProtocolFrame_valid m" and "ProtocolFrame_cleared s"
  shows "key_steps ProtocolFrame_DecodeKey s (concat (ProtocolFrame_fields m)) (m\<lparr>im_from := im_from s, im_S := im_S s\<rparr>)"
proof -
  have len: "length (pf_C m) = 1048" "length (pf_D m) \<le> 2048" "length (pf_F m) = 16" "length (pf_N m) = 32"
    "length (pf_T m) = 16" "length (pf_Z m) = 64" "im_version m = 0"
    using assms(1) by (simp_all add: ProtocolFrame_valid_def)
  have zero: "AlignedBuffer_IsZero (pf_C m) \<Longrightarrow> pf_C m = pf_C s" "AlignedBuffer_IsZero (pf_N m) \<Longrightarrow> pf_N m = pf_N s"
    "AlignedBuffer_IsZero (pf_T m) \<Longrightarrow> pf_T m = pf_T s" "pf_D s = []" "pf_R s = 0"
    using IsZero_eq [OF len(1)] IsZero_eq [OF len(4)] IsZero_eq [OF len(5)] assms(2)
    by (simp_all add: ProtocolFrame_cleared_def)
  show ?thesis
    unfolding ProtocolFrame_fields_def concat.simps
    by (rule key_steps_append key_steps_single key_steps_Nil key_steps_if ProtocolFrame_keys aligned_reads len
        | simp add: zero len)+
qed

lemma ProtocolFrame_reads:
  assumes "ProtocolFrame_valid m" and "ProtocolFrame_cleared s"
  shows "reads ProtocolFrame_BDecode (encode (ProtocolFrame_wire m)) s (m\<lparr>im_from := im_from s, im_S := im_S s\<rparr>)"
  unfolding ProtocolFrame_BDecode_def ProtocolFrame_wire_def concat.simps(2)
  by (rule reads_dict, rule key_steps_append, rule key_steps_single, rule ProtocolFrame_keys)
    (rule ProtocolFrame_steps [OF assms])

definition PathTransferMessage_valid :: "PathTransferMessage \<Rightarrow> bool" where
  "PathTransferMessage_valid m \<longleftrightarrow> length (pt_P m) = 16 \<and> length (pt_Y m) = 32 \<and> ProtocolFrame_valid (pt_T m)"

lemma pt_T_update [simp]: "pt_T (im_S_update f (s :: PathTransferMessage)) = pt_T s" "pt_T (im_from_update g s) = pt_T s"
    "pt_T (im_version_update h s) = pt_T s"
  by (cases s, simp)+

lemma PathTransferMessage_steps:
  assumes "PathTransferMessage_valid m" and "ProtocolFrame_cleared (pt_T s)"
  shows "key_steps PathTransferMessage_DecodeKey s (concat (PathTransferMessage_fields m))
    (m\<lparr>im_from := im_from s, im_version := 0, pt_T := (pt_T m)\<lparr>im_from := im_from (pt_T s), im_S := im_S (pt_T s)\<rparr>\<rparr>)"
proof -
  have v: "length (pt_P m) = 16" "length (pt_Y m) = 32" "ProtocolFrame_valid (pt_T m)"
    using assms(1) by (simp_all add: PathTransferMessage_valid_def)
  show ?thesis
    unfolding PathTransferMessage_fields_def concat.simps
    by (rule key_steps_append key_steps_single key_steps_Nil PathTransferMessage_keys aligned_reads ProtocolFrame_reads v
        | simp add: assms(2) | (cases m, cases s, simp))+
qed

lemma TransferTrafficMessage_steps:
  "list_all (\<lambda>x. length x \<le> 1508) (tt_X m) \<Longrightarrow> tt_X s = [] \<Longrightarrow>
     key_steps TransferTrafficMessage_DecodeKey s (concat (TransferTrafficMessage_fields m))
       (m\<lparr>im_from := im_from s, tt_size := tt_size s\<rparr>)"
  unfolding TransferTrafficMessage_fields_def concat.simps
  by (rule key_steps_append key_steps_single key_steps_Nil TransferTrafficMessage_keys lists_read | simp)+

lemma ObtainExitMessage_steps:
  "length (oe_I m) = 32 \<Longrightarrow> length (oe_Z m) = 64 \<Longrightarrow> oe_B s = [] \<Longrightarrow> oe_W s = [] \<Longrightarrow>
     key_steps ObtainExitMessage_DecodeKey s (concat (ObtainExitMessage_fields m)) (m\<lparr>im_from := im_from s\<rparr>)"
  unfolding ObtainExitMessage_fields_def concat.simps
  by (rule key_steps_append key_steps_single key_steps_Nil ObtainExitMessage_keys aligned_reads lists_read | simp)+

lemma GrantExitMessage_steps:
  "length (ge_Y m) = 16 \<Longrightarrow> length (ge_Z m) = 64 \<Longrightarrow>
     key_steps GrantExitMessage_DecodeKey s (concat (GrantExitMessage_fields m)) (m\<lparr>im_from := im_from s\<rparr>)"
  unfolding GrantExitMessage_fields_def concat.simps
  by (rule key_steps_append key_steps_single key_steps_Nil GrantExitMessage_keys aligned_reads | simp)+

lemma RejectExitMessage_steps:
  "length (re_Y m) = 16 \<Longrightarrow> length (re_Z m) = 64 \<Longrightarrow> re_R s = [] \<Longrightarrow>
     key_steps RejectExitMessage_DecodeKey s (concat (RejectExitMessage_fields m)) (m\<lparr>im_from := im_from s\<rparr>)"
  unfolding RejectExitMessage_fields_def concat.simps
  by (rule key_steps_append key_steps_single key_steps_Nil RejectExitMessage_keys aligned_reads lists_read | simp)+

lemma CloseExitMessage_steps:
  "length (ce_Y m) = 16 \<Longrightarrow> length (ce_Z m) = 64 \<Longrightarrow>
     key_steps CloseExitMessage_DecodeKey s (concat (CloseExitMessage_fields m)) (m\<lparr>im_from := im_from s\<rparr>)"
  unfolding CloseExitMessage_fields_def concat.simps
  by (rule key_steps_append key_steps_single key_steps_Nil CloseExitMessage_keys aligned_reads | simp)+

end
