(* ===== verification/Routing_Parser.thy ===== *)
theory Routing_Parser
  imports Routing_Codec
begin

text \<open>
  The parser of routing messages, from \<^verbatim>\<open>llarp/routing/message_parser.cpp\<close>: it keeps one object of
  each kind of message, picks one by the first key of the dictionary, decodes into it, hands it
  to the handler and clears it. The reader and the writer of the messages of the distributed hash
  table, which travel in a list inside one of these, are parameters.
\<close>


section \<open>Messages and parser\<close>

record 'm dht_ops =
  d_DecodeMesssageList :: "'m list \<Rightarrow> llarp_buffer_t \<Rightarrow> 'm list res"
  d_BEncode :: "'m \<Rightarrow> writer"

record 'm DHTMessage = IMessage +
  dm_M :: "'m list"
  dm_V :: u64

definition DHTMessage_Clear :: "'m DHTMessage \<Rightarrow> 'm DHTMessage" where
  "DHTMessage_Clear m = m\<lparr>dm_M := [], dm_V := 0\<rparr>"

definition DHTMessage_BEncode :: "'m dht_ops \<Rightarrow> 'm DHTMessage \<Rightarrow> writer" where
  "DHTMessage_BEncode ops m = write_dict
     [BEncodeWriteDictMsgType (str ''A'') (str ''M''),
      BEncodeWriteDictBEncodeList (str ''M'') (map (d_BEncode ops) (dm_M m)),
      BEncodeWriteDictInt (str ''S'') (im_S m),
      BEncodeWriteDictInt (str ''V'') 0]"

definition DHTMessage_DecodeKey :: "'m dht_ops \<Rightarrow> bytes \<Rightarrow> 'm DHTMessage \<Rightarrow> llarp_buffer_t \<Rightarrow> 'm DHTMessage res" where
  "DHTMessage_DecodeKey ops key m val =
     (if starts_with key (str ''M'')
      then in_field dm_M (\<lambda>M m. m\<lparr>dm_M := M\<rparr>) (d_DecodeMesssageList ops) m val
      else if starts_with key (str ''S'') then with_integer m val (\<lambda>i val. ret True (m\<lparr>im_S := i\<rparr>) val)
      else if starts_with key (str ''V'') then with_integer m val (\<lambda>i val. ret True (m\<lparr>dm_V := i\<rparr>) val)
      else ret False m val)"

datatype 'm routing_message =
    MDiscard DataDiscardMessage
  | MLatency PathLatencyMessage
  | MDht "'m DHTMessage"
  | MConfirm PathConfirmMessage
  | MTransfer PathTransferMessage
  | MFrame ProtocolFrame
  | MTraffic TransferTrafficMessage
  | MGrant GrantExitMessage
  | MReject RejectExitMessage
  | MObtain ObtainExitMessage
  | MUpdate UpdateExitMessage
  | MClose CloseExitMessage

definition map_res :: "('s \<Rightarrow> 't) \<Rightarrow> 's res \<Rightarrow> 't res" where
  "map_res f r =
     (case r of None \<Rightarrow> None
      | Some (Inl x) \<Rightarrow> Some (Inl x)
      | Some (Inr (ok, s, buf)) \<Rightarrow> ret ok (f s) buf)"

fun msg_DecodeKey :: "'m dht_ops \<Rightarrow> bytes \<Rightarrow> 'm routing_message \<Rightarrow> llarp_buffer_t \<Rightarrow> 'm routing_message res" where
  "msg_DecodeKey ops key (MDiscard m) buf = map_res MDiscard (DataDiscardMessage_DecodeKey key m buf)"
| "msg_DecodeKey ops key (MLatency m) buf = map_res MLatency (PathLatencyMessage_DecodeKey key m buf)"
| "msg_DecodeKey ops key (MDht m) buf = map_res MDht (DHTMessage_DecodeKey ops key m buf)"
| "msg_DecodeKey ops key (MConfirm m) buf = map_res MConfirm (PathConfirmMessage_DecodeKey key m buf)"
| "msg_DecodeKey ops key (MTransfer m) buf = map_res MTransfer (PathTransferMessage_DecodeKey key m buf)"
| "msg_DecodeKey ops key (MFrame m) buf = map_res MFrame (ProtocolFrame_DecodeKey key m buf)"
| "msg_DecodeKey ops key (MTraffic m) buf = map_res MTraffic (TransferTrafficMessage_DecodeKey key m buf)"
| "msg_DecodeKey ops key (MGrant m) buf = map_res MGrant (GrantExitMessage_DecodeKey key m buf)"
| "msg_DecodeKey ops key (MReject m) buf = map_res MReject (RejectExitMessage_DecodeKey key m buf)"
| "msg_DecodeKey ops key (MObtain m) buf = map_res MObtain (ObtainExitMessage_DecodeKey key m buf)"
| "msg_DecodeKey ops key (MUpdate m) buf = map_res MUpdate (UpdateExitMessage_DecodeKey key m buf)"
| "msg_DecodeKey ops key (MClose m) buf = map_res MClose (CloseExitMessage_DecodeKey key m buf)"

fun msg_Clear :: "'m routing_message \<Rightarrow> 'm routing_message" where
  "msg_Clear (MDiscard m) = MDiscard (DataDiscardMessage_Clear m)"
| "msg_Clear (MLatency m) = MLatency (PathLatencyMessage_Clear m)"
| "msg_Clear (MDht m) = MDht (DHTMessage_Clear m)"
| "msg_Clear (MConfirm m) = MConfirm (PathConfirmMessage_Clear m)"
| "msg_Clear (MTransfer m) = MTransfer (PathTransferMessage_Clear m)"
| "msg_Clear (MFrame m) = MFrame (ProtocolFrame_Clear m)"
| "msg_Clear (MTraffic m) = MTraffic (TransferTrafficMessage_Clear m)"
| "msg_Clear (MGrant m) = MGrant (GrantExitMessage_Clear m)"
| "msg_Clear (MReject m) = MReject (RejectExitMessage_Clear m)"
| "msg_Clear (MObtain m) = MObtain (ObtainExitMessage_Clear m)"
| "msg_Clear (MUpdate m) = MUpdate (UpdateExitMessage_Clear m)"
| "msg_Clear (MClose m) = MClose (CloseExitMessage_Clear m)"

fun msg_BEncode :: "'m dht_ops \<Rightarrow> 'm routing_message \<Rightarrow> writer" where
  "msg_BEncode ops (MDiscard m) = DataDiscardMessage_BEncode m"
| "msg_BEncode ops (MLatency m) = PathLatencyMessage_BEncode m"
| "msg_BEncode ops (MDht m) = DHTMessage_BEncode ops m"
| "msg_BEncode ops (MConfirm m) = PathConfirmMessage_BEncode m"
| "msg_BEncode ops (MTransfer m) = PathTransferMessage_BEncode m"
| "msg_BEncode ops (MFrame m) = ProtocolFrame_BEncode m"
| "msg_BEncode ops (MTraffic m) = TransferTrafficMessage_BEncode m"
| "msg_BEncode ops (MGrant m) = GrantExitMessage_BEncode m"
| "msg_BEncode ops (MReject m) = RejectExitMessage_BEncode m"
| "msg_BEncode ops (MObtain m) = ObtainExitMessage_BEncode m"
| "msg_BEncode ops (MUpdate m) = UpdateExitMessage_BEncode m"
| "msg_BEncode ops (MClose m) = CloseExitMessage_BEncode m"

text \<open>The members \<^verbatim>\<open>version\<close> and \<^verbatim>\<open>from\<close> that all messages have.\<close>

fun msg_version :: "u64 \<Rightarrow> 'm routing_message \<Rightarrow> 'm routing_message" where
  "msg_version v (MDiscard m) = MDiscard (m\<lparr>im_version := v\<rparr>)"
| "msg_version v (MLatency m) = MLatency (m\<lparr>im_version := v\<rparr>)"
| "msg_version v (MDht m) = MDht (m\<lparr>im_version := v\<rparr>)"
| "msg_version v (MConfirm m) = MConfirm (m\<lparr>im_version := v\<rparr>)"
| "msg_version v (MTransfer m) = MTransfer (m\<lparr>im_version := v\<rparr>)"
| "msg_version v (MFrame m) = MFrame (m\<lparr>im_version := v\<rparr>)"
| "msg_version v (MTraffic m) = MTraffic (m\<lparr>im_version := v\<rparr>)"
| "msg_version v (MGrant m) = MGrant (m\<lparr>im_version := v\<rparr>)"
| "msg_version v (MReject m) = MReject (m\<lparr>im_version := v\<rparr>)"
| "msg_version v (MObtain m) = MObtain (m\<lparr>im_version := v\<rparr>)"
| "msg_version v (MUpdate m) = MUpdate (m\<lparr>im_version := v\<rparr>)"
| "msg_version v (MClose m) = MClose (m\<lparr>im_version := v\<rparr>)"

fun msg_from :: "bytes \<Rightarrow> 'm routing_message \<Rightarrow> 'm routing_message" where
  "msg_from a (MDiscard m) = MDiscard (m\<lparr>im_from := a\<rparr>)"
| "msg_from a (MLatency m) = MLatency (m\<lparr>im_from := a\<rparr>)"
| "msg_from a (MDht m) = MDht (m\<lparr>im_from := a\<rparr>)"
| "msg_from a (MConfirm m) = MConfirm (m\<lparr>im_from := a\<rparr>)"
| "msg_from a (MTransfer m) = MTransfer (m\<lparr>im_from := a\<rparr>)"
| "msg_from a (MFrame m) = MFrame (m\<lparr>im_from := a\<rparr>)"
| "msg_from a (MTraffic m) = MTraffic (m\<lparr>im_from := a\<rparr>)"
| "msg_from a (MGrant m) = MGrant (m\<lparr>im_from := a\<rparr>)"
| "msg_from a (MReject m) = MReject (m\<lparr>im_from := a\<rparr>)"
| "msg_from a (MObtain m) = MObtain (m\<lparr>im_from := a\<rparr>)"
| "msg_from a (MUpdate m) = MUpdate (m\<lparr>im_from := a\<rparr>)"
| "msg_from a (MClose m) = MClose (m\<lparr>im_from := a\<rparr>)"

text \<open>\<^verbatim>\<open>msg\<close> points into the holder, so it is the key of the message there.\<close>

record 'm InboundMessageParser =
  mp_version :: u64
  mp_firstKey :: bool
  mp_ourKey :: byte
  mp_msg :: "byte option"
  mp_Holder :: "byte \<rightharpoonup> 'm routing_message"

definition message_ids :: bytes where
  "message_ids = str ''DLMPTHIGJOUC''"

text \<open>
  The objects of a new parser. The holder is value-initialised, so the members that have no
  initialiser are zero, the protocol of the traffic message too, which \<^verbatim>\<open>Clear\<close> sets to 1.
\<close>

definition new_ProtocolFrame :: ProtocolFrame where
  "new_ProtocolFrame = \<lparr>im_from = AlignedBuffer_Zero 16, im_S = 0, im_version = 0, pf_C = AlignedBuffer_Zero 1048, pf_D = [], pf_R = 0, pf_N = AlignedBuffer_Zero 32,
     pf_Z = AlignedBuffer_Zero 64, pf_F = AlignedBuffer_Zero 16, pf_T = AlignedBuffer_Zero 16\<rparr>"

definition new_MessageHolder :: "byte \<rightharpoonup> 'm routing_message" where
  "new_MessageHolder = map_of
     [(0x44, MDiscard \<lparr>im_from = AlignedBuffer_Zero 16, im_S = 0, im_version = 0, dd_P = AlignedBuffer_Zero 16\<rparr>),
      (0x4C, MLatency \<lparr>im_from = AlignedBuffer_Zero 16, im_S = 0, im_version = 0, pl_T = 0, pl_L = 0\<rparr>),
      (0x4D, MDht \<lparr>im_from = AlignedBuffer_Zero 16, im_S = 0, im_version = 0, dm_M = [], dm_V = 0\<rparr>),
      (0x50, MConfirm \<lparr>im_from = AlignedBuffer_Zero 16, im_S = 0, im_version = 0, pc_pathLifetime = 0, pc_pathCreated = 0\<rparr>),
      (0x54, MTransfer \<lparr>im_from = AlignedBuffer_Zero 16, im_S = 0, im_version = 0, pt_P = AlignedBuffer_Zero 16, pt_T = new_ProtocolFrame, pt_Y = AlignedBuffer_Zero 32\<rparr>),
      (0x48, MFrame new_ProtocolFrame),
      (0x49, MTraffic \<lparr>im_from = AlignedBuffer_Zero 16, im_S = 0, im_version = 0, tt_X = [], tt_protocol = 0, tt_size = 0\<rparr>),
      (0x47, MGrant \<lparr>im_from = AlignedBuffer_Zero 16, im_S = 0, im_version = 0, ge_T = 0, ge_Y = AlignedBuffer_Zero 16, ge_Z = AlignedBuffer_Zero 64\<rparr>),
      (0x4A, MReject \<lparr>im_from = AlignedBuffer_Zero 16, im_S = 0, im_version = 0, re_B = 0, re_R = [], re_T = 0, re_Y = AlignedBuffer_Zero 16, re_Z = AlignedBuffer_Zero 64\<rparr>),
      (0x4F, MObtain \<lparr>im_from = AlignedBuffer_Zero 16, im_S = 0, im_version = 0, oe_B = [], oe_E = 0, oe_I = AlignedBuffer_Zero 32, oe_T = 0, oe_W = [],
          oe_X = 0, oe_Z = AlignedBuffer_Zero 64\<rparr>),
      (0x55, MUpdate \<lparr>im_from = AlignedBuffer_Zero 16, im_S = 0, im_version = 0, ue_P = AlignedBuffer_Zero 16, ue_T = 0, ue_Y = AlignedBuffer_Zero 16, ue_Z = AlignedBuffer_Zero 64\<rparr>),
      (0x43, MClose \<lparr>im_from = AlignedBuffer_Zero 16, im_S = 0, im_version = 0, ce_Y = AlignedBuffer_Zero 16, ce_Z = AlignedBuffer_Zero 64\<rparr>)]"

definition new_InboundMessageParser :: "'m InboundMessageParser" where
  "new_InboundMessageParser =
     \<lparr>mp_version = 0, mp_firstKey = False, mp_ourKey = 0, mp_msg = None, mp_Holder = new_MessageHolder\<rparr>"

text \<open>\<^verbatim>\<open>operator()\<close>, the sink of the dictionary.\<close>

definition parser_key :: "'m dht_ops \<Rightarrow> 'm InboundMessageParser \<Rightarrow> llarp_buffer_t \<Rightarrow> bytes option \<Rightarrow> 'm InboundMessageParser res" where
  "parser_key ops p buffer key =
     (case key of
        None \<Rightarrow> ret (\<not> mp_firstKey p) p buffer
      | Some key \<Rightarrow>
          if mp_firstKey p then
            (if \<not> starts_with key (str ''A'') then ret False p buffer
             else with_string p buffer (\<lambda>strbuf buffer.
               if length strbuf \<noteq> 1 then ret False p buffer
               else (let ourKey = hd strbuf;
                         msg = (if ourKey \<in> set message_ids then Some ourKey else mp_msg p);
                         holder = (case msg of None \<Rightarrow> mp_Holder p
                                   | Some k \<Rightarrow> (mp_Holder p)(k := map_option (msg_version (mp_version p)) (mp_Holder p k)))
                     in ret (msg \<noteq> None)
                          (p\<lparr>mp_ourKey := ourKey, mp_msg := msg, mp_Holder := holder, mp_firstKey := False\<rparr>) buffer)))
          else
            (case mp_msg p of
               None \<Rightarrow> Some (Inl AssertFailed)
             | Some k \<Rightarrow>
                 (case mp_Holder p k of
                    None \<Rightarrow> Some (Inl AssertFailed)
                  | Some m \<Rightarrow> map_res (\<lambda>m. p\<lparr>mp_Holder := (mp_Holder p)(k \<mapsto> m)\<rparr>) (msg_DecodeKey ops key m buffer))))"

text \<open>
  \<open>handler\<close> is what the handler and the router answer to a message. The second part of the
  result is the message that was handed over.
\<close>

definition ParseMessageBuffer ::
    "'m dht_ops \<Rightarrow> ('m routing_message \<Rightarrow> bool) \<Rightarrow> bytes \<Rightarrow> llarp_buffer_t \<Rightarrow> 'm InboundMessageParser \<Rightarrow>
       (exn + bool \<times> 'm routing_message option \<times> 'm InboundMessageParser) option" where
  "ParseMessageBuffer ops handler from buf p =
     (let p = p\<lparr>mp_msg := None, mp_firstKey := True\<rparr> in
      case BEncodeSeekDictVersion 0 buf 0x56 of
        None \<Rightarrow> None
      | Some (Inl x) \<Rightarrow> Some (Inl x)
      | Some (Inr (ok, v, copy)) \<Rightarrow>
          (case bencode_read_dict (parser_key ops) (if ok then p\<lparr>mp_version := v\<rparr> else p) copy of
             None \<Rightarrow> None
           | Some (Inl x) \<Rightarrow> Some (Inl x)
           | Some (Inr (ok, p, _)) \<Rightarrow>
               (case mp_msg p of
                  None \<Rightarrow>
                    if ok then Some (Inl AssertFailed) else Some (Inr (False, None, p\<lparr>mp_version := 0\<rparr>))
                | Some k \<Rightarrow>
                    (case mp_Holder p k of
                       None \<Rightarrow> Some (Inl AssertFailed)
                     | Some m \<Rightarrow>
                         (let m = (if ok then msg_from from m else m)
                          in Some (Inr (ok \<and> handler m, if ok then Some m else None,
                               p\<lparr>mp_Holder := (mp_Holder p)(k \<mapsto> msg_Clear m), mp_msg := None, mp_version := 0\<rparr>)))))))"

end
