(* ===== verification/Routing_Safety.thy ===== *)
theory Routing_Safety
  imports Routing_Parser
begin

text \<open>
  The parser of routing messages on arbitrary input: every reader it calls comes back without
  leaving the buffer, and between two messages the members that \<^verbatim>\<open>Clear\<close> resets have their initial
  values in every object of the holder.
\<close>


section \<open>Readers that come back\<close>

definition steady :: "('s \<Rightarrow> llarp_buffer_t \<Rightarrow> 's res) \<Rightarrow> bool" where
  "steady get \<longleftrightarrow> (\<forall>s buf. cur buf \<le> length (base buf) \<longrightarrow> moves buf (get s buf))"

text \<open>A reader that consumes something when it succeeds.\<close>

definition eager :: "('s \<Rightarrow> llarp_buffer_t \<Rightarrow> 's res) \<Rightarrow> bool" where
  "eager get \<longleftrightarrow> (\<forall>s buf. cur buf \<le> length (base buf) \<longrightarrow> moves_on buf (get s buf))"

named_theorems steady_rules \<open>readers that come back\<close>

lemma steadyI: "(\<And>s buf. cur buf \<le> length (base buf) \<Longrightarrow> moves buf (get s buf)) \<Longrightarrow> steady get"
  by (simp add: steady_def)

lemma steadyD: "steady get \<Longrightarrow> cur buf \<le> length (base buf) \<Longrightarrow> moves buf (get s buf)"
  by (simp add: steady_def del: split_paired_All)

lemma eager_steady [steady_rules]: "eager get \<Longrightarrow> steady get"
  by (simp add: steady_def eager_def moves_on_def)

lemma moves_cases:
  assumes "moves buf r"
  obtains "r = Some (Inl OutOfBounds)"
  | ok s b where "r = ret ok s b" "base b = base buf" "cur buf \<le> cur b" "cur b \<le> length (base b)"
  using assms by (auto simp: moves_def split: option.splits sum.splits prod.splits)

lemma moves_ret [simp]:
  "moves buf (ret ok s b) \<longleftrightarrow> base b = base buf \<and> cur buf \<le> cur b \<and> cur b \<le> length (base buf)"
  "moves buf (Some (Inl x)) \<longleftrightarrow> x = OutOfBounds"
  by (auto simp: moves_def)

lemma moves_trans: "moves b r \<Longrightarrow> base b = base buf \<Longrightarrow> cur buf \<le> cur b \<Longrightarrow> moves buf r"
  by (erule moves_cases) simp_all

lemma moves_and_then:
  assumes "moves buf r" and "\<And>s b. base b = base buf \<Longrightarrow> cur b \<le> length (base b) \<Longrightarrow> moves b (f s b)"
  shows "moves buf (and_then r f)"
  using assms(1)
proof (cases rule: moves_cases)
  case (2 ok s b)
  then show ?thesis using moves_trans [OF assms(2) [of b s], where buf = buf] by (simp add: and_then_def)
qed (simp add: and_then_def)

lemma moves_map: "moves buf (map_res f r) = moves buf r"
  by (auto simp: moves_def map_res_def split: option.splits sum.splits prod.splits)

lemma with_integer_moves:
  assumes "cur buf \<le> length (base buf)" and "\<And>i b. base b = base buf \<Longrightarrow> cur b \<le> length (base b) \<Longrightarrow> moves b (f i b)"
  shows "moves buf (with_integer s buf f)"
proof -
  note m = read_integer_moves [OF refl assms(1)]
  show ?thesis
  proof (cases "bencode_read_integer buf")
    case (Inl x)
    then show ?thesis using m by (simp add: with_integer_def moves_on_def)
  next
    case (Inr y)
    obtain r b where y: "y = (r, b)" by fastforce
    have b: "base b = base buf" "cur buf \<le> cur b" "cur b \<le> length (base buf)"
      using m Inr y by (simp_all add: moves_on_def)
    show ?thesis using Inr y b moves_trans [OF assms(2) [of b "the r"], where buf = buf]
      by (cases r) (simp_all add: with_integer_def)
  qed
qed

lemma with_string_moves:
  assumes "cur buf \<le> length (base buf)" and "\<And>t b. base b = base buf \<Longrightarrow> cur b \<le> length (base b) \<Longrightarrow> moves b (f t b)"
  shows "moves buf (with_string s buf f)"
proof -
  obtain r b where y: "bencode_read_string buf = (r, b)" by fastforce
  then have b: "base b = base buf" "cur buf \<le> cur b" "cur b \<le> length (base buf)"
    using read_string_moves [OF y assms(1)] by simp_all
  show ?thesis using y b moves_trans [OF assms(2) [of b "the r"], where buf = buf]
    by (cases r) (simp_all add: with_string_def)
qed

lemma steady_aligned [steady_rules]: "steady (AlignedBuffer_BDecode n)"
proof (rule steadyI)
  fix x and buf :: llarp_buffer_t
  assume c: "cur buf \<le> length (base buf)"
  obtain r b where y: "bencode_read_string buf = (r, b)" by fastforce
  show "moves buf (AlignedBuffer_BDecode n x buf)"
    using read_string_moves [OF y c]
    by (cases r) (simp_all add: y AlignedBuffer_BDecode_def AlignedBuffer_FromBytestring_def)
qed

lemma eager_encrypted [steady_rules]: "eager (Encrypted_BDecode n)"
proof -
  have "moves_on buf (Encrypted_BDecode n x buf)" if c: "cur buf \<le> length (base buf)" for x buf
  proof -
    obtain r b where y: "bencode_read_string buf = (r, b)" by fastforce
    show ?thesis using read_string_moves [OF y c]
      by (cases r) (simp_all add: y Encrypted_BDecode_def moves_on_def)
  qed
  then show ?thesis by (simp add: eager_def)
qed

lemma steady_in_field [steady_rules]:
  assumes "steady get"
  shows "steady (in_field sel put get)"
proof (rule steadyI)
  fix s and buf :: llarp_buffer_t
  assume "cur buf \<le> length (base buf)"
  then have "moves buf (get (sel s) buf)" using assms by (simp add: steady_def)
  then show "moves buf (in_field sel put get s buf)"
    by (cases rule: moves_cases) (simp_all add: in_field_def)
qed

lemma steady_entry [steady_rules]:
  assumes "steady get"
  shows "steady (BEncodeMaybeReadDictEntry k get key)" "steady (BEncodeMaybeReadDictList k get key)"
proof -
  have "moves buf (BEncodeMaybeReadDictEntry k get key rs buf)" if c: "cur buf \<le> length (base buf)" for rs buf
  proof -
    have "moves buf (get (snd rs) buf)" using assms c by (simp add: steady_def)
    then show ?thesis by (cases rule: moves_cases) (simp_all add: BEncodeMaybeReadDictEntry_def c)
  qed
  then show "steady (BEncodeMaybeReadDictEntry k get key)" "steady (BEncodeMaybeReadDictList k get key)"
    by (simp_all add: steady_def BEncodeMaybeReadDictList_def)
qed

lemma maybe_int_with:
  "BEncodeMaybeReadDictInt k upd key rs buf =
     (if starts_with key k then with_integer rs buf (\<lambda>i buf. ret True (True, upd i (snd rs)) buf) else ret True rs buf)"
  by (simp add: BEncodeMaybeReadDictInt_def with_integer_def split: sum.splits option.splits prod.splits)

lemma maybe_version_with:
  "BEncodeMaybeVerifyVersion k upd expect key rs buf =
     (if starts_with key k then with_integer rs buf (\<lambda>i buf. ret True (i = expect, upd i (snd rs)) buf) else ret True rs buf)"
  by (simp add: BEncodeMaybeVerifyVersion_def with_integer_def split: sum.splits option.splits prod.splits)

lemma steady_int [steady_rules]: "steady (BEncodeMaybeReadDictInt k upd key)" "steady (BEncodeMaybeVerifyVersion k upd expect key)"
  by (rule steadyI, auto simp: maybe_int_with maybe_version_with intro!: with_integer_moves)+

lemma steady_chain [steady_rules]:
  assumes "list_all steady ms"
  shows "steady (read_chain ms)"
proof (rule steadyI)
  fix rs and buf :: llarp_buffer_t
  show "cur buf \<le> length (base buf) \<Longrightarrow> moves buf (read_chain ms rs buf)"
    using assms
  proof (induction ms arbitrary: rs buf)
    case (Cons m ms)
    then have "moves buf (m rs buf)" by (simp add: steadyD)
    then show ?case unfolding read_chain.simps by (rule moves_and_then) (use Cons.IH Cons.prems(2) in simp)
  qed simp
qed

lemma steady_keys [steady_rules]:
  assumes "list_all steady ms"
  shows "steady (read_keys ms)"
proof (rule steadyI)
  fix s and buf :: llarp_buffer_t
  assume "cur buf \<le> length (base buf)"
  from steadyD [OF steady_chain [OF assms] this, of "(False, s)"] show "moves buf (read_keys ms s buf)"
    by (cases rule: moves_cases) (simp_all add: read_keys_def)
qed


section \<open>Lists and dictionaries of such readers\<close>

text \<open>A result that comes back with a state that has a property, given whether it is a success.\<close>

definition keeps :: "(bool \<Rightarrow> 's \<Rightarrow> bool) \<Rightarrow> llarp_buffer_t \<Rightarrow> 's res \<Rightarrow> bool" where
  "keeps P buf r \<longleftrightarrow> moves buf r \<and> (\<forall>ok s b. r = ret ok s b \<longrightarrow> P ok s)"

lemma keeps_ret [simp]:
  "keeps P buf (ret ok s b) \<longleftrightarrow> P ok s \<and> base b = base buf \<and> cur buf \<le> cur b \<and> cur b \<le> length (base buf)"
  "keeps P buf (Some (Inl x)) \<longleftrightarrow> x = OutOfBounds"
  by (auto simp: keeps_def)

lemma keeps_trans: "keeps P b r \<Longrightarrow> base b = base buf \<Longrightarrow> cur buf \<le> cur b \<Longrightarrow> keeps P buf r"
  unfolding keeps_def using moves_trans by blast

lemma keeps_cases:
  assumes "keeps P buf r"
  obtains "r = Some (Inl OutOfBounds)"
  | ok s b where "r = ret ok s b" "P ok s" "base b = base buf" "cur buf \<le> cur b" "cur b \<le> length (base b)"
  using assms unfolding keeps_def by (metis moves_cases)

lemma read_dict_loop_keeps:
  assumes "\<And>s b k. P True s \<Longrightarrow> cur b \<le> length (base b) \<Longrightarrow> keeps P b (sink s b (Some k))"
    and imp: "\<And>s. P True s \<Longrightarrow> P False s" and "P True s" and "cur buf \<le> length (base buf)"
  shows "keeps P buf (read_dict_loop sink s buf)"
  using assms(3,4)
proof (induction "size_left buf" arbitrary: s buf rule: less_induct)
  case less
  obtain r b where b: "bencode_read_string buf = (r, b)" by fastforce
  have b': "base b = base buf" "cur buf \<le> cur b" "cur b \<le> length (base b)" "r \<noteq> None \<Longrightarrow> cur buf < cur b"
    using read_string_moves [OF b less.prems(2)] by simp_all
  show ?case
  proof (cases "size_left buf \<noteq> 0 \<and> base buf ! cur buf \<noteq> 0x65 \<and> r \<noteq> None")
    case True
    then obtain k where k: "r = Some k" by blast
    have "keeps P b (sink s b (Some k))" using assms(1) less.prems(1) b'(3) .
    then show ?thesis
    proof (cases rule: keeps_cases)
      case 1
      then show ?thesis using True b k by (subst read_dict_loop.simps) simp
    next
      case (2 ok t d)
      then have d: "base d = base buf" "cur buf < cur d" "cur d \<le> length (base d)" using b' k by simp_all
      show ?thesis
      proof (cases ok)
        case True
        have "size_left d < size_left buf" using d by (simp add: size_left_def)
        then have "keeps P d (read_dict_loop sink t d)" by (rule less.hyps) (use 2 d True in simp_all)
        from keeps_trans [OF this d(1)] show ?thesis
          using \<open>_ \<and> _ \<and> r \<noteq> None\<close> b k 2(1) d True by (subst read_dict_loop.simps) simp
      next
        case False
        then show ?thesis
          using \<open>_ \<and> _ \<and> r \<noteq> None\<close> b k 2 d by (subst read_dict_loop.simps) simp
      qed
    qed
  next
    case False
    then show ?thesis using less.prems b b' imp by (subst read_dict_loop.simps) auto
  qed
qed

lemma read_end_keeps:
  assumes "keeps P b r" and "base b = base buf" and "cur buf < cur b"
    and "\<And>s b. P True s \<Longrightarrow> cur b \<le> length (base b) \<Longrightarrow> keeps Q b (fin s b)" and "\<And>ok s. P ok s \<Longrightarrow> Q False s"
  shows "keeps Q buf (and_then r (read_end fin))"
  using assms(1)
proof (cases rule: keeps_cases)
  case (2 ok s d)
  show ?thesis
  proof (cases "ok \<and> size_left d \<noteq> 0 \<and> base d ! cur d = 0x65")
    case True
    let ?d = "d\<lparr>cur := cur d + 1\<rparr>"
    have "cur ?d \<le> length (base ?d)" using True by (simp add: size_left_def)
    then have "keeps Q ?d (fin s ?d)" using assms(4) 2 True by auto
    from keeps_trans [OF this, of buf] show ?thesis using True 2 assms(2,3) by (simp add: and_then_def read_end_def)
  next
    case False
    then show ?thesis using 2 assms(2,3,5) by (auto simp: and_then_def read_end_def)
  qed
qed (simp add: and_then_def)

lemma read_dict_keeps:
  assumes "\<And>s b k. P True s \<Longrightarrow> cur b \<le> length (base b) \<Longrightarrow> keeps P b (sink s b (Some k))"
    and "\<And>s b. P True s \<Longrightarrow> cur b \<le> length (base b) \<Longrightarrow> keeps Q b (sink s b None)"
    and "\<And>s. P True s \<Longrightarrow> P False s" and "\<And>ok s. P ok s \<Longrightarrow> Q False s"
    and "P True s" and "cur buf \<le> length (base buf)"
  shows "keeps Q buf (bencode_read_dict sink s buf)"
proof (cases "size_left buf < 2 \<or> base buf ! cur buf \<noteq> 0x64")
  case True
  then show ?thesis using assms(4-6) by (auto simp: bencode_read_dict_def)
next
  case False
  let ?next = "buf\<lparr>cur := cur buf + 1\<rparr>"
  have "cur ?next \<le> length (base ?next)" using False by (auto simp: size_left_def)
  then have "keeps P ?next (read_dict_loop sink s ?next)" by (intro read_dict_loop_keeps assms(1,3,5))
  from read_end_keeps [OF this, of buf Q "\<lambda>s b. sink s b None"] show ?thesis
    using False assms(2,4) by (simp add: bencode_read_dict_def)
qed

text \<open>A dictionary that has been read has at least its two marks.\<close>

lemma eager_dict [steady_rules]:
  assumes "\<And>k. steady (D k)"
  shows "eager (bencode_decode_dict D)"
proof -
  have "moves_on buf (bencode_decode_dict D s buf)" if c: "cur buf \<le> length (base buf)" for s buf
  proof (cases "size_left buf < 2 \<or> base buf ! cur buf \<noteq> 0x64")
    case True
    then show ?thesis using c by (auto simp: bencode_decode_dict_def bencode_read_dict_def moves_on_def)
  next
    case False
    let ?sink = "\<lambda>s buffer key. case key of None \<Rightarrow> ret True s buffer | Some key \<Rightarrow> D key s buffer"
    let ?next = "buf\<lparr>cur := cur buf + 1\<rparr>"
    have n: "cur ?next \<le> length (base ?next)" using False by (auto simp: size_left_def)
    have "moves ?next (read_dict_loop ?sink s ?next)"
      by (rule read_dict_loop_moves) (use assms n in \<open>simp_all add: steady_def\<close>)
    from moves_and_end [OF this, of buf "\<lambda>s b. ?sink s b None"] show ?thesis
      using False by (simp add: bencode_decode_dict_def bencode_read_dict_def)
  qed
  then show ?thesis by (simp add: eager_def)
qed

lemma steady_list [steady_rules]:
  assumes "eager get"
  shows "steady (BEncodeReadList fresh get)"
proof (rule steadyI)
  fix s and buf :: llarp_buffer_t
  assume c: "cur buf \<le> length (base buf)"
  let ?sink = "\<lambda>result buffer has. if has then map_res (\<lambda>item. result @ [item]) (get fresh buffer) else ret True result buffer"
  have sink: "moves_on b (?sink t b True)" if "cur b \<le> length (base b)" for t b
  proof -
    have "moves_on b (get fresh b)" using assms that by (simp add: eager_def)
    then show ?thesis by (auto simp: moves_on_def moves_map, auto simp: map_res_def split: option.splits sum.splits)
  qed
  have eq: "BEncodeReadList fresh get s buf = bencode_read_list ?sink s buf"
    unfolding BEncodeReadList_def map_res_def by (rule refl)
  show "moves buf (BEncodeReadList fresh get s buf)"
  proof (cases "size_left buf < 2 \<or> base buf ! cur buf \<noteq> 0x6C")
    case True
    then show ?thesis using c by (auto simp: eq bencode_read_list_def)
  next
    case False
    let ?next = "buf\<lparr>cur := cur buf + 1\<rparr>"
    have n: "cur ?next \<le> length (base ?next)" using False by (auto simp: size_left_def)
    have "moves ?next (read_list_loop ?sink s ?next)"
      by (rule read_list_loop_moves) (use sink n in \<open>auto simp: size_left_def\<close>)
    from moves_and_end [OF this, of buf "\<lambda>s b. ?sink s b False"] show ?thesis
      using False by (simp add: eq bencode_read_list_def moves_on_def)
  qed
qed

lemma steady_policy [steady_rules]: "eager Policy_BDecode"
  unfolding Policy_BDecode_def Policy_DecodeKey_def
  by (rule steady_rules | simp add: steady_rules)+


section \<open>The messages\<close>

lemma steady_messages [steady_rules]:
  "steady (DataDiscardMessage_DecodeKey key)" "steady (PathLatencyMessage_DecodeKey key)"
  "steady (PathConfirmMessage_DecodeKey key)"
  "steady (ObtainExitMessage_DecodeKey key)" "steady (GrantExitMessage_DecodeKey key)"
  "steady (RejectExitMessage_DecodeKey key)" "steady (UpdateExitMessage_DecodeKey key)"
  "steady (CloseExitMessage_DecodeKey key)"
  unfolding DataDiscardMessage_DecodeKey_def PathLatencyMessage_DecodeKey_def PathConfirmMessage_DecodeKey_def
    ObtainExitMessage_DecodeKey_def GrantExitMessage_DecodeKey_def
    RejectExitMessage_DecodeKey_def UpdateExitMessage_DecodeKey_def CloseExitMessage_DecodeKey_def
  by (rule steady_keys, simp add: steady_rules)+

lemma steady_discard: "cur buf \<le> length (base buf) \<Longrightarrow> moves buf (bencode_discard buf)"
  using discard_moves by blast

lemma moves_skip_key:
  assumes "moves buf r"
  shows "moves buf (case r of
        None \<Rightarrow> None
      | Some (Inl x) \<Rightarrow> Some (Inl x)
      | Some (Inr (ok, rs, buf)) \<Rightarrow>
          if \<not> ok then ret False (snd rs) buf
          else if fst rs then ret True (snd rs) buf
          else (case bencode_discard buf of
                  None \<Rightarrow> None
                | Some (Inl x) \<Rightarrow> Some (Inl x)
                | Some (Inr (ok, _, buf)) \<Rightarrow> ret ok (snd rs) buf))"
  using assms
proof (cases rule: moves_cases)
  case (2 ok rs b)
  from steady_discard [OF 2(4)] show ?thesis
    by (cases rule: moves_cases) (use 2 in simp_all)
qed simp

lemma steady_TransferTrafficMessage [steady_rules]: "steady (TransferTrafficMessage_DecodeKey key)"
  unfolding TransferTrafficMessage_DecodeKey_def
  by (rule steadyI, rule moves_skip_key, rule steadyD [OF steady_chain]) (simp_all add: steady_rules)

lemma steady_ProtocolFrame [steady_rules]: "steady (ProtocolFrame_DecodeKey key)" "steady ProtocolFrame_BDecode"
proof -
  have if_steady: "steady f \<Longrightarrow> steady g \<Longrightarrow> steady (\<lambda>s buf. if c then f s buf else g s buf)"
    for c and f g :: "ProtocolFrame \<Rightarrow> llarp_buffer_t \<Rightarrow> ProtocolFrame res"
    by (simp add: steady_def)
  have "steady (\<lambda>s buf. with_string s buf (\<lambda>strbuf buf. ret (strbuf = str ''H'') s buf))"
    by (rule steadyI, rule with_string_moves) simp_all
  then have "steady (ProtocolFrame_DecodeKey k)" for k
    unfolding ProtocolFrame_DecodeKey_def by (rule if_steady) (simp add: steady_rules)
  then show "steady (ProtocolFrame_DecodeKey key)" "steady ProtocolFrame_BDecode"
    unfolding ProtocolFrame_BDecode_def by (simp_all add: steady_rules)
qed

lemma steady_PathTransferMessage [steady_rules]: "steady (PathTransferMessage_DecodeKey key)"
  unfolding PathTransferMessage_DecodeKey_def by (simp add: steady_rules)

lemma steady_DHTMessage [steady_rules]:
  assumes "steady (d_DecodeMesssageList ops)"
  shows "steady (DHTMessage_DecodeKey ops key)"
  by (rule steadyI) (auto simp: DHTMessage_DecodeKey_def intro!: with_integer_moves steadyD [OF steady_in_field [OF assms]])

text \<open>The letter of a message, the one under which the holder keeps it.\<close>

fun msg_id :: "'m routing_message \<Rightarrow> byte" where
  "msg_id (MDiscard m) = 0x44"
| "msg_id (MLatency m) = 0x4C"
| "msg_id (MDht m) = 0x4D"
| "msg_id (MConfirm m) = 0x50"
| "msg_id (MTransfer m) = 0x54"
| "msg_id (MFrame m) = 0x48"
| "msg_id (MTraffic m) = 0x49"
| "msg_id (MGrant m) = 0x47"
| "msg_id (MReject m) = 0x4A"
| "msg_id (MObtain m) = 0x4F"
| "msg_id (MUpdate m) = 0x55"
| "msg_id (MClose m) = 0x43"

text \<open>
  The members that \<^verbatim>\<open>Clear\<close> resets have their initial values. What it leaves is not mentioned:
  the path and the number \<open>S\<close> of every message, \<open>P\<close> of a discard, the version of the exit and hash
  table messages. A new traffic message has another protocol than a cleared one.
\<close>

definition frame_cleared :: "ProtocolFrame \<Rightarrow> bool" where
  "frame_cleared m \<longleftrightarrow> pf_C m = AlignedBuffer_Zero 1048 \<and> pf_D m = [] \<and> pf_F m = AlignedBuffer_Zero 16 \<and> pf_T m = AlignedBuffer_Zero 16 \<and>
     pf_N m = AlignedBuffer_Zero 32 \<and> pf_Z m = AlignedBuffer_Zero 64 \<and> pf_R m = 0 \<and> im_version m = 0"

fun msg_cleared :: "'m routing_message \<Rightarrow> bool" where
  "msg_cleared (MDiscard m) \<longleftrightarrow> im_version m = 0"
| "msg_cleared (MLatency m) \<longleftrightarrow> pl_T m = 0 \<and> pl_L m = 0 \<and> im_version m = 0"
| "msg_cleared (MDht m) \<longleftrightarrow> dm_M m = [] \<and> dm_V m = 0"
| "msg_cleared (MConfirm m) \<longleftrightarrow> pc_pathLifetime m = 0 \<and> pc_pathCreated m = 0 \<and> im_version m = 0"
| "msg_cleared (MTransfer m) \<longleftrightarrow> pt_P m = AlignedBuffer_Zero 16 \<and> frame_cleared (pt_T m) \<and> pt_Y m = AlignedBuffer_Zero 32 \<and> im_version m = 0"
| "msg_cleared (MFrame m) \<longleftrightarrow> frame_cleared m"
| "msg_cleared (MTraffic m) \<longleftrightarrow> tt_X m = [] \<and> tt_size m = 0 \<and> im_version m = 0"
| "msg_cleared (MGrant m) \<longleftrightarrow> ge_T m = 0 \<and> ge_Y m = AlignedBuffer_Zero 16 \<and> ge_Z m = AlignedBuffer_Zero 64"
| "msg_cleared (MReject m) \<longleftrightarrow> re_B m = 0 \<and> re_R m = [] \<and> re_T m = 0 \<and> re_Y m = AlignedBuffer_Zero 16 \<and> re_Z m = AlignedBuffer_Zero 64"
| "msg_cleared (MObtain m) \<longleftrightarrow> oe_B m = [] \<and> oe_E m = 0 \<and> oe_I m = AlignedBuffer_Zero 32 \<and> oe_T m = 0 \<and> oe_W m = [] \<and> oe_X m = 0 \<and>
     oe_Z m = AlignedBuffer_Zero 64"
| "msg_cleared (MUpdate m) \<longleftrightarrow> ue_P m = AlignedBuffer_Zero 16 \<and> ue_T m = 0 \<and> ue_Y m = AlignedBuffer_Zero 16 \<and> ue_Z m = AlignedBuffer_Zero 64"
| "msg_cleared (MClose m) \<longleftrightarrow> ce_Y m = AlignedBuffer_Zero 16 \<and> ce_Z m = AlignedBuffer_Zero 64"

lemma msg_id_changes [simp]:
  "msg_id (msg_Clear m) = msg_id m" "msg_id (msg_version v m) = msg_id m" "msg_id (msg_from a m) = msg_id m"
  by (cases m; simp)+

lemma msg_cleared_Clear [simp]: "msg_cleared (msg_Clear m)"
  by (cases m) (simp_all add: DataDiscardMessage_Clear_def PathLatencyMessage_Clear_def DHTMessage_Clear_def
      PathConfirmMessage_Clear_def PathTransferMessage_Clear_def ProtocolFrame_Clear_def TransferTrafficMessage_Clear_def
      GrantExitMessage_Clear_def RejectExitMessage_Clear_def ObtainExitMessage_Clear_def UpdateExitMessage_Clear_def
      CloseExitMessage_Clear_def frame_cleared_def)

lemma map_res_keeps: "moves buf r \<Longrightarrow> (\<And>ok s. P ok (f s)) \<Longrightarrow> keeps P buf (map_res f r)"
  by (auto simp: keeps_def moves_map, auto simp: map_res_def split: option.splits sum.splits)

lemma msg_DecodeKey_keeps:
  assumes "steady (d_DecodeMesssageList ops)" and "cur buf \<le> length (base buf)"
  shows "keeps (\<lambda>_ m'. msg_id m' = msg_id m) buf (msg_DecodeKey ops key m buf)"
  by (cases m) (simp_all add: map_res_keeps steadyD [OF _ assms(2)] steady_rules assms(1))


section \<open>The parser\<close>

definition slots_typed :: "'m InboundMessageParser \<Rightarrow> bool" where
  "slots_typed p \<longleftrightarrow> dom (mp_Holder p) = set message_ids \<and>
     (\<forall>k m. mp_Holder p k = Some m \<longrightarrow> msg_id m = k \<and> (mp_msg p \<noteq> Some k \<longrightarrow> msg_cleared m))"

text \<open>Between the keys of a message, and after one that was rejected or was the last one.\<close>

definition parsing :: "bool \<Rightarrow> 'm InboundMessageParser \<Rightarrow> bool" where
  "parsing ok p \<longleftrightarrow> slots_typed p \<and>
     (\<forall>k. mp_msg p = Some k \<longrightarrow> k = mp_ourKey p \<and> k \<in> set message_ids \<and> \<not> mp_firstKey p) \<and>
     (ok \<and> mp_msg p = None \<longrightarrow> mp_firstKey p)"

definition parsed :: "bool \<Rightarrow> 'm InboundMessageParser \<Rightarrow> bool" where
  "parsed ok p \<longleftrightarrow> parsing False p \<and> (ok \<longrightarrow> mp_msg p \<noteq> None)"

lemma slots_typedD:
  "slots_typed p \<Longrightarrow> k \<in> set message_ids \<Longrightarrow> \<exists>m. mp_Holder p k = Some m \<and> msg_id m = k"
  unfolding slots_typed_def by (metis domD)

lemma parser_first_keeps:
  assumes p: "parsing True p" "mp_firstKey p" and c: "cur b \<le> length (base b)"
  shows "keeps parsing b (parser_key ops p b (Some key))"
proof (cases "starts_with key (str ''A'')")
  case False
  then show ?thesis using assms by (auto simp: parser_key_def parsing_def)
next
  case True
  obtain r d where y: "bencode_read_string b = (r, d)" by fastforce
  note d = read_string_moves [OF y c]
  have none: "mp_msg p = None" and typed: "slots_typed p" using p by (auto simp: parsing_def)
  show ?thesis
  proof (cases "\<exists>k. r = Some [k] \<and> k \<in> set message_ids")
    case True
    then obtain k where k: "r = Some [k]" "k \<in> set message_ids" by blast
    then obtain m where m: "mp_Holder p k = Some m" "msg_id m = k" using slots_typedD [OF typed] by blast
    let ?p = "p\<lparr>mp_ourKey := k, mp_msg := Some k, mp_Holder := (mp_Holder p)(k \<mapsto> msg_version (mp_version p) m), mp_firstKey := False\<rparr>"
    have "slots_typed ?p" using typed m k none by (auto simp: slots_typed_def)
    then show ?thesis
      using k m y d p(2) \<open>starts_with key _\<close> by (simp add: parser_key_def with_string_def parsing_def)
  next
    case False
    then show ?thesis
      using y d p none \<open>starts_with key _\<close>
      by (cases r) (auto simp: parser_key_def with_string_def parsing_def slots_typed_def length_Suc_conv)
  qed
qed

lemma parser_next_keeps:
  assumes dht: "steady (d_DecodeMesssageList ops)"
    and p: "parsing True p" "\<not> mp_firstKey p" and c: "cur b \<le> length (base b)"
  shows "keeps parsing b (parser_key ops p b (Some key))"
proof -
  obtain k where msg: "mp_msg p = Some k" using p by (cases "mp_msg p") (simp_all add: parsing_def)
  then have k: "mp_msg p = Some k" "k = mp_ourKey p" "k \<in> set message_ids" and typed: "slots_typed p"
    using p unfolding parsing_def by blast+
  obtain m where m: "mp_Holder p k = Some m" "msg_id m = k" using slots_typedD [OF typed k(3)] by blast
  from msg_DecodeKey_keeps [OF dht c, of m key] show ?thesis
  proof (cases rule: keeps_cases)
    case 1
    then show ?thesis using k(1) m(1) p(2) by (simp add: parser_key_def map_res_def)
  next
    case (2 ok m' d)
    let ?p = "p\<lparr>mp_Holder := (mp_Holder p)(k \<mapsto> m')\<rparr>"
    have "slots_typed ?p" using typed k(1,3) m(2) 2(2) by (auto simp: slots_typed_def)
    then have "parsing ok ?p" using k p(2) by (simp add: parsing_def)
    then show ?thesis using 2 k(1) m(1) p(2) by (simp add: parser_key_def map_res_def)
  qed
qed

lemma parser_key_keeps:
  assumes "steady (d_DecodeMesssageList ops)" and "parsing True p" and "cur b \<le> length (base b)"
  shows "keeps parsing b (parser_key ops p b (Some key))" "keeps parsed b (parser_key ops p b None)"
  using parser_first_keeps [OF assms(2) _ assms(3)] parser_next_keeps [OF assms(1,2) _ assms(3)] assms(2,3)
  by (auto simp: parser_key_def parsed_def parsing_def)

lemma read_parser_keeps:
  assumes "steady (d_DecodeMesssageList ops)" and "parsing True p" and "cur b \<le> length (base b)"
  shows "keeps parsed b (bencode_read_dict (parser_key ops) p b)"
proof (rule read_dict_keeps [where P = parsing, OF _ _ _ _ assms(2,3)])
  show "parsing True s \<Longrightarrow> parsing False s" and "parsing ok s \<Longrightarrow> parsed False s" for ok and s :: "'a InboundMessageParser"
    by (simp_all add: parsed_def parsing_def)
qed (rule parser_key_keeps [OF assms(1)]; assumption)+

lemma seek_moves:
  assumes "cur buf \<le> length (base buf)"
  shows "BEncodeSeekDictVersion v buf k = Some (Inl OutOfBounds) \<or>
    (\<exists>ok w. BEncodeSeekDictVersion v buf k = ret ok w (buf\<lparr>cur := 0\<rparr>))"
proof -
  let ?sink = "\<lambda>v buffer key. case key of
          None \<Rightarrow> ret True v buffer
        | Some key \<Rightarrow>
            if key = [k] then with_integer v buffer (\<lambda>v buffer. ret True v buffer)
            else map_res (\<lambda>_. v) (bencode_discard buffer)"
  have "keeps (\<lambda>_ _. True) buf (bencode_read_dict ?sink v buf)"
    by (rule read_dict_keeps [where P = "\<lambda>_ _. True"])
      (use assms in \<open>auto simp: keeps_def moves_map steady_discard intro!: with_integer_moves\<close>)
  then show ?thesis
    unfolding BEncodeSeekDictVersion_def with_integer_def map_res_def
    by (cases rule: keeps_cases) (auto)
qed


lemma ParseMessageBuffer_result:
  assumes "steady (d_DecodeMesssageList ops)" and "slots_typed p" and "mp_msg p = None" and "cur buf \<le> length (base buf)"
  shows "ParseMessageBuffer ops h from buf p = Some (Inl OutOfBounds) \<or>
    (\<exists>ok handed p'. ParseMessageBuffer ops h from buf p = Some (Inr (ok, handed, p')) \<and>
       slots_typed p' \<and> mp_msg p' = None \<and> mp_version p' = 0 \<and>
       (case handed of None \<Rightarrow> \<not> ok | Some m \<Rightarrow> msg_id m = mp_ourKey p' \<and> ok = h m))"
proof -
  let ?p = "p\<lparr>mp_msg := None, mp_firstKey := True\<rparr>" and ?b = "buf\<lparr>cur := 0\<rparr>"
  have start: "parsing True (if ok then ?p\<lparr>mp_version := v\<rparr> else ?p)" for ok v
    using assms(2,3) by (auto simp: parsing_def slots_typed_def)
  consider "BEncodeSeekDictVersion 0 buf 0x56 = Some (Inl OutOfBounds)"
    | ok v where "BEncodeSeekDictVersion 0 buf 0x56 = ret ok v ?b"
    using seek_moves [OF assms(4)] by blast
  then show ?thesis
  proof cases
    case 1
    then show ?thesis by (simp add: ParseMessageBuffer_def)
  next
    case (2 ok v)
    let ?q = "if ok then ?p\<lparr>mp_version := v\<rparr> else ?p"
    have "keeps parsed ?b (bencode_read_dict (parser_key ops) ?q ?b)"
      by (rule read_parser_keeps [OF assms(1) start]) simp
    then show ?thesis
    proof (cases rule: keeps_cases)
      case 1
      then show ?thesis using 2 by (simp add: ParseMessageBuffer_def Let_def)
    next
      case (2 ok' q b)
      note eq = \<open>BEncodeSeekDictVersion 0 buf 0x56 = ret ok v ?b\<close> 2(1)
      show ?thesis
      proof (cases "mp_msg q")
        case None
        then show ?thesis using 2(2) eq
          by (auto simp: ParseMessageBuffer_def Let_def parsed_def parsing_def slots_typed_def)
      next
        case (Some k)
        have k: "k = mp_ourKey q" "k \<in> set message_ids" and typed: "slots_typed q"
          using 2(2) Some unfolding parsed_def parsing_def by blast+
        obtain m where m: "mp_Holder q k = Some m" "msg_id m = k" using slots_typedD [OF typed k(2)] by blast
        have "slots_typed (q\<lparr>mp_Holder := (mp_Holder q)(k \<mapsto> msg_Clear m'), mp_msg := None, mp_version := 0\<rparr>)"
          if "msg_id m' = k" for m'
          using typed k(2) Some that by (auto simp: slots_typed_def)
        then show ?thesis using eq Some m k(1) by (auto simp: ParseMessageBuffer_def Let_def)
      qed
    qed
  qed
qed


section \<open>Properties of the parser\<close>

text \<open>A run of a parser: one call after the other, with any bytes, handlers and path ids.\<close>

definition parser_init :: "'m InboundMessageParser \<Rightarrow> bool" where
  "parser_init p \<longleftrightarrow> p = new_InboundMessageParser"

inductive parser_step :: "'m dht_ops \<Rightarrow> 'm InboundMessageParser \<Rightarrow> 'm InboundMessageParser \<Rightarrow> bool" for ops where
  parse: "cur buf \<le> length (base buf) \<Longrightarrow> ParseMessageBuffer ops h from buf p = Some (Inr (ok, handed, p')) \<Longrightarrow>
    parser_step ops p p'"

lemma new_parser_typed: "slots_typed new_InboundMessageParser"
proof -
  let ?p = "new_InboundMessageParser :: 'a InboundMessageParser"
  have "dom (mp_Holder ?p) = set message_ids"
    by (simp add: new_InboundMessageParser_def new_MessageHolder_def message_ids_def str_def insert_commute)
  moreover have "mp_Holder ?p k = Some m \<Longrightarrow> msg_id m = k \<and> msg_cleared m" for k m
    by (auto simp: new_InboundMessageParser_def new_MessageHolder_def new_ProtocolFrame_def frame_cleared_def split: if_splits)
  ultimately show "slots_typed ?p" by (simp add: slots_typed_def)
qed

text \<open>
  The list reader in place of the parameter: it skips the list.
\<close>

definition skipping_dht :: "unit dht_ops" where
  "skipping_dht = \<lparr>d_DecodeMesssageList = (\<lambda>l buf. map_res (\<lambda>_. l) (bencode_discard buf)), d_BEncode = (\<lambda>_ buf. (True, buf))\<rparr>"

lemma skipping_dht_steady: "steady (d_DecodeMesssageList skipping_dht)"
  by (rule steadyI) (simp add: skipping_dht_def moves_map steady_discard)

interpretation parser_run: invariant_system parser_init "parser_step ops"
  "\<lambda>p. steady (d_DecodeMesssageList ops) \<longrightarrow> slots_typed p \<and> mp_msg p = None \<and> mp_version p = 0" for ops
proof (unfold_locales, goal_cases)
  case (1 s)
  then have "slots_typed s" by (simp add: parser_init_def new_parser_typed)
  moreover have "mp_msg s = None" "mp_version s = 0" using 1 by (simp_all add: parser_init_def new_InboundMessageParser_def)
  ultimately show ?case by simp
next
  case (2 s t)
  from 2(1) show ?case
  proof cases
    case (parse buf h a ok handed)
    then show ?thesis using 2(2) ParseMessageBuffer_result [of ops s buf h a] by auto
  qed
qed

text \<open>What \<^verbatim>\<open>Clear\<close> leaves in a message, replaced by fixed values.\<close>

fun msg_forget :: "'m routing_message \<Rightarrow> 'm routing_message" where
  "msg_forget (MDiscard m) = MDiscard (m\<lparr>im_from := [], im_S := 0, dd_P := []\<rparr>)"
| "msg_forget (MLatency m) = MLatency (m\<lparr>im_from := [], im_S := 0\<rparr>)"
| "msg_forget (MDht m) = MDht (m\<lparr>im_from := [], im_S := 0, im_version := 0\<rparr>)"
| "msg_forget (MConfirm m) = MConfirm (m\<lparr>im_from := [], im_S := 0\<rparr>)"
| "msg_forget (MTransfer m) = MTransfer (m\<lparr>im_from := [], im_S := 0, pt_T := (pt_T m)\<lparr>im_from := [], im_S := 0\<rparr>\<rparr>)"
| "msg_forget (MFrame m) = MFrame (m\<lparr>im_from := [], im_S := 0\<rparr>)"
| "msg_forget (MTraffic m) = MTraffic (m\<lparr>im_from := [], im_S := 0, tt_protocol := 0\<rparr>)"
| "msg_forget (MGrant m) = MGrant (m\<lparr>im_from := [], im_S := 0, im_version := 0\<rparr>)"
| "msg_forget (MReject m) = MReject (m\<lparr>im_from := [], im_S := 0, im_version := 0\<rparr>)"
| "msg_forget (MObtain m) = MObtain (m\<lparr>im_from := [], im_S := 0, im_version := 0\<rparr>)"
| "msg_forget (MUpdate m) = MUpdate (m\<lparr>im_from := [], im_S := 0, im_version := 0\<rparr>)"
| "msg_forget (MClose m) = MClose (m\<lparr>im_from := [], im_S := 0, im_version := 0\<rparr>)"

lemma frame_forget: "frame_cleared f \<Longrightarrow> f\<lparr>im_from := [], im_S := 0\<rparr> = new_ProtocolFrame\<lparr>im_from := []\<rparr>"
  by (cases f) (simp add: frame_cleared_def new_ProtocolFrame_def)

lemma msg_forget_cleared:
  assumes "msg_cleared m"
  shows "Some (msg_forget m) = map_option msg_forget (new_MessageHolder (msg_id m))"
proof (cases m)
  case (MTransfer t)
  then show ?thesis using assms frame_forget [of "pt_T t"]
    by (cases t) (simp add: new_MessageHolder_def, simp add: new_ProtocolFrame_def)
next
  case (MFrame f)
  then show ?thesis using assms frame_forget [of f] by (simp add: new_MessageHolder_def new_ProtocolFrame_def)
qed (use assms in \<open>simp_all add: new_MessageHolder_def\<close>)

lemma slots_forgotten:
  assumes "slots_typed p" and "mp_msg p = None"
  shows "map_option msg_forget (mp_Holder p k) = map_option msg_forget (mp_Holder new_InboundMessageParser k)"
proof (cases "mp_Holder p k")
  case None
  then have "k \<notin> set message_ids" using assms(1) by (auto simp: slots_typed_def)
  then have "mp_Holder new_InboundMessageParser k = None" using new_parser_typed unfolding slots_typed_def by blast
  with None show ?thesis by simp
next
  case (Some m)
  then have "msg_id m = k" "msg_cleared m" using assms by (auto simp: slots_typed_def)
  with Some msg_forget_cleared [of m] show ?thesis by (simp add: new_InboundMessageParser_def)
qed

end
