(* ===== verification/Routing_Delivery.thy ===== *)
theory Routing_Delivery
  imports Routing_Safety
begin

text \<open>
  A routing message from the sender to the handler: what its writer produces is what the parser
  reads back, and the signatures of the exit messages and of the frames can be verified.
\<close>


section \<open>The version of a dictionary\<close>

definition seek_value :: "byte \<Rightarrow> u64 \<Rightarrow> bytes \<times> bvalue \<Rightarrow> u64" where
  "seek_value k v x = (if fst x = [k] then (case snd x of BInt i \<Rightarrow> i | _ \<Rightarrow> v) else v)"

definition versioned :: "byte \<Rightarrow> (bytes \<times> bvalue) list \<Rightarrow> bool" where
  "versioned k xs \<longleftrightarrow> short_strings (BDict xs) \<and> (\<forall>x\<in>set xs. fst x = [k] \<longrightarrow> (\<exists>i. snd x = BInt i))"

lemma seek_at:
  assumes "versioned k xs"
  shows "BEncodeSeekDictVersion v (buf_at [] (encode (BDict xs) @ post)) k =
    ret True (foldl (seek_value k) v xs) (buf_at [] (encode (BDict xs) @ post))"
proof -
  let ?sink = "\<lambda>v buffer key. case key of
          None \<Rightarrow> ret True v buffer
        | Some key \<Rightarrow>
            if key = [k]
            then (case bencode_read_integer buffer of
                    Inl x \<Rightarrow> Some (Inl x)
                  | Inr (None, buffer) \<Rightarrow> ret False v buffer
                  | Inr (Some v, buffer) \<Rightarrow> ret True v buffer)
            else (case bencode_discard buffer of
                    None \<Rightarrow> None
                  | Some (Inl x) \<Rightarrow> Some (Inl x)
                  | Some (Inr (ok, _, buffer)) \<Rightarrow> ret ok v buffer)"
  have "\<forall>x\<in>set xs. length (fst x) < 10 ^ 9 \<and>
      (\<forall>s pre post. ?sink s (buf_at pre (encode (snd x) @ post)) (Some (fst x)) =
         ret True (seek_value k s x) (buf_at (pre @ encode (snd x)) post))"
    using assms by (auto simp: versioned_def seek_value_def read_integer_at discard_at)
  from read_dict_at [OF this, of v "[]" post]
  have "bencode_read_dict ?sink v (buf_at [] (encode (BDict xs) @ post)) =
      ret True (foldl (seek_value k) v xs) (buf_at (encode (BDict xs)) post)"
    by simp
  moreover have "(buf_at (encode (BDict xs)) post)\<lparr>cur := 0\<rparr> = buf_at [] (encode (BDict xs) @ post)"
    by (simp add: buf_at_def)
  ultimately show ?thesis unfolding BEncodeSeekDictVersion_def by simp
qed


section \<open>Keys through the parser\<close>

lemma reads_map:
  "reads D bs s s' \<Longrightarrow> (\<And>buf. E (C s) buf = map_res C (D s buf)) \<Longrightarrow> reads E bs (C s) (C s')"
  by (simp add: reads_def map_res_def)

lemma key_steps_map:
  "key_steps D s xs s' \<Longrightarrow> (\<And>key s buf. E key (C s) buf = map_res C (D key s buf)) \<Longrightarrow> key_steps E (C s) xs (C s')"
proof (induction xs arbitrary: s)
  case (Cons x xs)
  then show ?case using reads_map [of "D (fst x)" "encode (snd x)" s _ "E (fst x)" C] by fastforce
qed simp

lemma key_steps_parser:
  assumes "key_steps (msg_DecodeKey ops) m xs m'" and "\<not> mp_firstKey p" and "mp_msg p = Some k" and "mp_Holder p k = Some m"
  shows "key_steps (\<lambda>key p buf. parser_key ops p buf (Some key)) p xs (p\<lparr>mp_Holder := (mp_Holder p)(k \<mapsto> m')\<rparr>)"
  using assms
proof (induction xs arbitrary: m p)
  case Nil
  then show ?case by (cases p) (simp add: fun_upd_idem)
next
  case (Cons x xs)
  then obtain t where t: "length (fst x) < 10 ^ 9" "reads (msg_DecodeKey ops (fst x)) (encode (snd x)) m t"
    "key_steps (msg_DecodeKey ops) t xs m'" by auto
  let ?p = "p\<lparr>mp_Holder := (mp_Holder p)(k \<mapsto> t)\<rparr>"
  have "reads (\<lambda>p buf. parser_key ops p buf (Some (fst x))) (encode (snd x)) p ?p"
    using t(2) Cons.prems by (simp add: reads_def parser_key_def map_res_def)
  moreover have "key_steps (\<lambda>key p buf. parser_key ops p buf (Some key)) ?p xs (p\<lparr>mp_Holder := (mp_Holder p)(k \<mapsto> m')\<rparr>)"
    using Cons.IH [OF t(3), of ?p] Cons.prems(2,3) by (simp add: fun_upd_def cong: if_cong)
  ultimately show ?case using t(1) unfolding key_steps.simps by blast
qed


section \<open>The messages as dictionaries\<close>

fun msg_entries :: "'m routing_message \<Rightarrow> (bytes \<times> bvalue) list" where
  "msg_entries (MDiscard m) = concat (DataDiscardMessage_fields m)"
| "msg_entries (MLatency m) = concat (PathLatencyMessage_fields m)"
| "msg_entries (MDht m) = []"
| "msg_entries (MConfirm m) = concat (PathConfirmMessage_fields m)"
| "msg_entries (MTransfer m) = concat (PathTransferMessage_fields m)"
| "msg_entries (MFrame m) = concat (ProtocolFrame_fields m)"
| "msg_entries (MTraffic m) = concat (TransferTrafficMessage_fields m)"
| "msg_entries (MGrant m) = concat (GrantExitMessage_fields m)"
| "msg_entries (MReject m) = concat (RejectExitMessage_fields m)"
| "msg_entries (MObtain m) = concat (ObtainExitMessage_fields m)"
| "msg_entries (MUpdate m) = concat (UpdateExitMessage_fields m)"
| "msg_entries (MClose m) = concat (CloseExitMessage_fields m)"

text \<open>
  The sizes of the members, as their types have them. Left out are the list of messages of the
  distributed hash table, whose format is a parameter, and the update of an exit, which has
  the letter of another message.
\<close>

fun msg_valid :: "'m routing_message \<Rightarrow> bool" where
  "msg_valid (MDiscard m) \<longleftrightarrow> length (dd_P m) = 16"
| "msg_valid (MLatency m) \<longleftrightarrow> True"
| "msg_valid (MDht m) \<longleftrightarrow> False"
| "msg_valid (MConfirm m) \<longleftrightarrow> True"
| "msg_valid (MTransfer m) \<longleftrightarrow> PathTransferMessage_valid m"
| "msg_valid (MFrame m) \<longleftrightarrow> ProtocolFrame_valid m"
| "msg_valid (MTraffic m) \<longleftrightarrow> list_all (\<lambda>x. length x \<le> 1508) (tt_X m)"
| "msg_valid (MGrant m) \<longleftrightarrow> length (ge_Y m) = 16 \<and> length (ge_Z m) = 64"
| "msg_valid (MReject m) \<longleftrightarrow> length (re_Y m) = 16 \<and> length (re_Z m) = 64"
| "msg_valid (MObtain m) \<longleftrightarrow> length (oe_I m) = 32 \<and> length (oe_Z m) = 64"
| "msg_valid (MUpdate m) \<longleftrightarrow> False"
| "msg_valid (MClose m) \<longleftrightarrow> length (ce_Y m) = 16 \<and> length (ce_Z m) = 64"

text \<open>
  The message that the handler gets for \<open>m\<close> when the parser decodes into \<open>s\<close>: the id of the path
  is set, and what is not on the wire comes from \<open>s\<close> or is the default.
\<close>

fun received :: "bytes \<Rightarrow> 'm routing_message \<Rightarrow> 'm routing_message \<Rightarrow> 'm routing_message" where
  "received a (MLatency s) (MLatency m) = MLatency (m\<lparr>im_from := a, im_version := 0\<rparr>)"
| "received a (MTransfer s) (MTransfer m) = MTransfer (m\<lparr>im_from := a, im_version := 0,
     pt_T := (pt_T m)\<lparr>im_from := im_from (pt_T s), im_S := im_S (pt_T s)\<rparr>\<rparr>)"
| "received a (MFrame s) (MFrame m) = MFrame (m\<lparr>im_from := a, im_S := im_S s\<rparr>)"
| "received a (MTraffic s) (MTraffic m) = MTraffic (m\<lparr>im_from := a, tt_size := 0\<rparr>)"
| "received a s m = msg_from a m"

lemma msg_writes:
  assumes "msg_valid m"
  shows "writes (msg_BEncode ops m) (encode (BDict ((str ''A'', BStr [msg_id m]) # msg_entries m)))"
  using assms writes_DataDiscardMessage writes_PathLatencyMessage writes_PathConfirmMessage writes_PathTransferMessage
    writes_ProtocolFrame writes_TransferTrafficMessage writes_GrantExitMessage writes_RejectExitMessage
    writes_ObtainExitMessage writes_CloseExitMessage
  unfolding DataDiscardMessage_wire_def PathLatencyMessage_wire_def PathConfirmMessage_wire_def PathTransferMessage_wire_def
    ProtocolFrame_wire_def TransferTrafficMessage_wire_def GrantExitMessage_wire_def RejectExitMessage_wire_def
    ObtainExitMessage_wire_def CloseExitMessage_wire_def
  by (cases m) (simp_all add: str_def del: encode.simps)

lemma Policy_short [simp]: "short_strings (Policy_wire p)"
  by (simp add: Policy_wire_def str_def)

lemma ProtocolFrame_short: "ProtocolFrame_valid m \<Longrightarrow> versioned 0x56 ((str ''A'', BStr (str ''H'')) # concat (ProtocolFrame_fields m))"
  unfolding ProtocolFrame_fields_def ProtocolFrame_valid_def versioned_def by (auto simp: str_def split: if_splits)

lemma msg_versioned:
  assumes "msg_valid m"
  shows "versioned 0x56 ((str ''A'', BStr [msg_id m]) # msg_entries m)"
proof (cases m)
  case (MTransfer t)
  then have "ProtocolFrame_valid (pt_T t)" using assms by (simp add: PathTransferMessage_valid_def)
  from ProtocolFrame_short [OF this] show ?thesis
    using assms MTransfer
    by (auto simp: PathTransferMessage_fields_def PathTransferMessage_valid_def ProtocolFrame_wire_def versioned_def str_def)
next
  case (MFrame f)
  then show ?thesis using assms ProtocolFrame_short [of f] by (simp add: str_def)
qed (use assms in \<open>auto simp: DataDiscardMessage_fields_def PathLatencyMessage_fields_def PathConfirmMessage_fields_def
      TransferTrafficMessage_fields_def GrantExitMessage_fields_def RejectExitMessage_fields_def
      ObtainExitMessage_fields_def CloseExitMessage_fields_def versioned_def str_def list_all_iff split: if_splits\<close>)

lemma latency_version: "foldl (seek_value 0x56) 0 ((str ''A'', BStr k) # msg_entries (MLatency m)) = 0"
  by (simp add: PathLatencyMessage_fields_def seek_value_def str_def)

lemma frame_ready: "frame_cleared f \<Longrightarrow> ProtocolFrame_cleared (f\<lparr>im_version := v\<rparr>)" "frame_cleared f \<Longrightarrow> ProtocolFrame_cleared f"
  by (simp_all add: frame_cleared_def ProtocolFrame_cleared_def)

lemma message_steps:
  assumes "key_steps D y' xs z" and "msg_entries m = xs" and "msg_version v s = C y'" and "msg_from a (C z) = r"
    and "\<And>key s buf. msg_DecodeKey ops key (C s) buf = map_res C (D key s buf)"
  shows "\<exists>m'. key_steps (msg_DecodeKey ops) (msg_version v s) (msg_entries m) m' \<and> msg_from a m' = r"
  using key_steps_map [where E = "msg_DecodeKey ops", OF assms(1,5)] assms(2-4) by auto

lemma msg_steps:
  assumes "msg_valid m" and "msg_id s = msg_id m" and "msg_cleared s"
    and "v = foldl (seek_value 0x56) 0 ((str ''A'', BStr [msg_id m]) # msg_entries m)"
  shows "\<exists>m'. key_steps (msg_DecodeKey ops) (msg_version v s) (msg_entries m) m' \<and> msg_from a m' = received a s m"
proof (cases m)
  case (MDiscard x)
  then obtain y where y: "s = MDiscard y" using assms(2) by (cases s) simp_all
  show ?thesis using assms(1,3) MDiscard y
    by (intro message_steps [where C = MDiscard, OF DataDiscardMessage_steps [of x "y\<lparr>im_version := v\<rparr>"]]) simp_all
next
  case (MLatency x)
  then obtain y where y: "s = MLatency y" using assms(2) by (cases s) simp_all
  have v: "v = 0" using assms(4) MLatency latency_version by simp
  have clear: "pl_T y = 0" "pl_L y = 0" using assms(3) y by simp_all
  show ?thesis using assms(1,3) MLatency y clear v
    by (intro message_steps [where C = MLatency, OF PathLatencyMessage_steps [of "y\<lparr>im_version := v\<rparr>" x]]) simp_all
next
  case (MConfirm x)
  then obtain y where y: "s = MConfirm y" using assms(2) by (cases s) simp_all
  show ?thesis using assms(1,3) MConfirm y
    by (intro message_steps [where C = MConfirm, OF PathConfirmMessage_steps [of "y\<lparr>im_version := v\<rparr>" x]]) simp_all
next
  case (MTransfer x)
  then obtain y where y: "s = MTransfer y" using assms(2) by (cases s) simp_all
  have clear: "ProtocolFrame_cleared (pt_T y)" using assms(3) y by (simp add: frame_ready)
  show ?thesis using assms(1,3) MTransfer y clear
    by (intro message_steps [where C = MTransfer, OF PathTransferMessage_steps [of x "y\<lparr>im_version := v\<rparr>"]]) (simp_all, cases x, simp)
next
  case (MFrame x)
  then obtain y where y: "s = MFrame y" using assms(2) by (cases s) simp_all
  have clear: "ProtocolFrame_cleared (y\<lparr>im_version := v\<rparr>)"
    using assms(3) y by (simp add: frame_ready)
  show ?thesis using assms(1,3) MFrame y clear
    by (intro message_steps [where C = MFrame, OF ProtocolFrame_steps [of x "y\<lparr>im_version := v\<rparr>"]]) simp_all
next
  case (MTraffic x)
  then obtain y where y: "s = MTraffic y" using assms(2) by (cases s) simp_all
  show ?thesis using assms(1,3) MTraffic y
    by (intro message_steps [where C = MTraffic, OF TransferTrafficMessage_steps [of x "y\<lparr>im_version := v\<rparr>"]]) simp_all
next
  case (MGrant x)
  then obtain y where y: "s = MGrant y" using assms(2) by (cases s) simp_all
  show ?thesis using assms(1,3) MGrant y
    by (intro message_steps [where C = MGrant, OF GrantExitMessage_steps [of x "y\<lparr>im_version := v\<rparr>"]]) simp_all
next
  case (MReject x)
  then obtain y where y: "s = MReject y" using assms(2) by (cases s) simp_all
  have clear: "re_R y = []" using assms(3) y by simp
  show ?thesis using assms(1,3) MReject y clear
    by (intro message_steps [where C = MReject, OF RejectExitMessage_steps [of x "y\<lparr>im_version := v\<rparr>"]]) simp_all
next
  case (MObtain x)
  then obtain y where y: "s = MObtain y" using assms(2) by (cases s) simp_all
  have clear: "oe_B y = []" "oe_W y = []" using assms(3) y by simp_all
  show ?thesis using assms(1,3) MObtain y clear
    by (intro message_steps [where C = MObtain, OF ObtainExitMessage_steps [of x "y\<lparr>im_version := v\<rparr>"]]) simp_all
next
  case (MClose x)
  then obtain y where y: "s = MClose y" using assms(2) by (cases s) simp_all
  show ?thesis using assms(1,3) MClose y
    by (intro message_steps [where C = MClose, OF CloseExitMessage_steps [of x "y\<lparr>im_version := v\<rparr>"]]) simp_all
qed (use assms(1) in simp_all)


section \<open>From the writer to the handler\<close>

lemma parser_type_reads:
  assumes "mp_firstKey p" and "k \<in> set message_ids" and "mp_Holder p k = Some s"
  shows "reads (\<lambda>p buf. parser_key ops p buf (Some (str ''A''))) (encode (BStr [k])) p
    (p\<lparr>mp_ourKey := k, mp_msg := Some k, mp_Holder := (mp_Holder p)(k \<mapsto> msg_version (mp_version p) s), mp_firstKey := False\<rparr>)"
  using assms by (intro readsI) (simp add: parser_key_def with_string_def read_string_at)

lemma parse_message:
  assumes m: "msg_valid m" and p: "slots_typed p" "mp_msg p = None" "mp_Holder p (msg_id m) = Some s"
  shows "\<exists>p'. ParseMessageBuffer ops h a (buf_at [] (encode (BDict ((str ''A'', BStr [msg_id m]) # msg_entries m)) @ post)) p =
    Some (Inr (h (received a s m), Some (received a s m), p'))"
proof -
  let ?xs = "(str ''A'', BStr [msg_id m]) # msg_entries m" and ?k = "msg_id m"
  let ?v = "foldl (seek_value 0x56) 0 ?xs"
  let ?p = "p\<lparr>mp_msg := None, mp_firstKey := True, mp_version := ?v\<rparr>"
  let ?q = "?p\<lparr>mp_ourKey := ?k, mp_msg := Some ?k, mp_Holder := (mp_Holder p)(?k \<mapsto> msg_version ?v s), mp_firstKey := False\<rparr>"
  have k: "?k \<in> set message_ids" using p(1,3) by (auto simp: slots_typed_def)
  have s: "msg_id s = ?k" "msg_cleared s" using p by (auto simp: slots_typed_def)
  obtain m' where m': "key_steps (msg_DecodeKey ops) (msg_version ?v s) (msg_entries m) m'" "msg_from a m' = received a s m"
    using msg_steps [OF m s refl] by blast
  let ?r = "?q\<lparr>mp_Holder := (mp_Holder ?q)(?k \<mapsto> m')\<rparr>"
  have "reads (\<lambda>p buf. parser_key ops p buf (Some (str ''A''))) (encode (BStr [?k])) ?p ?q"
    using parser_type_reads [of ?p ?k s ops] k p(3) by simp
  moreover have "key_steps (\<lambda>key p buf. parser_key ops p buf (Some key)) ?q (msg_entries m) ?r"
    by (rule key_steps_parser [OF m'(1)]) simp_all
  ultimately have "key_steps (\<lambda>key p buf. parser_key ops p buf (Some key)) ?p ?xs ?r"
    by (rule key_steps_Cons)
  from read_dict_steps' [OF this, of "parser_key ops" "[]" post]
  have "bencode_read_dict (parser_key ops) ?p (buf_at [] (encode (BDict ?xs) @ post)) = ret True ?r (buf_at (encode (BDict ?xs)) post)"
    by (simp add: parser_key_def del: encode.simps)
  then show ?thesis
    using seek_at [OF msg_versioned [OF m], of 0 post] m'(2)
    by (simp add: ParseMessageBuffer_def Let_def del: encode.simps foldl_Cons)
qed

text \<open>
  A discard that has no entry \<open>P\<close> is handed over with the \<open>P\<close> of the discard before it, which \<^verbatim>\<open>Clear\<close>
  has left in the holder.
\<close>

lemma discard_keeps_path:
  assumes "mp_Holder p 0x44 = Some (MDiscard s)"
  shows "\<exists>p'. ParseMessageBuffer ops h a (buf_at [] (encode (BDict [(str ''A'', BStr (str ''D''))]) @ post)) p =
    Some (Inr (h (MDiscard (s\<lparr>im_version := 0, im_from := a\<rparr>)), Some (MDiscard (s\<lparr>im_version := 0, im_from := a\<rparr>)), p'))"
proof -
  let ?xs = "[(str ''A'', BStr [0x44 :: byte])]" and ?k = "0x44 :: byte"
  let ?v = "foldl (seek_value 0x56) 0 ?xs"
  let ?p = "p\<lparr>mp_msg := None, mp_firstKey := True, mp_version := ?v\<rparr>"
  let ?q = "?p\<lparr>mp_ourKey := ?k, mp_msg := Some ?k, mp_Holder := (mp_Holder p)(?k \<mapsto> msg_version ?v (MDiscard s)), mp_firstKey := False\<rparr>"
  have D: "str ''D'' = [?k]" and k: "?k \<in> set message_ids" by (simp_all add: str_def message_ids_def)
  have v: "?v = 0" by (simp add: seek_value_def str_def)
  have "reads (\<lambda>p buf. parser_key ops p buf (Some (str ''A''))) (encode (BStr [?k])) ?p ?q"
    using parser_type_reads [of ?p ?k "MDiscard s" ops] k assms by simp
  then have "key_steps (\<lambda>key p buf. parser_key ops p buf (Some key)) ?p ?xs ?q"
    by (rule key_steps_Cons) (rule key_steps_Nil [OF refl])
  from read_dict_steps' [OF this, of "parser_key ops" "[]" post]
  have "bencode_read_dict (parser_key ops) ?p (buf_at [] (encode (BDict ?xs) @ post)) = ret True ?q (buf_at (encode (BDict ?xs)) post)"
    by (simp add: parser_key_def del: encode.simps)
  moreover have "versioned 0x56 ?xs" by (simp add: versioned_def str_def)
  note seek_at [OF this, of 0 post]
  ultimately show ?thesis
    unfolding D
    by (simp add: ParseMessageBuffer_def Let_def v del: encode.simps foldl_Cons foldl_Nil)
qed

text \<open>The update of an exit has the letter V, which the parser does not know, and never arrives.\<close>

lemma UpdateExitMessage_rejected:
  assumes "length (ue_P m) = 16" "length (ue_Z m) = 64" and "mp_msg p = None"
  shows "\<exists>p'. ParseMessageBuffer ops h a (buf_at [] (encode (UpdateExitMessage_wire m) @ post)) p = Some (Inr (False, None, p'))"
proof -
  let ?xs = "(str ''A'', BStr (str ''V'')) # concat (UpdateExitMessage_fields m)"
  let ?ys = "concat (map (\<lambda>x. enc_string (fst x) @ encode (snd x)) (concat (UpdateExitMessage_fields m)))"
  let ?p = "p\<lparr>mp_msg := None, mp_firstKey := True, mp_version := foldl (seek_value 0x56) 0 ?xs\<rparr>"
  have "versioned 0x56 ?xs" using assms by (auto simp: versioned_def UpdateExitMessage_fields_def str_def)
  note seek = seek_at [OF this, of 0 post]
  have "parser_key ops ?p (buf_at [0x64, 0x31, 0x3A, 0x41] (enc_string (str ''V'') @ ?ys @ 0x65 # post)) (Some (str ''A'')) =
      ret False (?p\<lparr>mp_ourKey := 0x56, mp_firstKey := False\<rparr>)
        (buf_at ([0x64, 0x31, 0x3A, 0x41] @ enc_string (str ''V'')) (?ys @ 0x65 # post))"
    by (simp add: parser_key_def with_string_def read_string_at message_ids_def) (simp add: str_def)
  moreover have "enc_string (str ''A'') = [0x31, 0x3A, 0x41]" by (simp add: enc_string_def str_def decimal.simps)
  moreover note read_string_at [of "str ''A''" "[0x64]" "enc_string (str ''V'') @ ?ys @ 0x65 # post"]
  ultimately have "\<exists>b. read_dict_loop (parser_key ops) ?p (buf_at [0x64] (enc_string (str ''A'') @ enc_string (str ''V'') @ ?ys @ 0x65 # post)) =
      ret False (?p\<lparr>mp_ourKey := 0x56, mp_firstKey := False\<rparr>) b"
    by (subst read_dict_loop.simps) (simp add: nth_append del: foldl_Cons)
  then have "\<exists>b. bencode_read_dict (parser_key ops) ?p (buf_at [] (encode (BDict ?xs) @ post)) =
      ret False (?p\<lparr>mp_ourKey := 0x56, mp_firstKey := False\<rparr>) b"
    by (auto simp: bencode_read_dict_def at_next and_then_def simp del: foldl_Cons)
  then show ?thesis
    using seek unfolding UpdateExitMessage_wire_def
    by (auto simp: ParseMessageBuffer_def Let_def simp del: encode.simps foldl_Cons)
qed

section \<open>Signatures\<close>

lemma encode_to_wire: "writes w bs \<Longrightarrow> length bs < n \<Longrightarrow> encode_to n w = Some bs"
  using writesD [of w bs "replicate n 0" "[]"] by (auto simp: encode_to_def copy_used_def buf_at_def)

lemma sign_verify:
  assumes "\<forall>b Z. sg_sign sg sk b = Some Z \<longrightarrow> sg_verify sg pk b Z"
    and "sign_encoded sg n BEncode put sk m = (True, m')"
  shows "\<exists>Z. m' = put Z m \<and> verify_encoded sg n BEncode pk m Z"
  using assms by (auto simp: sign_encoded_def verify_encoded_def split: option.splits)

lemma sign_succeeds:
  "writes (BEncode m) bs \<Longrightarrow> length bs < n \<Longrightarrow> sg_sign sg sk bs \<noteq> None \<Longrightarrow> fst (sign_encoded sg n BEncode put sk m)"
  by (auto simp: sign_encoded_def encode_to_wire)

lemma Grant_length: "length (ge_Y m) = 16 \<Longrightarrow> length (ge_Z m) = 64 \<Longrightarrow> length (encode (GrantExitMessage_wire m)) < 512"
  using length_enc_integer [of "im_S m"] length_enc_integer [of "im_version m"] length_enc_integer [of "ge_T m"]
  by (simp add: GrantExitMessage_wire_def GrantExitMessage_fields_def enc_string_def str_def decimal.simps)

lemma Close_length: "length (ce_Y m) = 16 \<Longrightarrow> length (ce_Z m) = 64 \<Longrightarrow> length (encode (CloseExitMessage_wire m)) < 512"
  using length_enc_integer [of "im_S m"] length_enc_integer [of "im_version m"]
  by (simp add: CloseExitMessage_wire_def CloseExitMessage_fields_def enc_string_def str_def decimal.simps)


lemma UpdateExitMessage_length: "length (ue_P m) = 16 \<Longrightarrow> length (ue_Z m) = 64 \<Longrightarrow> length (encode (UpdateExitMessage_wire m)) < 512"
  using length_enc_integer [of "im_S m"] length_enc_integer [of "im_version m"] length_enc_integer [of "ue_T m"]
  by (simp add: UpdateExitMessage_wire_def UpdateExitMessage_fields_def enc_string_def str_def decimal.simps)


section \<open>Properties of routing messages\<close>

text \<open>A message in an array with some bytes behind it, and what the handler gets.\<close>

definition example_message :: "bytes \<Rightarrow> 'm routing_message" where
  "example_message a = MLatency \<lparr>im_from = a, im_S = 3, im_version = 0, pl_T = 7, pl_L = 0\<rparr>"

definition example_buffer :: llarp_buffer_t where
  "example_buffer = buf_at [] (encode (BDict [(str ''A'', BStr (str ''L'')), (str ''T'', BInt 7), (str ''S'', BInt 3)]) @ [0])"

lemma example_parse:
  fixes p :: "'m InboundMessageParser"
  assumes "slots_typed p" and "mp_msg p = None"
  shows "\<exists>p'. ParseMessageBuffer ops h a example_buffer p = Some (Inr (h (example_message a), Some (example_message a), p'))"
proof -
  let ?m = "example_message a :: 'm routing_message"
  have k: "msg_id ?m = 0x4C" "(0x4C :: byte) \<in> set message_ids"
    by (simp_all add: example_message_def message_ids_def str_def)
  then obtain s where s: "mp_Holder p (msg_id ?m) = Some s" "msg_id s = 0x4C"
    using slots_typedD [OF assms(1)] by metis
  have "received a s ?m = ?m"
    using s(2) by (cases s) (simp_all add: example_message_def)
  moreover have "buf_at [] (encode (BDict ((str ''A'', BStr [msg_id ?m]) # msg_entries ?m)) @ [0]) = example_buffer"
    by (simp add: example_buffer_def example_message_def PathLatencyMessage_fields_def str_def)
  moreover have "msg_valid ?m" by (simp add: example_message_def)
  ultimately show ?thesis
    using parse_message [OF _ assms s(1), of ops h a "[0]"] by (simp only:)
qed

lemma example_run:
  obtains p where "parser_step skipping_dht new_InboundMessageParser p" "reach parser_init (parser_step skipping_dht) p"
proof -
  have "slots_typed new_InboundMessageParser" "mp_msg new_InboundMessageParser = None"
    by (rule new_parser_typed, simp add: new_InboundMessageParser_def)
  then obtain p where "ParseMessageBuffer skipping_dht (\<lambda>_. True) [] example_buffer new_InboundMessageParser =
      Some (Inr (True, Some (example_message []), p))"
    using example_parse by blast
  then have "parser_step skipping_dht new_InboundMessageParser p"
    by (rule parse [rotated]) (simp add: example_buffer_def buf_at_def)
  then show thesis using that reach_step reach_init [of parser_init] by (metis parser_init_def)
qed

text \<open>
  C35. Parsing leaves little behind: a parser that has gone through any sequence of messages from
  any bytes, whatever became of them, has no current message and no version, and its holder
  is that of a new parser but for what \<^verbatim>\<open>Clear\<close> does not reset. That is the path and the number \<open>S\<close>
  of every message, also of a frame inside a transfer, the path \<open>P\<close> of a discard, the version of the
  exit and hash table messages, which the parser sets at the next one, and the protocol of a
  traffic message; so a discard without \<open>P\<close> comes with an earlier one's (\<open>discard_keeps_path\<close>).
\<close>

theorem parser_forgets_messages:
  assumes "steady (d_DecodeMesssageList ops)" and "reach parser_init (parser_step ops) p"
  shows "mp_msg p = None \<and> mp_version p = 0 \<and>
    (\<forall>k. map_option msg_forget (mp_Holder p k) = map_option msg_forget (mp_Holder new_InboundMessageParser k))"
  using parser_run.reach_inv [OF assms(2)] assms(1) slots_forgotten by blast

theorem parser_forgets_messages_witness:
  "\<exists>p p'. reach parser_init (parser_step skipping_dht) p \<and> steady (d_DecodeMesssageList skipping_dht) \<and>
     ParseMessageBuffer skipping_dht (\<lambda>_. True) [] example_buffer p = Some (Inr (True, Some (example_message []), p')) \<and>
     (\<exists>m. mp_Holder p' 0x4C = Some (MLatency m) \<and> pl_T m = 0)"
proof -
  let ?p = "new_InboundMessageParser :: unit InboundMessageParser"
  have r: "reach parser_init (parser_step skipping_dht) ?p" by (simp add: reach_init parser_init_def)
  have "slots_typed ?p" "mp_msg ?p = None" by (rule new_parser_typed, simp add: new_InboundMessageParser_def)
  then obtain p' where p': "ParseMessageBuffer skipping_dht (\<lambda>_. True) [] example_buffer ?p = Some (Inr (True, Some (example_message []), p'))"
    using example_parse by blast
  then have "parser_step skipping_dht ?p p'"
    by (rule parse [rotated]) (simp add: example_buffer_def buf_at_def)
  then have "reach parser_init (parser_step skipping_dht) p'" by (rule reach_step [OF r])
  from parser_forgets_messages [OF skipping_dht_steady this]
  have "map_option msg_forget (mp_Holder p' 0x4C) = Some (MLatency \<lparr>im_from = [], im_S = 0, im_version = 0, pl_T = 0, pl_L = 0\<rparr>)"
    by (simp add: new_InboundMessageParser_def new_MessageHolder_def)
  then obtain m where "mp_Holder p' 0x4C = Some m" "msg_forget m = MLatency \<lparr>im_from = [], im_S = 0, im_version = 0, pl_T = 0, pl_L = 0\<rparr>"
    by auto
  then have "\<exists>m. mp_Holder p' 0x4C = Some (MLatency m) \<and> pl_T m = 0"
    by (cases m) (auto dest: arg_cong [of _ _ pl_T])
  with r p' skipping_dht_steady show ?thesis by blast
qed

text \<open>
  C36. A parser that has gone through any sequence of messages answers the next one, whatever its
  bytes are: it does not run forever and it does not follow the null pointer \<^verbatim>\<open>msg\<close>. Either one of
  the readers touches a byte past the end of an array, which the code does not rule out, or the
  parser returns. What the handler gets is the kind of message that the first entry names, and the
  answer is the handler's; without a message for the handler the answer is no.
\<close>

theorem ParseMessageBuffer_returns:
  assumes "steady (d_DecodeMesssageList ops)" and "reach parser_init (parser_step ops) p" and "cur buf \<le> length (base buf)"
  shows "ParseMessageBuffer ops h from buf p = Some (Inl OutOfBounds) \<or>
    (\<exists>ok handed p'. ParseMessageBuffer ops h from buf p = Some (Inr (ok, handed, p')) \<and>
       (case handed of None \<Rightarrow> \<not> ok | Some m \<Rightarrow> msg_id m = mp_ourKey p' \<and> ok = h m))"
  using ParseMessageBuffer_result [OF assms(1) _ _ assms(3), of p] parser_run.reach_inv [OF assms(2)] assms(1) by blast

theorem ParseMessageBuffer_returns_witness:
  "\<exists>p p'. parser_step skipping_dht new_InboundMessageParser p \<and> reach parser_init (parser_step skipping_dht) p \<and>
     steady (d_DecodeMesssageList skipping_dht) \<and>
     ParseMessageBuffer skipping_dht (\<lambda>_. True) [] example_buffer p = Some (Inr (True, Some (example_message []), p')) \<and>
     mp_ourKey p' = 0x4C"
proof -
  obtain p where p: "parser_step skipping_dht new_InboundMessageParser p" "reach parser_init (parser_step skipping_dht) p"
    by (rule example_run)
  have "slots_typed p" "mp_msg p = None" using parser_run.reach_inv [OF p(2)] skipping_dht_steady by blast+
  then obtain p' where p': "ParseMessageBuffer skipping_dht (\<lambda>_. True) [] example_buffer p = Some (Inr (True, Some (example_message []), p'))"
    using example_parse by blast
  have "cur example_buffer \<le> length (base example_buffer)" by (simp add: example_buffer_def buf_at_def)
  from ParseMessageBuffer_returns [OF skipping_dht_steady p(2) this, of "\<lambda>_. True" "[]"] p'
  have "mp_ourKey p' = 0x4C" by (auto simp: example_message_def)
  with p p' skipping_dht_steady show ?thesis by blast
qed

text \<open>
  C37. What is written is what is handed over. Take any parser after any sequence of messages
  and any routing message of the ten kinds whose members have the sizes of their types: written to
  an array with room for it and parsed, it goes to the handler once, with the id of the path in
  it and every other member as the sender had it but for those that are not on the wire, and the
  parser gives the answer of the handler.
\<close>

theorem routing_message_roundtrip:
  assumes "steady (d_DecodeMesssageList ops)" and "reach parser_init (parser_step ops) p"
    and "msg_valid m" and "length (encode (BDict ((str ''A'', BStr [msg_id m]) # msg_entries m))) < n"
  shows "\<exists>s buf p'. mp_Holder p (msg_id m) = Some s \<and> msg_id s = msg_id m \<and>
    msg_BEncode ops m (buf_at [] (replicate n 0)) = (True, buf) \<and>
    ParseMessageBuffer ops h a (buf\<lparr>cur := 0\<rparr>) p = Some (Inr (h (received a s m), Some (received a s m), p'))"
proof -
  let ?bs = "encode (BDict ((str ''A'', BStr [msg_id m]) # msg_entries m))"
  have p: "slots_typed p" "mp_msg p = None" using parser_run.reach_inv [OF assms(2)] assms(1) by blast+
  have "msg_id m \<in> set message_ids" using assms(3) by (cases m) (simp_all add: message_ids_def str_def)
  then obtain s where s: "mp_Holder p (msg_id m) = Some s" "msg_id s = msg_id m" using slots_typedD [OF p(1)] by blast
  obtain post where w: "msg_BEncode ops m (buf_at [] (replicate n 0)) = (True, buf_at ?bs post)"
    using writesD [OF msg_writes [OF assms(3), of ops], of "replicate n 0" "[]"] assms(4) by auto
  have "(buf_at ?bs post)\<lparr>cur := 0\<rparr> = buf_at [] (?bs @ post)" by (simp add: buf_at_def)
  then have "\<exists>p'. ParseMessageBuffer ops h a ((buf_at ?bs post)\<lparr>cur := 0\<rparr>) p =
      Some (Inr (h (received a s m), Some (received a s m), p'))"
    using parse_message [OF assms(3) p s(1), of ops h a post] by (simp only:)
  then show ?thesis using s w by blast
qed

theorem routing_message_roundtrip_witness:
  "\<exists>(p :: unit InboundMessageParser) m a. reach parser_init (parser_step skipping_dht) p \<and> msg_valid m \<and>
     m = MLatency \<lparr>im_from = [], im_S = 3, im_version = 0, pl_T = 7, pl_L = 0\<rparr> \<and> a = replicate 16 9 \<and>
     (\<exists>buf p'. msg_BEncode skipping_dht m (buf_at [] (replicate 64 0)) = (True, buf) \<and>
        ParseMessageBuffer skipping_dht (\<lambda>_. True) a (buf\<lparr>cur := 0\<rparr>) p =
          Some (Inr (True, Some (MLatency \<lparr>im_from = a, im_S = 3, im_version = 0, pl_T = 7, pl_L = 0\<rparr>), p')))"
proof -
  let ?p = "new_InboundMessageParser :: unit InboundMessageParser"
  let ?l = "\<lparr>im_from = [], im_S = 3, im_version = 0, pl_T = 7, pl_L = 0\<rparr> :: PathLatencyMessage"
  let ?m = "MLatency ?l :: unit routing_message"
  have r: "reach parser_init (parser_step skipping_dht) ?p" by (simp add: reach_init parser_init_def)
  have n: "length (encode (BDict ((str ''A'', BStr [msg_id ?m]) # msg_entries ?m))) < 64"
    by (simp add: PathLatencyMessage_fields_def enc_string_def enc_integer_def str_def decimal.simps)
  have v: "msg_valid ?m" by simp
  from routing_message_roundtrip [OF skipping_dht_steady r v n, of "\<lambda>_. True" "replicate 16 9"]
  obtain s buf p' where s: "msg_id s = msg_id ?m" "msg_BEncode skipping_dht ?m (buf_at [] (replicate 64 0)) = (True, buf)"
    "ParseMessageBuffer skipping_dht (\<lambda>_. True) (replicate 16 9) (buf\<lparr>cur := 0\<rparr>) ?p =
       Some (Inr (True, Some (received (replicate 16 9) s ?m), p'))"
    by blast
  have "received (replicate 16 9) s ?m = MLatency (?l\<lparr>im_from := replicate 16 9\<rparr>)" using s(1) by (cases s) simp_all
  then show ?thesis using r v s(2,3) by (intro exI [of _ ?p] exI [of _ ?m] exI [of _ "replicate 16 9"]) simp
qed

text \<open>
  C38. What is signed can be verified: if the scheme accepts its own signatures, a message that
  \<^verbatim>\<open>Sign\<close> of an exit request, of its grant, rejection and end, or of a frame has signed passes the
  \<^verbatim>\<open>Verify\<close> of its type under the public key of the signer, which a request carries itself; and a
  grant or an end fits the array that \<^verbatim>\<open>Sign\<close> encodes it to, so with a scheme that always signs it
  is always signed.
\<close>

theorem signed_messages_verify:
  assumes "\<forall>sk b Z. sg_sign sg sk b = Some Z \<longrightarrow> sg_verify sg (sg_topublic sg sk) b Z"
  shows "(ObtainExitMessage_Sign sg sk ob = (True, ob') \<longrightarrow> ObtainExitMessage_Verify sg ob' \<and> oe_I ob' = sg_topublic sg sk) \<and>
    (GrantExitMessage_Sign sg rnd sk gr = (True, gr') \<longrightarrow> GrantExitMessage_Verify sg (sg_topublic sg sk) gr') \<and>
    (RejectExitMessage_Sign sg rnd sk rj = (True, rj') \<longrightarrow> RejectExitMessage_Verify sg (sg_topublic sg sk) rj') \<and>
    (CloseExitMessage_Sign sg rnd sk cl = (True, cl') \<longrightarrow> CloseExitMessage_Verify sg (sg_topublic sg sk) cl') \<and>
    (ProtocolFrame_Sign sg sk fr = (True, fr') \<longrightarrow> ProtocolFrame_Verify sg (sg_topublic sg sk) fr') \<and>
    ((\<forall>b. sg_sign sg sk b \<noteq> None) \<and> length rnd = 16 \<longrightarrow>
       fst (GrantExitMessage_Sign sg rnd sk gr) \<and> fst (CloseExitMessage_Sign sg rnd sk cl))"
proof -
  have ok: "\<forall>b Z. sg_sign sg sk b = Some Z \<longrightarrow> sg_verify sg (sg_topublic sg sk) b Z" using assms by blast
  note sv = sign_verify [OF ok]
  have "GrantExitMessage_Sign sg rnd sk gr = (True, gr') \<Longrightarrow> GrantExitMessage_Verify sg (sg_topublic sg sk) gr'"
    unfolding GrantExitMessage_Sign_def by (drule sv, cases gr) (auto simp: GrantExitMessage_Verify_def)
  moreover have "RejectExitMessage_Sign sg rnd sk rj = (True, rj') \<Longrightarrow> RejectExitMessage_Verify sg (sg_topublic sg sk) rj'"
    unfolding RejectExitMessage_Sign_def by (drule sv, cases rj) (auto simp: RejectExitMessage_Verify_def)
  moreover have "CloseExitMessage_Sign sg rnd sk cl = (True, cl') \<Longrightarrow> CloseExitMessage_Verify sg (sg_topublic sg sk) cl'"
    unfolding CloseExitMessage_Sign_def by (drule sv, cases cl) (auto simp: CloseExitMessage_Verify_def)
  moreover have "ProtocolFrame_Sign sg sk fr = (True, fr') \<Longrightarrow> ProtocolFrame_Verify sg (sg_topublic sg sk) fr'"
    unfolding ProtocolFrame_Sign_def by (drule sv) (auto simp: ProtocolFrame_Verify_def)
  moreover have "ObtainExitMessage_Sign sg sk ob = (True, ob') \<Longrightarrow>
      ObtainExitMessage_Verify sg ob' \<and> oe_I ob' = sg_topublic sg sk"
    unfolding ObtainExitMessage_Sign_def by (drule sv) (auto simp: ObtainExitMessage_Verify_def)
  moreover have "fst (GrantExitMessage_Sign sg rnd sk gr)" "fst (CloseExitMessage_Sign sg rnd sk cl)"
    if "\<forall>b. sg_sign sg sk b \<noteq> None" "length rnd = 16"
    unfolding GrantExitMessage_Sign_def CloseExitMessage_Sign_def using that
    by (auto intro!: sign_succeeds writes_GrantExitMessage writes_CloseExitMessage Grant_length Close_length
        simp: AlignedBuffer_Zero_def)
  ultimately show ?thesis by blast
qed

theorem signed_messages_verify_witness:
  "\<exists>sg gr gr'. sg = \<lparr>sg_sign = (\<lambda>sk b. Some (rev b @ sk)), sg_verify = (\<lambda>pk b Z. Z = rev b @ pk), sg_topublic = (\<lambda>sk. sk)\<rparr> \<and>
     (\<forall>sk b Z. sg_sign sg sk b = Some Z \<longrightarrow> sg_verify sg (sg_topublic sg sk) b Z) \<and>
     GrantExitMessage_Sign sg (replicate 16 1) [5] gr = (True, gr') \<and> GrantExitMessage_Verify sg [5] gr'"
proof -
  let ?sg = "\<lparr>sg_sign = (\<lambda>sk b. Some (rev b @ sk)), sg_verify = (\<lambda>pk b Z. Z = rev b @ pk), sg_topublic = (\<lambda>sk. sk)\<rparr>"
  let ?gr = "\<lparr>im_from = [], im_S = 1, im_version = 0, ge_T = 2, ge_Y = [], ge_Z = []\<rparr>"
  let ?gr' = "snd (GrantExitMessage_Sign ?sg (replicate 16 1) [5] ?gr)"
  have ok: "\<forall>sk b Z. sg_sign ?sg sk b = Some Z \<longrightarrow> sg_verify ?sg (sg_topublic ?sg sk) b Z" by simp
  note verify = signed_messages_verify [OF ok, of "[5]" _ _ "replicate 16 1" ?gr ?gr']
  then have "fst (GrantExitMessage_Sign ?sg (replicate 16 1) [5] ?gr)" by simp
  then have sign: "GrantExitMessage_Sign ?sg (replicate 16 1) [5] ?gr = (True, ?gr')" by (simp add: prod_eq_iff)
  then have "GrantExitMessage_Verify ?sg [5] ?gr'" using verify by simp
  then show ?thesis using ok sign by blast
qed

text \<open>
  \<^verbatim>\<open>UpdateExitMessage::Sign\<close> does not clear the signature first: unless it is zero already, other
  bytes are signed than those that \<^verbatim>\<open>Verify\<close> looks at.
\<close>

lemma UpdateExitMessage_signs_other_bytes:
  assumes "length (ue_P m) = 16" and "length (ue_Z m) = 64" and "ue_Z m \<noteq> AlignedBuffer_Zero 64"
  shows "encode_to 512 (UpdateExitMessage_BEncode m) \<noteq> encode_to 512 (UpdateExitMessage_BEncode (m\<lparr>ue_Z := AlignedBuffer_Zero 64\<rparr>))"
proof -
  have "encode_to 512 (UpdateExitMessage_BEncode x) = Some (encode (UpdateExitMessage_wire x))"
    if "length (ue_P x) = 16" "length (ue_Z x) = 64" for x
    by (rule encode_to_wire [OF writes_UpdateExitMessage UpdateExitMessage_length [OF that]])
  moreover have "encode (UpdateExitMessage_wire m) \<noteq> encode (UpdateExitMessage_wire (m\<lparr>ue_Z := AlignedBuffer_Zero 64\<rparr>))"
    using assms by (simp add: UpdateExitMessage_wire_def UpdateExitMessage_fields_def enc_string_def AlignedBuffer_Zero_def)
  ultimately show ?thesis using assms by (simp add: AlignedBuffer_Zero_def)
qed

lemma read_dict_loop_first:
  assumes "length k < 10 ^ 9" and "sink s (buf_at (pre @ enc_string k) (encode v @ rest)) (Some k) = Some (Inl x)"
  shows "read_dict_loop sink s (buf_at pre (enc_string k @ encode v @ rest)) = Some (Inl x)"
  using assms item_at [OF item_string', of pre k "encode v @ rest"]
  by (subst read_dict_loop.simps) (simp add: read_string_at)

lemma read_dict_loop_key:
  assumes "length k < 10 ^ 9" and "reads (\<lambda>s buf. sink s buf (Some k)) (encode v) s t"
  shows "read_dict_loop sink s (buf_at pre (enc_string k @ encode v @ rest)) =
    read_dict_loop sink t (buf_at (pre @ enc_string k @ encode v) rest)"
  using assms item_at [OF item_string', of pre k "encode v @ rest"] readsD [OF assms(2), of "pre @ enc_string k" rest]
  by (subst read_dict_loop.simps) (simp add: read_string_at)

lemma frame_payload_overflow:
  assumes "2048 < length x" and "length x \<le> sizeof_AlignedBuffer 2048"
  shows "ProtocolFrame_DecodeKey (str ''D'') s (buf_at pre (encode (BStr x) @ rest)) = Some (Inl OutOfBounds)"
  using assms
  by (simp add: ProtocolFrame_DecodeKey_def read_keys_def and_then_def maybe_entry_at Encrypted_BDecode_def read_string_at
      sizeof_AlignedBuffer_def)

text \<open>
  C39. The length check of \<^verbatim>\<open>Encrypted::BDecode\<close> does not protect the parser: whoever can send a
  routing message can have a frame whose payload is one to sixteen bytes longer than its array
  copied past the end of that array, in every parser, whatever other entries the message has.
\<close>

theorem ParseMessageBuffer_frame_overflow:
  assumes "steady (d_DecodeMesssageList ops)" and "reach parser_init (parser_step ops) p"
    and "2048 < length x" and "length x \<le> 2064" and "versioned 0x56 xs"
  shows "ParseMessageBuffer ops h a
      (buf_at [] (encode (BDict ((str ''A'', BStr (str ''H'')) # (str ''D'', BStr x) # xs)) @ post)) p = Some (Inl OutOfBounds)"
proof -
  let ?xs = "(str ''A'', BStr (str ''H'')) # (str ''D'', BStr x) # xs"
  let ?v = "foldl (seek_value 0x56) 0 ?xs" and ?k = "0x48 :: byte"
  let ?p = "p\<lparr>mp_msg := None, mp_firstKey := True, mp_version := ?v\<rparr>"
  let ?rest = "concat (map (\<lambda>x. enc_string (fst x) @ encode (snd x)) xs) @ 0x65 # post"
  have "versioned 0x56 ?xs" using assms(3-5) by (auto simp: versioned_def str_def)
  note seek = seek_at [OF this, of 0 post]
  have typed: "slots_typed p" using parser_run.reach_inv [OF assms(2)] assms(1) by blast
  have k: "?k \<in> set message_ids" by (simp add: message_ids_def str_def)
  then obtain s where s: "mp_Holder p ?k = Some s" "msg_id s = ?k" using slots_typedD [OF typed] by blast
  then obtain f where f: "s = MFrame f" by (cases s) simp_all
  let ?q = "?p\<lparr>mp_ourKey := ?k, mp_msg := Some ?k, mp_Holder := (mp_Holder p)(?k \<mapsto> msg_version ?v s), mp_firstKey := False\<rparr>"
  have "reads (\<lambda>p buf. parser_key ops p buf (Some (str ''A''))) (encode (BStr [?k])) ?p ?q"
    using parser_type_reads [of ?p ?k s ops] k s(1) by simp
  moreover have "[?k] = str ''H''" by (simp add: str_def)
  ultimately have A: "reads (\<lambda>p buf. parser_key ops p buf (Some (str ''A''))) (encode (BStr (str ''H''))) ?p ?q" by (simp only:)
  have D: "parser_key ops ?q (buf_at pre (encode (BStr x) @ ?rest)) (Some (str ''D'')) = Some (Inl OutOfBounds)" for pre
    using frame_payload_overflow [of x "f\<lparr>im_version := ?v\<rparr>" pre ?rest] assms(3,4) f
    by (simp add: parser_key_def map_res_def sizeof_AlignedBuffer_def del: encode.simps foldl_Cons)
  have "read_dict_loop (parser_key ops) ?p (buf_at [0x64] (enc_string (str ''A'') @ encode (BStr (str ''H'')) @
      enc_string (str ''D'') @ encode (BStr x) @ ?rest)) = Some (Inl OutOfBounds)"
    by (subst read_dict_loop_key [where sink = "parser_key ops" and k = "str ''A''", OF _ A], simp, rule read_dict_loop_first [where sink = "parser_key ops" and k = "str ''D''", OF _ D]) simp
  then have "bencode_read_dict (parser_key ops) ?p (buf_at [] (encode (BDict ?xs) @ post)) = Some (Inl OutOfBounds)"
    by (simp add: bencode_read_dict_def at_next and_then_def del: foldl_Cons)
  then show ?thesis using seek by (simp add: ParseMessageBuffer_def Let_def del: encode.simps foldl_Cons)
qed

theorem ParseMessageBuffer_frame_overflow_witness:
  "\<exists>(p :: unit InboundMessageParser) x. reach parser_init (parser_step skipping_dht) p \<and> length x = 2049 \<and>
     ParseMessageBuffer skipping_dht (\<lambda>_. True) []
       (buf_at [] (encode (BDict [(str ''A'', BStr (str ''H'')), (str ''D'', BStr x)]) @ [])) p = Some (Inl OutOfBounds)"
proof -
  let ?p = "new_InboundMessageParser :: unit InboundMessageParser" and ?x = "replicate 2049 0 :: bytes"
  have r: "reach parser_init (parser_step skipping_dht) ?p" by (simp add: reach_init parser_init_def)
  have "versioned 0x56 []" by (simp add: versioned_def)
  from ParseMessageBuffer_frame_overflow [OF skipping_dht_steady r _ _ this, of ?x "\<lambda>_. True" "[]" "[]"]
  show ?thesis using r by (intro exI [of _ ?p] exI [of _ ?x]) (simp del: encode.simps)
qed

text \<open>
  C40. An update of an exit never arrives: what \<^verbatim>\<open>UpdateExitMessage\<close> writes, which always fits 512
  bytes, is refused by every parser of routing messages, and no handler sees it.
\<close>

theorem UpdateExitMessage_never_arrives:
  assumes "steady (d_DecodeMesssageList ops)" and "reach parser_init (parser_step ops) p"
    and "length (ue_P m) = 16" and "length (ue_Z m) = 64"
  shows "\<exists>buf p'. UpdateExitMessage_BEncode m (buf_at [] (replicate 512 0)) = (True, buf) \<and>
    ParseMessageBuffer ops h a (buf\<lparr>cur := 0\<rparr>) p = Some (Inr (False, None, p'))"
proof -
  let ?bs = "encode (UpdateExitMessage_wire m)"
  have "mp_msg p = None" using parser_run.reach_inv [OF assms(2)] assms(1) by blast
  note rejected = UpdateExitMessage_rejected [OF assms(3,4) this, of ops h a]
  obtain post where w: "UpdateExitMessage_BEncode m (buf_at [] (replicate 512 0)) = (True, buf_at ?bs post)"
    using writesD [OF writes_UpdateExitMessage, of m "replicate 512 0" "[]"] UpdateExitMessage_length [OF assms(3,4)] by auto
  have "(buf_at ?bs post)\<lparr>cur := 0\<rparr> = buf_at [] (?bs @ post)" by (simp add: buf_at_def)
  then have "\<exists>p'. ParseMessageBuffer ops h a ((buf_at ?bs post)\<lparr>cur := 0\<rparr>) p = Some (Inr (False, None, p'))"
    using rejected [of post] by (simp only:)
  then show ?thesis using w by blast
qed

theorem UpdateExitMessage_never_arrives_witness:
  "\<exists>(p :: unit InboundMessageParser) m. reach parser_init (parser_step skipping_dht) p \<and> length (ue_P m) = 16 \<and> length (ue_Z m) = 64 \<and>
     (\<exists>buf p'. UpdateExitMessage_BEncode m (buf_at [] (replicate 512 0)) = (True, buf) \<and>
        ParseMessageBuffer skipping_dht (\<lambda>_. True) [] (buf\<lparr>cur := 0\<rparr>) p = Some (Inr (False, None, p')))"
proof -
  let ?p = "new_InboundMessageParser :: unit InboundMessageParser"
  let ?m = "\<lparr>im_from = [], im_S = 1, im_version = 0, ue_P = replicate 16 1, ue_T = 2, ue_Y = [], ue_Z = replicate 64 3\<rparr>"
  have r: "reach parser_init (parser_step skipping_dht) ?p" by (simp add: reach_init parser_init_def)
  have l: "length (ue_P ?m) = 16" "length (ue_Z ?m) = 64" by simp_all
  from r l UpdateExitMessage_never_arrives [OF skipping_dht_steady r l, of "\<lambda>_. True" "[]"] show ?thesis by blast
qed

end
