(* ===== verification/Spec2Isabelle.thy ===== *)
theory Spec2Isabelle
  imports Iwp_Delivery Iwp_Pump Link_Layer_Inv Lockfree_Queue Ip_Range Dns_Message Ip_Checksum Routing_Delivery
begin

text \<open>
  \<^bold>\<open>A verification library for belnet\<close>

  Belnet is an onion-routed overlay network. A router talks to its neighbours over encrypted
  datagram links (\<^verbatim>\<open>llarp/iwp\<close>, \<^verbatim>\<open>llarp/link\<close>); inside the paths that are built over these links
  travel routing messages in bencoding (\<^verbatim>\<open>llarp/routing\<close>, \<^verbatim>\<open>llarp/exit\<close>, \<^verbatim>\<open>llarp/service\<close>); at the ends
  of a path IP packets are rewritten (\<^verbatim>\<open>llarp/net\<close>) and names are looked up (\<^verbatim>\<open>llarp/dns\<close>). The
  worker threads exchange data over a lock-free queue (\<^verbatim>\<open>llarp/util/thread\<close>). The library models
  these parts and proves what they promise. The names of definitions are those of the sources;
  a method has the name of its class before its own where it would be ambiguous.

  \<^bold>\<open>Conventions.\<close> Machine integers are words of their width, so that arithmetic wraps as it does in
  the program. Objects are records, enumerations datatypes. Methods that change an object take
  it and return it. An exception or an access outside an array is the left part of a sum with
  the type \<open>exn\<close>; undefined behaviour of the program is therefore a value that theorems can
  exclude or exhibit. \<^verbatim>\<open>std::map\<close> is a sorted association list, \<^verbatim>\<open>std::unordered_map\<close> a map; both
  satisfy the locale \<open>keyed_store\<close> of \<open>Belnet_Prelude\<close>. Runs are the reachable states of a step
  relation (\<open>reach\<close>), invariants of runs go through the locale \<open>invariant_system\<close>, and
  the agreement of an implementation with a specification through the locale \<open>refinement\<close>.
  Code outside the repository is a parameter: the cryptography (\<open>crypto\<close>, \<open>signer\<close>),
  random draws, the byte order routines (\<open>oxenc\<close>), address conversion (\<open>inet\<close>).
\<close>

text \<open>
  \<^bold>\<open>The link protocol.\<close>

  \<^item> \<open>Iwp_Message\<close> (\<^verbatim>\<open>iwp/message_buffer.hpp\<close>, \<^verbatim>\<open>message_buffer.cpp\<close>): outbound and inbound messages,
    their fragments, acknowledgement masks and packets. C1 reassembly in any order with
    duplicates, C2 what is sent again, C3 which fragments make the receiver raise, C4 agreement
    of both ends.
  \<^item> \<open>Iwp_Session\<close> (\<^verbatim>\<open>iwp/session.hpp\<close>, \<^verbatim>\<open>session.cpp\<close>): the session with every operation, its
    worker jobs and the calls of the router as explicit events.
  \<^item> \<open>Iwp_Session_Inv\<close>: the step relation of a session and the invariant of its receiving side;
    C5 a message is delivered at most once in a replay window.
  \<^item> \<open>Iwp_Handshake\<close>: the invariant of the handshake; C6 a ready inbound session is authenticated,
    C7 a closed one may become ready again.
  \<^item> \<open>Iwp_Delivery\<close>: two sessions composed; C8 a message crosses the link, C10 statistics.
    \<open>Iwp_Pump\<close>: C9 what one call of \<^verbatim>\<open>Pump\<close> sends, in which order.
  \<^item> \<open>Iwp_Mapping\<close>, \<open>Link_Layer\<close>, \<open>Link_Tables\<close>, \<open>Link_Layer_Inv\<close> (\<^verbatim>\<open>link/server.hpp\<close>,
    \<^verbatim>\<open>server.cpp\<close>, \<^verbatim>\<open>iwp/linklayer.cpp\<close>): the tables of a link layer over a store of sessions. C29 the
    tables agree with the sessions, C30 a datagram reaches the session of its address and no other,
    C31 a link is filed under a key only if the peer has proved that key.

  \<^bold>\<open>Routing messages.\<close>

  \<^item> \<open>Bencode\<close> (\<^verbatim>\<open>util/bencode.cpp\<close>, \<^verbatim>\<open>bencode.hpp\<close>): readers and writers over the stream buffer. The loops
    over lists and dictionaries call a sink that need not consume anything, so they are partial
    functions in which not returning is \<open>None\<close>.
  \<^item> \<open>Bencode_Value\<close>: the values of the format. C32 the discarding reader always returns inside the
    buffer, C33 it skips exactly one value.
  \<^item> \<open>Wire_Types\<close> (\<^verbatim>\<open>util/aligned.hpp\<close>, \<^verbatim>\<open>crypto/encrypted.hpp\<close>, \<^verbatim>\<open>exit/policy.cpp\<close>, \<^verbatim>\<open>service/intro.cpp\<close>,
    \<^verbatim>\<open>net/address_info.cpp\<close>): the locale \<open>bcodec\<close> of types with a writer and a reader that
    are inverse, interpreted for four of them; C34 router addresses.
  \<^item> \<open>Routing_Message\<close>, \<open>Routing_Codec\<close> (\<^verbatim>\<open>routing/*_message.cpp\<close>, \<^verbatim>\<open>exit/exit_messages.cpp\<close>,
    \<^verbatim>\<open>messages/discard.hpp\<close>, \<^verbatim>\<open>service/protocol.cpp\<close>): the messages, and their form on the wire.
  \<^item> \<open>Routing_Parser\<close> (\<^verbatim>\<open>routing/message_parser.cpp\<close>, \<^verbatim>\<open>dht_message.cpp\<close>): the parser. \<open>Routing_Safety\<close>: every
    reader comes back inside the buffer, and the invariant of a run of the parser.
    \<open>Routing_Delivery\<close>: C35 what a message leaves behind in the parser, C36 it answers every input, C37 what is written is what is handed over, C38 signatures verify, C39 a long
    frame is copied past its array, C40 an exit update never arrives.
\<close>

text \<open>
  \<^bold>\<open>Packets, names and queues.\<close>

  \<^item> \<open>Net_Int\<close> (\<^verbatim>\<open>net/uint128.hpp\<close>, \<^verbatim>\<open>util/bits.hpp\<close>, \<^verbatim>\<open>net/ip.hpp\<close>): C13 the two-limb integer is a 128 bit
    word. \<open>Ip_Range\<close> (\<^verbatim>\<open>net/ip_range.hpp\<close>, \<^verbatim>\<open>ip_range_map.hpp\<close>): C14 ranges are intervals, C15 the
    overlap test is exact for prefix masks, C16 the free private range is the first candidate that
    shares no address with an excluded one; the callers of \<^verbatim>\<open>net/posix.cpp\<close> and \<^verbatim>\<open>net/win32.cpp\<close>.
  \<^item> \<open>Ip_Packet\<close>, \<open>Ip_Checksum\<close> (\<^verbatim>\<open>net/ip_packet.hpp\<close>, \<^verbatim>\<open>ip_packet.cpp\<close>): C25 and C26 rewriting addresses keeps
    checksums valid, with the locale \<open>checksum_delta\<close> for both address families; C27 packets
    that are made are read back, C28 the reply for an unreachable destination.
  \<^item> \<open>Util_Str\<close> (\<^verbatim>\<open>util/str.cpp\<close>): C17 splitting loses nothing. \<open>Wire_Buffer\<close> (\<^verbatim>\<open>util/buffer.hpp\<close>): the
    stream buffer, a byte string with a position.
  \<^item> \<open>Dns_Name\<close>, \<open>Dns_Message\<close> (\<^verbatim>\<open>dns/name.cpp\<close>, \<^verbatim>\<open>question.cpp\<close>, \<^verbatim>\<open>rr.cpp\<close>, \<^verbatim>\<open>message.cpp\<close>, \<^verbatim>\<open>srv_data.cpp\<close>): C18 to
    C21 round trips of names, reverse names and queries and a read past the end; C22 and C23
    records that are refused or damaged; C24 which names the record decoder takes.
  \<^item> \<open>Queue_Manager\<close>, \<open>Lockfree_Queue\<close> (\<^verbatim>\<open>util/thread/queue_manager.cpp\<close>, \<^verbatim>\<open>queue.hpp\<close>): C11 the queue refines
    a bounded list, C12 a sleeping push is woken. The operations are atomic steps: each
    compare-and-swap loop is modelled with the loop of the source, run by one thread at a time,
    and blocking splits an operation where the thread sleeps.

  \<^bold>\<open>Bounds and fuel.\<close> There is no fuel. Recursions are structural, have a measure (fragments of a
  message, digits, labels of a name, extension headers), or are partial functions in the option
  monad whose return is proved (C11, C32, C36). Sizes in hypotheses are those of the code: messages
  of at most 8192 bytes, strings of less than nine digits length, buffers of 512 or 1500 bytes, queue
  capacities up to a third of the index space.

  \<^bold>\<open>What is assumed of parameters.\<close> Each property states it: that decryption inverts encryption,
  the byte order routines are inverse and the handler of messages does not throw (C8), that 16 bit
  integers are loaded big-endian (C24), that address conversion inverts itself (C34), that the reader
  of the list of hash table messages, \<^verbatim>\<open>dht/message.cpp\<close>, comes back inside the buffer (C35 to C37, C39,
  C40), that a scheme accepts its own signatures (C38). Every such property has a witness with concrete functions in their place.
\<close>

text \<open>
  \<^bold>\<open>Not modelled.\<close>

  \<^item> Code that is the operating system's or a library's behaviour: the event loop (libuv), sockets,
    QUIC tunnels (ngtcp2), remote procedure calls (oxen-mq), peer statistics (SQLite), virtual network
    devices and the Windows, Apple, Android and systemd parts, logging and files.
  \<^item> Cryptographic primitives (libsodium, NTRU Prime): parameters.
  \<^item> Paths, path builds and transit hops, hidden service endpoints, exit endpoints, the distributed hash
    table, the node database and the router: each couples cryptography, timers, worker threads and
    the contacts of the whole network, and would need a model of that environment. The decoder of
    hash table messages is for this reason a parameter of the parser. What these parts
    exchange is modelled: links, routing messages, frames, introductions, addresses, packets.
  \<^item> Link messages (\<^verbatim>\<open>llarp/messages\<close>) other than the discard message: they carry router contacts and
    path records of the parts above. The session model takes the link introduction as a parameter.
  \<^item> Configuration, command line, language bindings and tests.
  \<^item> In parts that are modelled: JSON status and text output, hashes and orderings of containers
    that no modelled operation uses, memory order and preemption inside one queue operation, and the
    dispatch of a parsed message to its handler, which is a parameter of the parser.
\<close>

end
